(* ===== verification/Andromeda_Prelude.thy ===== *)
theory Andromeda_Prelude
  imports Main "HOL-Library.Word" "HOL-Library.Monad_Syntax"
begin

text \<open>
  Shared vocabulary of the development: the machine integers of the firmware
  (\<open>UINT8\<close> \dots \<open>UINT64\<close>), the status codes every operation returns, C strings and the
  reads the source makes of them, and the generic lemmas on list slices and words that the
  component theories use. \<open>subrange_simps\<close> collects the rewrite rules for slices and
  \<open>status_simps\<close> those for status codes.
\<close>

named_theorems subrange_simps
named_theorems status_simps

section \<open>Machine integers\<close>

type_synonym u8 = "8 word"
type_synonym u16 = "16 word"
type_synonym u32 = "32 word"
type_synonym u64 = "64 word"

section \<open>Status codes\<close>

text \<open>
  The \<open>EFI_STATUS\<close> codes the modelled code returns. \<open>EFI_OTHER_ERROR\<close> stands for any further
  error code of a callee outside the repository.
\<close>

datatype efi_status =
    EFI_SUCCESS
  | EFI_LOAD_ERROR
  | EFI_INVALID_PARAMETER
  | EFI_UNSUPPORTED
  | EFI_BAD_BUFFER_SIZE
  | EFI_BUFFER_TOO_SMALL
  | EFI_NOT_READY
  | EFI_DEVICE_ERROR
  | EFI_WRITE_PROTECTED
  | EFI_OUT_OF_RESOURCES
  | EFI_VOLUME_CORRUPTED
  | EFI_VOLUME_FULL
  | EFI_NO_MEDIA
  | EFI_NOT_STARTED
  | EFI_NOT_FOUND
  | EFI_ACCESS_DENIED
  | EFI_ABORTED
  | EFI_SECURITY_VIOLATION
  | EFI_COMPROMISED_DATA
  | EFI_OTHER_ERROR nat

definition EFI_ERROR :: "efi_status \<Rightarrow> bool" where
  "EFI_ERROR s \<longleftrightarrow> s \<noteq> EFI_SUCCESS"

lemma EFI_ERROR_simps [simp, status_simps]:
  "\<not> EFI_ERROR EFI_SUCCESS"
  "EFI_ERROR EFI_LOAD_ERROR"
  "EFI_ERROR EFI_INVALID_PARAMETER"
  "EFI_ERROR EFI_UNSUPPORTED"
  "EFI_ERROR EFI_BAD_BUFFER_SIZE"
  "EFI_ERROR EFI_BUFFER_TOO_SMALL"
  "EFI_ERROR EFI_NOT_READY"
  "EFI_ERROR EFI_DEVICE_ERROR"
  "EFI_ERROR EFI_WRITE_PROTECTED"
  "EFI_ERROR EFI_OUT_OF_RESOURCES"
  "EFI_ERROR EFI_VOLUME_CORRUPTED"
  "EFI_ERROR EFI_VOLUME_FULL"
  "EFI_ERROR EFI_NO_MEDIA"
  "EFI_ERROR EFI_NOT_STARTED"
  "EFI_ERROR EFI_NOT_FOUND"
  "EFI_ERROR EFI_ACCESS_DENIED"
  "EFI_ERROR EFI_ABORTED"
  "EFI_ERROR EFI_SECURITY_VIOLATION"
  "EFI_ERROR EFI_COMPROMISED_DATA"
  "EFI_ERROR (EFI_OTHER_ERROR n)"
  by (simp_all add: EFI_ERROR_def)

lemma not_EFI_ERROR [status_simps]: "\<not> EFI_ERROR s \<longleftrightarrow> s = EFI_SUCCESS"
  by (simp add: EFI_ERROR_def)

section \<open>Slices of a buffer\<close>

text \<open>\<open>subrange xs i j\<close> is the bytes \<open>xs[i..j)\<close> of a buffer.\<close>

definition subrange :: "'a list \<Rightarrow> nat \<Rightarrow> nat \<Rightarrow> 'a list" where
  "subrange xs i j = take (j - i) (drop i xs)"

lemma subrange_empty [simp, subrange_simps]: "j \<le> i \<Longrightarrow> subrange xs i j = []"
  by (simp add: subrange_def)

lemma length_subrange [simp, subrange_simps]: "j \<le> length xs \<Longrightarrow> length (subrange xs i j) = j - i"
  by (simp add: subrange_def)

lemma subrange_Cons [subrange_simps]:
  "i < j \<Longrightarrow> j \<le> length xs \<Longrightarrow> subrange xs i j = xs ! i # subrange xs (Suc i) j"
  unfolding subrange_def
  by (metis Cons_nth_drop_Suc Suc_diff_Suc less_le_trans take_Suc_Cons)

lemma subrange_snoc [subrange_simps]:
  "i < j \<Longrightarrow> j \<le> length xs \<Longrightarrow> subrange xs i j = subrange xs i (j - 1) @ [xs ! (j - 1)]"
proof -
  assume a: "i < j" "j \<le> length xs"
  have "take (Suc (j - 1 - i)) (drop i xs) = take (j - 1 - i) (drop i xs) @ [drop i xs ! (j - 1 - i)]"
    using a by (intro take_Suc_conv_app_nth) simp
  moreover have "Suc (j - 1 - i) = j - i" "drop i xs ! (j - 1 - i) = xs ! (j - 1)"
    using a by simp_all
  ultimately show ?thesis by (simp add: subrange_def)
qed

lemma nth_subrange [subrange_simps]: "k < j - i \<Longrightarrow> j \<le> length xs \<Longrightarrow> subrange xs i j ! k = xs ! (i + k)"
  by (simp add: subrange_def)

lemma subrange_append: "i \<le> j \<Longrightarrow> j \<le> k \<Longrightarrow> k \<le> length xs \<Longrightarrow> subrange xs i k = subrange xs i j @ subrange xs j k"
proof -
  assume a: "i \<le> j" "j \<le> k" "k \<le> length xs"
  have "take (k - i) (drop i xs) = take (j - i) (drop i xs) @ take (k - i - (j - i)) (drop (j - i) (drop i xs))"
    using a by (metis add_diff_inverse_nat diff_le_mono not_less take_add)
  then show ?thesis using a by (simp add: subrange_def)
qed

lemma drop_subrange: "k \<le> j - i \<Longrightarrow> drop k (subrange xs i j) = subrange xs (i + k) j"
  by (simp add: subrange_def drop_take add.commute)

lemma take_subrange: "k \<le> j - i \<Longrightarrow> take k (subrange xs i j) = subrange xs i (i + k)"
  by (simp add: subrange_def)

lemma set_subrange_subset: "set (subrange xs i j) \<subseteq> set xs"
  unfolding subrange_def by (meson set_drop_subset set_take_subset subset_trans)

section \<open>C strings\<close>

text \<open>
  A \<open>CHAR8\<close> is a \<open>char\<close>; a NUL-terminated string is the list of its characters before the NUL.
  Reading the position just past the end gives the NUL.
\<close>

abbreviation NUL :: char where "NUL \<equiv> CHR 0x00"

definition ord8 :: "char \<Rightarrow> nat" where
  "ord8 c = of_char c"

definition cstr_at :: "string \<Rightarrow> nat \<Rightarrow> char" where
  "cstr_at s i = (if i < length s then s ! i else NUL)"

lemma cstr_at_nth [simp]: "i < length s \<Longrightarrow> cstr_at s i = s ! i"
  by (simp add: cstr_at_def)

lemma cstr_at_end [simp]: "cstr_at s (length s) = NUL"
  by (simp add: cstr_at_def)

definition is_cstring :: "string \<Rightarrow> bool" where
  "is_cstring s \<longleftrightarrow> NUL \<notin> set s"

lemma cstr_at_eq_NUL:
  assumes "is_cstring s" shows "cstr_at s i = NUL \<longleftrightarrow> length s \<le> i"
  using assms by (auto simp: is_cstring_def cstr_at_def not_less) (metis nth_mem)

text \<open>Case folding as \<open>AsciiStriCmp\<close> and the configuration reader do it.\<close>

definition lower_char :: "char \<Rightarrow> char" where
  "lower_char c = (if 65 \<le> ord8 c \<and> ord8 c \<le> 90 then char_of (ord8 c - 65 + 97) else c)"

definition lower_str :: "string \<Rightarrow> string" where
  "lower_str s = map lower_char s"

lemma length_lower_str [simp]: "length (lower_str s) = length s"
  by (simp add: lower_str_def)

definition AsciiStriCmp_eq :: "string \<Rightarrow> string \<Rightarrow> bool" where
  "AsciiStriCmp_eq a b \<longleftrightarrow> lower_str a = lower_str b"

section \<open>Sequencing of fallible steps\<close>

text \<open>\<open>bindE r f\<close> runs \<open>f\<close> on the result of \<open>r\<close> unless \<open>r\<close> returned an error status.\<close>

definition bindE :: "'e + 'a \<Rightarrow> ('a \<Rightarrow> 'e + 'b) \<Rightarrow> 'e + 'b" where
  "bindE r f = (case r of Inl e \<Rightarrow> Inl e | Inr x \<Rightarrow> f x)"

lemma bindE_simps [simp]:
  "bindE (Inl e) f = Inl e" "bindE (Inr x) f = f x"
  by (simp_all add: bindE_def)

lemma bindE_eq_Inr: "bindE r f = Inr y \<longleftrightarrow> (\<exists>x. r = Inr x \<and> f x = Inr y)"
  by (cases r) simp_all

lemma bindE_eq_Inl: "bindE r f = Inl e \<longleftrightarrow> r = Inl e \<or> (\<exists>x. r = Inr x \<and> f x = Inl e)"
  by (cases r) simp_all

lemma case_sum_eq_Inr:
  "(case r of Inl e \<Rightarrow> Inl c | Inr x \<Rightarrow> f x) = Inr y \<longleftrightarrow> (\<exists>x. r = Inr x \<and> f x = Inr y)"
  by (cases r) simp_all

lemma case_sum_eq_Inl:
  "(case r of Inl e \<Rightarrow> Inl c | Inr x \<Rightarrow> f x) = Inl y \<longleftrightarrow>
   (\<exists>e. r = Inl e) \<and> y = c \<or> (\<exists>x. r = Inr x \<and> f x = Inl y)"
  by (cases r) auto

section \<open>Address ranges\<close>

text \<open>
  A range of physical memory that starts at \<open>a\<close> and has \<open>n\<close> bytes, with the addresses as
  unbounded numbers; \<open>no_wrap\<close> is the check \<open>Address > MAX_UINT64 - Length\<close> of the source.
\<close>

definition in_range :: "u64 \<Rightarrow> u64 \<Rightarrow> nat \<Rightarrow> bool" where
  "in_range a n x \<longleftrightarrow> unat a \<le> x \<and> x < unat a + unat n"

definition no_wrap :: "u64 \<Rightarrow> u64 \<Rightarrow> bool" where
  "no_wrap a n \<longleftrightarrow> \<not> (a > (- 1) - n)"

lemma unat_max_minus: "unat ((- 1) - n :: u64) = 2 ^ 64 - 1 - unat n"
proof -
  have "unat n \<le> 2 ^ 64 - 1" using unsigned_less [of n, where ?'a = nat] by simp
  then show ?thesis
    by (subst unat_sub) (simp_all add: word_le_nat_alt unsigned_minus_1_eq_mask mask_eq_exp_minus_1)
qed

lemma no_wrap_iff: "no_wrap a n \<longleftrightarrow> unat a + unat n < 2 ^ 64"
  using unsigned_less [of n, where ?'a = nat]
  by (auto simp: no_wrap_def word_less_nat_alt unat_max_minus not_less)

lemma unat_end: "no_wrap a n \<Longrightarrow> unat (a + n) = unat a + unat n"
  by (simp add: no_wrap_iff unat_word_ariths)

lemma unat_ucast32: "unat (ucast (w :: u32) :: u64) = unat w"
  using unsigned_less [of w, where ?'a = nat] by (simp add: unsigned_ucast_eq take_bit_nat_eq_self)

text \<open>Inversion of a case distinction that has an option value.\<close>

lemma case_sum_eq_Some:
  "(case r of Inl a \<Rightarrow> f a | Inr b \<Rightarrow> g b) = Some y \<longleftrightarrow>
     (\<exists>a. r = Inl a \<and> f a = Some y) \<or> (\<exists>b. r = Inr b \<and> g b = Some y)"
  by (cases r) auto

lemma case_option_eq_Some:
  "(case x of None \<Rightarrow> n | Some a \<Rightarrow> f a) = Some y \<longleftrightarrow>
     x = None \<and> n = Some y \<or> (\<exists>a. x = Some a \<and> f a = Some y)"
  by (cases x) auto

lemma case_prod_eq_Some:
  "(case p of (a, b) \<Rightarrow> f a b) = Some y \<longleftrightarrow> (\<exists>a b. p = (a, b) \<and> f a b = Some y)"
  by (cases p) auto

lemma if_eq_Some:
  "(if c then x else y) = Some z \<longleftrightarrow> c \<and> x = Some z \<or> \<not> c \<and> y = Some z"
  by simp

lemmas option_inversion = bind_eq_Some_conv case_sum_eq_Some case_prod_eq_Some if_eq_Some Let_def

end
