(* ===== verification/Boot_Config.thy ===== *)
theory Boot_Config
  imports Andromeda_Prelude
begin

text \<open>
  The reader of the runtime boot configuration
  (\<^verbatim>\<open>AndromedaBootConfigLib.c\<close> and \<^verbatim>\<open>AndromedaUefiConfigHelperLib.c\<close>): an INI-like text of at
  most 0xFFFF bytes, held in a global buffer or a HOB. The operations scan it by index as the C
  code does; \<open>cfg_value_spec\<close> and \<open>cfg_entry_spec\<close> are the list-level specification they refine.
\<close>

section \<open>Characters\<close>

definition IsConfigSpace :: "char \<Rightarrow> bool" where
  "IsConfigSpace Character \<longleftrightarrow>
     Character = CHR '' '' \<or> Character = CHR 0x09 \<or> Character = CHR 0x0D"

definition ToLowerAscii :: "char \<Rightarrow> char" where
  "ToLowerAscii Character =
     (if ord8 Character \<ge> ord8 (CHR ''A'') \<and> ord8 Character \<le> ord8 (CHR ''Z'')
      then char_of (ord8 Character - ord8 (CHR ''A'') + ord8 (CHR ''a''))
      else Character)"

function RangeEqualsString_loop :: "string \<Rightarrow> nat \<Rightarrow> string \<Rightarrow> nat \<Rightarrow> bool" where
  "RangeEqualsString_loop Data DataSize String Index =
     (if Index < DataSize then
        if cstr_at String Index = NUL then False
        else if ToLowerAscii (Data ! Index) \<noteq> ToLowerAscii (cstr_at String Index) then False
        else RangeEqualsString_loop Data DataSize String (Suc Index)
      else cstr_at String DataSize = NUL)"
  by pat_completeness auto
termination
  by (relation "measure (\<lambda>(_, n, _, i). n - i)") auto

definition RangeEqualsString :: "string \<Rightarrow> nat \<Rightarrow> string \<Rightarrow> bool" where
  "RangeEqualsString Data DataSize String = RangeEqualsString_loop Data DataSize String 0"

section \<open>The configuration buffer\<close>

definition ANDROMEDA_BOOT_CONFIG_MAX_SIZE :: nat where
  "ANDROMEDA_BOOT_CONFIG_MAX_SIZE = 0xFFFF"

text \<open>
  \<open>gAndromedaBootConfigBuffer\<close> with its size is the buffer's bytes; \<open>ConfigHob\<close> is the data of the
  HOB that \<open>GetFirstGuidHob\<close> finds, if any.
\<close>

record boot_config_state =
  gAndromedaBootConfigBuffer :: "string option"
  ConfigHob :: "string option"

definition SetAndromedaBootConfigBuffer ::
  "string option \<Rightarrow> boot_config_state \<Rightarrow> efi_status \<times> boot_config_state" where
  "SetAndromedaBootConfigBuffer Config st =
     (let st = st\<lparr>gAndromedaBootConfigBuffer := None\<rparr> in
      case Config of
        None \<Rightarrow> (EFI_INVALID_PARAMETER, st)
      | Some cs \<Rightarrow>
          if length cs = 0 then (EFI_INVALID_PARAMETER, st)
          else if length cs > ANDROMEDA_BOOT_CONFIG_MAX_SIZE then (EFI_COMPROMISED_DATA, st)
          else if list_ex (\<lambda>c. c = NUL) cs then (EFI_COMPROMISED_DATA, st)
          else (EFI_SUCCESS, st\<lparr>gAndromedaBootConfigBuffer := Some cs\<rparr>))"

definition GetBootConfig :: "boot_config_state \<Rightarrow> efi_status + string" where
  "GetBootConfig st =
     (case gAndromedaBootConfigBuffer st of
        Some cs \<Rightarrow>
          if length cs = 0 \<or> length cs > ANDROMEDA_BOOT_CONFIG_MAX_SIZE
          then Inl EFI_COMPROMISED_DATA
          else Inr cs
      | None \<Rightarrow>
          (case ConfigHob st of
             None \<Rightarrow> Inl EFI_NOT_FOUND
           | Some cs \<Rightarrow>
               if length cs = 0 \<or> length cs > ANDROMEDA_BOOT_CONFIG_MAX_SIZE
               then Inl EFI_COMPROMISED_DATA
               else Inr cs))"

section \<open>Scanning by index\<close>

function TrimRange_start :: "string \<Rightarrow> nat \<Rightarrow> nat \<Rightarrow> nat" where
  "TrimRange_start Data Start End =
     (if Start < End \<and> IsConfigSpace (Data ! Start)
      then TrimRange_start Data (Suc Start) End else Start)"
  by pat_completeness auto
termination
  by (relation "measure (\<lambda>(_, s, e). e - s)") auto

function TrimRange_end :: "string \<Rightarrow> nat \<Rightarrow> nat \<Rightarrow> nat" where
  "TrimRange_end Data Start End =
     (if End > Start \<and> IsConfigSpace (Data ! (End - 1))
      then TrimRange_end Data Start (End - 1) else End)"
  by pat_completeness auto
termination
  by (relation "measure (\<lambda>(_, s, e). e - s)") auto

definition TrimRange :: "string \<Rightarrow> nat \<Rightarrow> nat \<Rightarrow> nat \<times> nat" where
  "TrimRange Data Start End =
     (let s = TrimRange_start Data Start End in (s, TrimRange_end Data s End))"

text \<open>The loop of \<open>TrimInlineComment\<close> stops at a comment sign outside quotes that starts the value
  or follows white space.\<close>

function TrimInlineComment_loop ::
  "string \<Rightarrow> nat \<Rightarrow> nat \<Rightarrow> nat \<Rightarrow> bool \<Rightarrow> bool \<Rightarrow> nat" where
  "TrimInlineComment_loop Data Start End Index InQuotes Escaped =
     (if Index < End then
        if InQuotes \<and> Data ! Index = CHR 0x5C \<and> \<not> Escaped then
          TrimInlineComment_loop Data Start End (Suc Index) InQuotes True
        else if Data ! Index = CHR 0x22 then
          TrimInlineComment_loop Data Start End (Suc Index)
            (if \<not> Escaped then \<not> InQuotes else InQuotes) False
        else if \<not> InQuotes \<and> (Data ! Index = CHR ''#'' \<or> Data ! Index = CHR '';'') \<and>
                (Index = Start \<or> IsConfigSpace (Data ! (Index - 1))) then
          snd (TrimRange Data Start Index)
        else TrimInlineComment_loop Data Start End (Suc Index) InQuotes False
      else End)"
  by pat_completeness auto
termination
  by (relation "measure (\<lambda>(_, _, e, i, _, _). e - i)") auto

definition TrimInlineComment :: "string \<Rightarrow> nat \<Rightarrow> nat \<Rightarrow> nat" where
  "TrimInlineComment Data Start End = TrimInlineComment_loop Data Start End Start False False"

text \<open>The inner loops that advance an index to the next newline, \<open>]\<close> or \<open>=\<close>.\<close>

function ScanFor :: "char \<Rightarrow> string \<Rightarrow> nat \<Rightarrow> nat \<Rightarrow> nat" where
  "ScanFor c Config Index End =
     (if Index < End \<and> Config ! Index \<noteq> c then ScanFor c Config (Suc Index) End else Index)"
  by pat_completeness auto
termination
  by (relation "measure (\<lambda>(_, _, i, e). e - i)") auto

declare RangeEqualsString_loop.simps [simp del] TrimRange_start.simps [simp del]
  TrimRange_end.simps [simp del] TrimInlineComment_loop.simps [simp del] ScanFor.simps [simp del]

lemma ScanFor_bounds: "i \<le> e \<Longrightarrow> i \<le> ScanFor c xs i e \<and> ScanFor c xs i e \<le> e"
  by (induction c xs i e rule: ScanFor.induct) (subst (1 2) ScanFor.simps, auto)

text \<open>The update \<open>LineStart = (LineEnd < ConfigSize) ? LineEnd + 1 : ConfigSize\<close> makes progress.\<close>

definition NextLine :: "string \<Rightarrow> nat \<Rightarrow> nat" where
  "NextLine Config LineEnd = (if LineEnd < length Config then LineEnd + 1 else length Config)"

lemma NextLine_progress:
  "i < length cs \<Longrightarrow> length cs - NextLine cs (ScanFor c cs i (length cs)) < length cs - i"
  using ScanFor_bounds [of i "length cs" c cs] by (auto simp: NextLine_def)

section \<open>Reading a value\<close>

text \<open>The branch for a \<open>[section]\<close> line, which both accessors share: the answer is whether the
  header names the requested section.\<close>

definition SectionHeader :: "string \<Rightarrow> nat \<Rightarrow> nat \<Rightarrow> string \<Rightarrow> efi_status + bool" where
  "SectionHeader Config ContentStart ContentEnd Section =
     (let SectionStart = ContentStart + 1;
          SectionClose = ScanFor (CHR '']'') Config SectionStart ContentEnd
      in if SectionClose = ContentEnd then Inl EFI_COMPROMISED_DATA
         else
           let (SectionStart, SectionEnd) = TrimRange Config SectionStart SectionClose;
               CommentStart = TrimRange_start Config (SectionClose + 1) ContentEnd
           in if CommentStart < ContentEnd \<and> Config ! CommentStart \<noteq> CHR ''#'' \<and>
                 Config ! CommentStart \<noteq> CHR '';''
              then Inl EFI_COMPROMISED_DATA
              else Inr (RangeEqualsString (drop SectionStart Config)
                          (SectionEnd - SectionStart) Section))"

text \<open>
  One line of the search for a key. The state is \<open>InRequestedSection\<close> and the matched value range,
  which is \<open>Some\<close> exactly when \<open>Found\<close>.
\<close>

definition GetValue_line ::
  "string \<Rightarrow> string \<Rightarrow> string \<Rightarrow> nat \<Rightarrow> nat \<Rightarrow> bool \<Rightarrow> (nat \<times> nat) option
     \<Rightarrow> efi_status + (bool \<times> (nat \<times> nat) option)" where
  "GetValue_line Config Section Key LineStart LineEnd InRequestedSection Matched =
     (let (ContentStart, ContentEnd) = TrimRange Config LineStart LineEnd
      in if ContentStart < ContentEnd then
           if Config ! ContentStart \<noteq> CHR ''#'' \<and> Config ! ContentStart \<noteq> CHR '';'' then
             if Config ! ContentStart = CHR ''['' then
               case SectionHeader Config ContentStart ContentEnd Section of
                 Inl e \<Rightarrow> Inl e
               | Inr b \<Rightarrow> Inr (b, Matched)
             else
               let KeyStart = ContentStart;
                   KeyEnd = ScanFor (CHR ''='') Config KeyStart ContentEnd
               in if KeyEnd = ContentEnd then Inr (InRequestedSection, Matched)
                  else
                    let ValueStart = KeyEnd + 1;
                        ValueEnd = ContentEnd;
                        (KeyStart, KeyEnd) = TrimRange Config KeyStart KeyEnd
                    in if KeyStart = KeyEnd then Inl EFI_COMPROMISED_DATA
                       else
                         let (ValueStart, ValueEnd) = TrimRange Config ValueStart ValueEnd;
                             ValueEnd = TrimInlineComment Config ValueStart ValueEnd;
                             (ValueStart, ValueEnd) = TrimRange Config ValueStart ValueEnd
                         in if InRequestedSection \<and>
                               RangeEqualsString (drop KeyStart Config) (KeyEnd - KeyStart) Key
                            then if Matched \<noteq> None then Inl EFI_COMPROMISED_DATA
                                 else Inr (InRequestedSection, Some (ValueStart, ValueEnd))
                            else Inr (InRequestedSection, Matched)
           else Inr (InRequestedSection, Matched)
         else Inr (InRequestedSection, Matched))"

function GetValue_loop ::
  "string \<Rightarrow> string \<Rightarrow> string \<Rightarrow> nat \<Rightarrow> bool \<Rightarrow> (nat \<times> nat) option
     \<Rightarrow> efi_status + (nat \<times> nat) option" where
  "GetValue_loop Config Section Key LineStart InRequestedSection Matched =
     (if LineStart < length Config then
        let LineEnd = ScanFor (CHR 0x0A) Config LineStart (length Config)
        in case GetValue_line Config Section Key LineStart LineEnd InRequestedSection Matched of
             Inl e \<Rightarrow> Inl e
           | Inr (InSec, Matched) \<Rightarrow>
               GetValue_loop Config Section Key (NextLine Config LineEnd) InSec Matched
      else Inr Matched)"
  by pat_completeness auto
termination
  by (relation "measure (\<lambda>(cs, _, _, i, _, _). length cs - i)") (simp_all add: NextLine_progress)

declare GetValue_loop.simps [simp del]

text \<open>
  The result is the status, what is written to \<open>Value\<close> (without the terminator; \<open>None\<close> when
  nothing is written) and the final \<open>*ValueSize\<close>. \<open>Section\<close>, \<open>Key\<close> and \<open>ValueSize\<close> are \<open>None\<close>
  for NULL; \<open>HasValue\<close> says that \<open>Value\<close> is not NULL.
\<close>

definition GetAndromedaBootConfigValue ::
  "boot_config_state \<Rightarrow> string option \<Rightarrow> string option \<Rightarrow> bool \<Rightarrow> nat option
     \<Rightarrow> efi_status \<times> string option \<times> nat option" where
  "GetAndromedaBootConfigValue st Section Key HasValue ValueSize =
     (case (Section, Key, ValueSize) of
        (Some Section, Some Key, Some Capacity) \<Rightarrow>
          if cstr_at Key 0 = NUL then (EFI_INVALID_PARAMETER, None, ValueSize)
          else if Capacity > 0 \<and> \<not> HasValue then (EFI_INVALID_PARAMETER, None, ValueSize)
          else
            (case GetBootConfig st of
               Inl Status \<Rightarrow> (Status, None, Some 0)
             | Inr Config \<Rightarrow>
                 if list_ex (\<lambda>c. c = NUL) Config then (EFI_COMPROMISED_DATA, None, Some 0)
                 else
                   (case GetValue_loop Config Section Key 0 (cstr_at Section 0 = NUL) None of
                      Inl Status \<Rightarrow> (Status, None, Some 0)
                    | Inr None \<Rightarrow> (EFI_NOT_FOUND, None, Some 0)
                    | Inr (Some (MatchedValueStart, MatchedValueEnd)) \<Rightarrow>
                        let RequiredSize = MatchedValueEnd - MatchedValueStart + 1
                        in if Capacity < RequiredSize
                           then (EFI_BUFFER_TOO_SMALL, None, Some RequiredSize)
                           else (EFI_SUCCESS, Some (subrange Config MatchedValueStart MatchedValueEnd),
                                 Some RequiredSize)))
      | _ \<Rightarrow> (EFI_INVALID_PARAMETER, None, ValueSize))"

section \<open>Reading the entries of a section\<close>

function GetEntry_loop ::
  "string \<Rightarrow> string \<Rightarrow> nat \<Rightarrow> nat \<Rightarrow> bool \<Rightarrow> nat \<Rightarrow> efi_status + (nat \<times> nat)" where
  "GetEntry_loop Config Section EntryIndex LineStart InRequestedSection CurrentIndex =
     (if LineStart < length Config then
        let LineEnd = ScanFor (CHR 0x0A) Config LineStart (length Config);
            Next = NextLine Config LineEnd;
            (ContentStart, ContentEnd) = TrimRange Config LineStart LineEnd
        in if ContentStart < ContentEnd \<and>
              Config ! ContentStart \<noteq> CHR ''#'' \<and> Config ! ContentStart \<noteq> CHR '';'' then
             if Config ! ContentStart = CHR ''['' then
               (case SectionHeader Config ContentStart ContentEnd Section of
                  Inl e \<Rightarrow> Inl e
                | Inr b \<Rightarrow> GetEntry_loop Config Section EntryIndex Next b CurrentIndex)
             else if InRequestedSection then
               let ContentEnd = TrimInlineComment Config ContentStart ContentEnd;
                   (ContentStart, ContentEnd) = TrimRange Config ContentStart ContentEnd
               in if ContentStart < ContentEnd then
                    if CurrentIndex = EntryIndex then Inr (ContentStart, ContentEnd)
                    else GetEntry_loop Config Section EntryIndex Next InRequestedSection
                           (CurrentIndex + 1)
                  else GetEntry_loop Config Section EntryIndex Next InRequestedSection CurrentIndex
             else GetEntry_loop Config Section EntryIndex Next InRequestedSection CurrentIndex
           else GetEntry_loop Config Section EntryIndex Next InRequestedSection CurrentIndex
      else Inl EFI_NOT_FOUND)"
  by pat_completeness auto
termination
  by (relation "measure (\<lambda>(cs, _, _, i, _, _). length cs - i)") (simp_all add: NextLine_progress)

declare GetEntry_loop.simps [simp del]

definition GetAndromedaBootConfigSectionEntry ::
  "boot_config_state \<Rightarrow> string option \<Rightarrow> nat \<Rightarrow> bool \<Rightarrow> nat option
     \<Rightarrow> efi_status \<times> string option \<times> nat option" where
  "GetAndromedaBootConfigSectionEntry st Section EntryIndex HasEntry EntrySize =
     (case (Section, EntrySize) of
        (Some Section, Some Capacity) \<Rightarrow>
          if Capacity > 0 \<and> \<not> HasEntry then (EFI_INVALID_PARAMETER, None, EntrySize)
          else
            (case GetBootConfig st of
               Inl Status \<Rightarrow> (Status, None, Some 0)
             | Inr Config \<Rightarrow>
                 if list_ex (\<lambda>c. c = NUL) Config then (EFI_COMPROMISED_DATA, None, Some 0)
                 else
                   (case GetEntry_loop Config Section EntryIndex 0 (cstr_at Section 0 = NUL) 0 of
                      Inl Status \<Rightarrow> (Status, None, Some 0)
                    | Inr (ContentStart, ContentEnd) \<Rightarrow>
                        let RequiredSize = ContentEnd - ContentStart + 1
                        in if Capacity < RequiredSize
                           then (EFI_BUFFER_TOO_SMALL, None, Some RequiredSize)
                           else (EFI_SUCCESS, Some (subrange Config ContentStart ContentEnd),
                                 Some RequiredSize)))
      | _ \<Rightarrow> (EFI_INVALID_PARAMETER, None, EntrySize))"

section \<open>Reading numbers\<close>

definition DigitOf :: "nat \<Rightarrow> char \<Rightarrow> nat option" where
  "DigitOf Radix c =
     (if ord8 c \<ge> ord8 (CHR ''0'') \<and> ord8 c \<le> ord8 (CHR ''9'') then Some (ord8 c - ord8 (CHR ''0''))
      else if Radix = 16 \<and> ord8 c \<ge> ord8 (CHR ''a'') \<and> ord8 c \<le> ord8 (CHR ''f'')
      then Some (ord8 c - ord8 (CHR ''a'') + 10)
      else if Radix = 16 \<and> ord8 c \<ge> ord8 (CHR ''A'') \<and> ord8 c \<le> ord8 (CHR ''F'')
      then Some (ord8 c - ord8 (CHR ''A'') + 10)
      else None)"

function Uint64_loop :: "string \<Rightarrow> nat \<Rightarrow> nat \<Rightarrow> u64 \<Rightarrow> efi_status + u64" where
  "Uint64_loop StringValue Radix Index ParsedValue =
     (if cstr_at StringValue Index \<noteq> NUL then
        case DigitOf Radix (cstr_at StringValue Index) of
          None \<Rightarrow> Inl EFI_COMPROMISED_DATA
        | Some Digit \<Rightarrow>
            if Digit \<ge> Radix \<or>
               ParsedValue > ((- 1) - word_of_nat Digit) div word_of_nat Radix
            then Inl EFI_COMPROMISED_DATA
            else Uint64_loop StringValue Radix (Suc Index)
                   (ParsedValue * word_of_nat Radix + word_of_nat Digit)
      else Inr ParsedValue)"
  by pat_completeness auto
termination
  by (relation "measure (\<lambda>(s, _, i, _). length s - i)") (auto simp: cstr_at_def split: if_splits)

declare Uint64_loop.simps [simp del]

definition ParseUint64 :: "string \<Rightarrow> efi_status + u64" where
  "ParseUint64 StringValue =
     (let (Start, Radix) =
            (if cstr_at StringValue 0 = CHR ''0'' \<and>
                (cstr_at StringValue 1 = CHR ''x'' \<or> cstr_at StringValue 1 = CHR ''X'')
             then (2, 16) else (0, 10))
      in if cstr_at StringValue Start = NUL then Inl EFI_COMPROMISED_DATA
         else Uint64_loop StringValue Radix Start 0)"

definition GetAndromedaBootConfigUint64 ::
  "boot_config_state \<Rightarrow> string option \<Rightarrow> string option \<Rightarrow> bool \<Rightarrow> efi_status + u64" where
  "GetAndromedaBootConfigUint64 st Section Key HasOut =
     (if \<not> HasOut then Inl EFI_INVALID_PARAMETER
      else case GetAndromedaBootConfigValue st Section Key True (Some 32) of
             (Status, Value, _) \<Rightarrow>
               if EFI_ERROR Status then Inl Status
               else case Value of None \<Rightarrow> Inl Status | Some StringValue \<Rightarrow> ParseUint64 StringValue)"

definition GetAndromedaBootConfigUint32 ::
  "boot_config_state \<Rightarrow> string option \<Rightarrow> string option \<Rightarrow> bool \<Rightarrow> efi_status + u32" where
  "GetAndromedaBootConfigUint32 st Section Key HasOut =
     (if \<not> HasOut then Inl EFI_INVALID_PARAMETER
      else case GetAndromedaBootConfigUint64 st Section Key True of
             Inl Status \<Rightarrow> Inl Status
           | Inr ParsedValue \<Rightarrow>
               if ParsedValue > 0xFFFFFFFF then Inl EFI_COMPROMISED_DATA
               else Inr (ucast ParsedValue))"

definition GetAndromedaUefiConfigUint32ByName ::
  "boot_config_state \<Rightarrow> string option \<Rightarrow> bool \<Rightarrow> efi_status + u32" where
  "GetAndromedaUefiConfigUint32ByName st Key HasOut =
     (if Key = None \<or> \<not> HasOut then Inl EFI_INVALID_PARAMETER
      else GetAndromedaBootConfigUint32 st (Some ''AndromedaUefi'') Key HasOut)"

definition GetAndromedaUefiConfigUint64ByName ::
  "boot_config_state \<Rightarrow> string option \<Rightarrow> bool \<Rightarrow> efi_status + u64" where
  "GetAndromedaUefiConfigUint64ByName st Key HasOut =
     (if Key = None \<or> \<not> HasOut then Inl EFI_INVALID_PARAMETER
      else GetAndromedaBootConfigUint64 st (Some ''AndromedaUefi'') Key HasOut)"

section \<open>Specification on lists of lines\<close>

definition trim :: "string \<Rightarrow> string" where
  "trim cs = rev (dropWhile IsConfigSpace (rev (dropWhile IsConfigSpace cs)))"

function lines_of :: "string \<Rightarrow> string list" where
  "lines_of [] = []"
| "lines_of (c # cs) =
     takeWhile (\<lambda>x. x \<noteq> CHR 0x0A) (c # cs) #
     lines_of (tl (dropWhile (\<lambda>x. x \<noteq> CHR 0x0A) (c # cs)))"
  by pat_completeness auto
termination
  by (relation "measure length") (auto simp: less_Suc_eq_le intro: le_trans [OF diff_le_self length_dropWhile_le])

text \<open>\<open>cut_comment b q e cs\<close> is the prefix of \<open>cs\<close> before an inline comment; \<open>b\<close> says that a comment
  may start here, \<open>q\<close> and \<open>e\<close> that we are inside quotes and after a backslash.\<close>

fun cut_comment :: "bool \<Rightarrow> bool \<Rightarrow> bool \<Rightarrow> string \<Rightarrow> string" where
  "cut_comment b q e [] = []"
| "cut_comment b q e (c # cs) =
     (if q \<and> c = CHR 0x5C \<and> \<not> e then c # cut_comment False q True cs
      else if c = CHR 0x22 then c # cut_comment False (if \<not> e then \<not> q else q) False cs
      else if \<not> q \<and> (c = CHR ''#'' \<or> c = CHR '';'') \<and> b then []
      else c # cut_comment (IsConfigSpace c) q False cs)"

datatype cfg_line =
    CfgSkip
  | CfgMalformed
  | CfgSection string
  | CfgData string

definition header_line :: "string \<Rightarrow> cfg_line" where
  "header_line cs =
     (if CHR '']'' \<notin> set cs then CfgMalformed
      else
        let rest = dropWhile IsConfigSpace (tl (dropWhile (\<lambda>c. c \<noteq> CHR '']'') cs))
        in if rest \<noteq> [] \<and> hd rest \<noteq> CHR ''#'' \<and> hd rest \<noteq> CHR '';'' then CfgMalformed
           else CfgSection (trim (takeWhile (\<lambda>c. c \<noteq> CHR '']'') cs)))"

definition classify :: "string \<Rightarrow> cfg_line" where
  "classify ln =
     (case trim ln of
        [] \<Rightarrow> CfgSkip
      | c # cs \<Rightarrow>
          if c = CHR ''#'' \<or> c = CHR '';'' then CfgSkip
          else if c = CHR ''['' then header_line cs
          else CfgData (c # cs))"

text \<open>A data line as key and value; \<open>None\<close> for a record without \<open>=\<close>.\<close>

definition key_value :: "string \<Rightarrow> (string \<times> string) option" where
  "key_value d =
     (if CHR ''='' \<in> set d
      then Some (trim (takeWhile (\<lambda>c. c \<noteq> CHR ''='') d),
                 trim (cut_comment True False False (trim (tl (dropWhile (\<lambda>c. c \<noteq> CHR ''='') d)))))
      else None)"

definition value_step ::
  "string \<Rightarrow> string \<Rightarrow> bool \<Rightarrow> string option \<Rightarrow> string \<Rightarrow> efi_status + (bool \<times> string option)" where
  "value_step sec key ins m l =
     (case classify l of
        CfgSkip \<Rightarrow> Inr (ins, m)
      | CfgMalformed \<Rightarrow> Inl EFI_COMPROMISED_DATA
      | CfgSection n \<Rightarrow> Inr (lower_str n = lower_str sec, m)
      | CfgData d \<Rightarrow>
          (case key_value d of
             None \<Rightarrow> Inr (ins, m)
           | Some (k, v) \<Rightarrow>
               if k = [] then Inl EFI_COMPROMISED_DATA
               else if ins \<and> lower_str k = lower_str key then
                 if m \<noteq> None then Inl EFI_COMPROMISED_DATA else Inr (ins, Some v)
               else Inr (ins, m)))"

fun cfg_value_spec ::
  "string \<Rightarrow> string \<Rightarrow> bool \<Rightarrow> string option \<Rightarrow> string list \<Rightarrow> efi_status + string option" where
  "cfg_value_spec sec key ins m [] = Inr m"
| "cfg_value_spec sec key ins m (l # ls) =
     (case value_step sec key ins m l of
        Inl e \<Rightarrow> Inl e
      | Inr (ins, m) \<Rightarrow> cfg_value_spec sec key ins m ls)"

text \<open>The data records of a section, up to the first malformed header.\<close>

fun cfg_entry_spec :: "string \<Rightarrow> bool \<Rightarrow> nat \<Rightarrow> string list \<Rightarrow> efi_status + string" where
  "cfg_entry_spec sec ins n [] = Inl EFI_NOT_FOUND"
| "cfg_entry_spec sec ins n (l # ls) =
     (case classify l of
        CfgSkip \<Rightarrow> cfg_entry_spec sec ins n ls
      | CfgMalformed \<Rightarrow> Inl EFI_COMPROMISED_DATA
      | CfgSection s \<Rightarrow> cfg_entry_spec sec (lower_str s = lower_str sec) n ls
      | CfgData d \<Rightarrow>
          if ins then
            if n = 0 then Inr (trim (cut_comment True False False d))
            else cfg_entry_spec sec ins (n - 1) ls
          else cfg_entry_spec sec ins n ls)"

section \<open>The scanners compute on slices\<close>

lemma scan_ends [simp]:
  "TrimRange_start xs e e = e" "TrimRange_end xs e e = e" "ScanFor c xs e e = e"
  by (simp_all add: TrimRange_start.simps TrimRange_end.simps ScanFor.simps)

lemma TrimRange_start_subrange:
  "s \<le> e \<Longrightarrow> e \<le> length xs \<Longrightarrow>
   s \<le> TrimRange_start xs s e \<and> TrimRange_start xs s e \<le> e \<and>
   subrange xs (TrimRange_start xs s e) e = dropWhile IsConfigSpace (subrange xs s e)"
proof (induction xs s e rule: TrimRange_start.induct)
  case (1 xs s e)
  show ?case
  proof (cases "s < e \<and> IsConfigSpace (xs ! s)")
    case True
    with 1 show ?thesis by (simp add: TrimRange_start.simps [of xs s] subrange_Cons [of s])
  next
    case False
    with "1.prems" show ?thesis
      by (cases "s < e") (simp_all add: TrimRange_start.simps [of xs s] subrange_Cons [of s])
  qed
qed

lemma TrimRange_end_subrange:
  "s \<le> e \<Longrightarrow> e \<le> length xs \<Longrightarrow>
   s \<le> TrimRange_end xs s e \<and> TrimRange_end xs s e \<le> e \<and>
   subrange xs s (TrimRange_end xs s e) = rev (dropWhile IsConfigSpace (rev (subrange xs s e)))"
proof (induction xs s e rule: TrimRange_end.induct)
  case (1 xs s e)
  show ?case
  proof (cases "s < e \<and> IsConfigSpace (xs ! (e - 1))")
    case True
    then have "s \<le> e - 1" "e - 1 \<le> length xs" using "1.prems" by auto
    from "1.IH" [OF True this] have "s \<le> TrimRange_end xs s (e - 1) \<and> TrimRange_end xs s (e - 1) \<le> e - 1 \<and>
        subrange xs s (TrimRange_end xs s (e - 1)) = rev (dropWhile IsConfigSpace (rev (subrange xs s (e - 1))))"
      .
    with True "1.prems" show ?thesis by (auto simp: TrimRange_end.simps [of xs s e] subrange_snoc [of s e])
  next
    case False
    with "1.prems" show ?thesis
      by (cases "s < e") (simp_all add: TrimRange_end.simps [of xs s e] subrange_snoc [of s e])
  qed
qed

lemma TrimRange_subrange:
  assumes "TrimRange xs s e = (s', e')" "s \<le> e" "e \<le> length xs"
  shows "s \<le> s'" "s' \<le> e'" "e' \<le> e" "subrange xs s' e' = trim (subrange xs s e)"
  using assms TrimRange_start_subrange [of s e xs] TrimRange_end_subrange [of "TrimRange_start xs s e" e xs]
  by (auto simp: TrimRange_def Let_def trim_def)

lemma TrimRange_nonempty:
  assumes "TrimRange xs s e = (s', e')" "s \<le> e" "e \<le> length xs"
  shows "s' < e' \<longleftrightarrow> trim (subrange xs s e) \<noteq> []"
  using TrimRange_subrange [OF assms] assms(3)
  by (metis diff_is_0_eq le_trans length_0_conv length_subrange not_less)

lemma ScanFor_subrange:
  "i \<le> e \<Longrightarrow> e \<le> length xs \<Longrightarrow>
   subrange xs i (ScanFor c xs i e) = takeWhile (\<lambda>x. x \<noteq> c) (subrange xs i e) \<and>
   subrange xs (ScanFor c xs i e) e = dropWhile (\<lambda>x. x \<noteq> c) (subrange xs i e)"
proof (induction c xs i e rule: ScanFor.induct)
  case (1 c xs i e)
  show ?case
  proof (cases "i < e \<and> xs ! i \<noteq> c")
    case True
    with 1 ScanFor_bounds [of "Suc i" e c xs] show ?thesis
      by (simp add: ScanFor.simps [of c xs i] subrange_Cons [of i])
  next
    case False
    with "1.prems" show ?thesis
      by (cases "i < e") (simp_all add: ScanFor.simps [of c xs i] subrange_Cons [of i])
  qed
qed

lemma ScanFor_hit:
  assumes "i \<le> e" "e \<le> length xs"
  shows "ScanFor c xs i e = e \<longleftrightarrow> c \<notin> set (subrange xs i e)"
proof -
  have "ScanFor c xs i e = e \<longleftrightarrow> subrange xs (ScanFor c xs i e) e = []"
    using ScanFor_bounds [OF assms(1), of c xs] assms(2)
    by (metis diff_is_0_eq le_antisym length_0_conv length_subrange subrange_empty)
  then show ?thesis
    using ScanFor_subrange [OF assms, of c] by (auto simp: dropWhile_eq_Nil_conv)
qed

lemma subrange_tl: "i < e \<Longrightarrow> e \<le> length xs \<Longrightarrow> subrange xs (Suc i) e = tl (subrange xs i e)"
  by (simp add: subrange_Cons)

lemma ToLowerAscii_lower_char [simp]: "ToLowerAscii = lower_char"
  by (rule ext) (simp add: ToLowerAscii_def lower_char_def ord8_def)

lemma RangeEqualsString_loop_eq:
  "is_cstring str \<Longrightarrow> i \<le> n \<Longrightarrow> n \<le> length xs \<Longrightarrow> i \<le> length str \<Longrightarrow>
    RangeEqualsString_loop xs n str i \<longleftrightarrow> lower_str (subrange xs i n) = lower_str (drop i str)"
proof (induction xs n str i rule: RangeEqualsString_loop.induct)
  case (1 xs n str i)
  note [simp] = RangeEqualsString_loop.simps [of xs n str i] cstr_at_eq_NUL [OF "1.prems"(1)]
  have no_nul: "str ! i \<noteq> NUL" if "i < length str"
    using "1.prems"(1) that by (metis is_cstring_def nth_mem)
  show ?case
  proof (cases "i < n")
    case True
    show ?thesis
    proof (cases "i < length str")
      case True
      with \<open>i < n\<close> 1 no_nul show ?thesis
        by (auto simp: subrange_Cons [of i] Cons_nth_drop_Suc [symmetric] lower_str_def)
    next
      case False
      with \<open>i < n\<close> have "\<not> RangeEqualsString_loop xs n str i" by simp
      moreover have "lower_str (subrange xs i n) \<noteq> []"
        using \<open>i < n\<close> "1.prems" by (simp add: subrange_Cons [of i] lower_str_def)
      ultimately show ?thesis using False by (simp add: lower_str_def)
    qed
  next
    case False
    then have "i = n" using "1.prems" by simp
    with "1.prems" show ?thesis
      by (simp add: RangeEqualsString_loop.simps [of xs n str n] lower_str_def)
  qed
qed

lemma RangeEqualsString_eq:
  assumes "is_cstring str" "s \<le> e" "e \<le> length xs"
  shows "RangeEqualsString (drop s xs) (e - s) str \<longleftrightarrow> lower_str (subrange xs s e) = lower_str str"
proof -
  have "subrange (drop s xs) 0 (e - s) = subrange xs s e"
    by (simp add: subrange_def)
  with assms RangeEqualsString_loop_eq [of str 0 "e - s" "drop s xs"] show ?thesis
    by (simp add: RangeEqualsString_def)
qed

lemma dropWhile_rev_trim:
  "trim (rev (dropWhile IsConfigSpace (rev cs))) = trim cs"
proof -
  let ?r = "rev (dropWhile IsConfigSpace (rev cs))"
  obtain sp where cs: "cs = ?r @ sp" and sp: "\<forall>c \<in> set sp. IsConfigSpace c"
    by (metis rev_append rev_rev_ident rev_swap set_rev set_takeWhileD takeWhile_dropWhile_id)
  show ?thesis
  proof (cases "\<forall>c \<in> set ?r. IsConfigSpace c")
    case True
    with sp cs have "\<forall>c \<in> set cs. IsConfigSpace c" by (metis UnE set_append)
    with True have "dropWhile IsConfigSpace ?r = []" "dropWhile IsConfigSpace cs = []"
      using dropWhile_eq_Nil_conv by blast+
    then show ?thesis unfolding trim_def by (simp only: rev.simps dropWhile.simps)
  next
    case False
    then have "dropWhile IsConfigSpace (?r @ sp) = dropWhile IsConfigSpace ?r @ sp"
      by (meson dropWhile_append1)
    then have "trim cs = rev (dropWhile IsConfigSpace (rev sp @ rev (dropWhile IsConfigSpace ?r)))"
      using cs by (metis rev_append trim_def)
    moreover have "dropWhile IsConfigSpace (rev sp @ ys) = dropWhile IsConfigSpace ys" for ys
      using sp by (intro dropWhile_append2) simp
    ultimately show ?thesis by (simp add: trim_def)
  qed
qed

lemma trim_idem [simp]: "trim (trim cs) = trim cs"
proof -
  have "trim cs = rev (dropWhile IsConfigSpace (rev (dropWhile IsConfigSpace cs)))"
    by (simp add: trim_def)
  then have "trim (trim cs) = trim (dropWhile IsConfigSpace cs)"
    by (simp only: dropWhile_rev_trim)
  then show ?thesis by (simp add: trim_def)
qed

text \<open>A comment cut followed by the caller's \<open>TrimRange\<close> is \<open>cut_comment\<close> followed by \<open>trim\<close>.\<close>

lemma trim_snd_TrimRange:
  assumes "s \<le> e" "e \<le> length xs"
  shows "s \<le> snd (TrimRange xs s e)" "snd (TrimRange xs s e) \<le> e"
    "trim (subrange xs s (snd (TrimRange xs s e))) = trim (subrange xs s e)"
proof -
  let ?s = "TrimRange_start xs s e"
  have st: "s \<le> ?s" "?s \<le> e" using TrimRange_start_subrange [OF assms] by auto
  let ?e = "TrimRange_end xs ?s e"
  note en = TrimRange_end_subrange [OF st(2) assms(2)]
  show "s \<le> snd (TrimRange xs s e)" "snd (TrimRange xs s e) \<le> e"
    using st en by (auto simp: TrimRange_def Let_def)
  have pre: "subrange xs s ?e = subrange xs s ?s @ subrange xs ?s ?e"
    "subrange xs s e = subrange xs s ?s @ subrange xs ?s e"
    using st en assms subrange_append [of s ?s ?e xs] subrange_append [of s ?s e xs]
    by (simp_all del: rev_is_rev_conv)
  have "subrange xs ?s e = dropWhile IsConfigSpace (subrange xs s e)"
    using TrimRange_start_subrange [OF assms] by simp
  then have "subrange xs s ?s = takeWhile IsConfigSpace (subrange xs s e)"
    using pre(2) by (metis append_same_eq takeWhile_dropWhile_id)
  then have sp: "\<forall>c \<in> set (subrange xs s ?s). IsConfigSpace c"
    by (metis set_takeWhileD)
  have "trim (subrange xs s ?e) = trim (subrange xs ?s ?e)"
    using pre(1) sp by (simp add: trim_def dropWhile_append2)
  also have "\<dots> = trim (subrange xs ?s e)"
    using en by (simp add: dropWhile_rev_trim)
  also have "\<dots> = trim (subrange xs s e)"
    using pre(2) sp by (simp add: trim_def dropWhile_append2)
  finally show "trim (subrange xs s (snd (TrimRange xs s e))) = trim (subrange xs s e)"
    by (simp add: TrimRange_def Let_def)
qed

lemma TrimInlineComment_loop_subrange:
  "s \<le> i \<Longrightarrow> i \<le> e \<Longrightarrow> e \<le> length xs \<Longrightarrow>
   (\<exists>j. i \<le> j \<and> j \<le> e \<and>
      subrange xs i j = cut_comment (i = s \<or> IsConfigSpace (xs ! (i - 1))) q esc (subrange xs i e) \<and>
      (TrimInlineComment_loop xs s e i q esc = j \<or>
       TrimInlineComment_loop xs s e i q esc = snd (TrimRange xs s j)))"
proof (induction xs s e i q esc rule: TrimInlineComment_loop.induct)
  case (1 xs s e i q esc)
  show ?case
  proof (cases "i < e")
    case False
    then have "i = e" using "1.prems" by simp
    with "1.prems" show ?thesis
      by (intro exI [of _ e]) (simp add: TrimInlineComment_loop.simps [of xs s e e])
  next
    case True
    let ?c = "xs ! i"
    let ?b = "i = s \<or> IsConfigSpace (xs ! (i - 1))"
    have rest: "subrange xs i e = ?c # subrange xs (Suc i) e"
      using True 1 by (simp add: subrange_Cons)
    have step: ?thesis
      if eq: "TrimInlineComment_loop xs s e i q esc = TrimInlineComment_loop xs s e (Suc i) q' esc'"
        and cut: "cut_comment ?b q esc (subrange xs i e) =
          ?c # cut_comment (IsConfigSpace ?c) q' esc' (subrange xs (Suc i) e)"
        and IH: "Suc i \<le> e \<Longrightarrow>
          \<exists>j. Suc i \<le> j \<and> j \<le> e \<and>
            subrange xs (Suc i) j = cut_comment (IsConfigSpace ?c) q' esc' (subrange xs (Suc i) e) \<and>
            (TrimInlineComment_loop xs s e (Suc i) q' esc' = j \<or>
             TrimInlineComment_loop xs s e (Suc i) q' esc' = snd (TrimRange xs s j))" for q' esc'
    proof -
      from IH True obtain j where j: "Suc i \<le> j" "j \<le> e"
        "subrange xs (Suc i) j = cut_comment (IsConfigSpace ?c) q' esc' (subrange xs (Suc i) e)"
        "TrimInlineComment_loop xs s e (Suc i) q' esc' = j \<or>
         TrimInlineComment_loop xs s e (Suc i) q' esc' = snd (TrimRange xs s j)" by auto
      with eq cut True 1 show ?thesis
        by (intro exI [of _ j]) (simp add: subrange_Cons [of i j])
    qed
    note unfold = TrimInlineComment_loop.simps [of xs s e i q esc]
    consider (bs) "q \<and> ?c = CHR 0x5C \<and> \<not> esc"
      | (quote) "\<not> (q \<and> ?c = CHR 0x5C \<and> \<not> esc)" "?c = CHR 0x22"
      | (stop) "\<not> (q \<and> ?c = CHR 0x5C \<and> \<not> esc)" "?c \<noteq> CHR 0x22"
          "\<not> q \<and> (?c = CHR ''#'' \<or> ?c = CHR '';'') \<and> ?b"
      | (other) "\<not> (q \<and> ?c = CHR 0x5C \<and> \<not> esc)" "?c \<noteq> CHR 0x22"
          "\<not> (\<not> q \<and> (?c = CHR ''#'' \<or> ?c = CHR '';'') \<and> ?b)" by blast
    then show ?thesis
    proof cases
      case bs
      have "TrimInlineComment_loop xs s e i q esc = TrimInlineComment_loop xs s e (Suc i) q True"
        using bs True by (subst unfold) simp
      with "1.IH"(1) [OF True bs] "1.prems" bs True show ?thesis
        by (intro step [of q True]) (simp_all add: rest IsConfigSpace_def)
    next
      case quote
      from "1.IH"(2) [OF True quote] "1.prems" quote True show ?thesis
        by (intro step [of "if \<not> esc then \<not> q else q" False])
          (simp_all add: unfold rest IsConfigSpace_def split del: if_split)
    next
      case stop
      have "TrimInlineComment_loop xs s e i q esc = snd (TrimRange xs s i)"
        using stop True by (subst unfold) auto
      with stop True "1.prems" show ?thesis
        by (intro exI [of _ i]) (auto simp: rest)
    next
      case other
      from "1.IH"(3) [OF True other] "1.prems" other True show ?thesis
        by (intro step [of q False]) (auto simp: unfold rest)
    qed
  qed
qed

lemma TrimInlineComment_subrange:
  assumes "s \<le> e" "e \<le> length xs"
  shows "s \<le> TrimInlineComment xs s e" "TrimInlineComment xs s e \<le> e"
    "trim (subrange xs s (TrimInlineComment xs s e)) =
     trim (cut_comment True False False (subrange xs s e))"
proof -
  obtain j where j: "s \<le> j" "j \<le> e"
    "subrange xs s j = cut_comment True False False (subrange xs s e)"
    "TrimInlineComment xs s e = j \<or> TrimInlineComment xs s e = snd (TrimRange xs s j)"
    using TrimInlineComment_loop_subrange [of s s e xs False False] assms
    by (auto simp: TrimInlineComment_def)
  have t: "s \<le> snd (TrimRange xs s j)" "snd (TrimRange xs s j) \<le> j"
    "trim (subrange xs s (snd (TrimRange xs s j))) = trim (subrange xs s j)"
    using j(1,2) assms(2) by (simp_all add: trim_snd_TrimRange)
  show "s \<le> TrimInlineComment xs s e" "TrimInlineComment xs s e \<le> e"
    using j(1,2,4) t(1,2) by auto
  show "trim (subrange xs s (TrimInlineComment xs s e)) =
     trim (cut_comment True False False (subrange xs s e))"
    using j(3,4) t(3) by metis
qed

section \<open>The accessors refine the line specification\<close>

lemma hd_subrange: "i < e \<Longrightarrow> e \<le> length xs \<Longrightarrow> hd (subrange xs i e) = xs ! i"
  by (simp add: subrange_Cons)

lemma subrange_eq_Nil: "e \<le> length xs \<Longrightarrow> subrange xs i e = [] \<longleftrightarrow> e \<le> i"
  by (metis diff_is_0_eq length_0_conv length_subrange)

lemma SectionHeader_spec:
  assumes "is_cstring sec" "s < e" "e \<le> length xs"
  shows "SectionHeader xs s e sec =
    (case header_line (subrange xs (Suc s) e) of
       CfgSection n \<Rightarrow> Inr (lower_str n = lower_str sec)
     | _ \<Rightarrow> Inl EFI_COMPROMISED_DATA)"
proof -
  let ?c = "ScanFor (CHR '']'') xs (Suc s) e"
  let ?l = "subrange xs (Suc s) e"
  have c: "Suc s \<le> ?c" "?c \<le> e" "?c = e \<longleftrightarrow> CHR '']'' \<notin> set ?l"
    and sr: "subrange xs (Suc s) ?c = takeWhile (\<lambda>x. x \<noteq> CHR '']'') ?l"
      "subrange xs ?c e = dropWhile (\<lambda>x. x \<noteq> CHR '']'') ?l"
    using ScanFor_bounds [of "Suc s" e "CHR '']''" xs] ScanFor_hit [of "Suc s" e xs]
      ScanFor_subrange [of "Suc s" e xs] assms by auto
  show ?thesis
  proof (cases "?c = e")
    case True
    with c show ?thesis by (simp add: SectionHeader_def header_line_def)
  next
    case False
    with c have ce: "?c < e" and hit: "CHR '']'' \<in> set ?l" by auto
    obtain a b where ab: "TrimRange xs (Suc s) ?c = (a, b)" by force
    have name: "a \<le> b" "b \<le> length xs" "subrange xs a b = trim (takeWhile (\<lambda>x. x \<noteq> CHR '']'') ?l)"
      using TrimRange_subrange [OF ab] c sr assms(3) by auto
    let ?k = "TrimRange_start xs (Suc ?c) e"
    have k: "?k \<le> e" "subrange xs ?k e = dropWhile IsConfigSpace (tl (subrange xs ?c e))"
      using TrimRange_start_subrange [of "Suc ?c" e xs] ce assms(3) subrange_tl [OF ce assms(3)]
      by auto
    define R where "R = dropWhile IsConfigSpace (tl (dropWhile (\<lambda>x. x \<noteq> CHR '']'') ?l))"
    have R: "subrange xs ?k e = R" using k(2) sr(2) by (simp add: R_def)
    have rest: "?k < e \<longleftrightarrow> R \<noteq> []" "?k < e \<Longrightarrow> hd R = xs ! ?k"
      using assms(3) by (simp_all add: R [symmetric] subrange_eq_Nil hd_subrange not_le)
    have cond: "(?k < e \<and> xs ! ?k \<noteq> CHR ''#'' \<and> xs ! ?k \<noteq> CHR '';'') \<longleftrightarrow>
        (R \<noteq> [] \<and> hd R \<noteq> CHR ''#'' \<and> hd R \<noteq> CHR '';'')"
      using rest by auto
    have "RangeEqualsString (drop a xs) (b - a) sec \<longleftrightarrow>
        lower_str (trim (takeWhile (\<lambda>x. x \<noteq> CHR '']'') ?l)) = lower_str sec"
      using RangeEqualsString_eq [OF assms(1) name(1,2)] name(3) by simp
    with False hit cond show ?thesis
      unfolding SectionHeader_def header_line_def Let_def R_def [symmetric]
      by (simp add: ab del: dropWhile_eq_Nil_conv)
  qed
qed

lemma trim_hd: "trim cs = c # ds \<Longrightarrow> \<not> IsConfigSpace c"
proof -
  assume t: "trim cs = c # ds"
  let ?X = "dropWhile IsConfigSpace cs"
  have "rev ?X = takeWhile IsConfigSpace (rev ?X) @ dropWhile IsConfigSpace (rev ?X)" by simp
  then have "?X = trim cs @ rev (takeWhile IsConfigSpace (rev ?X))"
    unfolding trim_def by (metis rev_append rev_rev_ident)
  with t have "?X \<noteq> []" "hd ?X = c" by (metis append_Cons list.distinct(1), metis append_Cons list.sel(1))
  then show ?thesis by (metis hd_dropWhile)
qed

lemma lines_of_step:
  assumes "i < length cs"
  shows "lines_of (drop i cs) =
    subrange cs i (ScanFor (CHR 0x0A) cs i (length cs)) #
    lines_of (drop (NextLine cs (ScanFor (CHR 0x0A) cs i (length cs))) cs)"
proof -
  let ?e = "ScanFor (CHR 0x0A) cs i (length cs)"
  have d: "drop i cs = subrange cs i (length cs)" for i by (simp add: subrange_def)
  have e: "?e \<le> length cs" "subrange cs i ?e = takeWhile (\<lambda>x. x \<noteq> CHR 0x0A) (drop i cs)"
    "drop ?e cs = dropWhile (\<lambda>x. x \<noteq> CHR 0x0A) (drop i cs)"
    using ScanFor_bounds [of i "length cs" "CHR 0x0A" cs]
      ScanFor_subrange [of i "length cs" cs "CHR 0x0A"] assms d by auto
  have "drop (NextLine cs ?e) cs = tl (drop ?e cs)"
    using e(1) by (simp add: NextLine_def tl_drop drop_Suc)
  moreover obtain c ds where "drop i cs = c # ds" using assms by (metis Cons_nth_drop_Suc)
  ultimately show ?thesis using e by (metis lines_of.simps(2))
qed

lemma classify_range:
  assumes "TrimRange cs i e = (s, t)" "i \<le> e" "e \<le> length cs"
  shows "classify (subrange cs i e) =
    (if \<not> s < t \<or> cs ! s = CHR ''#'' \<or> cs ! s = CHR '';'' then CfgSkip
     else if cs ! s = CHR ''['' then header_line (subrange cs (Suc s) t)
     else CfgData (subrange cs s t))"
proof (cases "s < t")
  case True
  then have "trim (subrange cs i e) = cs ! s # subrange cs (Suc s) t"
    using TrimRange_subrange [OF assms] assms(3) by (metis le_trans subrange_Cons)
  with True assms show ?thesis
    using TrimRange_subrange [OF assms] by (auto simp: classify_def)
next
  case False
  then show ?thesis
    using TrimRange_nonempty [OF assms] by (simp add: classify_def)
qed

text \<open>The \<open>Key = Value\<close> branch, on the trimmed range of the line.\<close>

lemma key_value_range:
  assumes "s < t" "t \<le> length cs" "ScanFor (CHR ''='') cs s t = k" "k \<noteq> t"
    and "TrimRange cs s k = (ks, ke)" "TrimRange cs (Suc k) t = (vs, ve)"
    and "TrimRange cs vs (TrimInlineComment cs vs ve) = (vs', ve')"
  shows "key_value (subrange cs s t) = Some (subrange cs ks ke, subrange cs vs' ve')"
    and "ks \<le> ke" "ke \<le> length cs" "vs' \<le> ve'" "ve' \<le> length cs"
proof -
  have k: "s \<le> k" "k < t" "CHR ''='' \<in> set (subrange cs s t)"
    using ScanFor_bounds [of s t "CHR ''=''" cs] ScanFor_hit [of s t cs "CHR ''=''"] assms(1-4)
    by auto
  have parts: "subrange cs s k = takeWhile (\<lambda>x. x \<noteq> CHR ''='') (subrange cs s t)"
    "subrange cs (Suc k) t = tl (dropWhile (\<lambda>x. x \<noteq> CHR ''='') (subrange cs s t))"
    using ScanFor_subrange [of s t cs "CHR ''=''"] subrange_tl [of k t cs] k assms(1-3) by auto
  note key = TrimRange_subrange [OF assms(5) k(1)]
  note val = TrimRange_subrange [OF assms(6) Suc_leI [OF k(2)] assms(2)]
  have ve: "vs \<le> ve" "ve \<le> length cs" using val assms(2) by auto
  note cut = TrimInlineComment_subrange [OF ve]
  have cut_le: "TrimInlineComment cs vs ve \<le> length cs" using cut(2) ve(2) by simp
  note val' = TrimRange_subrange [OF assms(7) cut(1) cut_le]
  show "key_value (subrange cs s t) = Some (subrange cs ks ke, subrange cs vs' ve')"
    using k parts key val(4) val'(4) cut(3) assms(2) by (simp add: key_value_def)
  show "ks \<le> ke" "ke \<le> length cs" "vs' \<le> ve'" "ve' \<le> length cs"
    using key k assms(2) val'(2,3) cut_le by auto
qed

definition abs_match :: "string \<Rightarrow> (nat \<times> nat) option \<Rightarrow> string option" where
  "abs_match cs m = map_option (\<lambda>(a, b). subrange cs a b) m"

lemma abs_match_simps [simp]:
  "abs_match cs None = None" "abs_match cs (Some (a, b)) = Some (subrange cs a b)"
  "abs_match cs m = None \<longleftrightarrow> m = None"
  by (simp_all add: abs_match_def)

lemma GetValue_line_refines:
  assumes "is_cstring sec" "is_cstring key" "i \<le> e" "e \<le> length cs"
  shows "map_sum id (map_prod id (abs_match cs)) (GetValue_line cs sec key i e ins m) =
    value_step sec key ins (abs_match cs m) (subrange cs i e)"
proof -
  obtain s t where st: "TrimRange cs i e = (s, t)" by force
  note ran = TrimRange_subrange [OF st assms(3,4)]
  note cl = classify_range [OF st assms(3,4)]
  consider (skip) "\<not> s < t \<or> cs ! s = CHR ''#'' \<or> cs ! s = CHR '';''"
    | (header) "s < t" "cs ! s = CHR ''[''"
    | (data) "s < t" "cs ! s \<noteq> CHR ''#''" "cs ! s \<noteq> CHR '';''" "cs ! s \<noteq> CHR ''[''" by blast
  then show ?thesis
  proof cases
    case skip
    then show ?thesis by (auto simp: GetValue_line_def st value_step_def cl)
  next
    case header
    then have "SectionHeader cs s t sec =
      (case header_line (subrange cs (Suc s) t) of
         CfgSection n \<Rightarrow> Inr (lower_str n = lower_str sec) | _ \<Rightarrow> Inl EFI_COMPROMISED_DATA)"
      using SectionHeader_spec assms(1,4) ran by simp
    moreover have "header_line x \<noteq> CfgSkip" "header_line x \<noteq> CfgData d" for x d
      by (simp_all add: header_line_def Let_def)
    ultimately show ?thesis
      using header by (simp add: GetValue_line_def st value_step_def cl split: cfg_line.splits)
  next
    case data
    let ?k = "ScanFor (CHR ''='') cs s t"
    have t: "t \<le> length cs" using ran assms(4) by simp
    show ?thesis
    proof (cases "?k = t")
      case True
      then have "key_value (subrange cs s t) = None"
        using ScanFor_hit [of s t cs] data(1) t by (simp add: key_value_def)
      with True data show ?thesis by (simp add: GetValue_line_def st value_step_def cl)
    next
      case False
      obtain ks ke where k: "TrimRange cs s ?k = (ks, ke)" by force
      obtain vs ve where v: "TrimRange cs (Suc ?k) t = (vs, ve)" by force
      obtain vs' ve' where v': "TrimRange cs vs (TrimInlineComment cs vs ve) = (vs', ve')" by force
      note kv = key_value_range [OF data(1) t refl False k v v']
      have "subrange cs ks ke = [] \<longleftrightarrow> ks = ke" using kv(2,3) by (auto simp: subrange_eq_Nil)
      with False data show ?thesis
        by (simp add: GetValue_line_def st value_step_def cl kv(1) k v v'
            RangeEqualsString_eq [OF assms(2) kv(2,3)])
    qed
  qed
qed

definition valid_match :: "string \<Rightarrow> (nat \<times> nat) option \<Rightarrow> bool" where
  "valid_match cs m = (case m of None \<Rightarrow> True | Some (a, b) \<Rightarrow> a \<le> b \<and> b \<le> length cs)"

lemma GetValue_line_valid:
  assumes "i \<le> e" "e \<le> length cs" "valid_match cs m"
    and "GetValue_line cs sec key i e ins m = Inr (ins', m')"
  shows "valid_match cs m'"
proof -
  obtain s t where st: "TrimRange cs i e = (s, t)" by force
  note ran = TrimRange_subrange [OF st assms(1,2)]
  have t: "t \<le> length cs" using ran assms by simp
  let ?k = "ScanFor (CHR ''='') cs s t"
  obtain ks ke where k: "TrimRange cs s ?k = (ks, ke)" by force
  obtain vs ve where v: "TrimRange cs (Suc ?k) t = (vs, ve)" by force
  obtain vs' ve' where v': "TrimRange cs vs (TrimInlineComment cs vs ve) = (vs', ve')" by force
  have "vs' \<le> ve' \<and> ve' \<le> length cs" if "s < t" "?k \<noteq> t"
    using key_value_range(4,5) [OF that(1) t refl that(2) k v v'] by blast
  with assms(3,4) show ?thesis
    by (auto simp: GetValue_line_def st k v v' Let_def valid_match_def split: if_splits sum.splits)
qed

lemma NextLine_le: "NextLine cs e \<le> length cs"
  by (simp add: NextLine_def)

lemma GetValue_loop_refines:
  "is_cstring sec \<Longrightarrow> is_cstring key \<Longrightarrow> valid_match cs m \<Longrightarrow>
   map_sum id (abs_match cs) (GetValue_loop cs sec key i ins m) =
     cfg_value_spec sec key ins (abs_match cs m) (lines_of (drop i cs)) \<and>
   (\<forall>m'. GetValue_loop cs sec key i ins m = Inr m' \<longrightarrow> valid_match cs m')"
proof (induction cs sec key i ins m rule: GetValue_loop.induct)
  case (1 cs sec key i ins m)
  show ?case
  proof (cases "i < length cs")
    case True
    let ?e = "ScanFor (CHR 0x0A) cs i (length cs)"
    have e: "i \<le> ?e" "?e \<le> length cs" using ScanFor_bounds [of i "length cs" "CHR 0x0A" cs] True by auto
    note line = GetValue_line_refines [OF "1.prems"(1,2) e, of ins m]
    show ?thesis
    proof (cases "GetValue_line cs sec key i ?e ins m")
      case (Inl x)
      with line True show ?thesis
        by (simp add: GetValue_loop.simps [of cs sec key i] lines_of_step eq_commute [of "Inl x"])
    next
      case (Inr r)
      obtain ins' m' where r: "r = (ins', m')" by force
      have "valid_match cs m'" using GetValue_line_valid [OF e "1.prems"(3)] Inr r by blast
      with "1.IH" [OF True refl Inr r [symmetric]] "1.prems" Inr r line True show ?thesis
        by (simp add: GetValue_loop.simps [of cs sec key i] lines_of_step eq_commute [of "Inr _"])
    qed
  next
    case False
    with "1.prems" show ?thesis by (simp add: GetValue_loop.simps)
  qed
qed

lemma cut_comment_nonempty:
  assumes "c \<noteq> CHR ''#''" "c \<noteq> CHR '';''" "\<not> IsConfigSpace c"
  shows "trim (cut_comment True False False (c # cs)) \<noteq> []"
proof -
  have "\<exists>ds. cut_comment True False False (c # cs) = c # ds" using assms by simp
  moreover have "trim (c # ds) \<noteq> []" for ds
    using assms(3) by (simp add: trim_def dropWhile_append)
  ultimately show ?thesis by metis
qed

lemma GetEntry_loop_refines:
  "is_cstring sec \<Longrightarrow> k \<le> n \<Longrightarrow>
   map_sum id (\<lambda>(a, b). subrange cs a b) (GetEntry_loop cs sec n i ins k) =
     cfg_entry_spec sec ins (n - k) (lines_of (drop i cs)) \<and>
   (\<forall>a b. GetEntry_loop cs sec n i ins k = Inr (a, b) \<longrightarrow> a < b \<and> b \<le> length cs)"
proof (induction "length cs - i" arbitrary: i ins k rule: less_induct)
  case less
  show ?case
  proof (cases "i < length cs")
    case True
    let ?e = "ScanFor (CHR 0x0A) cs i (length cs)"
    have e: "i \<le> ?e" "?e \<le> length cs" using ScanFor_bounds [of i "length cs" "CHR 0x0A" cs] True by auto
    obtain s t where st: "TrimRange cs i ?e = (s, t)" by force
    note ran = TrimRange_subrange [OF st e]
    note cl = classify_range [OF st e]
    note unfold = GetEntry_loop.simps [of cs sec n i] lines_of_step [OF True]
    note IH = less.hyps [OF NextLine_progress [of i cs "CHR 0x0A", OF True] less.prems(1)]
    have t: "t \<le> length cs" using ran e by simp
    consider (skip) "\<not> s < t \<or> cs ! s = CHR ''#'' \<or> cs ! s = CHR '';''"
      | (header) "s < t" "cs ! s = CHR ''[''"
      | (other) "s < t" "cs ! s \<noteq> CHR ''#''" "cs ! s \<noteq> CHR '';''" "cs ! s \<noteq> CHR ''[''" "\<not> ins"
      | (data) "s < t" "cs ! s \<noteq> CHR ''#''" "cs ! s \<noteq> CHR '';''" "cs ! s \<noteq> CHR ''[''" "ins"
      by blast
    then show ?thesis
    proof cases
      case skip
      with IH [of k] less.prems True st cl show ?thesis by (auto simp: unfold)
    next
      case header
      then have "SectionHeader cs s t sec =
        (case header_line (subrange cs (Suc s) t) of
           CfgSection n \<Rightarrow> Inr (lower_str n = lower_str sec) | _ \<Rightarrow> Inl EFI_COMPROMISED_DATA)"
        using SectionHeader_spec less.prems(1) t by simp
      moreover have "header_line x \<noteq> CfgSkip" "header_line x \<noteq> CfgData d" for x d
        by (simp_all add: header_line_def Let_def)
      ultimately show ?thesis
        using header IH [of k] less.prems True st cl
        by (simp add: unfold split: cfg_line.splits)
    next
      case other
      with IH [of k] less.prems True st cl show ?thesis by (simp add: unfold)
    next
      case data
      have st': "s \<le> t" using data by simp
      note cut = TrimInlineComment_subrange [OF st' t]
      have cut_le: "TrimInlineComment cs s t \<le> length cs" using cut(2) t by simp
      obtain a b where ab: "TrimRange cs s (TrimInlineComment cs s t) = (a, b)" by force
      note fin = TrimRange_subrange [OF ab cut(1) cut_le] TrimRange_nonempty [OF ab cut(1) cut_le]
      have hd: "subrange cs s t = cs ! s # subrange cs (Suc s) t" using data t by (simp add: subrange_Cons)
      moreover have "\<not> IsConfigSpace (cs ! s)" using ran(4) hd trim_hd by metis
      ultimately have "a < b" using fin(5) cut(3) cut_comment_nonempty data by metis
      then show ?thesis
        using fin cut cut_le IH [of "Suc k"] less.prems True st cl data ab
        by (cases "k = n") (auto simp: unfold)
    qed
  next
    case False
    then show ?thesis by (simp add: GetEntry_loop.simps)
  qed
qed

section \<open>Numbers\<close>

text \<open>The value of a digit string, with no bound on its size.\<close>

fun digits_value :: "nat \<Rightarrow> nat \<Rightarrow> string \<Rightarrow> nat option" where
  "digits_value r acc [] = Some acc"
| "digits_value r acc (c # cs) =
     (case DigitOf r c of None \<Rightarrow> None | Some d \<Rightarrow> digits_value r (acc * r + d) cs)"

definition number_spec :: "string \<Rightarrow> nat option" where
  "number_spec s =
     (case s of
        CHR ''0'' # c # ds \<Rightarrow>
          if c = CHR ''x'' \<or> c = CHR ''X'' then if ds = [] then None else digits_value 16 0 ds
          else digits_value 10 0 s
      | [] \<Rightarrow> None
      | _ \<Rightarrow> digits_value 10 0 s)"

definition u64_result :: "nat option \<Rightarrow> efi_status + u64" where
  "u64_result r =
     (case r of
        None \<Rightarrow> Inl EFI_COMPROMISED_DATA
      | Some n \<Rightarrow> if n < 2 ^ 64 then Inr (word_of_nat n) else Inl EFI_COMPROMISED_DATA)"

lemma DigitOf_less: "DigitOf r c = Some d \<Longrightarrow> r = 10 \<or> r = 16 \<Longrightarrow> d < r"
  by (auto simp: DigitOf_def ord8_def split: if_splits)

lemma digits_value_mono: "digits_value r acc cs = Some n \<Longrightarrow> 0 < r \<Longrightarrow> acc \<le> n"
proof (induction r acc cs rule: digits_value.induct)
  case (2 r acc c cs)
  then obtain d where "acc * r + d \<le> n" by (auto split: option.splits)
  moreover have "acc \<le> acc * r" using "2.prems"(2) by simp
  ultimately show ?case by linarith
qed simp

lemma unat_overflow_guard:
  fixes v :: u64
  assumes "d < r" "r \<le> 16"
  shows "v > ((- 1) - word_of_nat d) div word_of_nat r \<longleftrightarrow> 2 ^ 64 \<le> unat v * r + d"
proof -
  have d: "unat (word_of_nat d :: u64) = d" "unat (word_of_nat r :: u64) = r"
    using assms by (simp_all add: unat_of_nat take_bit_nat_eq_self)
  have "unat ((- 1) - word_of_nat d :: u64) = 2 ^ 64 - 1 - d"
    using assms by (subst unat_sub) (simp_all add: d word_le_nat_alt unsigned_minus_1_eq_mask mask_eq_exp_minus_1)
  then have "unat (((- 1) - word_of_nat d) div word_of_nat r :: u64) = (2 ^ 64 - 1 - d) div r"
    by (simp add: unat_div d)
  then have "v > ((- 1) - word_of_nat d) div word_of_nat r \<longleftrightarrow> (2 ^ 64 - 1 - d) div r < unat v"
    by (simp add: word_less_nat_alt)
  also have "\<dots> \<longleftrightarrow> 2 ^ 64 - 1 - d < unat v * r"
    using assms by (intro div_less_iff_less_mult) simp
  also have "\<dots> \<longleftrightarrow> 2 ^ 64 \<le> unat v * r + d" using assms by auto
  finally show ?thesis .
qed

lemma unat_horner:
  fixes v :: u64
  assumes "d < r" "r \<le> 16" "unat v * r + d < 2 ^ 64"
  shows "unat (v * word_of_nat r + word_of_nat d) = unat v * r + d"
proof -
  have "v * word_of_nat r + word_of_nat d = (word_of_nat (unat v * r + d) :: u64)" by simp
  then show ?thesis using assms(3) by (simp only: unat_of_nat take_bit_nat_eq_self) (simp add: take_bit_nat_eq_self)
qed

lemma Uint64_loop_spec:
  "is_cstring s \<Longrightarrow> i \<le> length s \<Longrightarrow> r = 10 \<or> r = 16 \<Longrightarrow>
   Uint64_loop s r i v = u64_result (digits_value r (unat v) (drop i s))"
proof (induction s r i v rule: Uint64_loop.induct)
  case (1 s r i v)
  note unfold = Uint64_loop.simps [of s r i v]
  show ?case
  proof (cases "i < length s")
    case True
    then have nz: "cstr_at s i \<noteq> NUL" and c: "cstr_at s i = s ! i"
      and dr: "drop i s = s ! i # drop (Suc i) s"
      using "1.prems"(1) cstr_at_eq_NUL [of s i] by (simp_all add: Cons_nth_drop_Suc)
    show ?thesis
    proof (cases "DigitOf r (s ! i)")
      case None
      with nz c dr show ?thesis by (simp add: unfold u64_result_def)
    next
      case (Some d)
      have d: "d < r" "r \<le> 16" using DigitOf_less [OF Some "1.prems"(3)] "1.prems"(3) by auto
      show ?thesis
      proof (cases "2 ^ 64 \<le> unat v * r + d")
        case True
        have "u64_result (digits_value r (unat v * r + d) (drop (Suc i) s)) = Inl EFI_COMPROMISED_DATA"
          using True digits_value_mono [of r "unat v * r + d" "drop (Suc i) s"] d
          by (auto simp: u64_result_def split: option.splits) 
        with True Some nz c dr show ?thesis by (simp add: unfold unat_overflow_guard [OF d])
      next
        case False
        then have guard: "\<not> (r \<le> d \<or> v > ((- 1) - word_of_nat d) div word_of_nat r)"
          using d unat_overflow_guard [OF d] by auto
        have "Uint64_loop s r (Suc i) (v * word_of_nat r + word_of_nat d) =
            u64_result (digits_value r (unat (v * word_of_nat r + word_of_nat d)) (drop (Suc i) s))"
          using "1.IH" [OF nz, of d] Some c guard "1.prems" \<open>i < length s\<close> by simp
        moreover have "unat (v * word_of_nat r + word_of_nat d) = unat v * r + d"
          using unat_horner [OF d] False by simp
        ultimately have "Uint64_loop s r i v = u64_result (digits_value r (unat v * r + d) (drop (Suc i) s))"
          using guard nz c Some by (subst unfold) auto
        with Some dr show ?thesis by simp
      qed
    qed
  next
    case False
    with "1.prems" have "i = length s" by simp
    then show ?thesis using unsigned_less [of v, where ?'a = nat] by (simp add: Uint64_loop.simps u64_result_def)
  qed
qed

lemma ParseUint64_spec:
  assumes "is_cstring s"
  shows "ParseUint64 s = u64_result (number_spec s)"
proof -
  have nz: "c \<noteq> NUL" if "c \<in> set s" for c using assms that by (auto simp: is_cstring_def)
  note loop = Uint64_loop_spec [OF assms]
  consider (nil) "s = []" | (one) c where "s = [c]" | (more) a b ds where "s = a # b # ds"
    by (metis list.exhaust)
  then show ?thesis
  proof cases
    case nil
    then show ?thesis by (simp add: ParseUint64_def number_spec_def u64_result_def cstr_at_def)
  next
    case one
    with loop [of 0 10 0] nz show ?thesis
      by (auto simp: ParseUint64_def number_spec_def cstr_at_def split: char.splits bool.splits)
  next
    case more
    show ?thesis
    proof (cases "a = CHR ''0'' \<and> (b = CHR ''x'' \<or> b = CHR ''X'')")
      case True
      with more loop [of 2 16 0] nz show ?thesis
        by (auto simp: ParseUint64_def number_spec_def u64_result_def cstr_at_def numeral_2_eq_2 neq_Nil_conv)
    next
      case False
      then have "number_spec s = digits_value 10 0 s"
        using more by (auto simp: number_spec_def split: char.splits bool.splits)
      with False more loop [of 0 10 0] nz show ?thesis
        by (auto simp: ParseUint64_def cstr_at_def)
    qed
  qed
qed

section \<open>Correctness of the accessors\<close>

text \<open>What the caller with a buffer of \<open>Capacity\<close> bytes gets for a search result.\<close>

definition value_result :: "nat \<Rightarrow> efi_status + string option \<Rightarrow> efi_status \<times> string option \<times> nat option" where
  "value_result Capacity r =
     (case r of
        Inl e \<Rightarrow> (e, None, Some 0)
      | Inr None \<Rightarrow> (EFI_NOT_FOUND, None, Some 0)
      | Inr (Some v) \<Rightarrow>
          if Capacity < length v + 1 then (EFI_BUFFER_TOO_SMALL, None, Some (length v + 1))
          else (EFI_SUCCESS, Some v, Some (length v + 1)))"

lemma value_spec_cases:
  assumes "is_cstring sec" "is_cstring key"
  shows "value_result cap (cfg_value_spec sec key ins None (lines_of cs)) =
    (case GetValue_loop cs sec key 0 ins None of
       Inl e \<Rightarrow> (e, None, Some 0)
     | Inr None \<Rightarrow> (EFI_NOT_FOUND, None, Some 0)
     | Inr (Some (a, b)) \<Rightarrow>
         if cap < b - a + 1 then (EFI_BUFFER_TOO_SMALL, None, Some (b - a + 1))
         else (EFI_SUCCESS, Some (subrange cs a b), Some (b - a + 1)))"
proof -
  note ref = GetValue_loop_refines [OF assms, of cs None 0 ins]
  then have eq: "cfg_value_spec sec key ins None (lines_of cs) =
      map_sum id (abs_match cs) (GetValue_loop cs sec key 0 ins None)"
    by (simp add: valid_match_def)
  have "\<forall>m'. GetValue_loop cs sec key 0 ins None = Inr m' \<longrightarrow> valid_match cs m'"
    using ref by (simp add: valid_match_def)
  then show ?thesis
    unfolding eq
    by (cases "GetValue_loop cs sec key 0 ins None")
      (auto simp: value_result_def valid_match_def split: option.splits)
qed

lemma entry_spec_cases:
  assumes "is_cstring sec"
  shows "value_result cap (map_sum id Some (cfg_entry_spec sec ins n (lines_of cs))) =
    (case GetEntry_loop cs sec n 0 ins 0 of
       Inl e \<Rightarrow> (e, None, Some 0)
     | Inr (a, b) \<Rightarrow>
         if cap < b - a + 1 then (EFI_BUFFER_TOO_SMALL, None, Some (b - a + 1))
         else (EFI_SUCCESS, Some (subrange cs a b), Some (b - a + 1)))"
proof -
  note ref = GetEntry_loop_refines [OF assms, of 0 n cs 0 ins]
  then have eq: "cfg_entry_spec sec ins n (lines_of cs) =
      map_sum id (\<lambda>(a, b). subrange cs a b) (GetEntry_loop cs sec n 0 ins 0)"
    by simp
  have "\<forall>a b. GetEntry_loop cs sec n 0 ins 0 = Inr (a, b) \<longrightarrow> a < b \<and> b \<le> length cs"
    using ref by simp
  then show ?thesis
    unfolding eq
    by (cases "GetEntry_loop cs sec n 0 ins 0") (auto simp: value_result_def)
qed

lemma is_cstring_code: "is_cstring cs \<longleftrightarrow> \<not> list_ex (\<lambda>c. c = NUL) cs"
  by (auto simp: is_cstring_def list_ex_iff)

text \<open>C7: on a readable configuration \<open>GetAndromedaBootConfigValue\<close> returns exactly what the
  line-by-line specification says: the value of the only matching key of the section, without its
  inline comment and surrounding blanks; an error on a malformed line or a duplicate key; and the
  required size, terminator included, when the caller's buffer is too small.\<close>

theorem GetAndromedaBootConfigValue_correct:
  assumes "is_cstring sec" "is_cstring key" "key \<noteq> []" "cap > 0 \<longrightarrow> hv"
    and "GetBootConfig st = Inr cs" "is_cstring cs"
  shows "GetAndromedaBootConfigValue st (Some sec) (Some key) hv (Some cap) =
    value_result cap (cfg_value_spec sec key (sec = []) None (lines_of cs))"
proof -
  have "cstr_at key 0 \<noteq> NUL" "cstr_at sec 0 = NUL \<longleftrightarrow> sec = []"
    using cstr_at_eq_NUL [OF assms(1), of 0] cstr_at_eq_NUL [OF assms(2), of 0] assms(3) by simp_all
  then show ?thesis
    unfolding value_spec_cases [OF assms(1,2)] GetAndromedaBootConfigValue_def Let_def
    using assms(4-6) by (auto simp: is_cstring_code)
qed

text \<open>A configuration with two sections, comments and a quoted value, used by the witnesses.\<close>

definition sample_config :: string where
  "sample_config =
     ''[AndromedaUefi]'' @ [CHR 0x0A] @ ''Mode = 0x1F # hex'' @ [CHR 0x0A] @
     '' ; comment'' @ [CHR 0x0A] @ ''[MemoryMap] ; map'' @ [CHR 0x0A] @
     ''Mode = 7'' @ [CHR 0x0A] @ [CHR 0x22] @ ''a#b'' @ [CHR 0x22] @ '', 1 #x''"

definition sample_state :: boot_config_state where
  "sample_state = \<lparr>gAndromedaBootConfigBuffer = Some sample_config, ConfigHob = None\<rparr>"

lemma sample_config_readable: "GetBootConfig sample_state = Inr sample_config"
  by (simp add: GetBootConfig_def sample_state_def sample_config_def ANDROMEDA_BOOT_CONFIG_MAX_SIZE_def)

lemma sample_config_cstring: "is_cstring sample_config"
  by code_simp

lemma GetAndromedaBootConfigValue_correct_witness:
  "GetAndromedaBootConfigValue sample_state (Some ''andromedauefi'') (Some ''MODE'') True (Some 8) =
   (EFI_SUCCESS, Some ''0x1F'', Some 5)"
  by (subst GetAndromedaBootConfigValue_correct [OF _ _ _ _ sample_config_readable sample_config_cstring])
    code_simp+

text \<open>\<open>GetAndromedaBootConfigSectionEntry\<close> returns the data record of the given index of the
  section, counted from 0 over the section's non-comment lines, and \<open>EFI_NOT_FOUND\<close> past the last.\<close>

theorem GetAndromedaBootConfigSectionEntry_correct:
  assumes "is_cstring sec" "cap > 0 \<longrightarrow> he" "GetBootConfig st = Inr cs" "is_cstring cs"
  shows "GetAndromedaBootConfigSectionEntry st (Some sec) n he (Some cap) =
    value_result cap (map_sum id Some (cfg_entry_spec sec (sec = []) n (lines_of cs)))"
proof -
  have "cstr_at sec 0 = NUL \<longleftrightarrow> sec = []"
    using assms(1) by (simp add: cstr_at_eq_NUL)
  then show ?thesis
    unfolding entry_spec_cases [OF assms(1)] GetAndromedaBootConfigSectionEntry_def Let_def
    using assms(2-4) by (auto simp: is_cstring_code)
qed

lemma GetAndromedaBootConfigSectionEntry_correct_witness:
  "GetAndromedaBootConfigSectionEntry sample_state (Some ''MemoryMap'') 1 True (Some 16) =
     (EFI_SUCCESS, Some ([CHR 0x22] @ ''a#b'' @ [CHR 0x22] @ '', 1''), Some 9) \<and>
   GetAndromedaBootConfigSectionEntry sample_state (Some ''MemoryMap'') 2 True (Some 16) =
     (EFI_NOT_FOUND, None, Some 0)"
  by (subst (1 2) GetAndromedaBootConfigSectionEntry_correct
        [OF _ _ sample_config_readable sample_config_cstring]) code_simp+

text \<open>C18: a number is read exactly or refused. \<open>GetAndromedaBootConfigUint64\<close> returns the decimal or
  hexadecimal value of the key's text when the text is a number below \<open>2 ^ 64\<close>, and
  \<open>EFI_COMPROMISED_DATA\<close> otherwise: the overflow guard never lets the accumulator wrap.\<close>

theorem GetAndromedaBootConfigUint64_correct:
  assumes "GetAndromedaBootConfigValue st sec key True (Some 32) = (EFI_SUCCESS, Some v, n)"
    and "is_cstring v"
  shows "GetAndromedaBootConfigUint64 st sec key True =
    (case number_spec v of
       Some k \<Rightarrow> if k < 2 ^ 64 then Inr (word_of_nat k) else Inl EFI_COMPROMISED_DATA
     | None \<Rightarrow> Inl EFI_COMPROMISED_DATA)"
  using assms
  by (simp add: GetAndromedaBootConfigUint64_def ParseUint64_spec u64_result_def)

lemma GetAndromedaBootConfigUint64_correct_witness:
  "GetAndromedaBootConfigUint64 sample_state (Some ''AndromedaUefi'') (Some ''Mode'') True = Inr 31"
proof -
  have "GetAndromedaBootConfigValue sample_state (Some ''AndromedaUefi'') (Some ''Mode'') True (Some 32) =
      (EFI_SUCCESS, Some ''0x1F'', Some 5)"
    unfolding GetAndromedaBootConfigValue_def sample_config_readable by code_simp
  moreover have "is_cstring ''0x1F''" "number_spec ''0x1F'' = Some 31" by code_simp+
  ultimately show ?thesis
    using GetAndromedaBootConfigUint64_correct by simp
qed

text \<open>\<open>SetAndromedaBootConfigBuffer\<close> accepts exactly the non-empty texts of at most 0xFFFF bytes
  without a NUL; an accepted text is what the readers then see, and a refused one leaves them with
  the HOB's configuration, never with the previous buffer.\<close>

theorem SetAndromedaBootConfigBuffer_readers:
  "SetAndromedaBootConfigBuffer c st =
     (s, st') \<longrightarrow>
   (case c of
      Some cs \<Rightarrow>
        if cs \<noteq> [] \<and> length cs \<le> 0xFFFF \<and> is_cstring cs
        then s = EFI_SUCCESS \<and> GetBootConfig st' = Inr cs
        else EFI_ERROR s \<and> GetBootConfig st' = GetBootConfig (st\<lparr>gAndromedaBootConfigBuffer := None\<rparr>)
    | None \<Rightarrow>
        EFI_ERROR s \<and> GetBootConfig st' = GetBootConfig (st\<lparr>gAndromedaBootConfigBuffer := None\<rparr>))"
  by (auto simp: SetAndromedaBootConfigBuffer_def GetBootConfig_def is_cstring_code
      ANDROMEDA_BOOT_CONFIG_MAX_SIZE_def Let_def split: option.splits if_splits)

lemma SetAndromedaBootConfigBuffer_readers_witness:
  "GetBootConfig (snd (SetAndromedaBootConfigBuffer (Some ''a=1'') sample_state)) = Inr ''a=1'' \<and>
   GetBootConfig (snd (SetAndromedaBootConfigBuffer (Some [NUL]) sample_state)) = Inl EFI_NOT_FOUND"
  using SetAndromedaBootConfigBuffer_readers [of "Some ''a=1''" sample_state EFI_SUCCESS
      "snd (SetAndromedaBootConfigBuffer (Some ''a=1'') sample_state)"]
    SetAndromedaBootConfigBuffer_readers [of "Some [NUL]" sample_state EFI_COMPROMISED_DATA
      "snd (SetAndromedaBootConfigBuffer (Some [NUL]) sample_state)"]
  by (simp add: is_cstring_code SetAndromedaBootConfigBuffer_def ANDROMEDA_BOOT_CONFIG_MAX_SIZE_def
      GetBootConfig_def sample_state_def)

text \<open>\<open>GetAndromedaBootConfigUint32\<close> returns a value only when the 64-bit value fits in 32 bits,
  and then it is that value.\<close>

theorem GetAndromedaBootConfigUint32_exact:
  "GetAndromedaBootConfigUint32 st sec key True =
     (case GetAndromedaBootConfigUint64 st sec key True of
        Inl e \<Rightarrow> Inl e
      | Inr v \<Rightarrow> if unat v < 2 ^ 32 then Inr (word_of_nat (unat v)) else Inl EFI_COMPROMISED_DATA)"
proof -
  have "(v > 0xFFFFFFFF) \<longleftrightarrow> \<not> unat v < 2 ^ 32" for v :: u64
    by (simp add: word_less_nat_alt not_less) linarith
  moreover have "ucast v = (word_of_nat (unat v) :: u32)" for v :: u64
    by (rule of_nat_unat [symmetric])
  ultimately show ?thesis
    by (simp add: GetAndromedaBootConfigUint32_def split: sum.splits)
qed

end
