(* ===== verification/Memory_Map_Config.thy ===== *)
theory Memory_Map_Config
  imports Boot_Config
begin

text \<open>
  The memory-map records of the boot configuration (\<^verbatim>\<open>QcomUefiPlatMemoryMapLib.c\<close>): a CSV record
  per line, its translation to a descriptor, the loader of a section, and the PStore overlay with
  its placement check. An array with its count is the list of the first \<open>*DescriptorCount\<close>
  elements. A C string is the list of its characters; the in-place edits of a record are
  computed on the fields they leave behind.
\<close>

section \<open>Descriptors\<close>

datatype hob_option = NoHob | AddMem | AddDev | HobOnlyNoCacheSetting | AllocOnly

datatype resource_type =
    EFI_RESOURCE_SYSTEM_MEMORY
  | EFI_RESOURCE_MEMORY_MAPPED_IO
  | EFI_RESOURCE_IO
  | EFI_RESOURCE_FIRMWARE_DEVICE
  | EFI_RESOURCE_MEMORY_MAPPED_IO_PORT
  | EFI_RESOURCE_MEMORY_RESERVED
  | EFI_RESOURCE_IO_RESERVED

datatype resource_attribute =
    ATTR_PRESENT
  | ATTR_INITIALIZED
  | ATTR_TESTED
  | ATTR_READ_PROTECTED
  | ATTR_WRITE_PROTECTED
  | ATTR_EXECUTION_PROTECTED
  | ATTR_UNCACHEABLE
  | ATTR_WRITE_COMBINEABLE
  | ATTR_WRITE_THROUGH_CACHEABLE
  | ATTR_WRITE_BACK_CACHEABLE
  | ATTR_READ_PROTECTABLE
  | ATTR_WRITE_PROTECTABLE
  | ATTR_EXECUTION_PROTECTABLE

datatype efi_memory_type =
    EfiReservedMemoryType
  | EfiLoaderCode
  | EfiLoaderData
  | EfiBootServicesCode
  | EfiBootServicesData
  | EfiRuntimeServicesCode
  | EfiRuntimeServicesData
  | EfiConventionalMemory
  | EfiUnusableMemory
  | EfiACPIReclaimMemory
  | EfiACPIMemoryNVS
  | EfiMemoryMappedIO
  | EfiMemoryMappedIOPortSpace
  | EfiPalCode
  | EfiMaxMemoryType

datatype arm_attributes =
    ARM_UNCACHED_UNBUFFERED
  | ARM_WRITE_BACK
  | ARM_WRITE_THROUGH
  | ARM_DEVICE

text \<open>Resource attributes are a bit mask; the mask is the list of its flags.\<close>

record mem_desc =
  Name :: string
  Address :: u64
  Length :: u64
  HobOption :: hob_option
  ResourceType :: resource_type
  ResourceAttribute :: "resource_attribute list"
  MemoryType :: efi_memory_type
  ArmAttributes :: arm_attributes

definition SYS_MEM_CAP :: "resource_attribute list" where
  "SYS_MEM_CAP =
     [ATTR_PRESENT, ATTR_INITIALIZED, ATTR_TESTED, ATTR_UNCACHEABLE, ATTR_WRITE_COMBINEABLE,
      ATTR_WRITE_THROUGH_CACHEABLE, ATTR_WRITE_BACK_CACHEABLE, ATTR_EXECUTION_PROTECTABLE,
      ATTR_READ_PROTECTABLE, ATTR_WRITE_PROTECTABLE]"

definition SYS_MEM_CAP_XN :: "resource_attribute list" where
  "SYS_MEM_CAP_XN = SYS_MEM_CAP @ [ATTR_EXECUTION_PROTECTED]"

definition MEMORY_REGION_NAME_MAX_LENGTH :: nat where
  "MEMORY_REGION_NAME_MAX_LENGTH = 32"

definition MEMORY_MAP_CONFIG_ENTRY_SIZE :: nat where
  "MEMORY_MAP_CONFIG_ENTRY_SIZE = 512"

section \<open>Fields of a record\<close>

definition MemoryMapConfigTrimField :: "string \<Rightarrow> string" where
  "MemoryMapConfigTrimField Fld =
     rev (dropWhile (\<lambda>c. c = CHR '' '' \<or> c = CHR 0x09)
       (rev (dropWhile (\<lambda>c. c = CHR '' '' \<or> c = CHR 0x09) Fld)))"

text \<open>
  The scan that cuts the record at the commas outside quotes. \<open>Done\<close> is the fields already cut and
  \<open>Fld\<close> the characters of the current one, so \<open>FieldCount\<close> is \<open>length Done + 1\<close>.
\<close>

fun SplitCsv_scan ::
  "nat \<Rightarrow> string \<Rightarrow> bool \<Rightarrow> string \<Rightarrow> string list \<Rightarrow> efi_status + (bool \<times> string list)" where
  "SplitCsv_scan Expected [] InQuotes Fld Done = Inr (InQuotes, Done @ [Fld])"
| "SplitCsv_scan Expected (c # cs) InQuotes Fld Done =
     (if c = CHR 0x22 then
        if InQuotes \<and> cs \<noteq> [] \<and> hd cs = CHR 0x22
        then SplitCsv_scan Expected (tl cs) InQuotes (Fld @ [c, hd cs]) Done
        else SplitCsv_scan Expected cs (\<not> InQuotes) (Fld @ [c]) Done
      else if c = CHR '','' \<and> \<not> InQuotes then
        if length Done + 1 \<ge> Expected then Inl EFI_COMPROMISED_DATA
        else SplitCsv_scan Expected cs InQuotes [] (Done @ [Fld])
      else SplitCsv_scan Expected cs InQuotes (Fld @ [c]) Done)"

text \<open>The copy loop that undoubles quotes.\<close>

fun Undouble :: "string \<Rightarrow> string" where
  "Undouble [] = []"
| "Undouble (c # cs) =
     (if c = CHR 0x22 \<and> cs \<noteq> [] \<and> hd cs = CHR 0x22 then hd cs # Undouble (tl cs)
      else c # Undouble cs)"

definition SplitCsv_field :: "string \<Rightarrow> efi_status + string" where
  "SplitCsv_field Raw =
     (let Fld = MemoryMapConfigTrimField Raw
      in if cstr_at Fld 0 = CHR 0x22 then
           if length Fld < 2 \<or> Fld ! (length Fld - 1) \<noteq> CHR 0x22
           then Inl EFI_COMPROMISED_DATA
           else
             let Destination = Undouble (tl Fld)
             in if Destination = [] then Inl EFI_COMPROMISED_DATA else Inr (butlast Destination)
         else if list_ex (\<lambda>c. c = CHR 0x22) Fld then Inl EFI_COMPROMISED_DATA
         else Inr Fld)"

fun SplitCsv_fields :: "string list \<Rightarrow> efi_status + string list" where
  "SplitCsv_fields [] = Inr []"
| "SplitCsv_fields (f # fs) =
     bindE (SplitCsv_field f) (\<lambda>x. bindE (SplitCsv_fields fs) (\<lambda>xs. Inr (x # xs)))"

definition MemoryMapConfigSplitCsv :: "string \<Rightarrow> nat \<Rightarrow> efi_status + string list" where
  "MemoryMapConfigSplitCsv Record ExpectedFieldCount =
     bindE (SplitCsv_scan ExpectedFieldCount Record False [] [])
       (\<lambda>(InQuotes, Fields).
          if InQuotes \<or> length Fields \<noteq> ExpectedFieldCount then Inl EFI_COMPROMISED_DATA
          else SplitCsv_fields Fields)"

definition MemoryMapConfigParseUint64 :: "string \<Rightarrow> efi_status + u64" where
  "MemoryMapConfigParseUint64 Text =
     (if cstr_at Text 0 = NUL then Inl EFI_COMPROMISED_DATA
      else if cstr_at Text 0 = CHR ''0'' \<and> (cstr_at Text 1 = CHR ''x'' \<or> cstr_at Text 1 = CHR ''X'')
      then if cstr_at Text 2 = NUL then Inl EFI_COMPROMISED_DATA else Uint64_loop Text 16 2 0
      else Uint64_loop Text 10 0 0)"

section \<open>Name tables and descriptors\<close>

fun NameLookup :: "(string \<times> 'a) list \<Rightarrow> string \<Rightarrow> efi_status + 'a" where
  "NameLookup [] Fld = Inl EFI_COMPROMISED_DATA"
| "NameLookup ((n, v) # Table) Fld =
     (if AsciiStriCmp_eq Fld n then Inr v else NameLookup Table Fld)"

definition HobOptions :: "(string \<times> hob_option) list" where
  "HobOptions =
     [(''NoHob'', NoHob), (''AddMem'', AddMem), (''AddDev'', AddDev),
      (''HobOnlyNoCacheSetting'', HobOnlyNoCacheSetting), (''AllocOnly'', AllocOnly)]"

definition ResourceTypes :: "(string \<times> resource_type) list" where
  "ResourceTypes =
     [(''FIRMWARE_DEV'', EFI_RESOURCE_FIRMWARE_DEVICE), (''IO'', EFI_RESOURCE_IO),
      (''IO_RES'', EFI_RESOURCE_IO_RESERVED), (''MEM_RES'', EFI_RESOURCE_MEMORY_RESERVED),
      (''MMAP_IO'', EFI_RESOURCE_MEMORY_MAPPED_IO),
      (''MMAP_IO_PORT'', EFI_RESOURCE_MEMORY_MAPPED_IO_PORT),
      (''SYS_MEM'', EFI_RESOURCE_SYSTEM_MEMORY)]"

definition ResourceAttributes :: "(string \<times> resource_attribute list) list" where
  "ResourceAttributes =
     [(''EXECUTION_PROTECTED'', [ATTR_EXECUTION_PROTECTED]), (''INITIALIZED'', [ATTR_INITIALIZED]),
      (''PRESENT'', [ATTR_PRESENT]), (''PROTECTED'', [ATTR_READ_PROTECTED]),
      (''SYS_MEM_CAP'', SYS_MEM_CAP), (''SYS_MEM_CAP_XN'', SYS_MEM_CAP_XN),
      (''TESTED'', [ATTR_TESTED]), (''UNCACHEABLE'', [ATTR_UNCACHEABLE]),
      (''WRITE_COMBINEABLE'', [ATTR_WRITE_COMBINEABLE]),
      (''WRITE_PROTECTED'', [ATTR_WRITE_PROTECTED])]"

definition MemoryTypes :: "(string \<times> efi_memory_type) list" where
  "MemoryTypes =
     [(''ACPI_NVS'', EfiACPIMemoryNVS), (''ACPIReclaim'', EfiACPIReclaimMemory),
      (''BsCode'', EfiBootServicesCode), (''BsData'', EfiBootServicesData),
      (''Conv'', EfiConventionalMemory), (''LdCode'', EfiLoaderCode), (''LdData'', EfiLoaderData),
      (''MaxMem'', EfiMaxMemoryType), (''MmIO'', EfiMemoryMappedIO),
      (''MmIOPort'', EfiMemoryMappedIOPortSpace), (''PalCode'', EfiPalCode),
      (''Reserv'', EfiReservedMemoryType), (''RtCode'', EfiRuntimeServicesCode),
      (''RtData'', EfiRuntimeServicesData), (''Unusable'', EfiUnusableMemory)]"

definition ArmAttributesTable :: "(string \<times> arm_attributes) list" where
  "ArmAttributesTable =
     [(''DEVICE'', ARM_DEVICE), (''NS_DEVICE'', ARM_DEVICE),
      (''NS_UNCACHED_UNBUFFERED'', ARM_UNCACHED_UNBUFFERED), (''NS_WRITE_BACK'', ARM_WRITE_BACK),
      (''NS_WRITE_THROUGH'', ARM_WRITE_THROUGH), (''UNCACHED_UNBUFFERED'', ARM_UNCACHED_UNBUFFERED),
      (''UNCACHED_UNBUFFERED_XN'', ARM_UNCACHED_UNBUFFERED), (''WRITE_BACK'', ARM_WRITE_BACK),
      (''WRITE_BACK_XN'', ARM_WRITE_BACK), (''WRITE_THROUGH'', ARM_WRITE_THROUGH),
      (''WRITE_THROUGH_XN'', ARM_WRITE_THROUGH)]"

definition MemoryMapConfigParseDescriptor :: "string \<Rightarrow> efi_status + mem_desc" where
  "MemoryMapConfigParseDescriptor Record =
     bindE (MemoryMapConfigSplitCsv Record 8) (\<lambda>Fields.
       let Field2 = MemoryMapConfigTrimField (Fields ! 2);
           NameLength = length Field2
       in if NameLength = 0 \<or> NameLength \<ge> MEMORY_REGION_NAME_MAX_LENGTH
          then Inl EFI_COMPROMISED_DATA
          else
            bindE (MemoryMapConfigParseUint64 (Fields ! 0)) (\<lambda>Addr.
              case MemoryMapConfigParseUint64 (Fields ! 1) of
                Inl e \<Rightarrow> Inl EFI_COMPROMISED_DATA
              | Inr Len \<Rightarrow>
                  if Len = 0 \<or> Addr > (- 1) - Len then Inl EFI_COMPROMISED_DATA
                  else
                    bindE (NameLookup HobOptions (Fields ! 3)) (\<lambda>Hob.
                    bindE (NameLookup ResourceTypes (Fields ! 4)) (\<lambda>Type.
                    bindE (NameLookup ResourceAttributes (Fields ! 5)) (\<lambda>Attr.
                    bindE (NameLookup MemoryTypes (Fields ! 6)) (\<lambda>Mem.
                    bindE (NameLookup ArmAttributesTable (Fields ! 7)) (\<lambda>Arm.
                      Inr \<lparr>Name = Field2, Address = Addr, Length = Len, HobOption = Hob,
                           ResourceType = Type, ResourceAttribute = Attr, MemoryType = Mem,
                           ArmAttributes = Arm\<rparr>)))))))"

section \<open>Loading a section\<close>

definition MemoryMapConfigReadDescriptor ::
  "boot_config_state \<Rightarrow> string \<Rightarrow> nat \<Rightarrow> efi_status + mem_desc" where
  "MemoryMapConfigReadDescriptor st Section EntryIndex =
     (case GetAndromedaBootConfigSectionEntry st (Some Section) EntryIndex True
             (Some MEMORY_MAP_CONFIG_ENTRY_SIZE) of
        (Status, Record, _) \<Rightarrow>
          if EFI_ERROR Status then Inl Status
          else (case Record of
                  None \<Rightarrow> Inl Status
                | Some Record \<Rightarrow> MemoryMapConfigParseDescriptor Record))"

text \<open>The loop ends: it either stops or uses up one more place of the array.\<close>

function LoadDescriptorSection_loop ::
  "(nat \<Rightarrow> efi_status + mem_desc) \<Rightarrow> nat \<Rightarrow> nat \<Rightarrow> nat \<Rightarrow> mem_desc list \<Rightarrow> efi_status \<times> mem_desc list" where
  "LoadDescriptorSection_loop Read DescriptorCapacity InitialCount EntryIndex Descriptors =
     (case Read EntryIndex of
        Inl Status \<Rightarrow>
          if Status = EFI_NOT_FOUND then
            (if length Descriptors = InitialCount then EFI_NOT_FOUND else EFI_SUCCESS, Descriptors)
          else (Status, Descriptors)
      | Inr Descriptor \<Rightarrow>
          if length Descriptors \<ge> DescriptorCapacity then (EFI_OUT_OF_RESOURCES, Descriptors)
          else LoadDescriptorSection_loop Read DescriptorCapacity InitialCount (Suc EntryIndex)
                 (Descriptors @ [Descriptor]))"
  by pat_completeness auto
termination
  by (relation "measure (\<lambda>(_, cap, _, _, ds). cap - length ds)") auto

declare LoadDescriptorSection_loop.simps [simp del]

definition MemoryMapConfigLoadDescriptorSection ::
  "boot_config_state \<Rightarrow> string option \<Rightarrow> nat \<Rightarrow> mem_desc list \<Rightarrow> efi_status \<times> mem_desc list" where
  "MemoryMapConfigLoadDescriptorSection st Section DescriptorCapacity Descriptors =
     (case Section of
        None \<Rightarrow> (EFI_INVALID_PARAMETER, Descriptors)
      | Some Section \<Rightarrow>
          LoadDescriptorSection_loop (MemoryMapConfigReadDescriptor st Section)
            DescriptorCapacity (length Descriptors) 0 Descriptors)"

section \<open>PStore\<close>

definition MemoryMapConfigLoadPStoreDescriptor :: "boot_config_state \<Rightarrow> efi_status + mem_desc" where
  "MemoryMapConfigLoadPStoreDescriptor st =
     bindE (GetAndromedaBootConfigUint64 st (Some ''AndromedaUefi'') (Some ''PStoreAddress'') True) (\<lambda>Addr.
     bindE (GetAndromedaBootConfigUint64 st (Some ''AndromedaUefi'') (Some ''PStoreSize'') True) (\<lambda>Len.
       if Len = 0 \<or> Addr > (- 1) - Len then Inl EFI_COMPROMISED_DATA
       else Inr \<lparr>Name = ''PStore'', Address = Addr, Length = Len, HobOption = AddMem,
                 ResourceType = EFI_RESOURCE_MEMORY_RESERVED, ResourceAttribute = SYS_MEM_CAP,
                 MemoryType = EfiReservedMemoryType, ArmAttributes = ARM_WRITE_THROUGH\<rparr>))"

definition Workspace_push :: "nat \<Rightarrow> mem_desc list \<Rightarrow> mem_desc \<Rightarrow> efi_status + mem_desc list" where
  "Workspace_push DescriptorCapacity Workspace d =
     (if length Workspace \<ge> DescriptorCapacity then Inl EFI_OUT_OF_RESOURCES else Inr (Workspace @ [d]))"

definition Overlay_step ::
  "nat \<Rightarrow> mem_desc \<Rightarrow> mem_desc \<Rightarrow> bool \<times> mem_desc list \<Rightarrow> efi_status + bool \<times> mem_desc list" where
  "Overlay_step DescriptorCapacity Overlay Descriptor = (\<lambda>(OverlayInserted, Workspace).
     let OverlayEnd = Address Overlay + Length Overlay;
         DescriptorEnd = Address Descriptor + Length Descriptor;
         Insert = (\<lambda>Workspace. bindE (Workspace_push DescriptorCapacity Workspace Overlay)
                     (\<lambda>Workspace. Inr (True, Workspace)))
     in bindE (if \<not> OverlayInserted \<and> Address Descriptor \<ge> Address Overlay
               then Insert Workspace else Inr (OverlayInserted, Workspace)) (\<lambda>(OverlayInserted, Workspace).
        if Address Descriptor < OverlayEnd \<and> Address Overlay < DescriptorEnd then
          bindE (if Address Descriptor < Address Overlay
                 then Workspace_push DescriptorCapacity Workspace
                        (Descriptor\<lparr>Length := Address Overlay - Address Descriptor\<rparr>)
                 else Inr Workspace) (\<lambda>Workspace.
          bindE (if \<not> OverlayInserted then Insert Workspace else Inr (OverlayInserted, Workspace))
            (\<lambda>(OverlayInserted, Workspace).
          bindE (if DescriptorEnd > OverlayEnd
                 then Workspace_push DescriptorCapacity Workspace
                        (Descriptor\<lparr>Address := OverlayEnd, Length := DescriptorEnd - OverlayEnd\<rparr>)
                 else Inr Workspace) (\<lambda>Workspace. Inr (OverlayInserted, Workspace))))
        else
          bindE (Workspace_push DescriptorCapacity Workspace Descriptor)
            (\<lambda>Workspace. Inr (OverlayInserted, Workspace))))"

fun Overlay_loop ::
  "nat \<Rightarrow> mem_desc \<Rightarrow> mem_desc list \<Rightarrow> bool \<times> mem_desc list \<Rightarrow> efi_status + bool \<times> mem_desc list" where
  "Overlay_loop cap Overlay [] s = Inr s"
| "Overlay_loop cap Overlay (d # ds) s =
     bindE (Overlay_step cap Overlay d s) (Overlay_loop cap Overlay ds)"

text \<open>On an error the caller's array and count are unchanged.\<close>

definition MemoryMapConfigOverlayDescriptor ::
  "mem_desc list \<Rightarrow> nat \<Rightarrow> mem_desc \<Rightarrow> efi_status + mem_desc list" where
  "MemoryMapConfigOverlayDescriptor Descriptors DescriptorCapacity Overlay =
     (if length Descriptors > DescriptorCapacity then Inl EFI_INVALID_PARAMETER
      else if Address Overlay > (- 1) - Length Overlay then Inl EFI_COMPROMISED_DATA
      else
        bindE (Overlay_loop DescriptorCapacity Overlay Descriptors (False, []))
          (\<lambda>(OverlayInserted, Workspace).
             if \<not> OverlayInserted then Workspace_push DescriptorCapacity Workspace Overlay
             else Inr Workspace))"

record ddr_bank =
  Base :: u64
  BankLength :: u64

fun PStore_scan :: "mem_desc list \<Rightarrow> nat \<Rightarrow> nat option \<Rightarrow> nat \<Rightarrow> nat option \<times> nat" where
  "PStore_scan [] DescriptorIndex PStore PStoreCount = (PStore, PStoreCount)"
| "PStore_scan (d # ds) DescriptorIndex PStore PStoreCount =
     (if AsciiStriCmp_eq (Name d) ''PStore''
      then PStore_scan ds (Suc DescriptorIndex) (Some DescriptorIndex) (PStoreCount + 1)
      else PStore_scan ds (Suc DescriptorIndex) PStore PStoreCount)"

definition MemoryMapConfigValidatePStorePlacement ::
  "mem_desc list \<Rightarrow> ddr_bank list \<Rightarrow> efi_status" where
  "MemoryMapConfigValidatePStorePlacement Descriptors DdrBankRegions =
     (case PStore_scan Descriptors 0 None 0 of
        (PStore, PStoreCount) \<Rightarrow>
          if PStoreCount \<noteq> 1 then EFI_COMPROMISED_DATA
          else (case PStore of
                  None \<Rightarrow> EFI_COMPROMISED_DATA
                | Some p \<Rightarrow>
                    let P = Descriptors ! p;
                        PStoreEnd = Address P + Length P
                    in if \<not> list_ex (\<lambda>r. Address P \<ge> Base r \<and> PStoreEnd \<le> Base r + BankLength r) DdrBankRegions
                       then EFI_COMPROMISED_DATA
                       else if list_ex (\<lambda>i. i \<noteq> p \<and> Address (Descriptors ! i) < PStoreEnd \<and>
                                 Address P < Address (Descriptors ! i) + Length (Descriptors ! i))
                               [0..<length Descriptors]
                       then EFI_COMPROMISED_DATA
                       else EFI_SUCCESS))"

section \<open>CSV round trip\<close>

text \<open>A field written with quotes, its inner quotes doubled, and a record of such fields.\<close>

fun escape :: "string \<Rightarrow> string" where
  "escape [] = []"
| "escape (c # cs) = (if c = CHR 0x22 then CHR 0x22 # CHR 0x22 # escape cs else c # escape cs)"

definition quote_field :: "string \<Rightarrow> string" where
  "quote_field s = CHR 0x22 # escape s @ [CHR 0x22]"

fun join_record :: "string list \<Rightarrow> string" where
  "join_record [] = []"
| "join_record [f] = quote_field f"
| "join_record (f # fs) = quote_field f @ CHR '','' # join_record fs"

lemma SplitCsv_scan_quoted:
  assumes "rest = [] \<or> hd rest \<noteq> CHR 0x22"
  shows "SplitCsv_scan n (escape s @ CHR 0x22 # rest) True cur fs =
    SplitCsv_scan n rest False (cur @ escape s @ [CHR 0x22]) fs"
proof (induction s arbitrary: cur)
  case Nil
  then show ?case using assms by auto
next
  case (Cons c s)
  then show ?case by simp
qed

lemma SplitCsv_scan_quote_field:
  assumes "rest = [] \<or> hd rest \<noteq> CHR 0x22"
  shows "SplitCsv_scan n (quote_field s @ rest) False [] fs = SplitCsv_scan n rest False (quote_field s) fs"
  using SplitCsv_scan_quoted [OF assms, of n s] by (simp add: quote_field_def)

lemma SplitCsv_scan_join:
  "fs \<noteq> [] \<Longrightarrow> length done + length fs \<le> n \<Longrightarrow>
   SplitCsv_scan n (join_record fs) False [] done = Inr (False, done @ map quote_field fs)"
proof (induction fs arbitrary: "done" rule: join_record.induct)
  case (2 f)
  then show ?case using SplitCsv_scan_quote_field [of "[]" n f "done"] by simp
next
  case (3 f g fs)
  then show ?case
    using SplitCsv_scan_quote_field [of "CHR '','' # join_record (g # fs)" n f "done"] by simp
qed simp

lemma Undouble_escape: "Undouble (escape s @ [CHR 0x22]) = s @ [CHR 0x22]"
  by (induction s) auto

lemma SplitCsv_field_quote: "SplitCsv_field (quote_field s) = Inr s"
proof -
  have "MemoryMapConfigTrimField (quote_field s) = quote_field s"
    by (simp add: MemoryMapConfigTrimField_def quote_field_def)
  then show ?thesis
    by (simp add: SplitCsv_field_def quote_field_def Undouble_escape nth_append)
qed

lemma SplitCsv_fields_quote: "SplitCsv_fields (map quote_field fs) = Inr fs"
  by (induction fs) (simp_all add: SplitCsv_field_quote)

text \<open>the CSV reader inverts quoting. A record whose fields are written in quotes, with quotes
  inside doubled, is split into exactly those fields, whatever commas, quotes and blanks they hold.\<close>

theorem MemoryMapConfigSplitCsv_roundtrip:
  assumes "fs \<noteq> []"
  shows "MemoryMapConfigSplitCsv (join_record fs) (length fs) = Inr fs"
  using SplitCsv_scan_join [OF assms, of "[]" "length fs"]
  by (simp add: MemoryMapConfigSplitCsv_def SplitCsv_fields_quote)

lemma MemoryMapConfigSplitCsv_roundtrip_witness:
  "MemoryMapConfigSplitCsv (join_record [''a,b'', [], [CHR 0x22, CHR '' '']]) 3 =
   Inr [''a,b'', [], [CHR 0x22, CHR '' '']]"
  using MemoryMapConfigSplitCsv_roundtrip [of "[''a,b'', [], [CHR 0x22, CHR '' '']]"]
  by (simp add: numeral_3_eq_3)

section \<open>Well-formed descriptors\<close>

definition wf_desc :: "mem_desc \<Rightarrow> bool" where
  "wf_desc d \<longleftrightarrow> Name d \<noteq> [] \<and> length (Name d) < MEMORY_REGION_NAME_MAX_LENGTH \<and>
     Length d \<noteq> 0 \<and> no_wrap (Address d) (Length d)"

lemma wf_descD:
  assumes "wf_desc d"
  shows "Length d \<noteq> 0" "no_wrap (Address d) (Length d)" "unat (Address d + Length d) = unat (Address d) + unat (Length d)"
  using assms by (auto simp: wf_desc_def unat_end)

lemma MemoryMapConfigParseDescriptor_wf:
  "MemoryMapConfigParseDescriptor r = Inr d \<Longrightarrow> wf_desc d"
  by (auto simp: MemoryMapConfigParseDescriptor_def wf_desc_def no_wrap_def bindE_eq_Inr case_sum_eq_Inr
      Let_def split: if_split_asm)

lemma MemoryMapConfigLoadPStoreDescriptor_wf:
  "MemoryMapConfigLoadPStoreDescriptor st = Inr d \<Longrightarrow>
   wf_desc d \<and> Name d = ''PStore'' \<and> ResourceType d = EFI_RESOURCE_MEMORY_RESERVED"
  by (auto simp: MemoryMapConfigLoadPStoreDescriptor_def wf_desc_def no_wrap_def bindE_eq_Inr
      MEMORY_REGION_NAME_MAX_LENGTH_def split: if_splits)

lemma MemoryMapConfigReadDescriptor_wf:
  "MemoryMapConfigReadDescriptor st sec n = Inr d \<Longrightarrow> wf_desc d"
  by (auto simp: MemoryMapConfigReadDescriptor_def MemoryMapConfigParseDescriptor_wf
      split: prod.splits if_splits option.splits)

text \<open>The CSV number reader and the key reader agree.\<close>

lemma MemoryMapConfigParseUint64_eq: "MemoryMapConfigParseUint64 = ParseUint64"
  by (rule ext) (auto simp: MemoryMapConfigParseUint64_def ParseUint64_def)

section \<open>The PStore overlay\<close>

definition covers :: "mem_desc \<Rightarrow> nat \<Rightarrow> bool" where
  "covers d x \<longleftrightarrow> in_range (Address d) (Length d) x"

text \<open>What a map says about the address \<open>x\<close>: the descriptors that cover it, in order, without their
  ranges.\<close>

definition attrs_of :: "mem_desc \<Rightarrow> mem_desc" where
  "attrs_of d = d\<lparr>Address := 0, Length := 0\<rparr>"

definition view :: "mem_desc list \<Rightarrow> nat \<Rightarrow> mem_desc list" where
  "view ds x = map attrs_of (filter (\<lambda>d. covers d x) ds)"

lemma view_simps [simp]:
  "view [] x = []" "view (ds @ es) x = view ds x @ view es x"
  "view (d # ds) x = (if covers d x then attrs_of d # view ds x else view ds x)"
  by (simp_all add: view_def)

lemma Workspace_push_eq_Inr [simp]:
  "Workspace_push cap ws d = Inr ws' \<longleftrightarrow> ws' = ws @ [d] \<and> length ws < cap"
  by (auto simp: Workspace_push_def)

definition overlay_left :: "mem_desc \<Rightarrow> mem_desc \<Rightarrow> mem_desc" where
  "overlay_left ov d = d\<lparr>Length := Address ov - Address d\<rparr>"

definition overlay_right :: "mem_desc \<Rightarrow> mem_desc \<Rightarrow> mem_desc" where
  "overlay_right ov d =
     d\<lparr>Address := Address ov + Length ov, Length := (Address d + Length d) - (Address ov + Length ov)\<rparr>"

definition overlaps :: "mem_desc \<Rightarrow> mem_desc \<Rightarrow> bool" where
  "overlaps ov d \<longleftrightarrow> Address d < Address ov + Length ov \<and> Address ov < Address d + Length d"

definition overlay_pieces :: "mem_desc \<Rightarrow> mem_desc \<Rightarrow> bool \<Rightarrow> mem_desc list" where
  "overlay_pieces ov d ins =
     (if \<not> ins \<and> Address ov \<le> Address d then [ov] else []) @
     (if overlaps ov d then
        (if Address d < Address ov then [overlay_left ov d] else []) @
        (if \<not> ins \<and> Address d < Address ov then [ov] else []) @
        (if Address ov + Length ov < Address d + Length d then [overlay_right ov d] else [])
      else [d])"

lemma Overlay_step_pieces:
  assumes "Overlay_step cap ov d (ins, ws) = Inr (ins', ws')"
  shows "ws' = ws @ overlay_pieces ov d ins \<and>
    (ins' \<longleftrightarrow> ins \<or> Address ov \<le> Address d \<or> overlaps ov d) \<and>
    (length ws \<le> cap \<longrightarrow> length ws' \<le> cap)"
proof -
  note defs = Overlay_step_def overlay_pieces_def overlay_left_def overlay_right_def bindE_eq_Inr Let_def
  consider (no) "\<not> overlaps ov d" | (before) "overlaps ov d" "Address d < Address ov"
    | (after) "overlaps ov d" "\<not> Address d < Address ov" by blast
  then show ?thesis
  proof cases
    case no
    then have "\<not> (Address d < Address ov + Length ov \<and> Address ov < Address d + Length d)"
      by (simp add: overlaps_def)
    with assms no show ?thesis
      by (cases "\<not> ins \<and> Address ov \<le> Address d") (auto simp: defs)
  next
    case before
    then have h: "Address d < Address ov + Length ov" "Address ov < Address d + Length d"
      by (simp_all add: overlaps_def)
    with assms before show ?thesis
      by (cases ins; cases "Address ov + Length ov < Address d + Length d") (auto simp: defs)
  next
    case after
    then have h: "Address d < Address ov + Length ov" "Address ov < Address d + Length d"
      by (simp_all add: overlaps_def)
    with assms after show ?thesis
      by (cases ins; cases "Address ov + Length ov < Address d + Length d") (auto simp: defs not_less)
  qed
qed

lemma covers_fragments:
  assumes "no_wrap (Address ov) (Length ov)" "no_wrap (Address d) (Length d)" "overlaps ov d"
  shows "Address d < Address ov \<Longrightarrow>
      covers (overlay_left ov d) x \<longleftrightarrow> covers d x \<and> x < unat (Address ov)"
    and "Address ov + Length ov < Address d + Length d \<Longrightarrow>
      covers (overlay_right ov d) x \<longleftrightarrow> covers d x \<and> unat (Address ov + Length ov) \<le> x"
  using assms
  by (auto simp: covers_def in_range_def overlay_left_def overlay_right_def overlaps_def
      unat_end unat_sub word_less_nat_alt word_le_nat_alt)

lemma attrs_of_fragments [simp]:
  "attrs_of (overlay_left ov d) = attrs_of d" "attrs_of (overlay_right ov d) = attrs_of d"
  by (simp_all add: attrs_of_def overlay_left_def overlay_right_def)

lemma overlaps_iff:
  assumes "no_wrap (Address ov) (Length ov)" "no_wrap (Address d) (Length d)"
  shows "overlaps ov d \<longleftrightarrow>
    unat (Address d) < unat (Address ov) + unat (Length ov) \<and>
    unat (Address ov) < unat (Address d) + unat (Length d)"
  using assms by (simp add: overlaps_def word_less_nat_alt unat_end)

lemma view_pieces:
  assumes "no_wrap (Address ov) (Length ov)" "no_wrap (Address d) (Length d)"
  shows "view (overlay_pieces ov d ins) x =
    (if covers ov x then if \<not> ins \<and> (Address ov \<le> Address d \<or> overlaps ov d) then [attrs_of ov] else []
     else view [d] x)"
proof (cases "overlaps ov d")
  case True
  note frag = covers_fragments [OF assms True, of x]
  have cov: "covers ov x \<longleftrightarrow> unat (Address ov) \<le> x \<and> x < unat (Address ov + Length ov)"
    "covers d x \<longleftrightarrow> unat (Address d) \<le> x \<and> x < unat (Address d + Length d)"
    using assms by (simp_all add: covers_def in_range_def unat_end)
  have "unat (Address ov) \<le> unat (Address ov + Length ov)" using assms by (simp add: unat_end)
  then show ?thesis
    using True frag cov
    by (auto simp: overlay_pieces_def word_less_nat_alt word_le_nat_alt)
next
  case False
  then have "covers ov x \<Longrightarrow> \<not> covers d x"
    using overlaps_iff [OF assms] by (auto simp: covers_def in_range_def)
  with False show ?thesis by (auto simp: overlay_pieces_def)
qed

lemma Overlay_loop_view:
  "Overlay_loop cap ov ds (ins, ws) = Inr (ins', ws') \<Longrightarrow>
   no_wrap (Address ov) (Length ov) \<Longrightarrow> (\<forall>d \<in> set ds. no_wrap (Address d) (Length d)) \<Longrightarrow>
   (ins \<longrightarrow> ins') \<and>
   view ws' x = view ws x @ (if covers ov x then if ins' \<and> \<not> ins then [attrs_of ov] else [] else view ds x)"
proof (induction ds arbitrary: ins ws)
  case (Cons d ds)
  then obtain ins1 ws1 where s: "Overlay_step cap ov d (ins, ws) = Inr (ins1, ws1)"
    and l: "Overlay_loop cap ov ds (ins1, ws1) = Inr (ins', ws')"
    by (auto simp: bindE_eq_Inr)
  note p = Overlay_step_pieces [OF s]
  have nw: "no_wrap (Address d) (Length d)" using Cons.prems(3) by simp
  have IH: "(ins1 \<longrightarrow> ins') \<and> view ws' x = view ws1 x @
      (if covers ov x then if ins' \<and> \<not> ins1 then [attrs_of ov] else [] else view ds x)"
    using Cons.IH [OF l Cons.prems(2)] Cons.prems(3) by simp
  show ?case
    using IH p view_pieces [OF Cons.prems(2) nw, of ins x] by auto
qed simp

lemma Overlay_loop_length:
  "Overlay_loop cap ov ds (ins, ws) = Inr (ins', ws') \<Longrightarrow> length ws \<le> cap \<Longrightarrow> length ws' \<le> cap"
proof (induction ds arbitrary: ins ws)
  case (Cons d ds)
  then obtain ins1 ws1 where "Overlay_step cap ov d (ins, ws) = Inr (ins1, ws1)"
    "Overlay_loop cap ov ds (ins1, ws1) = Inr (ins', ws')"
    by (auto simp: bindE_eq_Inr)
  with Cons Overlay_step_pieces show ?case by blast
qed simp

lemma wf_pieces:
  assumes "wf_desc ov" "wf_desc d" "p \<in> set (overlay_pieces ov d ins)"
  shows "wf_desc p"
proof -
  note o = wf_descD [OF assms(1)] and d = wf_descD [OF assms(2)]
  have l: "wf_desc (overlay_left ov d)" if "overlaps ov d" "Address d < Address ov"
    using that assms(2) o d overlaps_iff [OF o(2) d(2)]
    by (auto simp: wf_desc_def overlay_left_def no_wrap_iff unat_sub word_less_nat_alt
        word_le_nat_alt unat_eq_zero [symmetric])
  have r: "wf_desc (overlay_right ov d)" if "Address ov + Length ov < Address d + Length d"
    using that assms(2) o d
    by (auto simp: wf_desc_def overlay_right_def no_wrap_iff unat_sub word_less_nat_alt
        word_le_nat_alt unat_eq_zero [symmetric])
  show ?thesis
    using assms l r by (auto simp: overlay_pieces_def split: if_splits)
qed

lemma Overlay_loop_wf:
  "Overlay_loop cap ov ds (ins, ws) = Inr (ins', ws') \<Longrightarrow> wf_desc ov \<Longrightarrow>
   (\<forall>d \<in> set ds \<union> set ws. wf_desc d) \<Longrightarrow> (\<forall>d \<in> set ws'. wf_desc d)"
proof (induction ds arbitrary: ins ws)
  case (Cons d ds)
  then obtain ins1 ws1 where s: "Overlay_step cap ov d (ins, ws) = Inr (ins1, ws1)"
    and l: "Overlay_loop cap ov ds (ins1, ws1) = Inr (ins', ws')"
    by (auto simp: bindE_eq_Inr)
  have "\<forall>p \<in> set ws1. wf_desc p"
    using Overlay_step_pieces [OF s] wf_pieces [OF Cons.prems(2)] Cons.prems(3) by auto
  with Cons.IH [OF l Cons.prems(2)] Cons.prems(3) show ?case by auto
qed simp

lemma Overlay_step_fails:
  assumes "Overlay_step cap ov d (ins, ws) = Inl e"
  shows "e = EFI_OUT_OF_RESOURCES \<and> cap < length ws + 2 + (if ins then 0 else 1)"
proof -
  have push: "Workspace_push cap w x = Inl e' \<longleftrightarrow> e' = EFI_OUT_OF_RESOURCES \<and> cap \<le> length w" for w x e'
    by (auto simp: Workspace_push_def)
  show ?thesis
  proof (cases ins)
    case True
    with assms show ?thesis
      by (auto simp: Overlay_step_def Let_def push bindE_eq_Inl bindE_eq_Inr split: if_splits)
  next
    case False
    with assms show ?thesis
      by (auto simp: Overlay_step_def Let_def push bindE_eq_Inl bindE_eq_Inr split: if_splits)
  qed
qed

lemma overlay_pieces_length:
  "length (overlay_pieces ov d ins) + (if ins \<or> Address ov \<le> Address d \<or> overlaps ov d then 0 else 1)
   \<le> 2 + (if ins then 0 else 1)"
  by (auto simp: overlay_pieces_def)

lemma Overlay_loop_fails:
  "Overlay_loop cap ov ds (ins, ws) = Inl e \<Longrightarrow>
   e = EFI_OUT_OF_RESOURCES \<and> cap < length ws + 2 * length ds + (if ins then 0 else 1)"
proof (induction ds arbitrary: ins ws)
  case (Cons d ds)
  show ?case
  proof (cases "Overlay_step cap ov d (ins, ws)")
    case (Inl e')
    with Cons.prems Overlay_step_fails [OF Inl] show ?thesis by auto
  next
    case (Inr r)
    obtain ins1 ws1 where r: "r = (ins1, ws1)" by force
    have "e = EFI_OUT_OF_RESOURCES \<and> cap < length ws1 + 2 * length ds + (if ins1 then 0 else 1)"
      using Cons.IH [of ins1 ws1] Cons.prems Inr r by simp
    then show ?thesis
      using Overlay_step_pieces [of cap ov d ins ws ins1 ws1] Inr r overlay_pieces_length [of ov d ins]
      by (auto split: if_splits)
  qed
qed simp

lemma Overlay_loop_mono: "Overlay_loop cap ov ds (True, ws) = Inr (ins', ws') \<Longrightarrow> ins'"
proof (induction ds arbitrary: ws)
  case (Cons d ds)
  then obtain ins1 ws1 where s: "Overlay_step cap ov d (True, ws) = Inr (ins1, ws1)"
    and l: "Overlay_loop cap ov ds (ins1, ws1) = Inr (ins', ws')"
    by (auto simp: bindE_eq_Inr)
  have "ins1" using Overlay_step_pieces [OF s] by simp
  with Cons.IH l show ?case by simp
qed simp

lemma Overlay_loop_not_inserted:
  "Overlay_loop cap ov ds (False, ws) = Inr (False, ws') \<Longrightarrow> length ws' = length ws + length ds"
proof (induction ds arbitrary: ws)
  case (Cons d ds)
  then obtain ins1 ws1 where s: "Overlay_step cap ov d (False, ws) = Inr (ins1, ws1)"
    and l: "Overlay_loop cap ov ds (ins1, ws1) = Inr (False, ws')"
    by (auto simp: bindE_eq_Inr)
  then have "\<not> ins1" using Overlay_loop_mono by metis
  with Cons.IH l Overlay_step_pieces [OF s] show ?case by (simp add: overlay_pieces_def)
qed simp

text \<open>C8: the PStore overlay is exact. On well-formed descriptors it fails only for lack of room,
  which cannot happen when the array holds twice the descriptors and one more. Otherwise the new map
  fits, is well formed, and says at every address: inside the overlay, only the overlay, once;
  outside it, what the old map said.\<close>

theorem MemoryMapConfigOverlayDescriptor_exact:
  assumes "\<forall>d \<in> set ds. wf_desc d" "wf_desc ov"
  shows "case MemoryMapConfigOverlayDescriptor ds cap ov of
      Inl e \<Rightarrow> (e = EFI_OUT_OF_RESOURCES \<or> e = EFI_INVALID_PARAMETER) \<and> cap < 2 * length ds + 1
    | Inr ds' \<Rightarrow> length ds' \<le> cap \<and> (\<forall>d \<in> set ds'. wf_desc d) \<and>
        (\<forall>x. view ds' x = (if covers ov x then [attrs_of ov] else view ds x))"
proof (cases "length ds > cap")
  case True
  then show ?thesis by (simp add: MemoryMapConfigOverlayDescriptor_def)
next
  case False
  have nw: "no_wrap (Address ov) (Length ov)" "\<forall>d \<in> set ds. no_wrap (Address d) (Length d)"
    using assms wf_descD(2) by auto
  have eq: "MemoryMapConfigOverlayDescriptor ds cap ov =
      bindE (Overlay_loop cap ov ds (False, []))
        (\<lambda>(ins, ws). if \<not> ins then Workspace_push cap ws ov else Inr ws)"
    using False nw(1) by (simp add: MemoryMapConfigOverlayDescriptor_def no_wrap_def)
  show ?thesis
  proof (cases "Overlay_loop cap ov ds (False, [])")
    case (Inl e)
    with Overlay_loop_fails [OF Inl] show ?thesis by (simp add: eq)
  next
    case (Inr r)
    obtain ins ws where r: "r = (ins, ws)" by force
    note l = Inr [unfolded r]
    have len: "length ws \<le> cap" using Overlay_loop_length [OF l] by simp
    have wf: "\<forall>d \<in> set ws. wf_desc d" using Overlay_loop_wf [OF l assms(2)] assms(1) by simp
    have vw: "view ws x = (if covers ov x then if ins then [attrs_of ov] else [] else view ds x)" for x
      using Overlay_loop_view [OF l nw, of x] by simp
    have tight: "length ws \<le> 2 * length ds" if "\<not> ins"
      using that Overlay_loop_not_inserted [of cap ov ds "[]" ws] l by simp
    show ?thesis
      using l r len wf vw tight assms(2) by (auto simp: eq Workspace_push_def)
  qed
qed

definition sample_desc :: "u64 \<Rightarrow> u64 \<Rightarrow> mem_desc" where
  "sample_desc a n =
     \<lparr>Name = ''RAM'', Address = a, Length = n, HobOption = AddMem,
      ResourceType = EFI_RESOURCE_SYSTEM_MEMORY, ResourceAttribute = SYS_MEM_CAP,
      MemoryType = EfiConventionalMemory, ArmAttributes = ARM_WRITE_BACK\<rparr>"

definition sample_pstore :: mem_desc where
  "sample_pstore = (sample_desc 0x1000 0x100)\<lparr>Name := ''PStore''\<rparr>"

lemma MemoryMapConfigOverlayDescriptor_exact_witness:
  "MemoryMapConfigOverlayDescriptor [sample_desc 0x800 0x1000] 3 sample_pstore =
     Inr [sample_desc 0x800 0x800, sample_pstore, sample_desc 0x1100 0x700] \<and>
   view [sample_desc 0x800 0x800, sample_pstore, sample_desc 0x1100 0x700] 0x1010 = [attrs_of sample_pstore]"
proof -
  have wf: "\<forall>d \<in> set [sample_desc 0x800 0x1000]. wf_desc d" "wf_desc sample_pstore"
    by (simp_all add: wf_desc_def sample_desc_def sample_pstore_def no_wrap_iff
        MEMORY_REGION_NAME_MAX_LENGTH_def)
  have run: "MemoryMapConfigOverlayDescriptor [sample_desc 0x800 0x1000] 3 sample_pstore =
     Inr [sample_desc 0x800 0x800, sample_pstore, sample_desc 0x1100 0x700]"
    by (simp add: MemoryMapConfigOverlayDescriptor_def Overlay_step_def Workspace_push_def
        sample_desc_def sample_pstore_def)
  have "covers sample_pstore 0x1010" by (simp add: covers_def in_range_def sample_desc_def sample_pstore_def)
  with MemoryMapConfigOverlayDescriptor_exact [OF wf, of 3] run show ?thesis by simp
qed

section \<open>Placement of PStore\<close>

definition is_pstore :: "mem_desc \<Rightarrow> bool" where
  "is_pstore d \<longleftrightarrow> AsciiStriCmp_eq (Name d) ''PStore''"

lemma PStore_scan_none:
  "\<not> list_ex is_pstore ds \<Longrightarrow> PStore_scan ds k p n = (p, n)"
  by (induction ds arbitrary: k) (simp_all add: is_pstore_def)

lemma PStore_scan_count: "snd (PStore_scan ds k p n) = n + length (filter is_pstore ds)"
  by (induction ds arbitrary: k p n) (simp_all add: is_pstore_def)

lemma PStore_scan_unique:
  assumes "length (filter is_pstore ds) = 1"
  shows "\<exists>i < length ds. fst (PStore_scan ds k p n) = Some (k + i) \<and>
    (\<forall>j < length ds. is_pstore (ds ! j) \<longleftrightarrow> j = i)"
  using assms
proof (induction ds arbitrary: k p n)
  case (Cons d ds)
  show ?case
  proof (cases "is_pstore d")
    case True
    with Cons.prems have none: "\<not> list_ex is_pstore ds" by (auto simp: list_ex_iff filter_empty_conv)
    then have "\<not> is_pstore (ds ! j)" if "j < length ds" for j
      using that by (auto simp: list_ex_length)
    with True PStore_scan_none [OF none] show ?thesis
      by (intro exI [of _ 0]) (auto simp: is_pstore_def [symmetric] nth_Cons split: nat.splits)
  next
    case False
    with Cons.prems Cons.IH [of "Suc k" p n] obtain i where "i < length ds"
      "fst (PStore_scan ds (Suc k) p n) = Some (Suc k + i)"
      "\<forall>j < length ds. is_pstore (ds ! j) \<longleftrightarrow> j = i" by auto
    with False show ?thesis
      by (intro exI [of _ "Suc i"]) (auto simp: is_pstore_def [symmetric] nth_Cons split: nat.splits)
  qed
qed simp

lemma filter_unique:
  assumes "p < length ds" "\<forall>j < length ds. P (ds ! j) \<longleftrightarrow> j = p"
  shows "length (filter P ds) = 1"
proof -
  have "{i. i < length ds \<and> P (ds ! i)} = {p}" using assms by auto
  then show ?thesis by (simp add: length_filter_conv_card)
qed

definition wf_bank :: "ddr_bank \<Rightarrow> bool" where
  "wf_bank r \<longleftrightarrow> BankLength r \<noteq> 0 \<and> no_wrap (Base r) (BankLength r)"

definition bank_covers :: "ddr_bank \<Rightarrow> nat \<Rightarrow> bool" where
  "bank_covers r x \<longleftrightarrow> in_range (Base r) (BankLength r) x"

lemma inside_bank_iff:
  assumes "wf_desc d" "wf_bank r"
  shows "Address d \<ge> Base r \<and> Address d + Length d \<le> Base r + BankLength r \<longleftrightarrow>
    (\<forall>x. covers d x \<longrightarrow> bank_covers r x)"
proof
  note d = wf_descD [OF assms(1)]
  have n: "unat (Length d) \<noteq> 0" using d(1) by (simp add: unat_eq_zero)
  have b: "unat (Base r + BankLength r) = unat (Base r) + unat (BankLength r)"
    using assms(2) by (simp add: wf_bank_def unat_end)
  { assume "Address d \<ge> Base r \<and> Address d + Length d \<le> Base r + BankLength r"
    then show "\<forall>x. covers d x \<longrightarrow> bank_covers r x"
      using d b by (auto simp: covers_def bank_covers_def in_range_def word_le_nat_alt) }
  { assume a: "\<forall>x. covers d x \<longrightarrow> bank_covers r x"
    have "covers d (unat (Address d))" "covers d (unat (Address d) + unat (Length d) - 1)"
      using n by (auto simp: covers_def in_range_def)
    with a have "bank_covers r (unat (Address d))" "bank_covers r (unat (Address d) + unat (Length d) - 1)"
      by blast+
    then show "Address d \<ge> Base r \<and> Address d + Length d \<le> Base r + BankLength r"
      using d b n by (auto simp: bank_covers_def in_range_def word_le_nat_alt) }
qed

lemma overlaps_ex:
  assumes "wf_desc p" "wf_desc d"
  shows "overlaps p d \<longleftrightarrow> (\<exists>x. covers p x \<and> covers d x)"
proof -
  note w = wf_descD [OF assms(1)] wf_descD [OF assms(2)]
  have n: "unat (Length p) \<noteq> 0" "unat (Length d) \<noteq> 0" using w by (simp_all add: unat_eq_zero)
  have "overlaps p d \<Longrightarrow> covers p (max (unat (Address p)) (unat (Address d))) \<and>
      covers d (max (unat (Address p)) (unat (Address d)))"
    using overlaps_iff [OF w(2) w(5)] n by (auto simp: covers_def in_range_def)
  moreover have "covers p x \<Longrightarrow> covers d x \<Longrightarrow> overlaps p d" for x
    using overlaps_iff [OF w(2) w(5)] by (auto simp: covers_def in_range_def)
  ultimately show ?thesis by blast
qed

text \<open>C19: the placement check accepts exactly the maps with one PStore region that lies inside a
  single DDR bank and shares no address with any other descriptor.\<close>

theorem MemoryMapConfigValidatePStorePlacement_iff:
  assumes "\<forall>d \<in> set ds. wf_desc d" "\<forall>r \<in> set banks. wf_bank r"
  shows "MemoryMapConfigValidatePStorePlacement ds banks = EFI_SUCCESS \<longleftrightarrow>
    (\<exists>p < length ds. (\<forall>j < length ds. is_pstore (ds ! j) \<longleftrightarrow> j = p) \<and>
       (\<exists>r \<in> set banks. \<forall>x. covers (ds ! p) x \<longrightarrow> bank_covers r x) \<and>
       (\<forall>j < length ds. j \<noteq> p \<longrightarrow> \<not> (\<exists>x. covers (ds ! p) x \<and> covers (ds ! j) x)))"
proof (cases "length (filter is_pstore ds) = 1")
  case False
  then have "snd (PStore_scan ds 0 None 0) \<noteq> 1" by (simp add: PStore_scan_count)
  then have "MemoryMapConfigValidatePStorePlacement ds banks = EFI_COMPROMISED_DATA"
    by (cases "PStore_scan ds 0 None 0") (simp add: MemoryMapConfigValidatePStorePlacement_def)
  with False filter_unique [where P = is_pstore] show ?thesis by auto
next
  case True
  then obtain p where p: "p < length ds" "fst (PStore_scan ds 0 None 0) = Some p"
    "\<forall>j < length ds. is_pstore (ds ! j) \<longleftrightarrow> j = p"
    using PStore_scan_unique [OF True, of 0 None 0] by auto
  have scan: "PStore_scan ds 0 None 0 = (Some p, 1)"
    using p(2) PStore_scan_count [of ds 0 None 0] True by (simp add: prod_eq_iff)
  have wf: "wf_desc (ds ! j)" if "j < length ds" for j using assms(1) that by simp
  have bank: "list_ex (\<lambda>r. Address (ds ! p) \<ge> Base r \<and> Address (ds ! p) + Length (ds ! p) \<le> Base r + BankLength r) banks
      \<longleftrightarrow> (\<exists>r \<in> set banks. \<forall>x. covers (ds ! p) x \<longrightarrow> bank_covers r x)"
    using inside_bank_iff [OF wf [OF p(1)]] assms(2) by (auto simp: list_ex_iff)
  have other: "list_ex (\<lambda>i. i \<noteq> p \<and> Address (ds ! i) < Address (ds ! p) + Length (ds ! p) \<and>
        Address (ds ! p) < Address (ds ! i) + Length (ds ! i)) [0..<length ds]
      \<longleftrightarrow> (\<exists>j < length ds. j \<noteq> p \<and> (\<exists>x. covers (ds ! p) x \<and> covers (ds ! j) x))"
    using overlaps_ex [OF wf [OF p(1)] wf] by (auto simp: list_ex_iff overlaps_def)
  have uniq: "(\<forall>j < length ds. is_pstore (ds ! j) \<longleftrightarrow> j = q) \<longleftrightarrow> q = p" if "q < length ds" for q
    using p that by blast
  have "MemoryMapConfigValidatePStorePlacement ds banks = EFI_SUCCESS \<longleftrightarrow>
      (\<exists>r \<in> set banks. \<forall>x. covers (ds ! p) x \<longrightarrow> bank_covers r x) \<and>
      \<not> (\<exists>j < length ds. j \<noteq> p \<and> (\<exists>x. covers (ds ! p) x \<and> covers (ds ! j) x))"
    using bank other by (simp add: MemoryMapConfigValidatePStorePlacement_def scan Let_def)
  then show ?thesis using uniq p(1) by blast
qed

lemma MemoryMapConfigValidatePStorePlacement_iff_witness:
  "MemoryMapConfigValidatePStorePlacement [sample_desc 0x800 0x800, sample_pstore]
     [\<lparr>Base = 0, BankLength = 0x8000\<rparr>] = EFI_SUCCESS \<and>
   (\<exists>p < 2. \<forall>j < 2. is_pstore ([sample_desc 0x800 0x800, sample_pstore] ! j) \<longleftrightarrow> j = p)"
proof -
  let ?ds = "[sample_desc 0x800 0x800, sample_pstore]" and ?b = "[\<lparr>Base = 0, BankLength = 0x8000\<rparr>]"
  have wf: "\<forall>d \<in> set ?ds. wf_desc d" "\<forall>r \<in> set ?b. wf_bank r"
    by (simp_all add: wf_desc_def wf_bank_def sample_desc_def sample_pstore_def no_wrap_iff
        MEMORY_REGION_NAME_MAX_LENGTH_def)
  have run: "MemoryMapConfigValidatePStorePlacement ?ds ?b = EFI_SUCCESS"
    by (simp add: MemoryMapConfigValidatePStorePlacement_def sample_desc_def sample_pstore_def
        AsciiStriCmp_eq_def lower_str_def)
  then show ?thesis
    using MemoryMapConfigValidatePStorePlacement_iff [OF wf] by (auto simp: numeral_2_eq_2)
qed

section \<open>A configuration section as a source of descriptors\<close>

text \<open>The contract between the loader and the reader it calls: the source holds a fixed list of
  records, each of which reads the same way, and every index past the last gives the same status.\<close>

locale descriptor_source =
  fixes read :: "nat \<Rightarrow> efi_status + mem_desc"
    and recs :: "(efi_status + mem_desc) list"
    and ending :: efi_status
  assumes read_rec: "n < length recs \<Longrightarrow> read n = recs ! n"
    and read_end: "length recs \<le> n \<Longrightarrow> read n = Inl ending"
    and ending_error: "ending \<noteq> EFI_SUCCESS"
    and rec_status: "Inl e \<in> set recs \<Longrightarrow> e \<noteq> EFI_SUCCESS \<and> e \<noteq> EFI_NOT_FOUND"
    and rec_wf: "Inr d \<in> set recs \<Longrightarrow> wf_desc d"
begin

lemma loop_success:
  "n \<le> length recs \<Longrightarrow> init + n = length ds \<Longrightarrow>
   LoadDescriptorSection_loop read cap init n ds = (EFI_SUCCESS, ds') \<longleftrightarrow>
   (\<exists>new. map Inr new = drop n recs \<and> 0 < length recs \<and> ending = EFI_NOT_FOUND \<and>
     ds' = ds @ new \<and> (new = [] \<or> length ds' \<le> cap))"
proof (induction "length recs - n" arbitrary: n ds)
  case 0
  then have n: "n = length recs" by simp
  have "LoadDescriptorSection_loop read cap init n ds =
      (if ending = EFI_NOT_FOUND then (if length ds = init then EFI_NOT_FOUND else EFI_SUCCESS, ds)
       else (ending, ds))"
    by (subst LoadDescriptorSection_loop.simps) (simp add: read_end n)
  then show ?case using n 0 ending_error by auto
next
  case (Suc k)
  then have n: "n < length recs" by simp
  then have rd: "read n = recs ! n" and dr: "drop n recs = recs ! n # drop (Suc n) recs"
    by (simp_all add: read_rec Cons_nth_drop_Suc)
  show ?case
  proof (cases "recs ! n")
    case (Inl e)
    then have "e \<noteq> EFI_SUCCESS" "e \<noteq> EFI_NOT_FOUND" using rec_status n by (metis nth_mem)+
    then show ?thesis
      using Inl rd dr by (auto simp: LoadDescriptorSection_loop.simps [of read cap init n])
  next
    case (Inr d)
    note IH = Suc.hyps(1) [of "Suc n" "ds @ [d]"]
    have "LoadDescriptorSection_loop read cap init n ds =
        (if length ds \<ge> cap then (EFI_OUT_OF_RESOURCES, ds)
         else LoadDescriptorSection_loop read cap init (Suc n) (ds @ [d]))"
      by (simp add: LoadDescriptorSection_loop.simps [of read cap init n] rd Inr)
    with IH Suc.hyps(2) Suc.prems n dr Inr show ?thesis
      by (auto simp: map_eq_Cons_conv)
  qed
qed

lemma loop_grows:
  "LoadDescriptorSection_loop read cap init n ds = (s, ds') \<Longrightarrow>
   \<exists>new. ds' = ds @ new \<and> (\<forall>d \<in> set new. wf_desc d) \<and> (new = [] \<or> length ds' \<le> cap)"
proof (induction "cap - length ds" arbitrary: n ds rule: less_induct)
  case less
  show ?case
  proof (cases "read n")
    case (Inl e)
    with less.prems show ?thesis
      by (auto simp: LoadDescriptorSection_loop.simps [of read cap init n] split: if_splits)
  next
    case (Inr d)
    then have d: "wf_desc d"
      using read_rec [of n] read_end [of n] rec_wf by (metis Inl_Inr_False not_le nth_mem)
    show ?thesis
    proof (cases "length ds \<ge> cap")
      case True
      with less.prems Inr show ?thesis by (simp add: LoadDescriptorSection_loop.simps [of read cap init n])
    next
      case False
      with less.prems Inr have "LoadDescriptorSection_loop read cap init (Suc n) (ds @ [d]) = (s, ds')"
        by (simp add: LoadDescriptorSection_loop.simps [of read cap init n])
      with less.hyps [of "ds @ [d]" "Suc n"] False d show ?thesis by fastforce
    qed
  qed
qed

end

text \<open>The records of a section and the status that ends them, from the configuration's lines.\<close>

fun cfg_records :: "string \<Rightarrow> bool \<Rightarrow> string list \<Rightarrow> string list \<times> efi_status" where
  "cfg_records sec ins [] = ([], EFI_NOT_FOUND)"
| "cfg_records sec ins (l # ls) =
     (case classify l of
        CfgSkip \<Rightarrow> cfg_records sec ins ls
      | CfgMalformed \<Rightarrow> ([], EFI_COMPROMISED_DATA)
      | CfgSection s \<Rightarrow> cfg_records sec (lower_str s = lower_str sec) ls
      | CfgData d \<Rightarrow>
          if ins then (trim (cut_comment True False False d) # fst (cfg_records sec ins ls),
                       snd (cfg_records sec ins ls))
          else cfg_records sec ins ls)"

lemma cfg_entry_spec_records:
  "cfg_entry_spec sec ins n ls =
   (if n < length (fst (cfg_records sec ins ls)) then Inr (fst (cfg_records sec ins ls) ! n)
    else Inl (snd (cfg_records sec ins ls)))"
  by (induction ls arbitrary: ins n) (auto simp: nth_Cons' split: cfg_line.splits)

lemma cfg_records_ending: "snd (cfg_records sec ins ls) \<in> {EFI_NOT_FOUND, EFI_COMPROMISED_DATA}"
  by (induction ls arbitrary: ins) (auto split: cfg_line.splits)

definition section_records :: "boot_config_state \<Rightarrow> string \<Rightarrow> string list \<times> efi_status" where
  "section_records st sec =
     (case GetBootConfig st of
        Inl e \<Rightarrow> ([], e)
      | Inr cs \<Rightarrow> if is_cstring cs then cfg_records sec (sec = []) (lines_of cs)
                  else ([], EFI_COMPROMISED_DATA))"

definition record_desc :: "string \<Rightarrow> efi_status + mem_desc" where
  "record_desc r =
     (if length r + 1 > MEMORY_MAP_CONFIG_ENTRY_SIZE then Inl EFI_BUFFER_TOO_SMALL
      else MemoryMapConfigParseDescriptor r)"

lemma section_entry:
  assumes "is_cstring sec"
  shows "GetAndromedaBootConfigSectionEntry st (Some sec) n True (Some cap) =
    value_result cap (if n < length (fst (section_records st sec))
      then Inr (Some (fst (section_records st sec) ! n)) else Inl (snd (section_records st sec)))"
proof (cases "GetBootConfig st")
  case (Inl e)
  then show ?thesis
    by (simp add: GetAndromedaBootConfigSectionEntry_def section_records_def value_result_def)
next
  case (Inr cs)
  show ?thesis
  proof (cases "is_cstring cs")
    case True
    have "cstr_at sec 0 = NUL \<longleftrightarrow> sec = []" using cstr_at_eq_NUL [OF assms, of 0] by simp
    then have "GetAndromedaBootConfigSectionEntry st (Some sec) n True (Some cap) =
        value_result cap (map_sum id Some (cfg_entry_spec sec (sec = []) n (lines_of cs)))"
      unfolding entry_spec_cases [OF assms] GetAndromedaBootConfigSectionEntry_def Let_def
      using Inr True by (auto simp: is_cstring_code)
    with Inr True show ?thesis by (simp add: section_records_def cfg_entry_spec_records)
  next
    case False
    with Inr show ?thesis
      by (auto simp: GetAndromedaBootConfigSectionEntry_def section_records_def value_result_def
          is_cstring_code)
  qed
qed

lemma section_records_ending: "snd (section_records st sec) \<in> {EFI_NOT_FOUND, EFI_COMPROMISED_DATA}"
  using cfg_records_ending
  by (auto simp: section_records_def GetBootConfig_def split: sum.splits option.splits if_splits)

lemma MemoryMapConfigReadDescriptor_records:
  assumes "is_cstring sec"
  shows "MemoryMapConfigReadDescriptor st sec n =
    (if n < length (fst (section_records st sec)) then record_desc (fst (section_records st sec) ! n)
     else Inl (snd (section_records st sec)))"
  using section_records_ending [of st sec]
  by (auto simp: MemoryMapConfigReadDescriptor_def section_entry [OF assms] value_result_def record_desc_def)

lemma NameLookup_status: "NameLookup t f = Inl e \<Longrightarrow> e = EFI_COMPROMISED_DATA"
  by (induction t f rule: NameLookup.induct) (auto split: if_splits)

lemma SplitCsv_field_status: "SplitCsv_field f = Inl e \<Longrightarrow> e = EFI_COMPROMISED_DATA"
  by (auto simp: SplitCsv_field_def Let_def split: if_splits)

lemma SplitCsv_fields_status: "SplitCsv_fields fs = Inl e \<Longrightarrow> e = EFI_COMPROMISED_DATA"
  by (induction fs) (auto simp: bindE_eq_Inl dest: SplitCsv_field_status)

lemma SplitCsv_scan_status: "SplitCsv_scan n cs q f fs = Inl e \<Longrightarrow> e = EFI_COMPROMISED_DATA"
  by (induction n cs q f fs rule: SplitCsv_scan.induct) (auto split: if_splits)

lemma Uint64_loop_status: "Uint64_loop s r i v = Inl e \<Longrightarrow> e = EFI_COMPROMISED_DATA"
proof (induction s r i v rule: Uint64_loop.induct)
  case (1 s r i v)
  from "1.prems" show ?case
    by (subst (asm) Uint64_loop.simps) (auto split: if_splits option.splits intro: "1.IH")
qed

lemma MemoryMapConfigParseDescriptor_status:
  "MemoryMapConfigParseDescriptor r = Inl e \<Longrightarrow> e = EFI_COMPROMISED_DATA"
  by (auto simp: MemoryMapConfigParseDescriptor_def MemoryMapConfigSplitCsv_def
      MemoryMapConfigParseUint64_def bindE_eq_Inl case_sum_eq_Inl Let_def
      split: if_split_asm prod.split_asm
      dest: NameLookup_status SplitCsv_fields_status SplitCsv_scan_status Uint64_loop_status)

lemma record_desc_status: "Inl e = record_desc r \<Longrightarrow> e \<noteq> EFI_SUCCESS \<and> e \<noteq> EFI_NOT_FOUND"
  using MemoryMapConfigParseDescriptor_status [of r e] by (auto simp: record_desc_def split: if_splits)

lemma record_desc_wf: "Inr d = record_desc r \<Longrightarrow> wf_desc d"
  using MemoryMapConfigParseDescriptor_wf [of r d] by (auto simp: record_desc_def split: if_splits)

lemma section_descriptor_source:
  assumes "is_cstring sec"
  shows "descriptor_source (MemoryMapConfigReadDescriptor st sec)
    (map record_desc (fst (section_records st sec))) (snd (section_records st sec))"
proof
  show "Inl e \<in> set (map record_desc (fst (section_records st sec))) \<Longrightarrow> e \<noteq> EFI_SUCCESS \<and> e \<noteq> EFI_NOT_FOUND" for e
    using record_desc_status by auto
  show "Inr d \<in> set (map record_desc (fst (section_records st sec))) \<Longrightarrow> wf_desc d" for d
    using record_desc_wf by auto
  show "snd (section_records st sec) \<noteq> EFI_SUCCESS"
    using section_records_ending [of st sec] by auto
qed (simp_all add: MemoryMapConfigReadDescriptor_records [OF assms])

text \<open>The two sections the platform loads.\<close>

interpretation memory_map: descriptor_source
  "MemoryMapConfigReadDescriptor st ''MemoryMap''"
  "map record_desc (fst (section_records st ''MemoryMap''))" "snd (section_records st ''MemoryMap'')"
  for st
  by (rule section_descriptor_source) (simp add: is_cstring_def)

interpretation register_map: descriptor_source
  "MemoryMapConfigReadDescriptor st ''RegisterMap''"
  "map record_desc (fst (section_records st ''RegisterMap''))" "snd (section_records st ''RegisterMap'')"
  for st
  by (rule section_descriptor_source) (simp add: is_cstring_def)

section \<open>Loading is all or nothing\<close>

text \<open>the loader of the \<open>MemoryMap\<close> section succeeds exactly when the section has records, all of
  them parse, no malformed header follows and they fit; it then appends the descriptors of all the
  records, in order.\<close>

theorem MemoryMapConfigLoadDescriptorSection_success_iff:
  "MemoryMapConfigLoadDescriptorSection st (Some ''MemoryMap'') cap ds = (EFI_SUCCESS, ds') \<longleftrightarrow>
   (\<exists>new. map Inr new = map record_desc (fst (section_records st ''MemoryMap'')) \<and> new \<noteq> [] \<and>
      snd (section_records st ''MemoryMap'') = EFI_NOT_FOUND \<and> ds' = ds @ new \<and> length ds' \<le> cap)"
proof -
  have ne: "new = [] \<longleftrightarrow> fst (section_records st ''MemoryMap'') = []"
    if "map Inr new = map record_desc (fst (section_records st ''MemoryMap''))" for new
    using that by (metis length_map length_0_conv)
  show ?thesis
    using memory_map.loop_success
      [where st = st and n = 0 and init = "length ds" and ds = ds and cap = cap and ds' = ds'] ne
    by (auto simp: MemoryMapConfigLoadDescriptorSection_def)
qed

text \<open>whatever the configuration holds, the loader only appends well-formed descriptors and never
  goes beyond the capacity it was given.\<close>

theorem MemoryMapConfigLoadDescriptorSection_wf:
  assumes "sec = ''MemoryMap'' \<or> sec = ''RegisterMap''"
    and "MemoryMapConfigLoadDescriptorSection st (Some sec) cap ds = (s, ds')"
    and "\<forall>d \<in> set ds. wf_desc d" "length ds \<le> cap"
  shows "(\<forall>d \<in> set ds'. wf_desc d) \<and> length ds' \<le> cap \<and> take (length ds) ds' = ds"
  using memory_map.loop_grows
      [where st = st and n = 0 and init = "length ds" and ds = ds and cap = cap and ds' = ds' and s = s]
    register_map.loop_grows
      [where st = st and n = 0 and init = "length ds" and ds = ds and cap = cap and ds' = ds' and s = s] assms
  by (auto simp: MemoryMapConfigLoadDescriptorSection_def)

lemma MemoryMapConfigLoadDescriptorSection_wf_witness:
  "case MemoryMapConfigLoadDescriptorSection sample_state (Some ''MemoryMap'') 127 [] of
     (s, ds') \<Rightarrow> length ds' \<le> 127"
  using MemoryMapConfigLoadDescriptorSection_wf [of "''MemoryMap''" sample_state 127 "[]"]
  by (auto split: prod.splits)

end
