(* ===== verification/Memory_Map.thy ===== *)
theory Memory_Map
  imports Memory_Map_Config
begin

text \<open>
  The platform memory map (\<^verbatim>\<open>AndromedaMemoryMapLib.c\<close>, \<^verbatim>\<open>PlatformDdrBankMapLib.c\<close>,
  \<^verbatim>\<open>MemoryInitPeiLib.c\<close>, \<^verbatim>\<open>QcomUefiPlatMemoryMapHelperLib.c\<close>): loading it from the boot
  configuration, filling the unused parts of the DDR banks with RAM partitions, and what the memory
  initialisation makes of the result. The arrays are terminated by a descriptor of length 0.
\<close>

section \<open>DDR banks\<close>

definition gDdrBankRegionsEV :: "ddr_bank list" where
  "gDdrBankRegionsEV =
     [\<lparr>Base = 0x80000000, BankLength = 0x39300000\<rparr>,
      \<lparr>Base = 0xB9900000, BankLength = 0x01E00000\<rparr>,
      \<lparr>Base = 0xC0000000, BankLength = 0x1C0000000\<rparr>]"

definition gDdrBankRegionsDV :: "ddr_bank list" where
  "gDdrBankRegionsDV =
     [\<lparr>Base = 0x80000000, BankLength = 0x39700000\<rparr>,
      \<lparr>Base = 0xB9D00000, BankLength = 0x01E00000\<rparr>,
      \<lparr>Base = 0xC0000000, BankLength = 0x1C0000000\<rparr>]"

text \<open>\<open>BoardID\<close> is the byte the Sm8350 library reads from the XBL HLOS HOB.\<close>

definition GetPlatformDdrBankRegions_Sm8350 :: "u8 \<Rightarrow> efi_status + ddr_bank list" where
  "GetPlatformDdrBankRegions_Sm8350 BoardID =
     (if BoardID < 0xA then Inr gDdrBankRegionsEV else Inr gDdrBankRegionsDV)"

definition gDdrBankRegions :: "ddr_bank list" where
  "gDdrBankRegions =
     [\<lparr>Base = 0x80000000, BankLength = 0x3CC00000\<rparr>,
      \<lparr>Base = 0xC0000000, BankLength = 0x80000000\<rparr>,
      \<lparr>Base = 0x140000000, BankLength = 0xC0000000\<rparr>]"

definition GetPlatformDdrBankRegions_Sm8150 :: "efi_status + ddr_bank list" where
  "GetPlatformDdrBankRegions_Sm8150 = Inr gDdrBankRegions"

section \<open>Loading\<close>

definition MAX_ARM_MEMORY_REGION_DESCRIPTOR_COUNT :: nat where
  "MAX_ARM_MEMORY_REGION_DESCRIPTOR_COUNT = 128"

record memory_map_state =
  gDeviceMemoryDescriptorEx :: "mem_desc list"
  gMergedMemoryDescriptorEx :: "mem_desc list"
  gMemoryMapLoaded :: bool
  gMemoryMapLoadStatus :: efi_status

definition gRamPartitionTemplate :: mem_desc where
  "gRamPartitionTemplate =
     \<lparr>Name = ''RAM Partition'', Address = 0, Length = 0, HobOption = AddMem,
      ResourceType = EFI_RESOURCE_SYSTEM_MEMORY, ResourceAttribute = SYS_MEM_CAP,
      MemoryType = EfiConventionalMemory, ArmAttributes = ARM_WRITE_BACK\<rparr>"

definition gMemoryMapTerminator :: mem_desc where
  "gMemoryMapTerminator =
     \<lparr>Name = ''Terminator'', Address = 0, Length = 0, HobOption = NoHob,
      ResourceType = EFI_RESOURCE_SYSTEM_MEMORY, ResourceAttribute = [],
      MemoryType = EfiReservedMemoryType, ArmAttributes = ARM_UNCACHED_UNBUFFERED\<rparr>"

text \<open>
  \<open>SerialInMemory\<close> is the build option \<open>USE_MEMORY_FOR_SERIAL_OUTPUT == 1\<close>; \<open>Regions\<close> is what
  \<open>GetPlatformDdrBankRegions\<close> returns on the platform. The result is the status and the contents of
  \<open>gDeviceMemoryDescriptorEx\<close>. The second half of \<open>LoadPlatformMemoryMap\<close>, from the register map on,
  is a definition of its own.
\<close>

definition LoadPlatformRegisterMap ::
  "bool \<Rightarrow> efi_status + ddr_bank list \<Rightarrow> boot_config_state \<Rightarrow> mem_desc list \<Rightarrow> efi_status \<times> mem_desc list" where
  "LoadPlatformRegisterMap SerialInMemory Regions st Devices =
     (let (Status, Devices) =
            MemoryMapConfigLoadDescriptorSection st (Some ''RegisterMap'')
              (MAX_ARM_MEMORY_REGION_DESCRIPTOR_COUNT - 1) Devices
      in if EFI_ERROR Status then (Status, Devices)
         else if length Devices = 0 then (EFI_NOT_FOUND, Devices)
         else
           let Terminated = Devices @ [gMemoryMapTerminator]
           in if SerialInMemory then
                case Regions of
                  Inl Status \<Rightarrow> (Status, Terminated)
                | Inr DdrBankRegions \<Rightarrow>
                    (MemoryMapConfigValidatePStorePlacement Devices DdrBankRegions, Terminated)
              else (EFI_SUCCESS, Terminated))"

definition LoadPlatformMemoryMap ::
  "bool \<Rightarrow> efi_status + ddr_bank list \<Rightarrow> boot_config_state \<Rightarrow> efi_status \<times> mem_desc list" where
  "LoadPlatformMemoryMap SerialInMemory Regions st =
     (let Capacity = MAX_ARM_MEMORY_REGION_DESCRIPTOR_COUNT - 1;
          (Status, Devices) = MemoryMapConfigLoadDescriptorSection st (Some ''MemoryMap'') Capacity []
      in if EFI_ERROR Status then (Status, Devices)
         else
           case (if SerialInMemory
                 then bindE (MemoryMapConfigLoadPStoreDescriptor st)
                        (MemoryMapConfigOverlayDescriptor Devices Capacity)
                 else Inr Devices) of
             Inl Status \<Rightarrow> (Status, Devices)
           | Inr Devices \<Rightarrow> LoadPlatformRegisterMap SerialInMemory Regions st Devices)"

definition EnsurePlatformMemoryMapLoaded ::
  "bool \<Rightarrow> efi_status + ddr_bank list \<Rightarrow> boot_config_state \<Rightarrow> memory_map_state
     \<Rightarrow> efi_status \<times> memory_map_state" where
  "EnsurePlatformMemoryMapLoaded SerialInMemory Regions st s =
     (if \<not> gMemoryMapLoaded s then
        let (Status, Devices) = LoadPlatformMemoryMap SerialInMemory Regions st;
            s = s\<lparr>gMemoryMapLoadStatus := Status, gDeviceMemoryDescriptorEx := Devices\<rparr>;
            s = (if Status \<noteq> EFI_NOT_FOUND then s\<lparr>gMemoryMapLoaded := True\<rparr> else s)
        in (gMemoryMapLoadStatus s, s)
      else (gMemoryMapLoadStatus s, s))"

section \<open>Merging the DDR banks\<close>

definition DescriptorOverlapsRegion :: "mem_desc \<Rightarrow> ddr_bank \<Rightarrow> bool" where
  "DescriptorOverlapsRegion Descriptor Region \<longleftrightarrow>
     Address Descriptor < Base Region + BankLength Region \<and>
     Base Region < Address Descriptor + Length Descriptor"

definition AppendDescriptor :: "mem_desc list \<Rightarrow> mem_desc \<Rightarrow> efi_status + mem_desc list" where
  "AppendDescriptor Merged Descriptor =
     (if length Merged \<ge> MAX_ARM_MEMORY_REGION_DESCRIPTOR_COUNT - 1 then Inl EFI_OUT_OF_RESOURCES
      else Inr (Merged @ [Descriptor]))"

definition RamPartition :: "u64 \<Rightarrow> u64 \<Rightarrow> mem_desc" where
  "RamPartition b n = gRamPartitionTemplate\<lparr>Address := b, Length := n\<rparr>"

definition AppendRamPartition :: "mem_desc list \<Rightarrow> u64 \<Rightarrow> u64 \<Rightarrow> efi_status + mem_desc list" where
  "AppendRamPartition Merged b n =
     (if length Merged \<ge> MAX_ARM_MEMORY_REGION_DESCRIPTOR_COUNT - 1 then Inl EFI_OUT_OF_RESOURCES
      else Inr (Merged @ [RamPartition b n]))"

text \<open>The loops run over the descriptors in front of the first one of length 0.\<close>

definition until_terminator :: "mem_desc list \<Rightarrow> mem_desc list" where
  "until_terminator ds = takeWhile (\<lambda>d. Length d \<noteq> 0) ds"

fun Merge_region ::
  "ddr_bank \<Rightarrow> mem_desc list \<Rightarrow> u64 \<Rightarrow> mem_desc list \<Rightarrow> efi_status + u64 \<times> mem_desc list" where
  "Merge_region Region [] Cursor Merged = Inr (Cursor, Merged)"
| "Merge_region Region (Descriptor # ds) Cursor Merged =
     (if \<not> DescriptorOverlapsRegion Descriptor Region then Merge_region Region ds Cursor Merged
      else
        let DescriptorEnd = Address Descriptor + Length Descriptor
        in bindE (if Address Descriptor > Cursor
                  then AppendRamPartition Merged Cursor (Address Descriptor - Cursor)
                  else Inr Merged) (\<lambda>Merged.
           bindE (AppendDescriptor Merged Descriptor) (\<lambda>Merged.
             Merge_region Region ds (if DescriptorEnd > Cursor then DescriptorEnd else Cursor) Merged)))"

fun Merge_regions :: "ddr_bank list \<Rightarrow> mem_desc list \<Rightarrow> mem_desc list \<Rightarrow> efi_status + mem_desc list" where
  "Merge_regions [] ds Merged = Inr Merged"
| "Merge_regions (Region # rs) ds Merged =
     bindE (Merge_region Region ds (Base Region) Merged) (\<lambda>(Cursor, Merged).
     bindE (if Cursor < Base Region + BankLength Region
            then AppendRamPartition Merged Cursor (Base Region + BankLength Region - Cursor)
            else Inr Merged) (\<lambda>Merged. Merge_regions rs ds Merged))"

fun Merge_rest :: "ddr_bank list \<Rightarrow> mem_desc list \<Rightarrow> mem_desc list \<Rightarrow> efi_status + mem_desc list" where
  "Merge_rest rs [] Merged = Inr Merged"
| "Merge_rest rs (Descriptor # ds) Merged =
     (if \<not> list_ex (DescriptorOverlapsRegion Descriptor) rs
      then bindE (AppendDescriptor Merged Descriptor) (Merge_rest rs ds)
      else Merge_rest rs ds Merged)"

definition MergeDdrBankRegions ::
  "ddr_bank list \<Rightarrow> memory_map_state \<Rightarrow> efi_status + mem_desc list" where
  "MergeDdrBankRegions DdrBankRegions s =
     (let ds = until_terminator (gDeviceMemoryDescriptorEx s)
      in bindE (Merge_regions DdrBankRegions ds []) (\<lambda>Merged.
         bindE (Merge_rest DdrBankRegions ds Merged) (\<lambda>Merged.
           Inr (Merged @ [gMemoryMapTerminator]))))"

definition GetPlatformMemoryMap ::
  "bool \<Rightarrow> efi_status + ddr_bank list \<Rightarrow> boot_config_state \<Rightarrow> memory_map_state
     \<Rightarrow> mem_desc list \<times> memory_map_state" where
  "GetPlatformMemoryMap SerialInMemory Regions st s =
     (let (Status, s) = EnsurePlatformMemoryMapLoaded SerialInMemory Regions st s
      in if EFI_ERROR Status then ([gMemoryMapTerminator], s)
         else
           case bindE Regions (\<lambda>DdrBankRegions. MergeDdrBankRegions DdrBankRegions s) of
             Inl Status \<Rightarrow> ([gMemoryMapTerminator], s)
           | Inr MemoryMap \<Rightarrow> (MemoryMap, s\<lparr>gMergedMemoryDescriptorEx := MemoryMap\<rparr>))"

definition QcomLocateMemoryMapAreaByName :: "mem_desc list \<Rightarrow> string \<Rightarrow> efi_status + mem_desc" where
  "QcomLocateMemoryMapAreaByName MemoryMap AreaName =
     (case find (\<lambda>d. AsciiStriCmp_eq AreaName (Name d)) (until_terminator MemoryMap) of
        Some d \<Rightarrow> Inr d | None \<Rightarrow> Inl EFI_NOT_FOUND)"

definition QcomLocateMemoryMapAreaByAddress :: "mem_desc list \<Rightarrow> u64 \<Rightarrow> efi_status + mem_desc" where
  "QcomLocateMemoryMapAreaByAddress MemoryMap AreaAddress =
     (case find (\<lambda>d. Address d = AreaAddress) (until_terminator MemoryMap) of
        Some d \<Rightarrow> Inr d | None \<Rightarrow> Inl EFI_NOT_FOUND)"

section \<open>Memory initialisation\<close>

datatype hob =
    ResourceDescriptorHob resource_type "resource_attribute list" u64 u64
  | MemoryAllocationHob u64 u64 efi_memory_type

record mmu_entry =
  PhysicalBase :: u64
  VirtualBase :: u64
  EntryLength :: u64
  EntryAttributes :: arm_attributes

definition AddHob :: "mem_desc \<Rightarrow> hob list" where
  "AddHob Desc =
     (if HobOption Desc \<noteq> AllocOnly
      then [ResourceDescriptorHob (ResourceType Desc) (ResourceAttribute Desc) (Address Desc) (Length Desc)]
      else []) @
     (if ResourceType Desc = EFI_RESOURCE_SYSTEM_MEMORY \<or> MemoryType Desc = EfiRuntimeServicesData
      then [MemoryAllocationHob (Address Desc) (Length Desc) (MemoryType Desc)] else [])"

text \<open>The loop of \<open>MemoryPeim\<close>: the HOBs it builds and the table for the MMU, before the table's
  terminator is added. \<open>None\<close> is a failed \<open>ASSERT\<close>, on the table's index or on the size of the memory.\<close>

fun MemoryPeim_loop :: "mem_desc list \<Rightarrow> hob list \<Rightarrow> mmu_entry list \<Rightarrow> (hob list \<times> mmu_entry list) option" where
  "MemoryPeim_loop [] Hobs Table = Some (Hobs, Table)"
| "MemoryPeim_loop (d # ds) Hobs Table =
     (if Length d = 0 then Some (Hobs, Table)
      else
        let Hobs = (if HobOption d = NoHob then Hobs else Hobs @ AddHob d)
        in if HobOption d = HobOnlyNoCacheSetting then MemoryPeim_loop ds Hobs Table
           else if length Table < MAX_ARM_MEMORY_REGION_DESCRIPTOR_COUNT then
             MemoryPeim_loop ds Hobs
               (Table @ [\<lparr>PhysicalBase = Address d, VirtualBase = Address d, EntryLength = Length d,
                         EntryAttributes = ArmAttributes d\<rparr>])
           else None)"

definition MemoryPeim :: "u64 \<Rightarrow> mem_desc list \<Rightarrow> (hob list \<times> mmu_entry list) option" where
  "MemoryPeim PcdSystemMemorySize MemoryMap =
     (if PcdSystemMemorySize = 0 then None
      else case MemoryPeim_loop MemoryMap [] [] of
        None \<Rightarrow> None
      | Some (Hobs, Table) \<Rightarrow>
          if length Table < MAX_ARM_MEMORY_REGION_DESCRIPTOR_COUNT
          then Some (Hobs, Table @ [\<lparr>PhysicalBase = 0, VirtualBase = 0, EntryLength = 0,
                                     EntryAttributes = ARM_UNCACHED_UNBUFFERED\<rparr>])
          else None)"

section \<open>Merging partitions the banks\<close>

lemma Append_eq_Inr [simp]:
  "AppendDescriptor m d = Inr m' \<longleftrightarrow> m' = m @ [d] \<and> length m < 127"
  "AppendRamPartition m b n = Inr m' \<longleftrightarrow> m' = m @ [RamPartition b n] \<and> length m < 127"
  by (auto simp: AppendDescriptor_def AppendRamPartition_def MAX_ARM_MEMORY_REGION_DESCRIPTOR_COUNT_def)

lemma covers_RamPartition:
  "a < b \<Longrightarrow> covers (RamPartition a (b - a)) x \<longleftrightarrow> unat a \<le> x \<and> x < unat b"
  by (auto simp: covers_def in_range_def RamPartition_def gRamPartitionTemplate_def unat_sub
      word_less_nat_alt word_le_nat_alt)

lemma DescriptorOverlapsRegion_iff:
  assumes "wf_desc d" "wf_bank r"
  shows "DescriptorOverlapsRegion d r \<longleftrightarrow>
    unat (Address d) < unat (Base r) + unat (BankLength r) \<and>
    unat (Base r) < unat (Address d) + unat (Length d)"
  using assms by (simp add: DescriptorOverlapsRegion_def wf_bank_def wf_desc_def word_less_nat_alt unat_end)

text \<open>The descriptors of a list that cover an address.\<close>

definition at :: "mem_desc list \<Rightarrow> nat \<Rightarrow> mem_desc set" where
  "at ds x = {d \<in> set ds. covers d x}"

lemma at_simps [simp]:
  "at [] x = {}" "at (ds @ es) x = at ds x \<union> at es x"
  "at (d # ds) x = (if covers d x then insert d (at ds x) else at ds x)"
  by (auto simp: at_def)

definition in_bank_part :: "ddr_bank \<Rightarrow> mem_desc list \<Rightarrow> nat \<Rightarrow> mem_desc set" where
  "in_bank_part r ds x = {d \<in> at ds x. DescriptorOverlapsRegion d r}"

lemma in_bank_part_simps [simp]:
  "in_bank_part r [] x = {}"
  "in_bank_part r (d # ds) x =
     (if covers d x \<and> DescriptorOverlapsRegion d r then insert d (in_bank_part r ds x)
      else in_bank_part r ds x)"
  by (auto simp: in_bank_part_def)

lemma covers_in_bank:
  assumes "wf_desc d" "wf_bank r" "bank_covers r x" "covers d x"
  shows "DescriptorOverlapsRegion d r"
  using assms(3,4) DescriptorOverlapsRegion_iff [OF assms(1,2)]
  by (auto simp: bank_covers_def covers_def in_range_def)

definition one_ram :: "mem_desc set \<Rightarrow> bool" where
  "one_ram S \<longleftrightarrow> (\<exists>a n. S = {RamPartition a n})"

text \<open>The part of the merged map made for one bank between the cursor's first and last value.\<close>

definition bank_parts :: "ddr_bank \<Rightarrow> mem_desc list \<Rightarrow> u64 \<Rightarrow> u64 \<Rightarrow> mem_desc list \<Rightarrow> bool" where
  "bank_parts r ds cur cur' new \<longleftrightarrow> cur \<le> cur' \<and>
    (\<forall>x. bank_covers r x \<and> unat cur' \<le> x \<longrightarrow> at ds x = {}) \<and>
    (\<forall>x. if bank_covers r x \<and> unat cur \<le> x \<and> x < unat cur' \<and> at ds x = {}
         then one_ram (at new x) else at new x = in_bank_part r ds x)"

lemma bank_parts_step:
  assumes "wf_bank r" "wf_desc d" "DescriptorOverlapsRegion d r" "Base r \<le> cur"
    and "\<And>e. e \<in> set ds \<Longrightarrow> wf_desc e \<and> (DescriptorOverlapsRegion e r \<longrightarrow> Address d \<le> Address e)"
    and "bank_parts r ds (if Address d + Length d > cur then Address d + Length d else cur) cur' new"
  shows "bank_parts r (d # ds) cur cur'
    ((if Address d > cur then [RamPartition cur (Address d - cur)] else []) @ [d] @ new)"
proof -
  let ?e = "unat (Address d + Length d)" and ?a = "unat (Address d)" and ?c = "unat cur"
  let ?c1 = "if Address d + Length d > cur then Address d + Length d else cur"
  note ih = assms(6) [unfolded bank_parts_def]
  have e: "?a < ?e" "covers d x \<longleftrightarrow> ?a \<le> x \<and> x < ?e" for x
    using wf_descD [OF assms(2)] by (auto simp: covers_def in_range_def unat_gt_0)
  have c1: "unat ?c1 = max ?c ?e" by (auto simp: word_less_nat_alt)
  have low: "?a \<le> x" if "x' \<in> at ds x" "bank_covers r x" for x x'
  proof -
    have x': "x' \<in> set ds" "covers x' x" using that(1) by (simp_all add: at_def)
    then have "DescriptorOverlapsRegion x' r" using covers_in_bank [OF _ assms(1) that(2)] assms(5) by blast
    then show ?thesis using assms(5) [OF x'(1)] x'(2) by (auto simp: covers_def in_range_def word_le_nat_alt)
  qed
  have rp: "covers (RamPartition cur (Address d - cur)) x \<longleftrightarrow> ?c \<le> x \<and> x < ?a" if "Address d > cur" for x
    using that by (simp add: covers_RamPartition)
  have inb: "bank_covers r x" if "?c \<le> x" "x < ?a" for x
    using that assms(1,4) DescriptorOverlapsRegion_iff [OF assms(2,1)] assms(3)
    by (auto simp: bank_covers_def in_range_def word_le_nat_alt)
  have le: "unat ?c1 \<le> unat cur'" using ih by (simp add: word_le_nat_alt)
  have "if bank_covers r x \<and> ?c \<le> x \<and> x < unat cur' \<and> at (d # ds) x = {}
      then one_ram (at ((if Address d > cur then [RamPartition cur (Address d - cur)] else []) @ [d] @ new) x)
      else at ((if Address d > cur then [RamPartition cur (Address d - cur)] else []) @ [d] @ new) x =
        in_bank_part r (d # ds) x" for x
  proof -
    consider (ram) "?c \<le> x" "x < ?a" | (other) "\<not> (?c \<le> x \<and> x < ?a)" by blast
    then show ?thesis
    proof cases
      case ram
      then have "at ds x = {}" "\<not> covers d x" using low [OF _ inb] e by force+
      moreover have "at new x = in_bank_part r ds x" using ih ram e(1) c1 by auto
      ultimately show ?thesis
        using ram rp [of x] inb [OF ram] le e(1) c1
        by (auto simp: one_ram_def in_bank_part_def word_less_nat_alt)
    next
      case other
      then show ?thesis
        using rp [of x] ih c1 e assms(3) by (auto simp: word_less_nat_alt split: if_splits)
    qed
  qed
  moreover have "bank_covers r x \<and> unat cur' \<le> x \<longrightarrow> at (d # ds) x = {}" for x
    using ih le c1 e by auto
  moreover have "cur \<le> cur'" using le c1 by (simp add: word_le_nat_alt)
  ultimately show ?thesis unfolding bank_parts_def by blast
qed

text \<open>
  The descriptors that overlap a bank stand in the order of their addresses. Descriptors outside the bank may stand anywhere, as the register
  map does, which follows the memory map in the configuration.
\<close>

definition sorted_in :: "ddr_bank \<Rightarrow> mem_desc list \<Rightarrow> bool" where
  "sorted_in r ds \<longleftrightarrow> sorted (map Address (filter (\<lambda>d. DescriptorOverlapsRegion d r) ds))"

lemma Merge_region_parts:
  assumes "Merge_region r ds cur m = Inr (cur', m')" "wf_bank r" "\<forall>d \<in> set ds. wf_desc d"
    and "sorted_in r ds" "Base r \<le> cur"
  shows "\<exists>new. m' = m @ new \<and> bank_parts r ds cur cur' new"
  using assms
proof (induction ds arbitrary: cur m)
  case Nil
  then show ?case by (auto simp: bank_parts_def)
next
  case (Cons d ds)
  have wd: "wf_desc d" and srt: "sorted_in r ds"
    and low: "\<And>e. DescriptorOverlapsRegion d r \<Longrightarrow> e \<in> set ds \<Longrightarrow> wf_desc e \<and> (DescriptorOverlapsRegion e r \<longrightarrow> Address d \<le> Address e)"
    using Cons.prems by (auto simp: sorted_in_def split: if_splits)
  show ?case
  proof (cases "DescriptorOverlapsRegion d r")
    case False
    with covers_in_bank [OF wd Cons.prems(2)] have nc: "bank_covers r x \<Longrightarrow> \<not> covers d x" for x by blast
    have "Merge_region r ds cur m = Inr (cur', m')" using Cons.prems(1) False by simp
    from Cons.IH [OF this Cons.prems(2) _ srt Cons.prems(5)] Cons.prems(3)
    obtain new where "m' = m @ new" "bank_parts r ds cur cur' new" by auto
    moreover from this(2) False nc have "bank_parts r (d # ds) cur cur' new"
      unfolding bank_parts_def by auto
    ultimately show ?thesis by blast
  next
    case True
    let ?c = "if Address d + Length d > cur then Address d + Length d else cur"
    let ?p = "(if Address d > cur then [RamPartition cur (Address d - cur)] else []) @ [d]"
    have run: "Merge_region r ds ?c (m @ ?p) = Inr (cur', m')"
      using Cons.prems(1) True by (auto simp: bindE_eq_Inr Let_def split: if_splits)
    have "Base r \<le> ?c" using Cons.prems(5) by auto
    from Cons.IH [OF run Cons.prems(2) _ srt this] Cons.prems(3)
    obtain new where new: "m' = (m @ ?p) @ new" "bank_parts r ds ?c cur' new" by auto
    from bank_parts_step [OF Cons.prems(2) wd True Cons.prems(5) low [OF True] new(2)] new(1)
    show ?thesis by auto
  qed
qed

definition banks_disjoint :: "ddr_bank list \<Rightarrow> bool" where
  "banks_disjoint rs \<longleftrightarrow> sorted_wrt (\<lambda>r r'. \<forall>x. \<not> (bank_covers r x \<and> bank_covers r' x)) rs"

lemma Merge_bank_total:
  assumes "Merge_region r ds (Base r) m = Inr (cur, m1)"
    and "(if cur < Base r + BankLength r then AppendRamPartition m1 cur (Base r + BankLength r - cur)
          else Inr m1) = Inr m2"
    and "wf_bank r" "\<forall>d \<in> set ds. wf_desc d" "sorted_in r ds"
  shows "\<exists>new. m2 = m @ new \<and>
    (\<forall>x. if bank_covers r x \<and> at ds x = {} then one_ram (at new x) else at new x = in_bank_part r ds x)"
proof -
  from Merge_region_parts [OF assms(1,3,4,5)] obtain new
    where new: "m1 = m @ new" and bp: "bank_parts r ds (Base r) cur new" by auto
  let ?e = "Base r + BankLength r"
  have e: "bank_covers r x \<longleftrightarrow> unat (Base r) \<le> x \<and> x < unat ?e" for x
    using assms(3) by (simp add: bank_covers_def in_range_def wf_bank_def unat_end)
  let ?t = "if cur < ?e then [RamPartition cur (?e - cur)] else []"
  have m2: "m2 = m @ new @ ?t" using assms(2) new by (auto split: if_splits)
  have tot: "if bank_covers r x \<and> at ds x = {} then one_ram (at (new @ ?t) x)
      else at (new @ ?t) x = in_bank_part r ds x" for x
  proof (cases "unat cur \<le> x \<and> bank_covers r x")
    case True
    then have "at ds x = {}" "at new x = in_bank_part r ds x" "cur < ?e"
      using bp e by (auto simp: bank_parts_def word_less_nat_alt split: if_splits)
    then show ?thesis
      using True e by (auto simp: covers_RamPartition one_ram_def in_bank_part_def)
  next
    case False
    have "at ?t x = {}"
      using False e bp by (auto simp: covers_RamPartition bank_parts_def word_le_nat_alt)
    then show ?thesis
      using False bp e [of x] by (auto simp: bank_parts_def split: if_splits)
  qed
  show ?thesis using m2 tot by blast
qed

lemma Merge_regions_total:
  assumes "Merge_regions rs ds m = Inr m'" "\<forall>r \<in> set rs. wf_bank r" "banks_disjoint rs"
    and "\<forall>d \<in> set ds. wf_desc d" "\<forall>r \<in> set rs. sorted_in r ds"
  shows "\<exists>new. m' = m @ new \<and>
    (\<forall>x. if (\<exists>r \<in> set rs. bank_covers r x) \<and> at ds x = {} then one_ram (at new x)
         else at new x = (\<Union>r \<in> set rs. in_bank_part r ds x))"
  using assms
proof (induction rs arbitrary: m)
  case Nil
  then show ?case by simp
next
  case (Cons r rs)
  then obtain cur m1 m2 where s: "Merge_region r ds (Base r) m = Inr (cur, m1)"
    "(if cur < Base r + BankLength r then AppendRamPartition m1 cur (Base r + BankLength r - cur)
      else Inr m1) = Inr m2"
    and l: "Merge_regions rs ds m2 = Inr m'"
    by (auto simp: bindE_eq_Inr)
  have wr: "wf_bank r" and dj: "\<And>r' x. r' \<in> set rs \<Longrightarrow> bank_covers r x \<Longrightarrow> \<not> bank_covers r' x"
    and djs: "banks_disjoint rs"
    using Cons.prems(2,3) by (auto simp: banks_disjoint_def)
  have srt: "sorted_in r ds" "\<forall>r \<in> set rs. sorted_in r ds" using Cons.prems(5) by auto
  from Merge_bank_total [OF s wr Cons.prems(4) srt(1)] obtain new1 where n1: "m2 = m @ new1"
    "\<And>x. if bank_covers r x \<and> at ds x = {} then one_ram (at new1 x) else at new1 x = in_bank_part r ds x"
    by blast
  from Cons.IH [OF l _ djs Cons.prems(4) srt(2)] Cons.prems(2) obtain new2 where n2: "m' = m2 @ new2"
    "\<And>x. if (\<exists>r \<in> set rs. bank_covers r x) \<and> at ds x = {} then one_ram (at new2 x)
         else at new2 x = (\<Union>r \<in> set rs. in_bank_part r ds x)" by auto
  have none: "at ds x = {} \<Longrightarrow> in_bank_part q ds x = {}" for q x by (simp add: in_bank_part_def)
  have tot: "if (\<exists>r \<in> set (r # rs). bank_covers r x) \<and> at ds x = {} then one_ram (at (new1 @ new2) x)
      else at (new1 @ new2) x = (\<Union>r \<in> set (r # rs). in_bank_part r ds x)" for x
    using n1(2) [of x] n2(2) [of x] dj [of _ x] none [of x] by (auto split: if_splits)
  show ?case
  proof (intro exI conjI allI)
    show "m' = m @ (new1 @ new2)" using n1(1) n2(1) by simp
  qed (rule tot)
qed

lemma Merge_rest_filter:
  "Merge_rest rs ds m = Inr m' \<Longrightarrow>
   m' = m @ filter (\<lambda>d. \<not> list_ex (DescriptorOverlapsRegion d) rs) ds"
proof (induction ds arbitrary: m)
  case (Cons d ds)
  then show ?case by (cases "list_ex (DescriptorOverlapsRegion d) rs") (fastforce simp: bindE_eq_Inr)+
qed simp

lemma Merge_region_length:
  "Merge_region r ds cur m = Inr (cur', m') \<Longrightarrow> length m \<le> 127 \<Longrightarrow> length m' \<le> 127"
  by (induction r ds cur m rule: Merge_region.induct) (auto simp: bindE_eq_Inr Let_def split: if_splits)

lemma Merge_regions_length:
  "Merge_regions rs ds m = Inr m' \<Longrightarrow> length m \<le> 127 \<Longrightarrow> length m' \<le> 127"
proof (induction rs ds m rule: Merge_regions.induct)
  case (2 r rs ds m)
  then obtain cur m1 m2 where "Merge_region r ds (Base r) m = Inr (cur, m1)"
    "(if cur < Base r + BankLength r then AppendRamPartition m1 cur (Base r + BankLength r - cur)
      else Inr m1) = Inr m2" "Merge_regions rs ds m2 = Inr m'"
    by (auto simp: bindE_eq_Inr)
  with 2 Merge_region_length [of r ds "Base r" m cur m1] show ?case by (auto split: if_splits)
qed simp

lemma Merge_rest_length:
  "Merge_rest rs ds m = Inr m' \<Longrightarrow> length m \<le> 127 \<Longrightarrow> length m' \<le> 127"
  by (induction rs ds m rule: Merge_rest.induct) (auto simp: bindE_eq_Inr split: if_splits)

lemma until_terminator_wf:
  "\<forall>d \<in> set ds. wf_desc d \<Longrightarrow> until_terminator (ds @ [gMemoryMapTerminator]) = ds"
  by (induction ds) (auto simp: until_terminator_def gMemoryMapTerminator_def wf_desc_def)

text \<open>C4: merging partitions the DDR banks. On disjoint banks and configured descriptors of which those that overlap a bank are sorted by
  address, with the others in any place, the merged map fits its array with a terminator, describes each address that the
  configuration describes exactly as the configuration does, and covers each remaining address of a
  bank by exactly one RAM partition and every other address by nothing.\<close>

theorem MergeDdrBankRegions_partition:
  assumes "MergeDdrBankRegions banks s = Inr m"
    and "gDeviceMemoryDescriptorEx s = ds @ [gMemoryMapTerminator]"
    and "\<forall>d \<in> set ds. wf_desc d" "\<forall>r \<in> set banks. sorted_in r ds"
    and "\<forall>r \<in> set banks. wf_bank r" "banks_disjoint banks"
  shows "length m \<le> MAX_ARM_MEMORY_REGION_DESCRIPTOR_COUNT \<and> last m = gMemoryMapTerminator \<and>
    (\<forall>x. if at ds x \<noteq> {} then at m x = at ds x
         else if \<exists>r \<in> set banks. bank_covers r x then one_ram (at m x) else at m x = {})"
proof -
  have ds: "until_terminator (gDeviceMemoryDescriptorEx s) = ds"
    using assms(2,3) until_terminator_wf by simp
  from assms(1) obtain m1 m2 where r: "Merge_regions banks ds [] = Inr m1"
    "Merge_rest banks ds m1 = Inr m2" "m = m2 @ [gMemoryMapTerminator]"
    by (auto simp: MergeDdrBankRegions_def ds bindE_eq_Inr)
  have len: "length m2 \<le> 127"
    using Merge_rest_length [OF r(2)] Merge_regions_length [OF r(1)] by simp
  have mt: "m2 = m1 @ filter (\<lambda>d. \<not> list_ex (DescriptorOverlapsRegion d) banks) ds"
    using Merge_rest_filter [OF r(2)] .
  have m1: "if (\<exists>r \<in> set banks. bank_covers r x) \<and> at ds x = {} then one_ram (at m1 x)
      else at m1 x = (\<Union>r \<in> set banks. in_bank_part r ds x)" for x
    using Merge_regions_total [OF r(1) assms(5,6,3,4)] by auto
  have tm: "\<not> covers gMemoryMapTerminator x" for x
    by (simp add: covers_def in_range_def gMemoryMapTerminator_def)
  have rest: "at (filter (\<lambda>d. \<not> list_ex (DescriptorOverlapsRegion d) banks) ds) x =
      at ds x - (\<Union>r \<in> set banks. in_bank_part r ds x)" for x
    by (auto simp: at_def in_bank_part_def list_ex_iff)
  have "if at ds x \<noteq> {} then at m x = at ds x
      else if \<exists>r \<in> set banks. bank_covers r x then one_ram (at m x) else at m x = {}" for x
    using m1 [of x] by (auto simp: r(3) mt tm rest in_bank_part_def split: if_splits)
  moreover have "length m \<le> MAX_ARM_MEMORY_REGION_DESCRIPTOR_COUNT" "last m = gMemoryMapTerminator"
    using len r(3) by (auto simp: MAX_ARM_MEMORY_REGION_DESCRIPTOR_COUNT_def)
  ultimately show ?thesis by blast
qed

lemma bank_apart:
  assumes "no_wrap (Base r) (BankLength r)" "Base r + BankLength r \<le> Base r'"
  shows "\<not> (bank_covers r x \<and> bank_covers r' x)"
  using assms by (auto simp: bank_covers_def in_range_def word_le_nat_alt unat_end)

text \<open>the DDR bank tables of both platforms, whatever the board, are non-empty ranges that do not
  wrap and do not overlap, which is what the merge relies on.\<close>

theorem GetPlatformDdrBankRegions_wf:
  "(\<exists>rs. GetPlatformDdrBankRegions_Sm8150 = Inr rs \<and> (\<forall>r \<in> set rs. wf_bank r) \<and> banks_disjoint rs) \<and>
   (\<exists>rs. GetPlatformDdrBankRegions_Sm8350 BoardID = Inr rs \<and> (\<forall>r \<in> set rs. wf_bank r) \<and> banks_disjoint rs)"
  by (simp add: GetPlatformDdrBankRegions_Sm8150_def GetPlatformDdrBankRegions_Sm8350_def
      gDdrBankRegions_def gDdrBankRegionsEV_def gDdrBankRegionsDV_def wf_bank_def no_wrap_iff
      banks_disjoint_def bank_covers_def in_range_def)

lemma GetPlatformDdrBankRegions_wf_witness:
  "\<exists>rs. GetPlatformDdrBankRegions_Sm8350 3 = Inr rs \<and> length rs = 3 \<and> banks_disjoint rs"
  using GetPlatformDdrBankRegions_wf [of 3]
  by (auto simp: GetPlatformDdrBankRegions_Sm8350_def gDdrBankRegionsEV_def)

text \<open>Two areas of the memory, then a device register at a low address, as in the configuration of the Surface Duo.\<close>

definition sample_areas :: "mem_desc list" where
  "sample_areas = [sample_desc 0x80600000 0x02400000, sample_desc 0x90000000 0x1000, sample_desc 0x00100000 0x00200000]"

definition sample_map_state :: memory_map_state where
  "sample_map_state =
     \<lparr>gDeviceMemoryDescriptorEx = sample_areas @ [gMemoryMapTerminator],
      gMergedMemoryDescriptorEx = [], gMemoryMapLoaded = True, gMemoryMapLoadStatus = EFI_SUCCESS\<rparr>"

definition sample_merged :: "mem_desc list" where
  "sample_merged =
     [RamPartition 0x80000000 0x600000, sample_desc 0x80600000 0x02400000, RamPartition 0x82A00000 0xD600000,
      sample_desc 0x90000000 0x1000, RamPartition 0x90001000 0x2CBFF000, RamPartition 0xC0000000 0x80000000,
      RamPartition 0x140000000 0xC0000000, sample_desc 0x00100000 0x00200000, gMemoryMapTerminator]"

lemma MergeDdrBankRegions_partition_witness:
  "MergeDdrBankRegions gDdrBankRegions sample_map_state = Inr sample_merged \<and>
   one_ram (at sample_merged 0x83000000) \<and>
   at sample_merged 0x90000010 = {sample_desc 0x90000000 0x1000} \<and>
   at sample_merged 0x00100000 = {sample_desc 0x00100000 0x00200000}"
proof -
  have run: "MergeDdrBankRegions gDdrBankRegions sample_map_state = Inr sample_merged"
    by (simp add: MergeDdrBankRegions_def sample_map_state_def sample_merged_def sample_areas_def until_terminator_def
        gDdrBankRegions_def DescriptorOverlapsRegion_def AppendDescriptor_def AppendRamPartition_def
        MAX_ARM_MEMORY_REGION_DESCRIPTOR_COUNT_def sample_desc_def gMemoryMapTerminator_def)
  have dev: "gDeviceMemoryDescriptorEx sample_map_state = sample_areas @ [gMemoryMapTerminator]"
    by (simp add: sample_map_state_def)
  have wf: "\<forall>d \<in> set sample_areas. wf_desc d" "\<forall>r \<in> set gDdrBankRegions. sorted_in r sample_areas"
    by (simp_all add: wf_desc_def sample_desc_def sample_areas_def no_wrap_iff MEMORY_REGION_NAME_MAX_LENGTH_def
        sorted_in_def gDdrBankRegions_def DescriptorOverlapsRegion_def)
  have bk: "\<forall>r \<in> set gDdrBankRegions. wf_bank r" "banks_disjoint gDdrBankRegions"
    by (simp_all add: gDdrBankRegions_def wf_bank_def no_wrap_iff
        banks_disjoint_def bank_covers_def in_range_def)
  have pts: "at sample_areas 0x83000000 = {}" "at sample_areas 0x90000010 = {sample_desc 0x90000000 0x1000}"
    "at sample_areas 0x00100000 = {sample_desc 0x00100000 0x00200000}"
    "\<exists>r \<in> set gDdrBankRegions. bank_covers r 0x83000000"
    by (simp_all add: covers_def in_range_def sample_desc_def sample_areas_def gDdrBankRegions_def bank_covers_def)
  have point: "if at sample_areas x \<noteq> {} then at sample_merged x = at sample_areas x
      else if \<exists>r \<in> set gDdrBankRegions. bank_covers r x then one_ram (at sample_merged x)
      else at sample_merged x = {}" for x
    using MergeDdrBankRegions_partition [OF run dev wf bk] by blast
  show ?thesis
    using run point [of "0x83000000"] point [of "0x90000010"] point [of "0x00100000"] pts by (simp del: at_simps)
qed

section \<open>The loaded map\<close>

definition loaded_map :: "mem_desc list \<Rightarrow> bool" where
  "loaded_map arr \<longleftrightarrow>
     (\<exists>ds. arr = ds @ [gMemoryMapTerminator] \<and> ds \<noteq> [] \<and> (\<forall>d \<in> set ds. wf_desc d) \<and>
        length ds < MAX_ARM_MEMORY_REGION_DESCRIPTOR_COUNT)"

lemma section_loads_wf:
  assumes "MemoryMapConfigLoadDescriptorSection st (Some sec) cap ds = (s, ds')"
    and "sec = ''MemoryMap'' \<or> sec = ''RegisterMap''" "\<forall>d \<in> set ds. wf_desc d" "length ds \<le> cap"
  shows "\<forall>d \<in> set ds'. wf_desc d" "length ds' \<le> cap"
  using assms memory_map.loop_grows
      [where st = st and n = 0 and init = "length ds" and ds = ds and cap = cap and ds' = ds' and s = s]
    register_map.loop_grows
      [where st = st and n = 0 and init = "length ds" and ds = ds and cap = cap and ds' = ds' and s = s]
  by (auto simp: MemoryMapConfigLoadDescriptorSection_def)

lemma overlay_wf:
  assumes "MemoryMapConfigOverlayDescriptor ds cap ov = Inr ds'" "\<forall>d \<in> set ds. wf_desc d" "wf_desc ov"
  shows "\<forall>d \<in> set ds'. wf_desc d" "length ds' \<le> cap"
proof -
  from assms(1) obtain ins ws where l: "Overlay_loop cap ov ds (False, []) = Inr (ins, ws)"
    and f: "ds' = (if ins then ws else ws @ [ov])" "\<not> ins \<longrightarrow> length ws < cap"
    by (auto simp: MemoryMapConfigOverlayDescriptor_def bindE_eq_Inr split: if_splits)
  show "\<forall>d \<in> set ds'. wf_desc d" using Overlay_loop_wf [OF l assms(3)] assms(2,3) f by auto
  show "length ds' \<le> cap" using Overlay_loop_length [OF l] f by auto
qed

lemma GetValue_loop_error: "GetValue_loop cs sec key i ins m \<noteq> Inl EFI_SUCCESS"
proof (induction cs sec key i ins m rule: GetValue_loop.induct)
  case (1 cs sec key i ins m)
  have "GetValue_line cs sec key i e ins m \<noteq> Inl EFI_SUCCESS" for e
    by (simp add: GetValue_line_def SectionHeader_def Let_def split: prod.splits sum.splits)
  with "1.IH" show ?case
    by (subst GetValue_loop.simps) (auto simp: Let_def split: sum.splits prod.splits)
qed

lemma GetAndromedaBootConfigUint64_error: "GetAndromedaBootConfigUint64 st sec key b \<noteq> Inl EFI_SUCCESS"
proof -
  obtain s v n where v: "GetAndromedaBootConfigValue st sec key True (Some 32) = (s, v, n)"
    by (metis prod_cases3)
  have "v \<noteq> None" if "s = EFI_SUCCESS"
    using v that GetValue_loop_error
    by (auto simp: GetAndromedaBootConfigValue_def GetBootConfig_def Let_def
        split: option.split_asm sum.split_asm if_split_asm)
  moreover have "ParseUint64 x \<noteq> Inl EFI_SUCCESS" for x
    using Uint64_loop_status [of x] by (auto simp: ParseUint64_def split: if_splits dest: sym)
  ultimately show ?thesis
    by (auto simp: GetAndromedaBootConfigUint64_def v EFI_ERROR_def split: option.splits)
qed

lemma pstore_overlay_error:
  "bindE (MemoryMapConfigLoadPStoreDescriptor st) (MemoryMapConfigOverlayDescriptor ds cap) \<noteq> Inl EFI_SUCCESS"
  using GetAndromedaBootConfigUint64_error Overlay_loop_fails
  by (fastforce simp: bindE_eq_Inl MemoryMapConfigLoadPStoreDescriptor_def
      MemoryMapConfigOverlayDescriptor_def Workspace_push_def split: if_splits prod.splits)

lemma LoadPlatformRegisterMap_success:
  assumes "LoadPlatformRegisterMap serial Regions st ds = (EFI_SUCCESS, arr)"
    and "Regions \<noteq> Inl EFI_SUCCESS" "\<forall>d \<in> set ds. wf_desc d" "length ds \<le> 127"
  shows "loaded_map arr \<and>
    (serial \<longrightarrow> (\<exists>banks. Regions = Inr banks \<and>
       MemoryMapConfigValidatePStorePlacement (butlast arr) banks = EFI_SUCCESS))"
proof -
  obtain s ds' where l: "MemoryMapConfigLoadDescriptorSection st (Some ''RegisterMap'') 127 ds = (s, ds')"
    by force
  note w = section_loads_wf [OF l _ assms(3,4)]
  have "arr = ds' @ [gMemoryMapTerminator]" "ds' \<noteq> []"
    "serial \<longrightarrow> (\<exists>banks. Regions = Inr banks \<and> MemoryMapConfigValidatePStorePlacement ds' banks = EFI_SUCCESS)"
    using assms(1,2)
    by (auto simp: LoadPlatformRegisterMap_def MAX_ARM_MEMORY_REGION_DESCRIPTOR_COUNT_def l Let_def
        EFI_ERROR_def split: if_split_asm sum.split_asm)
  with w show ?thesis
    by (auto simp: loaded_map_def MAX_ARM_MEMORY_REGION_DESCRIPTOR_COUNT_def)
qed

lemma LoadPlatformMemoryMap_success:
  assumes "LoadPlatformMemoryMap serial Regions st = (EFI_SUCCESS, arr)" "Regions \<noteq> Inl EFI_SUCCESS"
  shows "loaded_map arr \<and>
    (serial \<longrightarrow> (\<exists>banks. Regions = Inr banks \<and>
       MemoryMapConfigValidatePStorePlacement (butlast arr) banks = EFI_SUCCESS))"
proof -
  obtain s ds where l: "MemoryMapConfigLoadDescriptorSection st (Some ''MemoryMap'') 127 [] = (s, ds)"
    by force
  have w: "\<forall>d \<in> set ds. wf_desc d" "length ds \<le> 127" using section_loads_wf [OF l] by simp_all
  have ok: "s = EFI_SUCCESS"
    using assms(1) by (auto simp: LoadPlatformMemoryMap_def MAX_ARM_MEMORY_REGION_DESCRIPTOR_COUNT_def l Let_def
        EFI_ERROR_def split: if_split_asm)
  show ?thesis
  proof (cases serial)
    case False
    with assms l ok have "LoadPlatformRegisterMap serial Regions st ds = (EFI_SUCCESS, arr)"
      by (simp add: LoadPlatformMemoryMap_def MAX_ARM_MEMORY_REGION_DESCRIPTOR_COUNT_def)
    then show ?thesis by (rule LoadPlatformRegisterMap_success [OF _ assms(2) w])
  next
    case True
    let ?o = "bindE (MemoryMapConfigLoadPStoreDescriptor st) (MemoryMapConfigOverlayDescriptor ds 127)"
    have "(case ?o of Inl s \<Rightarrow> (s, ds) | Inr d \<Rightarrow> LoadPlatformRegisterMap True Regions st d) = (EFI_SUCCESS, arr)"
      using assms l ok True by (simp add: LoadPlatformMemoryMap_def MAX_ARM_MEMORY_REGION_DESCRIPTOR_COUNT_def)
    then obtain ds2 where ds2: "?o = Inr ds2" "LoadPlatformRegisterMap True Regions st ds2 = (EFI_SUCCESS, arr)"
      using pstore_overlay_error [of st ds 127] by (auto split: sum.split_asm)
    then obtain ov where "MemoryMapConfigLoadPStoreDescriptor st = Inr ov"
      "MemoryMapConfigOverlayDescriptor ds 127 ov = Inr ds2" by (auto simp: bindE_eq_Inr)
    with overlay_wf [OF _ w(1)] MemoryMapConfigLoadPStoreDescriptor_wf
    have "\<forall>d \<in> set ds2. wf_desc d" "length ds2 \<le> 127" by blast+
    with LoadPlatformRegisterMap_success [OF ds2(2) assms(2)] show ?thesis by simp
  qed
qed

text \<open>Once the map counts as loaded with success, the array is a terminated, well-formed map.\<close>

definition map_inv :: "memory_map_state \<Rightarrow> bool" where
  "map_inv s \<longleftrightarrow>
     (gMemoryMapLoaded s \<and> gMemoryMapLoadStatus s = EFI_SUCCESS \<longrightarrow> loaded_map (gDeviceMemoryDescriptorEx s))"

text \<open>\<open>EnsurePlatformMemoryMapLoaded\<close> keeps the invariant; when it succeeds the device array is a
  non-empty, terminated list of fewer than 128 well-formed descriptors; and any answer other than
  \<open>EFI_NOT_FOUND\<close> is final: a later call returns it again without reading the configuration.\<close>

theorem EnsurePlatformMemoryMapLoaded_inv:
  assumes "EnsurePlatformMemoryMapLoaded serial Regions st s = (Status, s')"
    and "map_inv s" "Regions \<noteq> Inl EFI_SUCCESS"
  shows "map_inv s' \<and>
    (Status = EFI_SUCCESS \<longrightarrow> loaded_map (gDeviceMemoryDescriptorEx s')) \<and>
    (Status \<noteq> EFI_NOT_FOUND \<longrightarrow> EnsurePlatformMemoryMapLoaded serial Regions st2 s' = (Status, s'))"
proof (cases "gMemoryMapLoaded s")
  case True
  with assms show ?thesis by (auto simp: EnsurePlatformMemoryMapLoaded_def map_inv_def)
next
  case False
  obtain q arr where l: "LoadPlatformMemoryMap serial Regions st = (q, arr)" by force
  have "q = EFI_SUCCESS \<Longrightarrow> loaded_map arr"
    using LoadPlatformMemoryMap_success l assms(3) by blast
  with False l assms(1) show ?thesis
    by (auto simp: EnsurePlatformMemoryMapLoaded_def map_inv_def Let_def split: if_splits)
qed

definition initial_map_state :: memory_map_state where
  "initial_map_state =
     \<lparr>gDeviceMemoryDescriptorEx = [], gMergedMemoryDescriptorEx = [], gMemoryMapLoaded = False,
      gMemoryMapLoadStatus = EFI_NOT_READY\<rparr>"

lemma EnsurePlatformMemoryMapLoaded_inv_witness:
  "map_inv (snd (EnsurePlatformMemoryMapLoaded False GetPlatformDdrBankRegions_Sm8150 sample_state initial_map_state))"
  using EnsurePlatformMemoryMapLoaded_inv
    [of False GetPlatformDdrBankRegions_Sm8150 sample_state initial_map_state
      "fst (EnsurePlatformMemoryMapLoaded False GetPlatformDdrBankRegions_Sm8150 sample_state initial_map_state)"
      "snd (EnsurePlatformMemoryMapLoaded False GetPlatformDdrBankRegions_Sm8150 sample_state initial_map_state)"]
  by (simp add: map_inv_def initial_map_state_def GetPlatformDdrBankRegions_Sm8150_def)

section \<open>Memory initialisation\<close>

definition mmu_entry_of :: "mem_desc \<Rightarrow> mmu_entry" where
  "mmu_entry_of d =
     \<lparr>PhysicalBase = Address d, VirtualBase = Address d, EntryLength = Length d,
      EntryAttributes = ArmAttributes d\<rparr>"

lemma MemoryPeim_loop_spec:
  "\<forall>d \<in> set ds. Length d \<noteq> 0 \<Longrightarrow> length t + length ds \<le> 128 \<Longrightarrow>
   MemoryPeim_loop (ds @ [gMemoryMapTerminator]) hs t =
     Some (hs @ concat (map AddHob (filter (\<lambda>d. HobOption d \<noteq> NoHob) ds)),
           t @ map mmu_entry_of (filter (\<lambda>d. HobOption d \<noteq> HobOnlyNoCacheSetting) ds))"
  by (induction ds arbitrary: hs t)
    (auto simp: gMemoryMapTerminator_def mmu_entry_of_def MAX_ARM_MEMORY_REGION_DESCRIPTOR_COUNT_def Let_def)

lemma MemoryPeim_run:
  assumes "\<forall>d \<in> set ds. Length d \<noteq> 0" "length ds < MAX_ARM_MEMORY_REGION_DESCRIPTOR_COUNT"
  shows "MemoryPeim MemorySize (ds @ [gMemoryMapTerminator]) =
    (if MemorySize = 0 then None
     else Some (concat (map AddHob (filter (\<lambda>d. HobOption d \<noteq> NoHob) ds)),
          map mmu_entry_of (filter (\<lambda>d. HobOption d \<noteq> HobOnlyNoCacheSetting) ds) @
          [mmu_entry_of gMemoryMapTerminator]))"
proof -
  have "length (filter (\<lambda>d. HobOption d \<noteq> HobOnlyNoCacheSetting) ds) < 128"
    by (rule le_less_trans [OF length_filter_le])
      (use assms(2) in \<open>simp add: MAX_ARM_MEMORY_REGION_DESCRIPTOR_COUNT_def\<close>)
  then show ?thesis
    using MemoryPeim_loop_spec [of ds "[]" "[]"] assms
    by (simp add: MemoryPeim_def MAX_ARM_MEMORY_REGION_DESCRIPTOR_COUNT_def mmu_entry_of_def
        gMemoryMapTerminator_def)
qed

text \<open>The two kinds of HOB that a list of descriptors calls for, and when an address is in a HOB or an entry of the MMU table.\<close>

definition resource_hobs :: "mem_desc list \<Rightarrow> hob list" where
  "resource_hobs ds =
     map (\<lambda>d. ResourceDescriptorHob (ResourceType d) (ResourceAttribute d) (Address d) (Length d))
       (filter (\<lambda>d. HobOption d \<in> {AddMem, AddDev, HobOnlyNoCacheSetting}) ds)"

definition allocation_hobs :: "mem_desc list \<Rightarrow> hob list" where
  "allocation_hobs ds =
     map (\<lambda>d. MemoryAllocationHob (Address d) (Length d) (MemoryType d))
       (filter (\<lambda>d. HobOption d \<noteq> NoHob \<and> (ResourceType d = EFI_RESOURCE_SYSTEM_MEMORY \<or> MemoryType d = EfiRuntimeServicesData)) ds)"

definition is_resource :: "hob \<Rightarrow> bool" where
  "is_resource h \<longleftrightarrow> (\<exists>t a b n. h = ResourceDescriptorHob t a b n)"

lemma AddHob_kinds:
  "filter is_resource (concat (map AddHob (filter (\<lambda>d. HobOption d \<noteq> NoHob) ds))) = resource_hobs ds"
  "filter (\<lambda>h. \<not> is_resource h) (concat (map AddHob (filter (\<lambda>d. HobOption d \<noteq> NoHob) ds))) = allocation_hobs ds"
proof (induction ds)
  case (Cons d ds)
  {
    case 1
    show ?case using Cons by (cases "HobOption d") (auto simp: AddHob_def resource_hobs_def is_resource_def)
  next
    case 2
    show ?case using Cons by (cases "HobOption d") (auto simp: AddHob_def allocation_hobs_def is_resource_def)
  }
qed (simp_all add: resource_hobs_def allocation_hobs_def)

text \<open>An address is mapped, to itself, with these attributes.\<close>

definition mapped :: "mmu_entry list \<Rightarrow> nat \<Rightarrow> arm_attributes set" where
  "mapped t x = {EntryAttributes e |e. e \<in> set t \<and> in_range (PhysicalBase e) (EntryLength e) x \<and> VirtualBase e = PhysicalBase e}"

lemma mapped_table:
  "mapped (map mmu_entry_of es @ [mmu_entry_of gMemoryMapTerminator]) x = {ArmAttributes d |d. d \<in> set es \<and> covers d x}"
proof -
  have "\<not> in_range 0 0 x" by (simp add: in_range_def)
  then have "mapped (map mmu_entry_of es @ [mmu_entry_of gMemoryMapTerminator]) x \<subseteq> {ArmAttributes d |d. d \<in> set es \<and> covers d x}"
    by (auto simp: mapped_def mmu_entry_of_def covers_def gMemoryMapTerminator_def)
  moreover have "ArmAttributes d \<in> mapped (map mmu_entry_of es @ ts) x" if "d \<in> set es" "covers d x" for d ts
    unfolding mapped_def using that by (intro CollectI exI [of _ "mmu_entry_of d"]) (auto simp: mmu_entry_of_def covers_def)
  ultimately show ?thesis by blast
qed

text \<open>C20: on every terminated map that fits its array, which is what \<open>GetPlatformMemoryMap\<close> returns, with the size of the memory set,
  \<open>MemoryPeim\<close> fails no assertion. It builds one resource HOB for each descriptor with the option AddMem, AddDev or HobOnlyNoCacheSetting, and
  one allocation HOB for each system memory or runtime data descriptor but the NoHob ones, in the order of the map. The MMU table is terminated and
  maps an address to itself exactly where a descriptor covers it that is not HobOnlyNoCacheSetting, with the attributes of that descriptor. With the size not set the first assertion
  fails.\<close>

theorem MemoryPeim_table:
  assumes "\<forall>d \<in> set ds. Length d \<noteq> 0" "length ds < MAX_ARM_MEMORY_REGION_DESCRIPTOR_COUNT"
  shows "if MemorySize = 0 then MemoryPeim MemorySize (ds @ [gMemoryMapTerminator]) = None
    else \<exists>hobs t. MemoryPeim MemorySize (ds @ [gMemoryMapTerminator]) = Some (hobs, t) \<and>
      filter is_resource hobs = resource_hobs ds \<and> filter (\<lambda>h. \<not> is_resource h) hobs = allocation_hobs ds \<and>
      length t \<le> MAX_ARM_MEMORY_REGION_DESCRIPTOR_COUNT \<and> EntryLength (last t) = 0 \<and>
      (\<forall>x. mapped t x = {ArmAttributes d |d. d \<in> set ds \<and> HobOption d \<noteq> HobOnlyNoCacheSetting \<and> covers d x})"
proof -
  let ?t = "map mmu_entry_of (filter (\<lambda>d. HobOption d \<noteq> HobOnlyNoCacheSetting) ds) @ [mmu_entry_of gMemoryMapTerminator]"
  have "length (filter (\<lambda>d. HobOption d \<noteq> HobOnlyNoCacheSetting) ds) < MAX_ARM_MEMORY_REGION_DESCRIPTOR_COUNT"
    by (rule le_less_trans [OF length_filter_le assms(2)])
  then have "length ?t \<le> MAX_ARM_MEMORY_REGION_DESCRIPTOR_COUNT" "EntryLength (last ?t) = 0"
    by (simp_all add: mmu_entry_of_def gMemoryMapTerminator_def)
  moreover have "mapped ?t x = {ArmAttributes d |d. d \<in> set ds \<and> HobOption d \<noteq> HobOnlyNoCacheSetting \<and> covers d x}" for x
    by (simp add: mapped_table)
  ultimately show ?thesis using MemoryPeim_run [OF assms] AddHob_kinds [of ds] by simp
qed

lemma MemoryPeim_table_witness:
  "\<exists>hobs t. MemoryPeim 0x180000000 ([sample_desc 0x1000 0x1000] @ [gMemoryMapTerminator]) = Some (hobs, t) \<and>
     filter is_resource hobs = resource_hobs [sample_desc 0x1000 0x1000] \<and> mapped t 0x1800 = {ArmAttributes (sample_desc 0x1000 0x1000)}"
proof -
  have w: "\<forall>d \<in> set [sample_desc 0x1000 0x1000]. Length d \<noteq> 0" "length [sample_desc 0x1000 0x1000] < MAX_ARM_MEMORY_REGION_DESCRIPTOR_COUNT"
    by (simp_all add: sample_desc_def MAX_ARM_MEMORY_REGION_DESCRIPTOR_COUNT_def)
  from MemoryPeim_table [OF w, of "0x180000000"] obtain hobs t where
    r: "MemoryPeim 0x180000000 ([sample_desc 0x1000 0x1000] @ [gMemoryMapTerminator]) = Some (hobs, t)"
    "filter is_resource hobs = resource_hobs [sample_desc 0x1000 0x1000]"
    "\<forall>x. mapped t x = {ArmAttributes d |d. d \<in> set [sample_desc 0x1000 0x1000] \<and> HobOption d \<noteq> HobOnlyNoCacheSetting \<and> covers d x}" by auto
  from r(3) [rule_format, of "0x1800"] have "mapped t 0x1800 = {ArmAttributes (sample_desc 0x1000 0x1000)}"
    by (simp add: covers_def in_range_def sample_desc_def)
  with r show ?thesis by blast
qed

text \<open>the lookups by name and by address return the first descriptor of the map that matches, and
  \<open>EFI_NOT_FOUND\<close> exactly when none does.\<close>

theorem QcomLocateMemoryMapArea_first:
  assumes "\<forall>d \<in> set ds. Length d \<noteq> 0"
  shows "QcomLocateMemoryMapAreaByName (ds @ [gMemoryMapTerminator]) n =
      (if \<exists>d \<in> set ds. lower_str n = lower_str (Name d)
       then Inr (hd (filter (\<lambda>d. lower_str n = lower_str (Name d)) ds)) else Inl EFI_NOT_FOUND) \<and>
    QcomLocateMemoryMapAreaByAddress (ds @ [gMemoryMapTerminator]) a =
      (if \<exists>d \<in> set ds. Address d = a then Inr (hd (filter (\<lambda>d. Address d = a) ds)) else Inl EFI_NOT_FOUND)"
proof -
  have u: "until_terminator (ds @ [gMemoryMapTerminator]) = ds"
    using assms by (simp add: until_terminator_def gMemoryMapTerminator_def)
  have f: "find P ds = (if \<exists>d \<in> set ds. P d then Some (hd (filter P ds)) else None)" for P
    by (induction ds) auto
  show ?thesis
    by (simp add: QcomLocateMemoryMapAreaByName_def QcomLocateMemoryMapAreaByAddress_def
        AsciiStriCmp_eq_def u f)
qed

lemma QcomLocateMemoryMapArea_first_witness:
  "QcomLocateMemoryMapAreaByName ([sample_desc 0x1000 0x1000] @ [gMemoryMapTerminator]) ''ram'' =
   Inr (sample_desc 0x1000 0x1000)"
proof -
  have "lower_str ''ram'' = lower_str (Name (sample_desc 0x1000 0x1000))"
    unfolding sample_desc_def by simp code_simp
  then show ?thesis
    using QcomLocateMemoryMapArea_first [of "[sample_desc 0x1000 0x1000]" "''ram''"]
    by (simp add: sample_desc_def)
qed

end
