(* ===== verification/Byte_Buffer.thy ===== *)
theory Byte_Buffer
  imports Andromeda_Prelude
begin

text \<open>
  Reads from a byte buffer. A buffer is the list of its bytes, so a read that leaves the buffer has
  no value: it is \<open>None\<close>, the outcome this development uses for undefined behaviour of the C code
  (and for a loop that does not end). Integers are little endian, as on the platforms the firmware
  is built for.
\<close>

type_synonym bytes = "u8 list"

named_theorems rd_simps

definition rd :: "bytes \<Rightarrow> nat \<Rightarrow> nat \<Rightarrow> bytes option" where
  "rd bs off n = (if off + n \<le> length bs then Some (take n (drop off bs)) else None)"

definition byte :: "nat \<Rightarrow> u8" where
  "byte n = word_of_nat n"

definition dec32 :: "bytes \<Rightarrow> u32" where
  "dec32 bs =
     word_of_nat (unat (bs ! 0) + unat (bs ! 1) * 256 + unat (bs ! 2) * 65536 + unat (bs ! 3) * 16777216)"

definition enc32 :: "u32 \<Rightarrow> bytes" where
  "enc32 w = [byte (unat w), byte (unat w div 256), byte (unat w div 65536), byte (unat w div 16777216)]"

definition dec16 :: "bytes \<Rightarrow> u16" where
  "dec16 bs = word_of_nat (unat (bs ! 0) + unat (bs ! 1) * 256)"

definition enc16 :: "u16 \<Rightarrow> bytes" where
  "enc16 w = [byte (unat w), byte (unat w div 256)]"

definition rd32 :: "bytes \<Rightarrow> nat \<Rightarrow> u32 option" where
  "rd32 bs off = map_option dec32 (rd bs off 4)"

definition rd16 :: "bytes \<Rightarrow> nat \<Rightarrow> u16 option" where
  "rd16 bs off = map_option dec16 (rd bs off 2)"

lemma length_enc32 [simp]: "length (enc32 w) = 4"
  by (simp add: enc32_def)

lemma length_enc16 [simp]: "length (enc16 w) = 2"
  by (simp add: enc16_def)

lemma unat_byte [simp]: "unat (byte n) = n mod 256"
  by (simp add: byte_def unsigned_of_nat take_bit_eq_mod)

lemma dec32_enc32 [simp]: "dec32 (enc32 w) = w"
proof -
  let ?n = "unat w"
  have lt: "?n < 4294967296" using unsigned_less [of w, where ?'a = nat] by simp
  define b where "b = ?n div 256"
  define c where "c = b div 256"
  define d where "d = c div 256"
  have cd: "?n div 65536 = c" "?n div 16777216 = d" "d mod 256 = d"
    using lt by (simp_all add: b_def c_def d_def div_mult2_eq [symmetric])
  have "?n = b * 256 + ?n mod 256" "b = c * 256 + b mod 256" "c = d * 256 + c mod 256"
    by (simp_all add: b_def c_def d_def)
  then have "?n mod 256 + b mod 256 * 256 + c mod 256 * 65536 + d * 16777216 = ?n"
    by linarith
  then have "?n mod 256 + ?n div 256 mod 256 * 256 + ?n div 65536 mod 256 * 65536 +
      ?n div 16777216 * 16777216 = ?n"
    unfolding cd b_def [symmetric] .
  then have "unat (enc32 w ! 0) + unat (enc32 w ! 1) * 256 + unat (enc32 w ! 2) * 65536 +
      unat (enc32 w ! 3) * 16777216 = ?n"
    using cd(2,3) by (simp add: enc32_def)
  then show ?thesis unfolding dec32_def by (simp only: of_nat_unat ucast_id)
qed

lemma dec16_enc16 [simp]: "dec16 (enc16 w) = w"
proof -
  have lt: "unat w < 65536" using unsigned_less [of w, where ?'a = nat] by simp
  then have "unat w mod 256 + unat w div 256 mod 256 * 256 = unat w"
    by (simp add: mod_div_mult_eq)
  then have "unat (enc16 w ! 0) + unat (enc16 w ! 1) * 256 = unat w" by (simp add: enc16_def)
  then show ?thesis unfolding dec16_def by (simp only: of_nat_unat ucast_id)
qed

lemma rd_append1 [rd_simps]:
  "off + n \<le> length xs \<Longrightarrow> rd (xs @ ys) off n = rd xs off n"
  by (simp add: rd_def)

lemma rd_append2 [rd_simps]:
  "length xs \<le> off \<Longrightarrow> rd (xs @ ys) off n = rd ys (off - length xs) n"
  by (auto simp: rd_def)

lemma rd_all [rd_simps]: "n = length xs \<Longrightarrow> rd xs 0 n = Some xs"
  by (simp add: rd_def)

lemma rd_mid: "off = length xs \<Longrightarrow> n = length ys \<Longrightarrow> rd (xs @ ys @ zs) off n = Some ys"
  by (simp add: rd_def)

lemma rd32_mid: "off = length xs \<Longrightarrow> rd32 (xs @ enc32 w @ zs) off = Some w"
  by (simp add: rd32_def rd_mid)

lemma rd16_mid: "off = length xs \<Longrightarrow> rd16 (xs @ enc16 w @ zs) off = Some w"
  by (simp add: rd16_def rd_mid)

lemma rd_length: "rd bs off n = Some xs \<Longrightarrow> length xs = n \<and> off + n \<le> length bs"
  by (auto simp: rd_def split: if_splits)

text \<open>Overwriting part of a buffer.\<close>

definition patch :: "bytes \<Rightarrow> nat \<Rightarrow> bytes \<Rightarrow> bytes" where
  "patch bs off new = take off bs @ new @ drop (off + length new) bs"

lemma patch_mid:
  "off = length xs \<Longrightarrow> length ys = length new \<Longrightarrow> patch (xs @ ys @ zs) off new = xs @ new @ zs"
  by (simp add: patch_def)

section \<open>Strings\<close>

definition ascii :: "string \<Rightarrow> bytes" where
  "ascii s = map (\<lambda>c. word_of_nat (ord8 c)) s"


text \<open>A \<open>CHAR16\<close> string is the list of its characters before the NUL.\<close>

type_synonym name16 = "u16 list"

definition wide :: "string \<Rightarrow> name16" where
  "wide s = map (\<lambda>c. word_of_nat (ord8 c)) s"

text \<open>Wide names are compared as the strings they come from.\<close>

lemma wide_inj [simp]: "wide s = wide t \<longleftrightarrow> s = t"
proof -
  have "inj (\<lambda>c. word_of_nat (ord8 c) :: u16)"
  proof (rule injI)
    fix c d assume "(word_of_nat (ord8 c) :: u16) = word_of_nat (ord8 d)"
    then have "ord8 c mod 2 ^ 16 = ord8 d mod 2 ^ 16"
      by (simp add: word_unat_eq_iff unsigned_of_nat take_bit_eq_mod)
    moreover have "ord8 x mod 2 ^ 16 = ord8 x" for x
      unfolding ord8_def by (rule mod_less, rule less_trans [OF nat_of_char_less_256]) simp
    ultimately have "(of_char c :: nat) = of_char d" by (simp add: ord8_def)
    then show "c = d" by simp
  qed
  then show ?thesis by (simp add: wide_def)
qed

lemma wide_Nil [simp]: "wide [] = []"
  by (simp add: wide_def)

lemma wide_eq_Nil [simp]: "wide s = [] \<longleftrightarrow> s = []"
  by (simp add: wide_def)

lemma length_wide [simp]: "length (wide s) = length s"
  by (simp add: wide_def)

lemma take_wide [simp]: "take n (wide s) = wide (take n s)"
  by (simp add: wide_def take_map)

lemma wide_append [simp]: "wide s @ wide t = wide (s @ t)"
  by (simp add: wide_def)

section \<open>64-bit values and checked writes\<close>

unbundle bit_operations_syntax

definition dec64 :: "bytes \<Rightarrow> u64" where
  "dec64 bs = ucast (dec32 (take 4 bs)) OR push_bit 32 (ucast (dec32 (drop 4 bs)))"

definition enc64 :: "u64 \<Rightarrow> bytes" where
  "enc64 w = enc32 (ucast w) @ enc32 (ucast (drop_bit 32 w))"

definition rd64 :: "bytes \<Rightarrow> nat \<Rightarrow> u64 option" where
  "rd64 bs off = map_option dec64 (rd bs off 8)"

definition put :: "nat \<Rightarrow> bytes \<Rightarrow> bytes \<Rightarrow> bytes option" where
  "put off new bs = (if off + length new \<le> length bs then Some (patch bs off new) else None)"

lemma length_enc64 [simp]: "length (enc64 w) = 8"
  by (simp add: enc64_def)

lemma dec64_enc64 [simp]: "dec64 (enc64 w) = w"
  unfolding dec64_def enc64_def
  by (rule bit_eqI) (auto simp: bit_simps not_less)

lemma length_patch [simp]: "off + length new \<le> length bs \<Longrightarrow> length (patch bs off new) = length bs"
  by (simp add: patch_def)

lemma rd_Some_iff: "(\<exists>xs. rd bs off n = Some xs) \<longleftrightarrow> off + n \<le> length bs"
  by (simp add: rd_def)

lemma rd_patch_same:
  assumes "off + length new \<le> length bs" "n = length new"
  shows "rd (patch bs off new) off n = Some new"
  unfolding patch_def using assms by (intro rd_mid) simp_all

lemma nth_patch:
  assumes "off + length new \<le> length bs" "k < length bs"
  shows "patch bs off new ! k = (if off \<le> k \<and> k < off + length new then new ! (k - off) else bs ! k)"
  using assms by (auto simp: patch_def nth_append)

lemma rd_patch_other:
  assumes "off + length new \<le> length bs" "i + n \<le> off \<or> off + length new \<le> i"
  shows "rd (patch bs off new) i n = rd bs i n"
proof -
  have "take n (drop i (patch bs off new)) = take n (drop i bs)" if "i + n \<le> length bs"
    using assms that by (intro nth_equalityI) (auto simp: nth_patch)
  then show ?thesis using assms(1) by (simp add: rd_def)
qed

lemma put_Some: "off + length new \<le> length bs \<Longrightarrow> put off new bs = Some (patch bs off new)"
  by (simp add: put_def)

lemma rd_eqI:
  assumes "length bs = length cs" "\<And>k. i \<le> k \<Longrightarrow> k < i + n \<Longrightarrow> k < length bs \<Longrightarrow> bs ! k = cs ! k"
  shows "rd bs i n = rd cs i n"
  unfolding rd_def using assms by (auto intro!: nth_equalityI)

lemma rd32_patch_same: "off + 4 \<le> length bs \<Longrightarrow> rd32 (patch bs off (enc32 w)) off = Some w"
  by (simp add: rd32_def rd_patch_same)

lemma rd64_patch_same: "off + 8 \<le> length bs \<Longrightarrow> rd64 (patch bs off (enc64 w)) off = Some w"
  by (simp add: rd64_def rd_patch_same)

lemma rd32_patch_other:
  "off + length new \<le> length bs \<Longrightarrow> i + 4 \<le> off \<or> off + length new \<le> i \<Longrightarrow> rd32 (patch bs off new) i = rd32 bs i"
  by (simp add: rd32_def rd_patch_other)

lemma rd64_patch_other:
  "off + length new \<le> length bs \<Longrightarrow> i + 8 \<le> off \<or> off + length new \<le> i \<Longrightarrow> rd64 (patch bs off new) i = rd64 bs i"
  by (simp add: rd64_def rd_patch_other)

lemma rd32_defined: "off + 4 \<le> length bs \<Longrightarrow> \<exists>w. rd32 bs off = Some w"
  by (simp add: rd32_def rd_def)

lemma rd64_defined: "off + 8 \<le> length bs \<Longrightarrow> \<exists>w. rd64 bs off = Some w"
  by (simp add: rd64_def rd_def)

lemma enc32_dec32: "length bs = 4 \<Longrightarrow> enc32 (dec32 bs) = bs"
proof -
  assume "length bs = 4"
  then obtain a b c d where bs: "bs = [a, b, c, d]"
    by (auto simp: numeral_eq_Suc length_Suc_conv)
  have lt: "unat x < 256" for x :: u8 using unsigned_less [of x, where ?'a = nat] by simp
  define n where "n = unat a + unat b * 256 + unat c * 65536 + unat d * 16777216"
  have "n < 2 ^ 32" using lt [of a] lt [of b] lt [of c] lt [of d] by (simp add: n_def)
  moreover have "dec32 bs = word_of_nat n" by (simp add: dec32_def bs n_def)
  ultimately have "unat (dec32 bs) = n"
    by (simp only: unsigned_of_nat) (simp add: take_bit_nat_eq_self)
  moreover have "byte n = a" "byte (n div 256) = b" "byte (n div 65536) = c" "byte (n div 16777216) = d"
  proof -
    have digit: "(x + 256 * y) mod 256 = x" "(x + 256 * y) div 256 = y" if "x < 256" for x y :: nat
      using that by simp_all
    have n: "n = unat a + 256 * (unat b + 256 * (unat c + 256 * unat d))" by (simp add: n_def)
    have "n mod 256 = unat a" "n div 256 mod 256 = unat b" "n div 256 div 256 mod 256 = unat c"
      "n div 256 div 256 div 256 mod 256 = unat d"
      unfolding n by (simp_all only: digit lt mod_less)
    then show "byte n = a" "byte (n div 256) = b" "byte (n div 65536) = c" "byte (n div 16777216) = d"
      by (simp_all add: word_unat_eq_iff div_mult2_eq [symmetric])
  qed
  ultimately show ?thesis by (simp add: enc32_def bs)
qed

lemma patch_back:
  assumes "rd32 bs off = Some w" "length new = 4"
  shows "patch (patch bs off new) off (enc32 w) = bs"
proof -
  have len: "off + 4 \<le> length bs" and w: "enc32 w = take 4 (drop off bs)"
    using assms(1) by (auto simp: rd32_def rd_def enc32_dec32 split: if_splits)
  show ?thesis
    using len assms(2) by (intro nth_equalityI) (auto simp: nth_patch w)
qed

end
