(* ===== verification/Sig_List.thy ===== *)
theory Sig_List
  imports Byte_Buffer
begin

text \<open>
  Signature lists of the secure-boot variables: the format check of PK, KEK, db, dbx and dbt and the
  filter that removes signatures already present when a list is appended
  (\<open>CheckSignatureListFormat\<close> and \<open>FilterSignatureList\<close> of \<^verbatim>\<open>AuthService.c\<close>). The loops walk the bytes
  of the variable; \<open>None\<close> is a read outside the buffer, a write outside the scratch buffer, a division
  by zero or a loop that does not end. The second half shows that on encoded lists neither happens
  and what the results are.
\<close>

section \<open>Environment\<close>

text \<open>The GUIDs, and the certificate parser of the crypto library, come from outside the repository.
  They are the fields of an environment.\<close>

datatype sig_type =
    SIG_SHA256 | SIG_RSA2048 | SIG_RSA2048_SHA256 | SIG_SHA1 | SIG_RSA2048_SHA1 | SIG_X509
  | SIG_SHA224 | SIG_SHA384 | SIG_SHA512 | SIG_X509_SHA256 | SIG_X509_SHA384 | SIG_X509_SHA512

record sig_env =
  gEfiGlobalVariableGuid :: bytes
  gEfiImageSecurityDatabaseGuid :: bytes
  CertGuid :: "sig_type \<Rightarrow> bytes"
  RsaGetPublicKeyFromX509 :: "bytes \<Rightarrow> bool"

definition mSupportSigItem :: "(sig_type \<times> u32 \<times> u32) list" where
  "mSupportSigItem =
     [(SIG_SHA256, 0, 32), (SIG_RSA2048, 0, 256), (SIG_RSA2048_SHA256, 0, 256), (SIG_SHA1, 0, 20),
      (SIG_RSA2048_SHA1, 0, 256), (SIG_X509, 0, - 1), (SIG_SHA224, 0, 28), (SIG_SHA384, 0, 48),
      (SIG_SHA512, 0, 64), (SIG_X509_SHA256, 0, 48), (SIG_X509_SHA384, 0, 64), (SIG_X509_SHA512, 0, 80)]"

section \<open>The format check\<close>

record sig_header =
  SignatureType :: bytes
  SignatureListSize :: u32
  SignatureHeaderSize :: u32
  SignatureSize :: u32

definition SIZEOF_SIGNATURE_LIST :: nat where
  "SIZEOF_SIGNATURE_LIST = 28"

definition SIZEOF_GUID :: nat where
  "SIZEOF_GUID = 16"

definition rd_sig_header :: "bytes \<Rightarrow> nat \<Rightarrow> sig_header option" where
  "rd_sig_header bs off =
     do { t \<leftarrow> rd bs off SIZEOF_GUID;
          ls \<leftarrow> rd32 bs (off + 16);
          hs \<leftarrow> rd32 bs (off + 20);
          sz \<leftarrow> rd32 bs (off + 24);
          Some \<lparr>SignatureType = t, SignatureListSize = ls, SignatureHeaderSize = hs, SignatureSize = sz\<rparr> }"

text \<open>\<open>SignatureListSize - sizeof (EFI_SIGNATURE_LIST) - SignatureHeaderSize\<close>, in \<open>UINTN\<close> arithmetic.\<close>

definition sig_room :: "sig_header \<Rightarrow> u64" where
  "sig_room h = ucast (SignatureListSize h) - word_of_nat SIZEOF_SIGNATURE_LIST - ucast (SignatureHeaderSize h)"

fun SigItem_check :: "sig_env \<Rightarrow> (sig_type \<times> u32 \<times> u32) list \<Rightarrow> sig_header \<Rightarrow> bool" where
  "SigItem_check E [] h = False"
| "SigItem_check E ((t, hs, ds) # Items) h =
     (if SignatureType h = CertGuid E t then
        \<not> (ds \<noteq> - 1 \<and> (ucast (SignatureSize h) - word_of_nat SIZEOF_GUID :: u64) \<noteq> ucast ds) \<and>
        \<not> (hs \<noteq> - 1 \<and> SignatureHeaderSize h \<noteq> hs)
      else SigItem_check E Items h)"

definition CheckX509 :: "sig_env \<Rightarrow> bytes \<Rightarrow> nat \<Rightarrow> sig_header \<Rightarrow> bool option" where
  "CheckX509 E Data off h =
     (if SignatureType h = CertGuid E SIG_X509 then
        let CertLen = ucast (SignatureSize h) - word_of_nat SIZEOF_GUID :: u64
        in if CertLen > 0 then
             do { cert \<leftarrow> rd Data (off + SIZEOF_SIGNATURE_LIST + unat (SignatureHeaderSize h) + SIZEOF_GUID) (unat CertLen);
                  Some (RsaGetPublicKeyFromX509 E cert) }
           else Some True
      else Some True)"

partial_function (option) CheckList_loop ::
  "sig_env \<Rightarrow> bytes \<Rightarrow> nat \<Rightarrow> u64 \<Rightarrow> u32 \<Rightarrow> (efi_status + nat \<times> u32) option" where
  "CheckList_loop E Data off SigDataSize SigCount =
     (if SigDataSize > 0 then
        do { ls \<leftarrow> rd32 Data (off + 16);
             if SigDataSize \<ge> ucast ls then
               do { h \<leftarrow> rd_sig_header Data off;
                    if \<not> SigItem_check E mSupportSigItem h then Some (Inl EFI_INVALID_PARAMETER)
                    else do { ok \<leftarrow> CheckX509 E Data off h;
                              if \<not> ok then Some (Inl EFI_INVALID_PARAMETER)
                              else if SignatureSize h = 0 then None
                              else if sig_room h mod ucast (SignatureSize h) \<noteq> 0
                              then Some (Inl EFI_INVALID_PARAMETER)
                              else CheckList_loop E Data (off + unat ls) (SigDataSize - ucast ls)
                                     (SigCount + ucast (sig_room h div ucast (SignatureSize h))) } }
             else Some (Inr (off, SigCount)) }
      else Some (Inr (off, SigCount)))"

definition is_pk :: "sig_env \<Rightarrow> name16 \<Rightarrow> bytes \<Rightarrow> bool" where
  "is_pk E VariableName VendorGuid \<longleftrightarrow>
     VendorGuid = gEfiGlobalVariableGuid E \<and> VariableName = wide ''PK''"

definition is_kek :: "sig_env \<Rightarrow> name16 \<Rightarrow> bytes \<Rightarrow> bool" where
  "is_kek E VariableName VendorGuid \<longleftrightarrow>
     VendorGuid = gEfiGlobalVariableGuid E \<and> VariableName = wide ''KEK''"

definition is_db :: "sig_env \<Rightarrow> name16 \<Rightarrow> bytes \<Rightarrow> bool" where
  "is_db E VariableName VendorGuid \<longleftrightarrow>
     VendorGuid = gEfiImageSecurityDatabaseGuid E \<and>
     (VariableName = wide ''db'' \<or> VariableName = wide ''dbx'' \<or> VariableName = wide ''dbt'')"

definition CheckSignatureListFormat ::
  "sig_env \<Rightarrow> name16 \<Rightarrow> bytes \<Rightarrow> bytes \<Rightarrow> efi_status option" where
  "CheckSignatureListFormat E VariableName VendorGuid Data =
     (if length Data = 0 then Some EFI_SUCCESS
      else if is_pk E VariableName VendorGuid \<or> is_kek E VariableName VendorGuid \<or> is_db E VariableName VendorGuid then
        do { r \<leftarrow> CheckList_loop E Data 0 (word_of_nat (length Data)) 0;
             case r of
               Inl Status \<Rightarrow> Some Status
             | Inr (off, SigCount) \<Rightarrow>
                 if off \<noteq> length Data then Some EFI_INVALID_PARAMETER
                 else if is_pk E VariableName VendorGuid \<and> SigCount > 1 then Some EFI_INVALID_PARAMETER
                 else Some EFI_SUCCESS }
      else Some EFI_SUCCESS)"

section \<open>The duplicate filter\<close>

fun Filter_match :: "bytes \<Rightarrow> bytes \<Rightarrow> nat \<Rightarrow> nat \<Rightarrow> nat \<Rightarrow> bool option" where
  "Filter_match NewCert Data off sz 0 = Some False"
| "Filter_match NewCert Data off sz (Suc n) =
     do { Cert \<leftarrow> rd Data off sz;
          if NewCert = Cert then Some True else Filter_match NewCert Data (off + sz) sz n }"

text \<open>Whether the signature is in one of the original lists (\<open>\<not> IsNewCert\<close>).\<close>

partial_function (option) Filter_known ::
  "bytes \<Rightarrow> sig_header \<Rightarrow> bytes \<Rightarrow> nat \<Rightarrow> u64 \<Rightarrow> bool option" where
  "Filter_known NewCert nh Data off Size =
     (if Size > 0 then
        do { ls \<leftarrow> rd32 Data (off + 16);
             if Size \<ge> ucast ls then
               do { h \<leftarrow> rd_sig_header Data off;
                    known \<leftarrow> (if SignatureType h = SignatureType nh \<and> SignatureSize h = SignatureSize nh then
                               if SignatureSize h = 0 then None
                               else Filter_match NewCert Data
                                      (off + SIZEOF_SIGNATURE_LIST + unat (SignatureHeaderSize h))
                                      (unat (SignatureSize h))
                                      (unat (sig_room h div ucast (SignatureSize h)))
                             else Some False);
                    if known then Some True
                    else Filter_known NewCert nh Data (off + unat ls) (Size - ucast ls) }
             else Some False }
      else Some False)"

text \<open>Writing to the scratch buffer of \<open>n\<close> bytes.\<close>

definition scratch_append :: "nat \<Rightarrow> bytes \<Rightarrow> bytes \<Rightarrow> bytes option" where
  "scratch_append n Temp bs = (if length Temp + length bs \<le> n then Some (Temp @ bs) else None)"

fun Filter_certs ::
  "bytes \<Rightarrow> bytes \<Rightarrow> nat \<Rightarrow> sig_header \<Rightarrow> nat \<Rightarrow> nat \<Rightarrow> bytes \<Rightarrow> nat \<Rightarrow> (bytes \<times> nat) option" where
  "Filter_certs Data NewData loff nh off 0 Temp CopiedCount = Some (Temp, CopiedCount)"
| "Filter_certs Data NewData loff nh off (Suc n) Temp CopiedCount =
     do { NewCert \<leftarrow> rd NewData off (unat (SignatureSize nh));
          known \<leftarrow> Filter_known NewCert nh Data 0 (word_of_nat (length Data));
          if known then
            Filter_certs Data NewData loff nh (off + unat (SignatureSize nh)) n Temp CopiedCount
          else
            do { Temp \<leftarrow> (if CopiedCount = 0 then
                          do { hb \<leftarrow> rd NewData loff (SIZEOF_SIGNATURE_LIST + unat (SignatureHeaderSize nh));
                               scratch_append (length NewData) Temp hb }
                        else Some Temp);
                 Temp \<leftarrow> scratch_append (length NewData) Temp NewCert;
                 Filter_certs Data NewData loff nh (off + unat (SignatureSize nh)) n Temp (CopiedCount + 1) } }"

partial_function (option) Filter_lists ::
  "bytes \<Rightarrow> bytes \<Rightarrow> nat \<Rightarrow> u64 \<Rightarrow> bytes \<Rightarrow> bytes option" where
  "Filter_lists Data NewData off NewDataSize Temp =
     (if NewDataSize > 0 then
        do { ls \<leftarrow> rd32 NewData (off + 16);
             if NewDataSize \<ge> ucast ls then
               do { nh \<leftarrow> rd_sig_header NewData off;
                    if SignatureSize nh = 0 then None
                    else do { (Temp, CopiedCount) \<leftarrow>
                                Filter_certs Data NewData off nh
                                  (off + SIZEOF_SIGNATURE_LIST + unat (SignatureHeaderSize nh))
                                  (unat (sig_room nh div ucast (SignatureSize nh))) Temp 0;
                              let ListSize = SIZEOF_SIGNATURE_LIST + unat (SignatureHeaderSize nh) +
                                               CopiedCount * unat (SignatureSize nh);
                                  Temp = (if CopiedCount \<noteq> 0
                                          then patch Temp (length Temp - ListSize + 16) (enc32 (word_of_nat ListSize))
                                          else Temp)
                              in Filter_lists Data NewData (off + unat ls) (NewDataSize - ucast ls) Temp } }
             else Some Temp }
      else Some Temp)"

text \<open>
  \<open>Scratch\<close> says that \<open>GetScratchBuffer\<close> provides a buffer of the size asked for. The result is the
  status and the new data, with its final size.
\<close>

definition FilterSignatureList :: "bool \<Rightarrow> bytes \<Rightarrow> bytes \<Rightarrow> (efi_status \<times> bytes) option" where
  "FilterSignatureList Scratch Data NewData =
     (if length NewData = 0 then Some (EFI_SUCCESS, NewData)
      else if \<not> Scratch then Some (EFI_OUT_OF_RESOURCES, NewData)
      else do { Temp \<leftarrow> Filter_lists Data NewData 0 (word_of_nat (length NewData)) [];
                Some (EFI_SUCCESS, Temp) })"

section \<open>Encoded lists\<close>

record slist =
  sl_type :: bytes
  sl_hdr :: bytes
  sl_size :: u32
  sl_sigs :: "bytes list"

definition sl_len :: "slist \<Rightarrow> nat" where
  "sl_len l = 28 + length (sl_hdr l) + unat (sl_size l) * length (sl_sigs l)"

definition enc_sl :: "slist \<Rightarrow> bytes" where
  "enc_sl l =
     sl_type l @ enc32 (word_of_nat (sl_len l)) @ enc32 (word_of_nat (length (sl_hdr l))) @
     enc32 (sl_size l) @ sl_hdr l @ concat (sl_sigs l)"

definition enc_sls :: "slist list \<Rightarrow> bytes" where
  "enc_sls ls = concat (map enc_sl ls)"

definition wf_sl :: "slist \<Rightarrow> bool" where
  "wf_sl l \<longleftrightarrow> length (sl_type l) = 16 \<and> sl_size l \<noteq> 0 \<and> sl_len l < 2 ^ 32 \<and>
     (\<forall>s \<in> set (sl_sigs l). length s = unat (sl_size l))"

definition header_of :: "slist \<Rightarrow> sig_header" where
  "header_of l =
     \<lparr>SignatureType = sl_type l, SignatureListSize = word_of_nat (sl_len l),
      SignatureHeaderSize = word_of_nat (length (sl_hdr l)), SignatureSize = sl_size l\<rparr>"

lemma enc_sls_simps [simp]: "enc_sls [] = []" "enc_sls (l # ls) = enc_sl l @ enc_sls ls"
  by (simp_all add: enc_sls_def)

lemma length_concat_sigs:
  "\<forall>s \<in> set sigs. length s = n \<Longrightarrow> length (concat sigs) = n * length sigs"
  by (induction sigs) auto

lemma length_enc_sl: "wf_sl l \<Longrightarrow> length (enc_sl l) = sl_len l"
  by (simp add: enc_sl_def sl_len_def wf_sl_def length_concat_sigs)

lemma u32_len: "n < 2 ^ 32 \<Longrightarrow> unat (word_of_nat n :: u32) = n"
  by (simp add: unsigned_of_nat take_bit_nat_eq_self)

lemma u64_len: "n < 2 ^ 64 \<Longrightarrow> unat (word_of_nat n :: u64) = n"
  by (simp add: unsigned_of_nat take_bit_nat_eq_self)

lemma unat_ucast_u32: "unat (ucast (w :: u32) :: u64) = unat w"
  using unsigned_less [of w, where ?'a = nat] by (simp add: unsigned_ucast_eq take_bit_nat_eq_self)

lemma ucast_u32_len: "n < 2 ^ 32 \<Longrightarrow> (ucast (word_of_nat n :: u32) :: u64) = word_of_nat n"
  by (simp add: word_unat_eq_iff unat_ucast_u32 u32_len u64_len)

lemma wf_sl_len:
  assumes "wf_sl l"
  shows "unat (word_of_nat (sl_len l) :: u32) = sl_len l"
    "unat (word_of_nat (length (sl_hdr l)) :: u32) = length (sl_hdr l)" "28 \<le> sl_len l"
proof -
  have n: "sl_len l < 2 ^ 32" "length (sl_hdr l) < 2 ^ 32" using assms by (auto simp: wf_sl_def sl_len_def)
  show "unat (word_of_nat (sl_len l) :: u32) = sl_len l" by (rule u32_len [OF n(1)])
  show "unat (word_of_nat (length (sl_hdr l)) :: u32) = length (sl_hdr l)" by (rule u32_len [OF n(2)])
  show "28 \<le> sl_len l" by (simp add: sl_len_def)
qed

lemma rd_header:
  assumes "wf_sl l" "off = length pre"
  shows "rd32 (pre @ enc_sl l @ post) (off + 16) = Some (word_of_nat (sl_len l))"
    "rd_sig_header (pre @ enc_sl l @ post) off = Some (header_of l)"
proof -
  have t: "length (sl_type l) = 16" using assms by (simp add: wf_sl_def)
  have a: "rd (pre @ enc_sl l @ post) off 16 = Some (sl_type l)"
    using rd_mid [of off pre 16 "sl_type l"] assms(2) t by (simp add: enc_sl_def)
  have b: "rd32 (pre @ enc_sl l @ post) (off + 16) = Some (word_of_nat (sl_len l))"
    using rd32_mid [of "off + 16" "pre @ sl_type l"] assms(2) t by (simp add: enc_sl_def)
  have c: "rd32 (pre @ enc_sl l @ post) (off + 20) = Some (word_of_nat (length (sl_hdr l)))"
    using rd32_mid [of "off + 20" "pre @ sl_type l @ enc32 (word_of_nat (sl_len l))"] assms(2) t
    by (simp add: enc_sl_def)
  have d: "rd32 (pre @ enc_sl l @ post) (off + 24) = Some (sl_size l)"
    using rd32_mid [of "off + 24" "pre @ sl_type l @ enc32 (word_of_nat (sl_len l)) @
        enc32 (word_of_nat (length (sl_hdr l)))"] assms(2) t
    by (simp add: enc_sl_def)
  show "rd32 (pre @ enc_sl l @ post) (off + 16) = Some (word_of_nat (sl_len l))" by (rule b)
  show "rd_sig_header (pre @ enc_sl l @ post) off = Some (header_of l)"
    by (simp add: rd_sig_header_def SIZEOF_GUID_def a b c d header_of_def)
qed

lemma sig_room_header:
  assumes "wf_sl l"
  shows "sig_room (header_of l) div ucast (sl_size l) = word_of_nat (length (sl_sigs l))"
    "sig_room (header_of l) mod ucast (sl_size l) = 0" "length (sl_sigs l) < 2 ^ 32"
proof -
  let ?n = "unat (sl_size l) * length (sl_sigs l)"
  have lt: "?n < 2 ^ 32" "length (sl_hdr l) < 2 ^ 32" "sl_len l < 2 ^ 32" "0 < unat (sl_size l)"
    using assms by (auto simp: wf_sl_def sl_len_def unat_gt_0)
  then show cnt: "length (sl_sigs l) < 2 ^ 32"
    by (metis le_less_trans mult_le_mono1 nat_mult_1 Suc_leI One_nat_def)
  have room: "sig_room (header_of l) = word_of_nat ?n"
    using lt by (simp add: sig_room_def header_of_def ucast_u32_len SIZEOF_SIGNATURE_LIST_def)
      (simp add: sl_len_def)
  have u: "unat (word_of_nat ?n :: u64) = ?n" "unat (ucast (sl_size l) :: u64) = unat (sl_size l)"
    using lt(1) by (intro u64_len) (simp_all add: unat_ucast_u32)
  have "unat (sig_room (header_of l) div ucast (sl_size l)) = length (sl_sigs l)"
    using lt(4) by (simp only: room unat_div u) simp
  then show "sig_room (header_of l) div ucast (sl_size l) = word_of_nat (length (sl_sigs l))"
    by (metis of_nat_unat ucast_id)
  have "unat (sig_room (header_of l) mod ucast (sl_size l)) = 0"
    by (simp only: room unat_mod u) simp
  then show "sig_room (header_of l) mod ucast (sl_size l) = 0" by (simp add: unat_eq_zero)
qed

section \<open>The format check on encoded lists\<close>

definition supported :: "sig_env \<Rightarrow> slist \<Rightarrow> bool" where
  "supported E l \<longleftrightarrow>
     wf_sl l \<and> SigItem_check E mSupportSigItem (header_of l) \<and>
     (sl_type l = CertGuid E SIG_X509 \<longrightarrow>
        sl_size l = 16 \<or>
        16 < unat (sl_size l) \<and> sl_sigs l \<noteq> [] \<and> RsaGetPublicKeyFromX509 E (drop 16 (hd (sl_sigs l))))"

lemma ucast_minus_guid:
  "16 \<le> unat w \<Longrightarrow> unat (ucast (w :: u32) - 16 :: u64) = unat w - 16"
  by (subst unat_sub) (simp_all add: word_le_nat_alt unat_ucast_u32)

lemma CheckX509_enc:
  assumes "supported E l" "off = length pre"
  shows "CheckX509 E (pre @ enc_sl l @ post) off (header_of l) = Some True"
proof (cases "sl_type l = CertGuid E SIG_X509 \<and> sl_size l \<noteq> 16")
  case False
  then show ?thesis by (auto simp: CheckX509_def header_of_def SIZEOF_GUID_def Let_def)
next
  case True
  have wf: "wf_sl l" using assms by (simp add: supported_def)
  obtain s ss where s: "sl_sigs l = s # ss" "16 < unat (sl_size l)" "RsaGetPublicKeyFromX509 E (drop 16 s)"
    using assms True by (cases "sl_sigs l") (auto simp: supported_def)
  have ls: "length s = unat (sl_size l)" using wf s(1) by (simp add: wf_sl_def)
  have cl: "unat (ucast (sl_size l) - 16 :: u64) = unat (sl_size l) - 16"
    using s(2) by (intro ucast_minus_guid) simp
  let ?pre = "pre @ sl_type l @ enc32 (word_of_nat (sl_len l)) @ enc32 (word_of_nat (length (sl_hdr l))) @
      enc32 (sl_size l) @ sl_hdr l @ take 16 s"
  have "rd (?pre @ drop 16 s @ concat ss @ post) (length ?pre) (unat (sl_size l) - 16) = Some (drop 16 s)"
    using ls by (intro rd_mid) simp_all
  moreover have "?pre @ drop 16 s @ concat ss @ post = pre @ enc_sl l @ post"
    by (simp add: enc_sl_def s(1))
  moreover have "length ?pre = off + 28 + length (sl_hdr l) + 16"
    using wf assms(2) ls s(2) by (simp add: wf_sl_def)
  ultimately have "rd (pre @ enc_sl l @ post) (off + 28 + length (sl_hdr l) + 16) (unat (sl_size l) - 16) =
      Some (drop 16 s)" by (simp only:)
  with s cl wf_sl_len [OF wf] show ?thesis
    by (simp add: CheckX509_def header_of_def SIZEOF_GUID_def SIZEOF_SIGNATURE_LIST_def Let_def)
qed

lemma u64_walk:
  assumes "m + n < 2 ^ 64" "m < 2 ^ 32" "0 < m"
  shows "(word_of_nat (m + n) :: u64) > 0" "(word_of_nat (m + n) :: u64) \<ge> ucast (word_of_nat m :: u32)"
    "(word_of_nat (m + n) :: u64) - ucast (word_of_nat m :: u32) = word_of_nat n"
  using assms
  by (simp_all only: ucast_u32_len word_less_nat_alt word_le_nat_alt u64_len unat_0) simp_all

definition sig_total :: "slist list \<Rightarrow> nat" where
  "sig_total ls = (\<Sum>l \<leftarrow> ls. length (sl_sigs l))"

lemma CheckList_loop_enc:
  "\<forall>l \<in> set ls. supported E l \<Longrightarrow> length (enc_sls ls) < 2 ^ 64 \<Longrightarrow> off = length pre \<Longrightarrow>
   CheckList_loop E (pre @ enc_sls ls) off (word_of_nat (length (enc_sls ls))) n =
     Some (Inr (off + length (enc_sls ls), n + word_of_nat (sig_total ls)))"
proof (induction ls arbitrary: pre off n)
  case Nil
  then show ?case by (simp add: CheckList_loop.simps sig_total_def)
next
  case (Cons l ls)
  have sup: "supported E l" and wf: "wf_sl l" using Cons.prems by (auto simp: supported_def)
  have len: "length (enc_sls (l # ls)) = sl_len l + length (enc_sls ls)" by (simp add: length_enc_sl [OF wf])
  have m: "sl_len l < 2 ^ 32" "0 < sl_len l" using wf wf_sl_len(3) [OF wf] by (auto simp: wf_sl_def)
  note walk = u64_walk [OF _ m, of "length (enc_sls ls)"]
  note hd = rd_header [OF wf Cons.prems(3), of "enc_sls ls"]
  have x: "CheckX509 E (pre @ enc_sl l @ enc_sls ls) off (header_of l) = Some True"
    using CheckX509_enc [OF sup Cons.prems(3)] .
  have nz: "SignatureSize (header_of l) \<noteq> 0" "SignatureSize (header_of l) = sl_size l"
    using wf by (simp_all add: header_of_def wf_sl_def)
  have it: "SigItem_check E mSupportSigItem (header_of l)" using sup by (simp add: supported_def)
  have cnt: "ucast (word_of_nat (length (sl_sigs l)) :: u64) = (word_of_nat (length (sl_sigs l)) :: u32)"
    using sig_room_header(3) [OF wf]
    by (simp add: word_unat_eq_iff unsigned_ucast_eq u64_len u32_len take_bit_nat_eq_self)
  have IH: "CheckList_loop E ((pre @ enc_sl l) @ enc_sls ls) (off + sl_len l) (word_of_nat (length (enc_sls ls))) k =
      Some (Inr (off + sl_len l + length (enc_sls ls), k + word_of_nat (sig_total ls)))" for k
    using Cons.IH [of "off + sl_len l" "pre @ enc_sl l"] Cons.prems len by (simp add: length_enc_sl [OF wf])
  have "CheckList_loop E (pre @ enc_sls (l # ls)) off (word_of_nat (length (enc_sls (l # ls)))) n =
      CheckList_loop E ((pre @ enc_sl l) @ enc_sls ls) (off + sl_len l) (word_of_nat (length (enc_sls ls)))
        (n + word_of_nat (length (sl_sigs l)))"
    using walk hd x it nz wf_sl_len(1) [OF wf] sig_room_header [OF wf] cnt Cons.prems(2) len
    by (subst CheckList_loop.simps) (simp del: of_nat_add)
  with IH len show ?case by (simp add: sig_total_def add.assoc)
qed

lemma CheckSignatureListFormat_enc:
  assumes "\<forall>l \<in> set ls. supported E l" "length (enc_sls ls) < 2 ^ 32" "ls \<noteq> []"
    and "is_pk E n g \<or> is_kek E n g \<or> is_db E n g"
  shows "CheckSignatureListFormat E n g (enc_sls ls) =
    Some (if is_pk E n g \<and> sig_total ls > 1 then EFI_INVALID_PARAMETER else EFI_SUCCESS)"
proof -
  have wf: "\<forall>l \<in> set ls. wf_sl l" using assms(1) by (simp add: supported_def)
  have "enc_sls ls \<noteq> []"
    using assms(3) wf by (cases ls) (auto simp: enc_sl_def wf_sl_def)
  moreover have "sig_total ls \<le> length (enc_sls ls)"
    using wf
  proof (induction ls)
    case (Cons l ls)
    then have "length (sl_sigs l) \<le> sl_len l"
      by (simp add: sl_len_def wf_sl_def) (metis Suc_leI le_add2 mult_le_mono1 nat_mult_1 One_nat_def
          order.trans unat_gt_0)
    with Cons show ?case by (simp add: sig_total_def length_enc_sl)
  qed (simp add: sig_total_def)
  then have "unat (word_of_nat (sig_total ls) :: u32) = sig_total ls"
    using assms(2) by (intro u32_len) simp
  then have "((word_of_nat (sig_total ls) :: u32) > 1) \<longleftrightarrow> sig_total ls > 1"
    by (simp add: word_less_nat_alt)
  moreover have "CheckList_loop E (enc_sls ls) 0 (word_of_nat (length (enc_sls ls))) 0 =
      Some (Inr (length (enc_sls ls), word_of_nat (sig_total ls)))"
    using CheckList_loop_enc [OF assms(1), of 0 "[]" 0] assms(2) by simp
  ultimately show ?thesis
    using assms(4) by (auto simp: CheckSignatureListFormat_def)
qed

text \<open>the format check accepts every value that encodes supported signature lists, for PK with at
  most one signature and for KEK, db, dbx and dbt with any number, and refuses a PK value with more.
  It stays inside the value and ends.\<close>

theorem CheckSignatureListFormat_accepts:
  assumes "\<forall>l \<in> set ls. supported E l" "length (enc_sls ls) < 2 ^ 32" "ls \<noteq> []"
    and "is_pk E n g \<or> is_kek E n g \<or> is_db E n g"
  shows "CheckSignatureListFormat E n g (enc_sls ls) =
    Some (if is_pk E n g \<and> sig_total ls > 1 then EFI_INVALID_PARAMETER else EFI_SUCCESS)"
  using assms by (rule CheckSignatureListFormat_enc)

text \<open>C24: the format check reads outside its input. For a value of one to nineteen bytes under the name
  PK, KEK, db, dbx or dbt the first list's size field is beyond the end of the value.\<close>

theorem CheckSignatureListFormat_overread:
  assumes "0 < length Data" "length Data < 20" "is_pk E n g \<or> is_kek E n g \<or> is_db E n g"
  shows "CheckSignatureListFormat E n g Data = None"
proof -
  have "unat (word_of_nat (length Data) :: u64) = length Data" using assms(2) by (intro u64_len) simp
  then have "(word_of_nat (length Data) :: u64) > 0" using assms(1) by (simp add: word_less_nat_alt)
  moreover have "rd32 Data 16 = None" using assms(2) by (simp add: rd32_def rd_def)
  ultimately have "CheckList_loop E Data 0 (word_of_nat (length Data)) 0 = None"
    by (subst CheckList_loop.simps) simp
  with assms show ?thesis by (auto simp: CheckSignatureListFormat_def)
qed

text \<open>An environment with distinct GUIDs, for the witnesses.\<close>

fun sig_code :: "sig_type \<Rightarrow> u8" where
  "sig_code SIG_SHA256 = 1" | "sig_code SIG_RSA2048 = 2" | "sig_code SIG_RSA2048_SHA256 = 3"
| "sig_code SIG_SHA1 = 4" | "sig_code SIG_RSA2048_SHA1 = 5" | "sig_code SIG_X509 = 6"
| "sig_code SIG_SHA224 = 7" | "sig_code SIG_SHA384 = 8" | "sig_code SIG_SHA512 = 9"
| "sig_code SIG_X509_SHA256 = 10" | "sig_code SIG_X509_SHA384 = 11" | "sig_code SIG_X509_SHA512 = 12"

definition sample_sig_env :: sig_env where
  "sample_sig_env =
     \<lparr>gEfiGlobalVariableGuid = replicate 16 100, gEfiImageSecurityDatabaseGuid = replicate 16 101,
      CertGuid = (\<lambda>t. replicate 16 (sig_code t)), RsaGetPublicKeyFromX509 = (\<lambda>_. True)\<rparr>"

definition sample_sigs :: "u8 list \<Rightarrow> slist" where
  "sample_sigs bs =
     \<lparr>sl_type = replicate 16 4, sl_hdr = [], sl_size = 36, sl_sigs = map (replicate 36) bs\<rparr>"

lemma sample_sigs_wf: "length bs < 100 \<Longrightarrow> wf_sl (sample_sigs bs)"
  by (auto simp: wf_sl_def sample_sigs_def sl_len_def)

lemma sample_sigs_supported: "length bs < 100 \<Longrightarrow> supported sample_sig_env (sample_sigs bs)"
  using sample_sigs_wf [of bs]
  by (auto simp: supported_def sample_sig_env_def mSupportSigItem_def header_of_def sample_sigs_def
      SIZEOF_GUID_def)

lemma CheckSignatureListFormat_accepts_witness:
  "CheckSignatureListFormat sample_sig_env (wide ''PK'') (replicate 16 100) (enc_sls [sample_sigs [1]]) =
     Some EFI_SUCCESS \<and>
   CheckSignatureListFormat sample_sig_env (wide ''PK'') (replicate 16 100) (enc_sls [sample_sigs [1, 2]]) =
     Some EFI_INVALID_PARAMETER"
proof -
  have pk: "is_pk sample_sig_env (wide ''PK'') (replicate 16 100)"
    by (simp add: is_pk_def sample_sig_env_def)
  have len: "length (enc_sls [sample_sigs [1]]) < 2 ^ 32" "length (enc_sls [sample_sigs [1, 2]]) < 2 ^ 32"
    by (simp_all add: length_enc_sl sample_sigs_wf) (simp_all add: sl_len_def sample_sigs_def)
  show ?thesis
    using CheckSignatureListFormat_accepts [OF _ len(1) _ disjI1 [OF pk]]
      CheckSignatureListFormat_accepts [OF _ len(2) _ disjI1 [OF pk]] pk
    by (simp add: sample_sigs_supported del: enc_sls_simps) (simp add: sig_total_def sample_sigs_def)
qed

lemma CheckSignatureListFormat_overread_witness:
  "CheckSignatureListFormat sample_sig_env (wide ''db'') (replicate 16 101) [0] = None"
  by (rule CheckSignatureListFormat_overread) (simp_all add: is_db_def sample_sig_env_def)

section \<open>The filter on encoded lists\<close>

definition known_sig :: "slist list \<Rightarrow> slist \<Rightarrow> bytes \<Rightarrow> bool" where
  "known_sig old l s \<longleftrightarrow>
     (\<exists>q \<in> set old. sl_type q = sl_type l \<and> sl_size q = sl_size l \<and> s \<in> set (sl_sigs q))"

definition new_sigs :: "slist list \<Rightarrow> slist \<Rightarrow> slist" where
  "new_sigs old l = l\<lparr>sl_sigs := filter (\<lambda>s. \<not> known_sig old l s) (sl_sigs l)\<rparr>"

definition filter_spec :: "slist list \<Rightarrow> slist list \<Rightarrow> slist list" where
  "filter_spec old ls = filter (\<lambda>l. sl_sigs l \<noteq> []) (map (new_sigs old) ls)"

lemma Filter_match_enc:
  "\<forall>s \<in> set sigs. length s = n \<Longrightarrow> off = length pre \<Longrightarrow>
   Filter_match c (pre @ concat sigs @ post) off n (length sigs) = Some (c \<in> set sigs)"
proof (induction sigs arbitrary: pre off)
  case (Cons s sigs)
  have "rd (pre @ concat (s # sigs) @ post) off n = Some s"
    using rd_mid [of off pre n s "concat sigs @ post"] Cons.prems by simp
  moreover have "Filter_match c ((pre @ s) @ concat sigs @ post) (off + n) n (length sigs) = Some (c \<in> set sigs)"
    using Cons.prems by (intro Cons.IH) simp_all
  ultimately show ?case by simp
qed simp

lemma enc_sl_split:
  assumes "wf_sl l"
  obtains hb where "enc_sl l = hb @ concat (sl_sigs l)" "length hb = 28 + length (sl_hdr l)"
    "hb = sl_type l @ enc32 (word_of_nat (sl_len l)) @ enc32 (word_of_nat (length (sl_hdr l))) @
      enc32 (sl_size l) @ sl_hdr l"
  using assms by (auto simp: enc_sl_def wf_sl_def)

lemma Filter_known_enc:
  assumes "SignatureType nh = sl_type l" "SignatureSize nh = sl_size l"
  shows "\<forall>q \<in> set old. wf_sl q \<Longrightarrow> length (enc_sls old) < 2 ^ 64 \<Longrightarrow> off = length pre \<Longrightarrow>
    Filter_known c nh (pre @ enc_sls old) off (word_of_nat (length (enc_sls old))) = Some (known_sig old l c)"
proof (induction old arbitrary: pre off)
  case Nil
  then show ?case by (simp add: Filter_known.simps known_sig_def)
next
  case (Cons q old)
  have wf: "wf_sl q" using Cons.prems by simp
  have len: "length (enc_sls (q # old)) = sl_len q + length (enc_sls old)" by (simp add: length_enc_sl [OF wf])
  have m: "sl_len q < 2 ^ 32" "0 < sl_len q" using wf wf_sl_len(3) [OF wf] by (auto simp: wf_sl_def)
  note walk = u64_walk [OF _ m, of "length (enc_sls old)"]
  note hd = rd_header [OF wf Cons.prems(3), of "enc_sls old"]
  obtain hb where hb: "enc_sl q = hb @ concat (sl_sigs q)" "length hb = 28 + length (sl_hdr q)"
    using enc_sl_split [OF wf] by metis
  have mt: "Filter_match c (pre @ enc_sl q @ enc_sls old) (off + 28 + length (sl_hdr q)) (unat (sl_size q))
      (length (sl_sigs q)) = Some (c \<in> set (sl_sigs q))"
    using Filter_match_enc [of "sl_sigs q" "unat (sl_size q)" "off + 28 + length (sl_hdr q)" "pre @ hb" c "enc_sls old"]
      wf hb Cons.prems(3) by (simp add: wf_sl_def)
  have hv: "SignatureType (header_of q) = sl_type q" "SignatureSize (header_of q) = sl_size q" "sl_size q \<noteq> 0"
    "unat (SignatureHeaderSize (header_of q)) = length (sl_hdr q)"
    "unat (sig_room (header_of q) div ucast (sl_size q)) = length (sl_sigs q)"
    using wf wf_sl_len [OF wf] sig_room_header [OF wf] u64_len [of "length (sl_sigs q)"]
    by (simp_all add: header_of_def wf_sl_def)
  have IH: "Filter_known c nh (pre @ enc_sl q @ enc_sls old) (off + sl_len q) (word_of_nat (length (enc_sls old))) =
      Some (known_sig old l c)"
    using Cons.IH [of "off + sl_len q" "pre @ enc_sl q"] Cons.prems len by (simp add: length_enc_sl [OF wf])
  have "Filter_known c nh (pre @ enc_sls (q # old)) off (word_of_nat (length (enc_sls (q # old)))) =
      (if sl_type q = sl_type l \<and> sl_size q = sl_size l \<and> c \<in> set (sl_sigs q) then Some True
       else Some (known_sig old l c))"
    using walk hd hv mt IH assms wf_sl_len(1) [OF wf] Cons.prems(2) len
    by (subst Filter_known.simps) (auto simp: SIZEOF_SIGNATURE_LIST_def simp del: of_nat_add)
  moreover have "known_sig (q # old) l c \<longleftrightarrow>
      sl_type q = sl_type l \<and> sl_size q = sl_size l \<and> c \<in> set (sl_sigs q) \<or> known_sig old l c"
    by (auto simp: known_sig_def)
  ultimately show ?case by auto
qed

lemma Filter_certs_enc:
  assumes old: "\<forall>q \<in> set old. wf_sl q" "length (enc_sls old) < 2 ^ 64"
    and wf: "wf_sl l" and hb: "enc_sl l = hb @ concat (sl_sigs l)" "length hb = 28 + length (sl_hdr l)"
    and N: "N = pre @ enc_sl l @ post"
  shows "sl_sigs l = done @ todo \<Longrightarrow> off = length pre + length hb + unat (sl_size l) * length done \<Longrightarrow>
    length Temp + (if k = 0 then length hb else 0) + unat (sl_size l) * length todo \<le> length N \<Longrightarrow>
    kept = filter (\<lambda>s. \<not> known_sig old l s) todo \<Longrightarrow>
    Filter_certs (enc_sls old) N (length pre) (header_of l) off (length todo) Temp k =
      Some (Temp @ (if k = 0 \<and> kept \<noteq> [] then hb else []) @ concat kept, k + length kept)"
proof (induction todo arbitrary: "done" off Temp k kept)
  case (Cons s todo)
  let ?n = "unat (sl_size l)"
  have hv: "SignatureType (header_of l) = sl_type l" "SignatureSize (header_of l) = sl_size l"
    "unat (SignatureHeaderSize (header_of l)) = length (sl_hdr l)"
    using wf_sl_len [OF wf] by (simp_all add: header_of_def)
  have ls: "length s = ?n" and ld: "length (concat done) = ?n * length done"
    using wf Cons.prems(1) length_concat_sigs [of "done" ?n] by (auto simp: wf_sl_def)
  have rs: "rd N off ?n = Some s"
  proof -
    have "N = (pre @ hb @ concat done) @ s @ concat todo @ post" using N hb(1) Cons.prems(1) by simp
    moreover have "off = length (pre @ hb @ concat done)" using Cons.prems(2) ld by simp
    ultimately show ?thesis using rd_mid ls by metis
  qed
  have rh: "rd N (length pre) (SIZEOF_SIGNATURE_LIST + unat (SignatureHeaderSize (header_of l))) = Some hb"
    using rd_mid [of "length pre" pre "length hb" hb "concat (sl_sigs l) @ post"] N hb hv
    by (simp add: SIZEOF_SIGNATURE_LIST_def)
  have kn: "Filter_known s (header_of l) (enc_sls old) 0 (word_of_nat (length (enc_sls old))) =
      Some (known_sig old l s)"
    using Filter_known_enc [OF hv(1,2) old, of 0 "[]" s] by simp
  have off: "off + ?n = length pre + length hb + ?n * length (done @ [s])" using Cons.prems(2) by simp
  show ?case
  proof (cases "known_sig old l s")
    case True
    with Cons.IH [of "done @ [s]" "off + ?n" Temp k kept] Cons.prems off rs kn hv show ?thesis
      by simp
  next
    case False
    let ?T = "Temp @ (if k = 0 then hb else []) @ s"
    let ?kept = "filter (\<lambda>s. \<not> known_sig old l s) todo"
    have sc: "length Temp + (if k = 0 then length hb else 0) + length s \<le> length N"
      using Cons.prems(3) ls by simp
    have "Filter_certs (enc_sls old) N (length pre) (header_of l) (off + ?n) (length todo) ?T (Suc k) =
        Some (?T @ concat ?kept, Suc k + length ?kept)"
      using Cons.IH [of "done @ [s]" "off + ?n" ?T "Suc k" ?kept] Cons.prems off ls by (auto split: if_splits)
    with False rs kn rh hv sc Cons.prems(4) show ?thesis
      by (simp add: scratch_append_def split: if_splits)
  qed
qed simp

lemma patch_header:
  assumes "wf_sl l" "enc_sl l = hb @ concat (sl_sigs l)"
    and "hb = sl_type l @ enc32 (word_of_nat (sl_len l)) @ enc32 (word_of_nat (length (sl_hdr l))) @
      enc32 (sl_size l) @ sl_hdr l"
    and "l' = l\<lparr>sl_sigs := kept\<rparr>" "off = length Temp + 16"
  shows "patch (Temp @ hb @ concat kept) off (enc32 (word_of_nat (sl_len l'))) = Temp @ enc_sl l'"
proof -
  have "length (sl_type l) = 16" using assms(1) by (simp add: wf_sl_def)
  then show ?thesis
    using assms(3,4,5) patch_mid [of off "Temp @ sl_type l" "enc32 (word_of_nat (sl_len l))"
        "enc32 (word_of_nat (sl_len l'))"
        "enc32 (word_of_nat (length (sl_hdr l))) @ enc32 (sl_size l) @ sl_hdr l @ concat kept"]
    by (simp add: enc_sl_def)
qed

lemma Filter_lists_enc:
  assumes old: "\<forall>q \<in> set old. wf_sl q" "length (enc_sls old) < 2 ^ 64"
  shows "\<forall>l \<in> set ls. wf_sl l \<Longrightarrow> length (enc_sls ls) < 2 ^ 64 \<Longrightarrow> off = length pre \<Longrightarrow>
    length Temp \<le> length pre \<Longrightarrow>
    Filter_lists (enc_sls old) (pre @ enc_sls ls) off (word_of_nat (length (enc_sls ls))) Temp =
      Some (Temp @ enc_sls (filter_spec old ls))"
proof (induction ls arbitrary: pre off Temp)
  case Nil
  then show ?case by (simp add: Filter_lists.simps filter_spec_def)
next
  case (Cons l ls)
  have wf: "wf_sl l" using Cons.prems by simp
  have len: "length (enc_sls (l # ls)) = sl_len l + length (enc_sls ls)" by (simp add: length_enc_sl [OF wf])
  have m: "sl_len l < 2 ^ 32" "0 < sl_len l" using wf wf_sl_len(3) [OF wf] by (auto simp: wf_sl_def)
  note walk = u64_walk [OF _ m, of "length (enc_sls ls)"]
  note hd = rd_header [OF wf Cons.prems(3), of "enc_sls ls"]
  obtain hb where hb: "enc_sl l = hb @ concat (sl_sigs l)" "length hb = 28 + length (sl_hdr l)"
    "hb = sl_type l @ enc32 (word_of_nat (sl_len l)) @ enc32 (word_of_nat (length (sl_hdr l))) @
      enc32 (sl_size l) @ sl_hdr l"
    using enc_sl_split [OF wf] by metis
  let ?n = "unat (sl_size l)"
  let ?kept = "filter (\<lambda>s. \<not> known_sig old l s) (sl_sigs l)"
  let ?l' = "new_sigs old l"
  have l': "?l' = l\<lparr>sl_sigs := ?kept\<rparr>" by (simp add: new_sigs_def)
  have hv: "SignatureSize (header_of l) = sl_size l" "sl_size l \<noteq> 0"
    "unat (SignatureHeaderSize (header_of l)) = length (sl_hdr l)"
    "unat (sig_room (header_of l) div ucast (sl_size l)) = length (sl_sigs l)"
    using wf wf_sl_len [OF wf] sig_room_header [OF wf] u64_len [of "length (sl_sigs l)"]
    by (simp_all add: header_of_def wf_sl_def)
  have ll: "sl_len l = length hb + ?n * length (sl_sigs l)" using hb(2) by (simp add: sl_len_def)
  have ll': "sl_len ?l' = 28 + length (sl_hdr l) + length ?kept * ?n" by (simp add: l' sl_len_def)
  have lk: "length (concat ?kept) = ?n * length ?kept"
    using wf by (intro length_concat_sigs) (auto simp: wf_sl_def)
  have fc: "Filter_certs (enc_sls old) (pre @ enc_sl l @ enc_sls ls) off (header_of l)
      (off + 28 + length (sl_hdr l)) (length (sl_sigs l)) Temp 0 =
      Some (Temp @ (if ?kept \<noteq> [] then hb else []) @ concat ?kept, length ?kept)"
    using Filter_certs_enc [OF old wf hb(1,2) refl, of "[]" "sl_sigs l" "off + 28 + length (sl_hdr l)" pre Temp 0
        "enc_sls ls" ?kept] Cons.prems(3,4) hb(2) len ll
    by (simp add: length_enc_sl [OF wf])
  let ?T = "if ?kept \<noteq> [] then Temp @ enc_sl ?l' else Temp"
  have pt: "patch (Temp @ hb @ concat ?kept) (length (Temp @ hb @ concat ?kept) - sl_len ?l' + 16)
      (enc32 (word_of_nat (sl_len ?l'))) = Temp @ enc_sl ?l'"
    using lk ll' hb(2) by (intro patch_header [OF wf hb(1,3) l']) simp
  have le: "sl_len ?l' \<le> sl_len l"
    by (simp add: l' sl_len_def)
  have wf': "wf_sl ?l'" using wf le by (auto simp: wf_sl_def l')
  have "length ?T \<le> length (pre @ enc_sl l)"
    using Cons.prems(4) le by (simp add: length_enc_sl [OF wf] length_enc_sl [OF wf'])
  then have IH: "Filter_lists (enc_sls old) (pre @ enc_sl l @ enc_sls ls) (off + sl_len l)
      (word_of_nat (length (enc_sls ls))) ?T = Some (?T @ enc_sls (filter_spec old ls))"
    using Cons.IH [of "off + sl_len l" "pre @ enc_sl l" ?T] Cons.prems len by (simp add: length_enc_sl [OF wf])
  have "Filter_lists (enc_sls old) (pre @ enc_sls (l # ls)) off (word_of_nat (length (enc_sls (l # ls)))) Temp =
      Filter_lists (enc_sls old) (pre @ enc_sl l @ enc_sls ls) (off + sl_len l) (word_of_nat (length (enc_sls ls))) ?T"
  proof (cases "?kept = []")
    case True
    then show ?thesis
      using walk hd hv fc wf_sl_len(1) [OF wf] Cons.prems(2) len
      by (subst Filter_lists.simps) (simp add: SIZEOF_SIGNATURE_LIST_def Let_def del: of_nat_add)
  next
    case False
    then show ?thesis
      using walk hd hv fc pt [unfolded ll'] wf_sl_len(1) [OF wf] Cons.prems(2) len
      by (subst Filter_lists.simps) (simp add: SIZEOF_SIGNATURE_LIST_def Let_def del: of_nat_add)
  qed
  also have "\<dots> = Some (Temp @ enc_sls (filter_spec old (l # ls)))"
    using IH by (simp add: filter_spec_def l')
  finally show ?case .
qed

text \<open>C17: the filter for appended signature lists is exact. On encoded lists it ends, stays inside its
  buffers and leaves the encoding of the new lists without the signatures that an original list of
  the same type and size already holds, in their order; a list that loses all its signatures
  disappears with its header.\<close>

theorem FilterSignatureList_exact:
  assumes "\<forall>q \<in> set old. wf_sl q" "\<forall>l \<in> set new. wf_sl l"
    and "length (enc_sls old) < 2 ^ 64" "length (enc_sls new) < 2 ^ 64"
  shows "FilterSignatureList True (enc_sls old) (enc_sls new) =
    Some (EFI_SUCCESS, enc_sls (filter_spec old new))"
proof (cases "enc_sls new = []")
  case True
  then have "new = []"
    using assms(2) by (cases new) (auto simp: enc_sl_def wf_sl_def)
  then show ?thesis by (simp add: FilterSignatureList_def filter_spec_def)
next
  case False
  then show ?thesis
    using Filter_lists_enc [OF assms(1,3,2,4), of 0 "[]" "[]"] by (simp add: FilterSignatureList_def)
qed

lemma FilterSignatureList_exact_witness:
  "FilterSignatureList True (enc_sls [sample_sigs [1, 2]]) (enc_sls [sample_sigs [2, 3], sample_sigs [1]]) =
   Some (EFI_SUCCESS, enc_sls [sample_sigs [3]])"
proof -
  have "filter_spec [sample_sigs [1, 2]] [sample_sigs [2, 3], sample_sigs [1]] = [sample_sigs [3]]"
    by (simp add: filter_spec_def new_sigs_def known_sig_def sample_sigs_def)
  then show ?thesis
    using FilterSignatureList_exact [of "[sample_sigs [1, 2]]" "[sample_sigs [2, 3], sample_sigs [1]]"]
    by (simp add: sample_sigs_wf length_enc_sl) (simp add: sl_len_def sample_sigs_def)
qed

end
