(* ===== verification/Cert_Db.thy ===== *)
theory Cert_Db
  imports Sig_List
begin

text \<open>
  The certificate database of the authenticated variables, the variables \<open>certdb\<close> and \<open>certdbv\<close>
  (\<open>FindCertsFromDb\<close>, \<open>GetCertsFromDb\<close>, \<open>DeleteCertsFromDb\<close>, \<open>InsertCertsToDb\<close>, \<open>CleanCertsFromDb\<close> of
  \<^verbatim>\<open>AuthService.c\<close>). The database is one packed byte string; \<open>None\<close> is a read outside it or a walk
  that does not end. The variable driver underneath is a record of operations over a store of type
  \<open>'st\<close>. The second half shows that the packed database behaves as a map from variables to
  certificate digests.
\<close>

section \<open>Time stamps and attributes\<close>

record efi_time =
  Year :: u16
  Month :: u8
  Day :: u8
  Hour :: u8
  Minute :: u8
  Second :: u8
  Pad1 :: u8
  Nanosecond :: u32
  TimeZone :: u16
  Daylight :: u8
  Pad2 :: u8

definition EFI_VARIABLE_NON_VOLATILE :: u32 where "EFI_VARIABLE_NON_VOLATILE = 0x1"

definition EFI_VARIABLE_BOOTSERVICE_ACCESS :: u32 where "EFI_VARIABLE_BOOTSERVICE_ACCESS = 0x2"

definition EFI_VARIABLE_RUNTIME_ACCESS :: u32 where "EFI_VARIABLE_RUNTIME_ACCESS = 0x4"

definition EFI_VARIABLE_AUTHENTICATED_WRITE_ACCESS :: u32 where
  "EFI_VARIABLE_AUTHENTICATED_WRITE_ACCESS = 0x10"

definition EFI_VARIABLE_TIME_BASED_AUTHENTICATED_WRITE_ACCESS :: u32 where
  "EFI_VARIABLE_TIME_BASED_AUTHENTICATED_WRITE_ACCESS = 0x20"

definition EFI_VARIABLE_APPEND_WRITE :: u32 where "EFI_VARIABLE_APPEND_WRITE = 0x40"

lemmas attribute_defs =
  EFI_VARIABLE_NON_VOLATILE_def EFI_VARIABLE_BOOTSERVICE_ACCESS_def EFI_VARIABLE_RUNTIME_ACCESS_def
  EFI_VARIABLE_AUTHENTICATED_WRITE_ACCESS_def EFI_VARIABLE_TIME_BASED_AUTHENTICATED_WRITE_ACCESS_def
  EFI_VARIABLE_APPEND_WRITE_def

definition has_attr :: "u32 \<Rightarrow> u32 \<Rightarrow> bool" where
  "has_attr Attributes a \<longleftrightarrow> Bit_Operations.and Attributes a \<noteq> 0"

definition attrs :: "u32 list \<Rightarrow> u32" where
  "attrs as = foldr Bit_Operations.or as 0"

section \<open>The variable driver\<close>

text \<open>
  The callbacks of \<open>AUTH_VAR_LIB_CONTEXT_IN\<close> that the library uses. \<open>FindVariable\<close> fills an
  \<open>AUTH_VARIABLE_INFO\<close> that the caller has zeroed; \<open>WriteFound\<close> is a write through the data pointer it
  returned. \<open>UpdateVariable\<close> is given the name, the GUID, the data, the attributes and the time stamp.
\<close>

record var_info =
  InfoData :: "bytes option"
  InfoAttributes :: u32
  InfoTimeStamp :: "efi_time option"

record 'st driver =
  FindVariable :: "'st \<Rightarrow> name16 \<Rightarrow> bytes \<Rightarrow> efi_status \<times> var_info"
  UpdateVariable :: "'st \<Rightarrow> name16 \<Rightarrow> bytes \<Rightarrow> bytes \<Rightarrow> u32 \<Rightarrow> efi_time option \<Rightarrow> efi_status \<times> 'st"
  WriteFound :: "'st \<Rightarrow> name16 \<Rightarrow> bytes \<Rightarrow> bytes \<Rightarrow> 'st"
  AtRuntime :: "'st \<Rightarrow> bool"
  GetScratchBuffer :: "'st \<Rightarrow> nat \<Rightarrow> efi_status"

definition AuthServiceInternalFindVariable ::
  "'st driver \<Rightarrow> 'st \<Rightarrow> name16 \<Rightarrow> bytes \<Rightarrow> efi_status \<times> bytes option" where
  "AuthServiceInternalFindVariable drv st VariableName VendorGuid =
     (let (Status, Info) = FindVariable drv st VariableName VendorGuid in (Status, InfoData Info))"

definition AuthServiceInternalUpdateVariable ::
  "'st driver \<Rightarrow> 'st \<Rightarrow> name16 \<Rightarrow> bytes \<Rightarrow> bytes \<Rightarrow> u32 \<Rightarrow> efi_status \<times> 'st" where
  "AuthServiceInternalUpdateVariable drv st VariableName VendorGuid Data Attributes =
     UpdateVariable drv st VariableName VendorGuid Data Attributes None"

section \<open>Searching\<close>

definition name_bytes :: "name16 \<Rightarrow> bytes" where
  "name_bytes n = concat (map enc16 n)"

definition SIZEOF_CERT_DB_DATA :: nat where
  "SIZEOF_CERT_DB_DATA = 28"

text \<open>A hit gives \<open>CertOffset\<close>, \<open>CertDataSize\<close>, \<open>CertNodeOffset\<close> and \<open>CertNodeSize\<close>.\<close>

record cert_hit =
  CertOffset :: u32
  CertDataSize :: u32
  CertNodeOffset :: u32
  CertNodeSize :: u32

partial_function (option) FindCerts_loop ::
  "name16 \<Rightarrow> bytes \<Rightarrow> bytes \<Rightarrow> u32 \<Rightarrow> (efi_status + cert_hit) option" where
  "FindCerts_loop VariableName VendorGuid Data Offset =
     (if Offset < word_of_nat (length Data) then
        do { g \<leftarrow> rd Data (unat Offset) 16;
             if g = VendorGuid then
               do { NodeSize \<leftarrow> rd32 Data (unat Offset + 16);
                    NameSize \<leftarrow> rd32 Data (unat Offset + 20);
                    CertSize \<leftarrow> rd32 Data (unat Offset + 24);
                    if unat NodeSize \<noteq> SIZEOF_CERT_DB_DATA + unat CertSize + 2 * unat NameSize
                    then Some (Inl EFI_INVALID_PARAMETER)
                    else
                      do { hit \<leftarrow> (if unat NameSize = length VariableName then
                                  do { nb \<leftarrow> rd Data (unat (Offset + word_of_nat SIZEOF_CERT_DB_DATA)) (2 * unat NameSize);
                                       Some (nb = name_bytes VariableName) }
                                else Some False);
                           let Offset1 = Offset + word_of_nat SIZEOF_CERT_DB_DATA + NameSize * 2
                           in if hit then
                                Some (Inr \<lparr>CertOffset = Offset1, CertDataSize = CertSize,
                                          CertNodeOffset = Offset, CertNodeSize = NodeSize\<rparr>)
                              else FindCerts_loop VariableName VendorGuid Data (Offset1 + CertSize) } }
             else
               do { NodeSize \<leftarrow> rd32 Data (unat Offset + 16);
                    FindCerts_loop VariableName VendorGuid Data (Offset + NodeSize) } }
      else Some (Inl EFI_NOT_FOUND))"

definition FindCertsFromDb :: "name16 \<Rightarrow> bytes \<Rightarrow> bytes \<Rightarrow> (efi_status + cert_hit) option" where
  "FindCertsFromDb VariableName VendorGuid Data =
     (if length Data < 4 then Some (Inl EFI_INVALID_PARAMETER)
      else do { CertDbListSize \<leftarrow> rd32 Data 0;
                if CertDbListSize \<noteq> word_of_nat (length Data) then Some (Inl EFI_INVALID_PARAMETER)
                else FindCerts_loop VariableName VendorGuid Data 4 })"

section \<open>The operations\<close>

definition DbName :: "u32 \<Rightarrow> name16" where
  "DbName Attributes =
     (if has_attr Attributes EFI_VARIABLE_NON_VOLATILE then wide ''certdb'' else wide ''certdbv'')"

definition DbAttr :: "u32 \<Rightarrow> u32" where
  "DbAttr Attributes =
     (if has_attr Attributes EFI_VARIABLE_NON_VOLATILE
      then attrs [EFI_VARIABLE_NON_VOLATILE, EFI_VARIABLE_RUNTIME_ACCESS, EFI_VARIABLE_BOOTSERVICE_ACCESS,
                  EFI_VARIABLE_TIME_BASED_AUTHENTICATED_WRITE_ACCESS]
      else attrs [EFI_VARIABLE_RUNTIME_ACCESS, EFI_VARIABLE_BOOTSERVICE_ACCESS,
                  EFI_VARIABLE_TIME_BASED_AUTHENTICATED_WRITE_ACCESS])"

text \<open>\<open>CertDbGuid\<close> is \<open>gEfiCertDbGuid\<close>. An empty or missing value fails the \<open>ASSERT\<close> and is reported as
  \<open>EFI_NOT_FOUND\<close>.\<close>

definition GetCertsFromDb ::
  "'st driver \<Rightarrow> bytes \<Rightarrow> 'st \<Rightarrow> name16 \<Rightarrow> bytes \<Rightarrow> u32 \<Rightarrow> (efi_status + bytes) option" where
  "GetCertsFromDb drv CertDbGuid st VariableName VendorGuid Attributes =
     (let (Status, Data) = AuthServiceInternalFindVariable drv st (DbName Attributes) CertDbGuid
      in if EFI_ERROR Status then Some (Inl Status)
         else case Data of
                None \<Rightarrow> Some (Inl EFI_NOT_FOUND)
              | Some Data \<Rightarrow>
                  if length Data = 0 then Some (Inl EFI_NOT_FOUND)
                  else do { r \<leftarrow> FindCertsFromDb VariableName VendorGuid Data;
                            case r of
                              Inl Status \<Rightarrow> Some (Inl Status)
                            | Inr h \<Rightarrow> do { c \<leftarrow> rd Data (unat (CertOffset h)) (unat (CertDataSize h));
                                           Some (Inr c) } })"

text \<open>The new database without the node of a hit: the bytes in front of it with the new list size, then
  the bytes behind it.\<close>

definition CertDb_remove :: "bytes \<Rightarrow> cert_hit \<Rightarrow> bytes" where
  "CertDb_remove Data h =
     (let NewCertDbSize = word_of_nat (length Data) - CertNodeSize h
      in patch (take (unat (CertNodeOffset h)) Data) 0 (enc32 NewCertDbSize) @
         drop (unat (CertNodeOffset h) + unat (CertNodeSize h)) Data)"

definition DeleteCertsFromDb ::
  "'st driver \<Rightarrow> bytes \<Rightarrow> 'st \<Rightarrow> name16 \<Rightarrow> bytes \<Rightarrow> u32 \<Rightarrow> (efi_status \<times> 'st) option" where
  "DeleteCertsFromDb drv CertDbGuid st VariableName VendorGuid Attributes =
     (let (Status, Data) = AuthServiceInternalFindVariable drv st (DbName Attributes) CertDbGuid
      in if EFI_ERROR Status then Some (Status, st)
         else case Data of
                None \<Rightarrow> Some (EFI_NOT_FOUND, st)
              | Some Data \<Rightarrow>
                  if length Data = 0 then Some (EFI_NOT_FOUND, st)
                  else if length Data = 4 then Some (EFI_SUCCESS, st)
                  else do { r \<leftarrow> FindCertsFromDb VariableName VendorGuid Data;
                            case r of
                              Inl Status \<Rightarrow> Some (Status, st)
                            | Inr h \<Rightarrow>
                                if length Data < unat (CertNodeOffset h + CertNodeSize h)
                                then Some (EFI_NOT_FOUND, st)
                                else Some (AuthServiceInternalUpdateVariable drv st (DbName Attributes)
                                             CertDbGuid (CertDb_remove Data h) (DbAttr Attributes)) })"

definition CertDb_append :: "bytes \<Rightarrow> name16 \<Rightarrow> bytes \<Rightarrow> bytes \<Rightarrow> bytes" where
  "CertDb_append Data VariableName VendorGuid ShaDigest =
     (let NameSize = word_of_nat (length VariableName) :: u32;
          DigestSize = word_of_nat (length ShaDigest) :: u32;
          NodeSize = word_of_nat SIZEOF_CERT_DB_DATA + DigestSize + NameSize * 2;
          NewCertDbSize = word_of_nat (length Data) + NodeSize
      in patch Data 0 (enc32 NewCertDbSize) @ VendorGuid @ enc32 NodeSize @ enc32 NameSize @
         enc32 DigestSize @ name_bytes VariableName @ ShaDigest)"

text \<open>
  \<open>HashSizes\<close> is the \<open>HashSize\<close> column of \<open>mHashInfo\<close> (SHA-256, SHA-384, SHA-512), and \<open>Digest\<close> is the
  result of \<open>CalculatePrivAuthVarSignChainSHADigest\<close> on the signer's certificates, a digest of the size
  the table gives for the algorithm.
\<close>

definition HashSizes :: "nat list" where
  "HashSizes = [32, 48, 64]"

definition InsertCertsToDb ::
  "'st driver \<Rightarrow> bytes \<Rightarrow> u32 \<Rightarrow> 'st \<Rightarrow> nat \<Rightarrow> name16 \<Rightarrow> bytes \<Rightarrow> u32 \<Rightarrow> efi_status + bytes
     \<Rightarrow> (efi_status \<times> 'st) option" where
  "InsertCertsToDb drv CertDbGuid mMaxCertDbSize st HashAlgId VariableName VendorGuid Attributes Digest =
     (if HashAlgId \<ge> length HashSizes then Some (EFI_INVALID_PARAMETER, st)
      else
        let (Status, Data) = AuthServiceInternalFindVariable drv st (DbName Attributes) CertDbGuid
        in if EFI_ERROR Status then Some (Status, st)
           else case Data of
                  None \<Rightarrow> Some (EFI_NOT_FOUND, st)
                | Some Data \<Rightarrow>
                    if length Data = 0 then Some (EFI_NOT_FOUND, st)
                    else do { r \<leftarrow> FindCertsFromDb VariableName VendorGuid Data;
                              case r of
                                Inr h \<Rightarrow> Some (EFI_ACCESS_DENIED, st)
                              | Inl _ \<Rightarrow>
                                  let NameSize = word_of_nat (length VariableName) :: u32;
                                      NodeSize = word_of_nat SIZEOF_CERT_DB_DATA +
                                                 word_of_nat (HashSizes ! HashAlgId) + NameSize * 2;
                                      NewCertDbSize = word_of_nat (length Data) + NodeSize
                                  in if NewCertDbSize > mMaxCertDbSize then Some (EFI_OUT_OF_RESOURCES, st)
                                     else case Digest of
                                            Inl Status \<Rightarrow> Some (Status, st)
                                          | Inr ShaDigest \<Rightarrow>
                                              Some (AuthServiceInternalUpdateVariable drv st (DbName Attributes)
                                                      CertDbGuid
                                                      (CertDb_append Data VariableName VendorGuid ShaDigest)
                                                      (DbAttr Attributes)) })"

text \<open>
  One pass of \<open>CleanCertsFromDb\<close> over the nodes: the first entry whose variable is missing or not a
  time-based authenticated one, with the attributes found for it. A pool allocation that fails ends
  the function with \<open>EFI_OUT_OF_RESOURCES\<close>; allocations of this size are taken to succeed.
\<close>

definition dec_name :: "bytes \<Rightarrow> name16" where
  "dec_name bs = map (\<lambda>i. dec16 (drop (2 * i) bs)) [0..<length bs div 2]"

text \<open>The copied name ends at its first NUL for the driver.\<close>

definition till_nul :: "name16 \<Rightarrow> name16" where
  "till_nul n = takeWhile (\<lambda>c. c \<noteq> 0) n"

partial_function (option) CleanCerts_scan ::
  "'st driver \<Rightarrow> 'st \<Rightarrow> bytes \<Rightarrow> u32 \<Rightarrow> efi_status \<Rightarrow> (efi_status \<times> (name16 \<times> bytes \<times> u32) option) option" where
  "CleanCerts_scan drv st Data Offset Status =
     (if Offset < word_of_nat (length Data) then
        do { NodeSize \<leftarrow> rd32 Data (unat Offset + 16);
             NameSize \<leftarrow> rd32 Data (unat Offset + 20);
             nb \<leftarrow> rd Data (unat Offset + SIZEOF_CERT_DB_DATA) (2 * unat NameSize);
             g \<leftarrow> rd Data (unat Offset) 16;
             let VariableName = till_nul (dec_name nb);
                 (Status, Info) = FindVariable drv st VariableName g
             in if EFI_ERROR Status \<or>
                   \<not> has_attr (InfoAttributes Info) EFI_VARIABLE_TIME_BASED_AUTHENTICATED_WRITE_ACCESS
                then Some (Status, Some (VariableName, g,
                        Bit_Operations.or (InfoAttributes Info) EFI_VARIABLE_NON_VOLATILE))
                else CleanCerts_scan drv st Data (Offset + NodeSize) Status }
      else Some (Status, None))"

partial_function (option) CleanCertsFromDb ::
  "'st driver \<Rightarrow> bytes \<Rightarrow> 'st \<Rightarrow> (efi_status \<times> 'st) option" where
  "CleanCertsFromDb drv CertDbGuid st =
     (let (Status, Data) = AuthServiceInternalFindVariable drv st (wide ''certdb'') CertDbGuid
      in if EFI_ERROR Status then Some (Status, st)
         else case Data of
                None \<Rightarrow> Some (EFI_NOT_FOUND, st)
              | Some Data \<Rightarrow>
                  if length Data = 0 then Some (EFI_NOT_FOUND, st)
                  else do { r \<leftarrow> CleanCerts_scan drv st Data 4 Status;
                            case r of
                              (Status, None) \<Rightarrow> Some (Status, st)
                            | (_, Some (VariableName, g, a)) \<Rightarrow>
                                do { d \<leftarrow> DeleteCertsFromDb drv CertDbGuid st VariableName g a;
                                     CleanCertsFromDb drv CertDbGuid (snd d) } })"

section \<open>The database as a map\<close>

text \<open>A key is a variable's name and GUID; an entry of the database is a key with its certificate data.\<close>

type_synonym cert_key = "name16 \<times> bytes"
type_synonym cert_entry = "cert_key \<times> bytes"

definition node_len :: "cert_entry \<Rightarrow> nat" where
  "node_len e = 28 + 2 * length (fst (fst e)) + length (snd e)"

definition enc_node :: "cert_entry \<Rightarrow> bytes" where
  "enc_node e =
     snd (fst e) @ enc32 (word_of_nat (node_len e)) @ enc32 (word_of_nat (length (fst (fst e)))) @
     enc32 (word_of_nat (length (snd e))) @ name_bytes (fst (fst e)) @ snd e"

definition enc_nodes :: "cert_entry list \<Rightarrow> bytes" where
  "enc_nodes es = concat (map enc_node es)"

definition db_len :: "cert_entry list \<Rightarrow> nat" where
  "db_len es = 4 + (\<Sum>e \<leftarrow> es. node_len e)"

definition enc_db :: "cert_entry list \<Rightarrow> bytes" where
  "enc_db es = enc32 (word_of_nat (db_len es)) @ enc_nodes es"

definition wf_db :: "cert_entry list \<Rightarrow> bool" where
  "wf_db es \<longleftrightarrow> (\<forall>e \<in> set es. length (snd (fst e)) = 16) \<and> distinct (map fst es) \<and> db_len es < 2 ^ 32"

lemma enc_nodes_simps [simp]:
  "enc_nodes [] = []" "enc_nodes (e # es) = enc_node e @ enc_nodes es"
  "enc_nodes (es @ fs) = enc_nodes es @ enc_nodes fs"
  by (simp_all add: enc_nodes_def)

lemma db_len_simps [simp]:
  "db_len [] = 4" "db_len (e # es) = node_len e + db_len es"
  by (simp_all add: db_len_def)

lemma db_len_ge: "4 \<le> db_len es"
  by (simp add: db_len_def)

lemma db_len_nonzero [simp]: "db_len es \<noteq> 0"
  by (simp add: db_len_def)

lemma db_len_append: "db_len (es @ fs) + 4 = db_len es + db_len fs"
  by (induction es) auto

lemma length_name_bytes [simp]: "length (name_bytes n) = 2 * length n"
  by (induction n) (simp_all add: name_bytes_def)

lemma name_bytes_inj: "length m = length n \<Longrightarrow> name_bytes m = name_bytes n \<longleftrightarrow> m = n"
proof (induction m n rule: list_induct2)
  case (Cons x m y n)
  have "enc16 x = enc16 y \<longleftrightarrow> x = y" by (metis dec16_enc16)
  with Cons show ?case by (simp add: name_bytes_def)
qed (simp add: name_bytes_def)

lemma length_enc_node: "length (snd (fst e)) = 16 \<Longrightarrow> length (enc_node e) = node_len e"
  by (simp add: enc_node_def node_len_def)

lemma length_enc_nodes:
  "\<forall>e \<in> set es. length (snd (fst e)) = 16 \<Longrightarrow> length (enc_nodes es) + 4 = db_len es"
  by (induction es) (auto simp: length_enc_node)

lemma length_enc_db: "wf_db es \<Longrightarrow> length (enc_db es) = db_len es"
  using length_enc_nodes [of es] by (simp add: enc_db_def wf_db_def)

lemma rd_node:
  assumes "length (snd (fst e)) = 16" "off = length pre"
  shows "rd (pre @ enc_node e @ post) off 16 = Some (snd (fst e))"
    "rd32 (pre @ enc_node e @ post) (off + 16) = Some (word_of_nat (node_len e))"
    "rd32 (pre @ enc_node e @ post) (off + 20) = Some (word_of_nat (length (fst (fst e))))"
    "rd32 (pre @ enc_node e @ post) (off + 24) = Some (word_of_nat (length (snd e)))"
    "rd (pre @ enc_node e @ post) (off + 28) (2 * length (fst (fst e))) = Some (name_bytes (fst (fst e)))"
    "rd (pre @ enc_node e @ post) (off + 28 + 2 * length (fst (fst e))) (length (snd e)) = Some (snd e)"
proof -
  let ?g = "snd (fst e)" and ?a = "enc32 (word_of_nat (node_len e))"
    and ?b = "enc32 (word_of_nat (length (fst (fst e))))" and ?c = "enc32 (word_of_nat (length (snd e)))"
    and ?n = "name_bytes (fst (fst e))"
  show "rd (pre @ enc_node e @ post) off 16 = Some ?g"
    using assms rd_mid [of off pre 16 ?g] by (simp add: enc_node_def)
  show "rd32 (pre @ enc_node e @ post) (off + 16) = Some (word_of_nat (node_len e))"
    using assms rd32_mid [of "off + 16" "pre @ ?g"] by (simp add: enc_node_def)
  show "rd32 (pre @ enc_node e @ post) (off + 20) = Some (word_of_nat (length (fst (fst e))))"
    using assms rd32_mid [of "off + 20" "pre @ ?g @ ?a"] by (simp add: enc_node_def)
  show "rd32 (pre @ enc_node e @ post) (off + 24) = Some (word_of_nat (length (snd e)))"
    using assms rd32_mid [of "off + 24" "pre @ ?g @ ?a @ ?b"] by (simp add: enc_node_def)
  show "rd (pre @ enc_node e @ post) (off + 28) (2 * length (fst (fst e))) = Some ?n"
    using assms rd_mid [of "off + 28" "pre @ ?g @ ?a @ ?b @ ?c" _ ?n] by (simp add: enc_node_def)
  show "rd (pre @ enc_node e @ post) (off + 28 + 2 * length (fst (fst e))) (length (snd e)) = Some (snd e)"
    using assms rd_mid [of "off + 28 + 2 * length (fst (fst e))" "pre @ ?g @ ?a @ ?b @ ?c @ ?n" _ "snd e"]
    by (simp add: enc_node_def)
qed

text \<open>The hit for the node that follows \<open>pre\<close>.\<close>

definition hit_at :: "nat \<Rightarrow> cert_entry \<Rightarrow> cert_hit" where
  "hit_at off e =
     \<lparr>CertOffset = word_of_nat (off + 28 + 2 * length (fst (fst e))),
      CertDataSize = word_of_nat (length (snd e)),
      CertNodeOffset = word_of_nat off, CertNodeSize = word_of_nat (node_len e)\<rparr>"

lemma FindCerts_step:
  assumes g: "length (snd (fst e)) = 16" and off: "off = length pre"
    and len: "length (pre @ enc_node e @ post) < 2 ^ 32"
  shows "FindCerts_loop n g (pre @ enc_node e @ post) (word_of_nat off) =
    (if fst e = (n, g) then Some (Inr (hit_at off e))
     else FindCerts_loop n g (pre @ enc_node e @ post) (word_of_nat (off + node_len e)))"
proof -
  let ?D = "pre @ enc_node e @ post"
  note r = rd_node [OF g off, of post]
  have nl: "off + node_len e \<le> length ?D" using off length_enc_node [OF g] by simp
  have w: "unat (word_of_nat off :: u32) = off" "unat (word_of_nat (node_len e) :: u32) = node_len e"
    "unat (word_of_nat (length (fst (fst e))) :: u32) = length (fst (fst e))"
    "unat (word_of_nat (length (snd e)) :: u32) = length (snd e)"
    "unat (word_of_nat (off + 28) :: u32) = off + 28" "unat (word_of_nat (length ?D) :: u32) = length ?D"
    using nl len by (intro u32_len; simp add: node_len_def)+
  have "off < length ?D" using nl by (simp add: node_len_def)
  then have lt: "(word_of_nat off :: u32) < word_of_nat (length ?D)"
    by (simp only: word_less_nat_alt w)
  have sum: "(word_of_nat off :: u32) + word_of_nat SIZEOF_CERT_DB_DATA = word_of_nat (off + 28)"
    "word_of_nat (off + 28) + word_of_nat (length (fst (fst e))) * (2 :: u32) =
       word_of_nat (off + 28 + 2 * length (fst (fst e)))"
    "word_of_nat (off + 28 + 2 * length (fst (fst e))) + word_of_nat (length (snd e)) =
       (word_of_nat (off + node_len e) :: u32)"
    "(word_of_nat off :: u32) + word_of_nat (node_len e) = word_of_nat (off + node_len e)"
    by (simp_all add: SIZEOF_CERT_DB_DATA_def node_len_def)
  show ?thesis
  proof (cases "snd (fst e) = g")
    case False
    then show ?thesis
      using lt r w sum by (subst FindCerts_loop.simps) (auto simp del: of_nat_add)
  next
    case True
    show ?thesis
    proof (cases "fst (fst e) = n")
      case eq: True
      with True have "fst e = (n, g)" by (metis prod.collapse)
      then show ?thesis
        using lt r w sum True eq
        by (subst FindCerts_loop.simps)
          (simp add: SIZEOF_CERT_DB_DATA_def node_len_def hit_at_def del: of_nat_add)
    next
      case ne: False
      then have "fst e \<noteq> (n, g)" by auto
      moreover have "length (fst (fst e)) = length n \<Longrightarrow> name_bytes (fst (fst e)) \<noteq> name_bytes n"
        using ne name_bytes_inj by blast
      ultimately show ?thesis
        using lt r w sum True
        by (subst FindCerts_loop.simps) (auto simp: SIZEOF_CERT_DB_DATA_def node_len_def simp del: of_nat_add)
    qed
  qed
qed

lemma FindCerts_skip:
  assumes "\<forall>e \<in> set es. length (snd (fst e)) = 16" "(n, g) \<notin> fst ` set es"
    "length (pre @ enc_nodes es @ post) < 2 ^ 32"
  shows "FindCerts_loop n g (pre @ enc_nodes es @ post) (word_of_nat (length pre)) =
    FindCerts_loop n g (pre @ enc_nodes es @ post) (word_of_nat (length (pre @ enc_nodes es)))"
  using assms
proof (induction es arbitrary: pre)
  case (Cons e es)
  have "FindCerts_loop n g (pre @ enc_node e @ enc_nodes es @ post) (word_of_nat (length pre)) =
    FindCerts_loop n g (pre @ enc_node e @ enc_nodes es @ post) (word_of_nat (length (pre @ enc_node e)))"
    using Cons.prems FindCerts_step [of e "length pre" pre "enc_nodes es @ post" n g]
    by (auto simp: length_enc_node)
  also have "\<dots> = FindCerts_loop n g ((pre @ enc_node e) @ enc_nodes es @ post)
      (word_of_nat (length ((pre @ enc_node e) @ enc_nodes es)))"
    using Cons.IH [of "pre @ enc_node e"] Cons.prems by simp
  finally show ?case by simp
qed simp

lemma FindCerts_end: "FindCerts_loop n g Data (word_of_nat (length Data)) = Some (Inl EFI_NOT_FOUND)"
  by (subst FindCerts_loop.simps) simp

lemma FindCertsFromDb_head:
  assumes "wf_db es"
  shows "FindCertsFromDb n g (enc_db es) = FindCerts_loop n g (enc_db es) (word_of_nat 4)"
proof -
  have "rd32 (enc_db es) 0 = Some (word_of_nat (db_len es))"
    using rd32_mid [of 0 "[]" "word_of_nat (db_len es)" "enc_nodes es"] by (simp add: enc_db_def)
  moreover have "4 \<le> db_len es" by (simp add: db_len_def)
  ultimately show ?thesis
    using length_enc_db [OF assms] by (simp add: FindCertsFromDb_def)
qed

lemma FindCertsFromDb_missing:
  assumes "wf_db es" "(n, g) \<notin> fst ` set es"
  shows "FindCertsFromDb n g (enc_db es) = Some (Inl EFI_NOT_FOUND)"
proof -
  let ?pre = "enc32 (word_of_nat (db_len es))"
  have "length (?pre @ enc_nodes es @ []) < 2 ^ 32"
    using length_enc_db [OF assms(1)] assms(1) by (simp add: enc_db_def wf_db_def)
  then have "FindCerts_loop n g (enc_db es) (word_of_nat (length ?pre)) =
      FindCerts_loop n g (enc_db es) (word_of_nat (length (enc_db es)))"
    using FindCerts_skip [of es n g ?pre "[]"] assms by (simp add: enc_db_def wf_db_def del: length_append)
  then show ?thesis using FindCertsFromDb_head [OF assms(1)] FindCerts_end by simp
qed

lemma FindCertsFromDb_found:
  assumes wf: "wf_db es" and es: "es = as @ e # bs" and k: "fst e = (n, g)"
  shows "FindCertsFromDb n g (enc_db es) = Some (Inr (hit_at (db_len as) e))"
proof -
  let ?pre = "enc32 (word_of_nat (db_len es))"
  have g: "\<forall>e \<in> set es. length (snd (fst e)) = 16" and ni: "(n, g) \<notin> fst ` set as"
    using wf es k by (auto simp: wf_db_def)
  have len: "length (?pre @ enc_nodes as @ enc_node e @ enc_nodes bs) < 2 ^ 32"
    using length_enc_db [OF wf] wf es by (simp add: enc_db_def wf_db_def)
  have db: "enc_db es = ?pre @ enc_nodes as @ enc_node e @ enc_nodes bs"
    using es by (simp add: enc_db_def)
  have la: "length (?pre @ enc_nodes as) = db_len as"
    using length_enc_nodes [of as] g es by simp
  have "FindCerts_loop n g (enc_db es) (word_of_nat (length ?pre)) =
      FindCerts_loop n g (enc_db es) (word_of_nat (length (?pre @ enc_nodes as)))"
    unfolding db by (rule FindCerts_skip) (use g es ni len in auto)
  also have "\<dots> = Some (Inr (hit_at (db_len as) e))"
    using FindCerts_step [of e "db_len as" "?pre @ enc_nodes as" "enc_nodes bs" n g] g es k len la
    unfolding db append_assoc la by simp
  finally show ?thesis using FindCertsFromDb_head [OF wf] by simp
qed

lemma hit_bounds:
  assumes wf: "wf_db es" and es: "es = as @ e # bs"
  shows "unat (word_of_nat (db_len as) :: u32) = db_len as"
    "unat (word_of_nat (node_len e) :: u32) = node_len e"
    "unat (word_of_nat (db_len as + node_len e) :: u32) = db_len as + node_len e"
    "unat (word_of_nat (db_len as + 28 + 2 * length (fst (fst e))) :: u32) =
       db_len as + 28 + 2 * length (fst (fst e))"
    "unat (word_of_nat (length (snd e)) :: u32) = length (snd e)"
    "db_len as + node_len e \<le> db_len es"
proof -
  show le: "db_len as + node_len e \<le> db_len es"
    using db_len_append [of as "e # bs"] es by (simp add: db_len_def)
  have "db_len es < 2 ^ 32" using wf by (simp add: wf_db_def)
  with le show "unat (word_of_nat (db_len as) :: u32) = db_len as"
    "unat (word_of_nat (node_len e) :: u32) = node_len e"
    "unat (word_of_nat (db_len as + node_len e) :: u32) = db_len as + node_len e"
    "unat (word_of_nat (db_len as + 28 + 2 * length (fst (fst e))) :: u32) =
       db_len as + 28 + 2 * length (fst (fst e))"
    "unat (word_of_nat (length (snd e)) :: u32) = length (snd e)"
    by (intro u32_len; simp add: node_len_def)+
qed

lemma CertDb_split:
  assumes wf: "wf_db es" and es: "es = as @ e # bs"
  shows "enc_db es = (enc32 (word_of_nat (db_len es)) @ enc_nodes as) @ enc_node e @ enc_nodes bs"
    "length (enc32 (word_of_nat (db_len es)) @ enc_nodes as) = db_len as"
    "length (enc_node e) = node_len e" "length (snd (fst e)) = 16"
  using length_enc_nodes [of as] length_enc_node [of e] assms by (auto simp: wf_db_def enc_db_def)

text \<open>Removing the node of a hit gives the encoding of the remaining entries.\<close>

lemma CertDb_remove_enc:
  assumes wf: "wf_db es" and es: "es = as @ e # bs"
  shows "CertDb_remove (enc_db es) (hit_at (db_len as) e) = enc_db (as @ bs)"
proof -
  note sp = CertDb_split [OF assms] and b = hit_bounds [OF assms]
  have len: "length (enc_db es) = db_len es" by (rule length_enc_db [OF wf])
  have "db_len es = db_len (as @ bs) + node_len e"
    using db_len_append [of as "e # bs"] db_len_append [of as bs] es by simp
  then have sz: "word_of_nat (db_len es) - word_of_nat (node_len e) = (word_of_nat (db_len (as @ bs)) :: u32)"
    by simp
  have "take (db_len as) (enc_db es) = [] @ enc32 (word_of_nat (db_len es)) @ enc_nodes as"
    unfolding sp(1) sp(2) [symmetric] by simp
  moreover have "drop (db_len as + node_len e) (enc_db es) = enc_nodes bs"
    unfolding sp(1) sp(2) [symmetric] sp(3) [symmetric] by simp
  moreover have "patch ([] @ enc32 (word_of_nat (db_len es)) @ enc_nodes as) 0
      (enc32 (word_of_nat (db_len (as @ bs)))) = enc32 (word_of_nat (db_len (as @ bs))) @ enc_nodes as"
    by (subst patch_mid) simp_all
  ultimately show ?thesis
    using b(1,2) sz by (simp add: CertDb_remove_def hit_at_def len) (simp add: enc_db_def)
qed

text \<open>Appending a node gives the encoding with the new entry at the end.\<close>

lemma CertDb_append_enc:
  assumes wf: "wf_db es"
  shows "CertDb_append (enc_db es) n g c = enc_db (es @ [((n, g), c)])"
proof -
  let ?e = "((n, g), c)"
  have nl: "word_of_nat SIZEOF_CERT_DB_DATA + word_of_nat (length c) + word_of_nat (length n) * 2 =
      (word_of_nat (node_len ?e) :: u32)"
    by (simp add: node_len_def SIZEOF_CERT_DB_DATA_def)
  have "db_len (es @ [?e]) = db_len es + node_len ?e"
    using db_len_append [of es "[?e]"] by simp
  then have sz: "word_of_nat (db_len es) + word_of_nat (node_len ?e) =
      (word_of_nat (db_len (es @ [?e])) :: u32)"
    by simp
  have "patch ([] @ enc32 (word_of_nat (db_len es)) @ enc_nodes es) 0 (enc32 w) = enc32 w @ enc_nodes es" for w
    by (subst patch_mid) simp_all
  then have "patch (enc_db es) 0 (enc32 w) = enc32 w @ enc_nodes es" for w
    by (simp add: enc_db_def)
  then show ?thesis
    unfolding CertDb_append_def Let_def nl length_enc_db [OF wf] sz
    by (simp add: enc_db_def enc_node_def)
qed

section \<open>The interface of a certificate store\<close>

text \<open>
  A store of certificates by key: \<open>R st m\<close> relates a state to the map it stands for, \<open>get\<close>, \<open>ins\<close> and
  \<open>del\<close> are the operations, \<open>val\<close> is the certificate data of an argument of \<open>ins\<close> and \<open>ok\<close> the arguments
  the caller may pass. Every operation returns; a failing one leaves the map alone.
\<close>

datatype ('k, 'd) cert_op = CertIns 'k 'd | CertDel 'k

fun op_run ::
  "('st \<Rightarrow> 'k \<Rightarrow> 'd \<Rightarrow> (efi_status \<times> 'st) option) \<Rightarrow> ('st \<Rightarrow> 'k \<Rightarrow> (efi_status \<times> 'st) option)
     \<Rightarrow> 'st \<Rightarrow> ('k, 'd) cert_op list \<Rightarrow> (efi_status list \<times> 'st) option" where
  "op_run ins del st [] = Some ([], st)"
| "op_run ins del st (p # ps) =
     do { (s, st1) \<leftarrow> (case p of CertIns k d \<Rightarrow> ins st k d | CertDel k \<Rightarrow> del st k);
          (ss, st2) \<leftarrow> op_run ins del st1 ps;
          Some (s # ss, st2) }"

text \<open>The map after the operations that returned \<open>EFI_SUCCESS\<close>.\<close>

fun op_spec :: "('d \<Rightarrow> 'c) \<Rightarrow> ('k \<rightharpoonup> 'c) \<Rightarrow> ('k, 'd) cert_op list \<Rightarrow> efi_status list \<Rightarrow> 'k \<rightharpoonup> 'c" where
  "op_spec val m (p # ps) (s # ss) =
     op_spec val (if EFI_ERROR s then m
                  else case p of CertIns k d \<Rightarrow> m(k \<mapsto> val d) | CertDel k \<Rightarrow> m(k := None)) ps ss"
| "op_spec val m _ _ = m"

locale cert_store =
  fixes R :: "'st \<Rightarrow> ('k \<rightharpoonup> 'c) \<Rightarrow> bool"
    and get :: "'st \<Rightarrow> 'k \<Rightarrow> (efi_status + 'c) option"
    and ins :: "'st \<Rightarrow> 'k \<Rightarrow> 'd \<Rightarrow> (efi_status \<times> 'st) option"
    and del :: "'st \<Rightarrow> 'k \<Rightarrow> (efi_status \<times> 'st) option"
    and val :: "'d \<Rightarrow> 'c"
    and ok :: "'k \<Rightarrow> 'd \<Rightarrow> bool"
  assumes get_law: "R st m \<Longrightarrow> get st k = Some (case m k of None \<Rightarrow> Inl EFI_NOT_FOUND | Some c \<Rightarrow> Inr c)"
    and ins_law: "R st m \<Longrightarrow> ok k d \<Longrightarrow>
      \<exists>s st'. ins st k d = Some (s, st') \<and> R st' (if EFI_ERROR s then m else m(k \<mapsto> val d)) \<and>
              (m k \<noteq> None \<longrightarrow> s = EFI_ACCESS_DENIED)"
    and del_law: "R st m \<Longrightarrow>
      \<exists>s st'. del st k = Some (s, st') \<and> R st' (if EFI_ERROR s then m else m(k := None))"
begin

lemma get_after_ins:
  assumes "R st m" "ok k d" "ins st k d = Some (EFI_SUCCESS, st')"
  shows "get st' k' = (if k' = k then Some (Inr (val d)) else get st k')"
proof -
  have "R st' (m(k \<mapsto> val d))" using ins_law [OF assms(1,2)] assms(3) by auto
  from get_law [OF this] get_law [OF assms(1)] show ?thesis by simp
qed

lemma get_after_del:
  assumes "R st m" "del st k = Some (EFI_SUCCESS, st')"
  shows "get st' k' = (if k' = k then Some (Inl EFI_NOT_FOUND) else get st k')"
proof -
  have "R st' (m(k := None))" using del_law [OF assms(1), of k] assms(2) by auto
  from get_law [OF this] get_law [OF assms(1)] show ?thesis by simp
qed

lemma ins_twice:
  assumes "R st m" "ok k d" "ins st k d = Some (EFI_SUCCESS, st')" "ok k d'"
  shows "\<exists>st''. ins st' k d' = Some (EFI_ACCESS_DENIED, st'') \<and> get st'' k = Some (Inr (val d))"
proof -
  have "R st' (m(k \<mapsto> val d))" using ins_law [OF assms(1,2)] assms(3) by auto
  from ins_law [OF this assms(4)] obtain st'' where
    "ins st' k d' = Some (EFI_ACCESS_DENIED, st'')" "R st'' (m(k \<mapsto> val d))" by auto
  with get_law [of st''] show ?thesis by auto
qed

lemma op_run_refines:
  assumes "R st m" "\<And>k d. CertIns k d \<in> set ps \<Longrightarrow> ok k d"
  shows "\<exists>ss st'. op_run ins del st ps = Some (ss, st') \<and> R st' (op_spec val m ps ss)"
  using assms
proof (induction ps arbitrary: st m)
  case (Cons p ps)
  have "\<exists>s st1. (case p of CertIns k d \<Rightarrow> ins st k d | CertDel k \<Rightarrow> del st k) = Some (s, st1) \<and>
      R st1 (if EFI_ERROR s then m else case p of CertIns k d \<Rightarrow> m(k \<mapsto> val d) | CertDel k \<Rightarrow> m(k := None))"
    using ins_law [OF Cons.prems(1)] del_law [OF Cons.prems(1)] Cons.prems(2) by (cases p) fastforce+
  then obtain s st1 where st1: "(case p of CertIns k d \<Rightarrow> ins st k d | CertDel k \<Rightarrow> del st k) = Some (s, st1)"
    "R st1 (if EFI_ERROR s then m else case p of CertIns k d \<Rightarrow> m(k \<mapsto> val d) | CertDel k \<Rightarrow> m(k := None))"
    by blast
  obtain ss st2 where st2: "op_run ins del st1 ps = Some (ss, st2)"
    "R st2 (op_spec val (if EFI_ERROR s then m
       else case p of CertIns k d \<Rightarrow> m(k \<mapsto> val d) | CertDel k \<Rightarrow> m(k := None)) ps ss)"
    using Cons.IH [OF st1(2)] Cons.prems(2) by auto
  show ?case
    by (rule exI [of _ "s # ss"], rule exI [of _ st2]) (use st1(1) st2 in simp)
qed simp

lemma get_after_ops:
  assumes "R st m" "\<And>k d. CertIns k d \<in> set ps \<Longrightarrow> ok k d"
  shows "\<exists>ss st'. op_run ins del st ps = Some (ss, st') \<and>
    (\<forall>k. get st' k = Some (case op_spec val m ps ss k of None \<Rightarrow> Inl EFI_NOT_FOUND | Some c \<Rightarrow> Inr c))"
  using op_run_refines [OF assms] get_law by blast

end

section \<open>The database of the variable driver\<close>

text \<open>
  What the code relies on of the variable driver: a successful update without
  \<open>EFI_VARIABLE_APPEND_WRITE\<close> and with data is what the next search finds, other variables keep their
  contents, and a failed update changes nothing.
\<close>

definition driver_law :: "'st driver \<Rightarrow> bool" where
  "driver_law drv \<longleftrightarrow>
     (\<forall>st n g d a t s st'.
        UpdateVariable drv st n g d a t = (s, st') \<and> \<not> has_attr a EFI_VARIABLE_APPEND_WRITE \<and> d \<noteq> [] \<longrightarrow>
        (if EFI_ERROR s then FindVariable drv st' = FindVariable drv st
         else (\<exists>i. FindVariable drv st' n g = (EFI_SUCCESS, i) \<and> InfoData i = Some d) \<and>
              (\<forall>n' g'. (n', g') \<noteq> (n, g) \<longrightarrow> FindVariable drv st' n' g' = FindVariable drv st n' g')))"

lemma driver_lawD:
  assumes "driver_law drv" "UpdateVariable drv st n g d a t = (s, st')"
    "\<not> has_attr a EFI_VARIABLE_APPEND_WRITE" "d \<noteq> []"
  shows "if EFI_ERROR s then FindVariable drv st' = FindVariable drv st
    else (\<exists>i. FindVariable drv st' n g = (EFI_SUCCESS, i) \<and> InfoData i = Some d) \<and>
         (\<forall>n' g'. (n', g') \<noteq> (n, g) \<longrightarrow> FindVariable drv st' n' g' = FindVariable drv st n' g')"
  using assms unfolding driver_law_def by blast

definition cert_rel ::
  "'st driver \<Rightarrow> bytes \<Rightarrow> u32 \<Rightarrow> u32 \<Rightarrow> 'st \<Rightarrow> (cert_key \<rightharpoonup> bytes) \<Rightarrow> bool" where
  "cert_rel drv CertDbGuid mMaxCertDbSize Attributes st m \<longleftrightarrow>
     driver_law drv \<and> unat mMaxCertDbSize < 2 ^ 31 \<and>
     (\<exists>es i. FindVariable drv st (DbName Attributes) CertDbGuid = (EFI_SUCCESS, i) \<and>
             InfoData i = Some (enc_db es) \<and> wf_db es \<and> db_len es \<le> unat mMaxCertDbSize \<and> m = map_of es)"

text \<open>The arguments of \<open>InsertCertsToDb\<close>: a GUID, a name shorter than \<open>2 ^ 29\<close> characters, and a digest
  of the algorithm's size.\<close>

definition cert_ok :: "cert_key \<Rightarrow> nat \<times> bytes \<Rightarrow> bool" where
  "cert_ok k d \<longleftrightarrow> length (snd k) = 16 \<and> length (fst k) < 2 ^ 29 \<and>
     fst d < length HashSizes \<and> length (snd d) = HashSizes ! fst d"

lemma wf_db_remove: "wf_db (as @ e # bs) \<Longrightarrow> wf_db (as @ bs) \<and> db_len (as @ bs) \<le> db_len (as @ e # bs)"
  using db_len_append [of as "e # bs"] db_len_append [of as bs] by (auto simp: wf_db_def)

lemma wf_db_find:
  assumes "wf_db es" "map_of es k = Some c"
  obtains as bs where "es = as @ (k, c) # bs" "map_of (as @ bs) = (map_of es)(k := None)"
proof -
  have "(k, c) \<in> set es" using assms(2) by (rule map_of_SomeD)
  then obtain as bs where es: "es = as @ (k, c) # bs" by (meson split_list)
  have "k \<notin> fst ` set as" "k \<notin> fst ` set bs" using assms(1) es by (auto simp: wf_db_def)
  then have "map_of (as @ bs) = (map_of es)(k := None)"
    using es by (auto simp: fun_eq_iff map_add_def map_of_eq_None_iff [symmetric] split: option.splits)
  with es that show ?thesis by blast
qed

lemma enc_db_nonempty [simp]: "enc_db es \<noteq> []" "0 < length (enc_db es)"
  by (simp_all add: enc_db_def enc32_def)

lemma DbAttr_no_append [simp]: "\<not> has_attr (DbAttr Attributes) EFI_VARIABLE_APPEND_WRITE"
  by (simp add: DbAttr_def has_attr_def attrs_def attribute_defs)

text \<open>Storing a new database through the driver.\<close>

lemma cert_rel_update:
  assumes R: "cert_rel drv G mMax A st m" and wf: "wf_db es" "db_len es \<le> unat mMax"
    and up: "AuthServiceInternalUpdateVariable drv st (DbName A) G (enc_db es) (DbAttr A) = (s, st')"
  shows "cert_rel drv G mMax A st' (if EFI_ERROR s then m else map_of es)"
proof -
  have law: "driver_law drv" using R by (simp add: cert_rel_def)
  have "if EFI_ERROR s then FindVariable drv st' = FindVariable drv st
     else \<exists>i. FindVariable drv st' (DbName A) G = (EFI_SUCCESS, i) \<and> InfoData i = Some (enc_db es)"
    using law up by (fastforce simp: driver_law_def AuthServiceInternalUpdateVariable_def split: if_splits)
  then show ?thesis
    using R wf unfolding cert_rel_def by (cases "EFI_ERROR s") auto
qed

lemma GetCertsFromDb_law:
  assumes "cert_rel drv G mMax A st m"
  shows "GetCertsFromDb drv G st n g A =
    Some (case m (n, g) of None \<Rightarrow> Inl EFI_NOT_FOUND | Some c \<Rightarrow> Inr c)"
proof -
  from assms obtain es i where f: "FindVariable drv st (DbName A) G = (EFI_SUCCESS, i)"
    "InfoData i = Some (enc_db es)" and wf: "wf_db es" and m: "m = map_of es"
    by (auto simp: cert_rel_def)
  show ?thesis
  proof (cases "m (n, g)")
    case None
    then have "(n, g) \<notin> fst ` set es" by (simp add: m map_of_eq_None_iff)
    from FindCertsFromDb_missing [OF wf this] f None show ?thesis
      by (simp add: GetCertsFromDb_def AuthServiceInternalFindVariable_def)
  next
    case (Some c)
    then obtain as bs where es: "es = as @ ((n, g), c) # bs" using wf m wf_db_find by metis
    have "rd (enc_db es) (db_len as + 28 + 2 * length n) (length c) = Some c"
      using rd_node(6) [OF CertDb_split(4) [OF wf es] CertDb_split(2) [OF wf es, symmetric]]
      unfolding CertDb_split(1) [OF wf es] by simp
    with FindCertsFromDb_found [OF wf es] f Some hit_bounds [OF wf es] show ?thesis
      by (simp add: GetCertsFromDb_def AuthServiceInternalFindVariable_def hit_at_def)
  qed
qed

text \<open>Deleting an entry that is there stores the encoding of the others.\<close>

lemma DeleteCertsFromDb_found:
  assumes f: "FindVariable drv st (DbName A) G = (EFI_SUCCESS, i)" "InfoData i = Some (enc_db es)"
    and wf: "wf_db es" and es: "es = as @ ((n, g), c) # bs"
  shows "DeleteCertsFromDb drv G st n g A =
    Some (AuthServiceInternalUpdateVariable drv st (DbName A) G (enc_db (as @ bs)) (DbAttr A))"
proof -
  note b = hit_bounds [OF wf es] and len = length_enc_db [OF wf]
  have "db_len es \<noteq> 4" using b(6) db_len_ge [of as] by (simp add: node_len_def)
  then show ?thesis
    using f FindCertsFromDb_found [OF wf es] CertDb_remove_enc [OF wf es] b len
    by (simp add: DeleteCertsFromDb_def AuthServiceInternalFindVariable_def hit_at_def)
qed

lemma DeleteCertsFromDb_law:
  assumes R: "cert_rel drv G mMax A st m"
  shows "\<exists>s st'. DeleteCertsFromDb drv G st n g A = Some (s, st') \<and>
    cert_rel drv G mMax A st' (if EFI_ERROR s then m else m((n, g) := None))"
proof -
  from R obtain es i where f: "FindVariable drv st (DbName A) G = (EFI_SUCCESS, i)"
    "InfoData i = Some (enc_db es)" and wf: "wf_db es" "db_len es \<le> unat mMax" and m: "m = map_of es"
    by (auto simp: cert_rel_def)
  show ?thesis
  proof (cases "m (n, g)")
    case None
    then have "(n, g) \<notin> fst ` set es" and "m((n, g) := None) = m"
      by (simp_all add: m map_of_eq_None_iff fun_upd_idem)
    with FindCertsFromDb_missing [OF wf(1)] f R show ?thesis
      by (cases "length (enc_db es) = 4")
        (simp_all add: DeleteCertsFromDb_def AuthServiceInternalFindVariable_def)
  next
    case (Some c)
    then obtain as bs where es: "es = as @ ((n, g), c) # bs"
      and m': "map_of (as @ bs) = (map_of es)((n, g) := None)" using wf m wf_db_find by metis
    obtain s st' where up: "AuthServiceInternalUpdateVariable drv st (DbName A) G
        (enc_db (as @ bs)) (DbAttr A) = (s, st')"
      by (cases "AuthServiceInternalUpdateVariable drv st (DbName A) G (enc_db (as @ bs)) (DbAttr A)")
    then have "DeleteCertsFromDb drv G st n g A = Some (s, st')"
      using DeleteCertsFromDb_found [OF f wf(1) es] by simp
    moreover have "wf_db (as @ bs)" "db_len (as @ bs) \<le> unat mMax"
      using wf_db_remove wf es by fastforce+
    from cert_rel_update [OF R this up] have "cert_rel drv G mMax A st' (if EFI_ERROR s then m else m((n, g) := None))"
      by (simp only: m' m)
    ultimately show ?thesis by blast
  qed
qed

lemma InsertCertsToDb_law:
  assumes R: "cert_rel drv G mMax A st m" and ok: "cert_ok (n, g) (alg, c)"
  shows "\<exists>s st'. InsertCertsToDb drv G mMax st alg n g A (Inr c) = Some (s, st') \<and>
    cert_rel drv G mMax A st' (if EFI_ERROR s then m else m((n, g) \<mapsto> c)) \<and>
    (m (n, g) \<noteq> None \<longrightarrow> s = EFI_ACCESS_DENIED)"
proof -
  from R obtain es i where f: "FindVariable drv st (DbName A) G = (EFI_SUCCESS, i)"
    "InfoData i = Some (enc_db es)" and wf: "wf_db es" "db_len es \<le> unat mMax" and m: "m = map_of es"
    and mMax: "unat mMax < 2 ^ 31"
    by (auto simp: cert_rel_def)
  from ok have alg: "alg < length HashSizes" "length c = HashSizes ! alg" "length g = 16" "length n < 2 ^ 29"
    by (auto simp: cert_ok_def)
  have c: "length c \<le> 64"
    using alg(1) unfolding alg(2) HashSizes_def by (auto simp: less_Suc_eq numeral_3_eq_3)
  show ?thesis
  proof (cases "m (n, g)")
    case (Some c')
    then obtain as bs where es: "es = as @ ((n, g), c') # bs" using wf m wf_db_find by metis
    from FindCertsFromDb_found [OF wf(1) es] f R Some alg show ?thesis
      by (simp add: InsertCertsToDb_def AuthServiceInternalFindVariable_def)
  next
    case None
    then have ni: "(n, g) \<notin> fst ` set es" by (simp add: m map_of_eq_None_iff)
    let ?e = "((n, g), c)"
    let ?size = "word_of_nat (db_len es) + (word_of_nat SIZEOF_CERT_DB_DATA + word_of_nat (length c) +
        word_of_nat (length n) * 2) :: u32"
    have dl: "db_len (es @ [?e]) = db_len es + node_len ?e" using db_len_append [of es "[?e]"] by simp
    have size: "?size = word_of_nat (db_len (es @ [?e]))"
      by (simp add: dl node_len_def SIZEOF_CERT_DB_DATA_def)
    have lt: "db_len (es @ [?e]) < 2 ^ 32"
      using dl wf mMax c alg by (simp add: node_len_def)
    have un: "unat ?size = db_len (es @ [?e])" unfolding size by (rule u32_len [OF lt])
    obtain s st' where up: "AuthServiceInternalUpdateVariable drv st (DbName A) G
        (enc_db (es @ [?e])) (DbAttr A) = (s, st')"
      by (cases "AuthServiceInternalUpdateVariable drv st (DbName A) G (enc_db (es @ [?e])) (DbAttr A)")
    have eq: "InsertCertsToDb drv G mMax st alg n g A (Inr c) =
        (if ?size > mMax then Some (EFI_OUT_OF_RESOURCES, st) else Some (s, st'))"
      using f FindCertsFromDb_missing [OF wf(1) ni] alg(1) CertDb_append_enc [OF wf(1), of n g c] up
        length_enc_db [OF wf(1)] db_len_ge [of es]
      by (simp add: InsertCertsToDb_def AuthServiceInternalFindVariable_def alg(2) [symmetric] Let_def)
    show ?thesis
    proof (cases "?size > mMax")
      case True
      with eq R None show ?thesis by simp
    next
      case False
      then have "db_len (es @ [?e]) \<le> unat mMax" using un by (simp add: word_less_nat_alt)
      moreover have "wf_db (es @ [?e])" using wf ni alg lt by (auto simp: wf_db_def)
      ultimately have "cert_rel drv G mMax A st' (if EFI_ERROR s then m else map_of (es @ [?e]))"
        using cert_rel_update [OF R _ _ up] by blast
      moreover have "map_of (es @ [?e]) = m((n, g) \<mapsto> c)"
        using None unfolding m by (auto simp: fun_eq_iff map_add_def split: option.splits)
      ultimately have "cert_rel drv G mMax A st' (if EFI_ERROR s then m else m((n, g) \<mapsto> c))"
        by (simp only:)
      then show ?thesis using eq False None by simp
    qed
  qed
qed

interpretation certdb: cert_store
  "cert_rel drv G mMax A"
  "\<lambda>st k. GetCertsFromDb drv G st (fst k) (snd k) A"
  "\<lambda>st k d. InsertCertsToDb drv G mMax st (fst d) (fst k) (snd k) A (Inr (snd d))"
  "\<lambda>st k. DeleteCertsFromDb drv G st (fst k) (snd k) A"
  snd cert_ok
  for drv G mMax A
proof unfold_locales
  show "GetCertsFromDb drv G st (fst k) (snd k) A =
      Some (case m k of None \<Rightarrow> Inl EFI_NOT_FOUND | Some c \<Rightarrow> Inr c)"
    if "cert_rel drv G mMax A st m" for drv :: "'a driver" and G mMax A st m k
    using GetCertsFromDb_law [OF that, of "fst k" "snd k"] by simp
  show "\<exists>s st'. InsertCertsToDb drv G mMax st (fst d) (fst k) (snd k) A (Inr (snd d)) = Some (s, st') \<and>
      cert_rel drv G mMax A st' (if EFI_ERROR s then m else m(k \<mapsto> snd d)) \<and>
      (m k \<noteq> None \<longrightarrow> s = EFI_ACCESS_DENIED)"
    if "cert_rel drv G mMax A st m" "cert_ok k d" for drv :: "'a driver" and G mMax A st m k d
    using InsertCertsToDb_law [OF that(1), of "fst k" "snd k" "fst d" "snd d"] that(2)
    unfolding prod.collapse by blast
  show "\<exists>s st'. DeleteCertsFromDb drv G st (fst k) (snd k) A = Some (s, st') \<and>
      cert_rel drv G mMax A st' (if EFI_ERROR s then m else m(k := None))"
    if "cert_rel drv G mMax A st m" for drv :: "'a driver" and G mMax A st m k
    using DeleteCertsFromDb_law [OF that, of "fst k" "snd k"] unfolding prod.collapse by blast
qed

section \<open>Cleaning the database\<close>

lemma drop_name_bytes: "drop (2 * i) (name_bytes n) = name_bytes (drop i n)"
proof (induction i arbitrary: n)
  case (Suc i)
  then show ?case by (cases n) (simp_all add: name_bytes_def enc16_def)
qed simp

lemma dec_name_bytes [simp]: "dec_name (name_bytes n) = n"
proof (rule nth_equalityI)
  fix i assume "i < length (dec_name (name_bytes n))"
  then have i: "i < length n" by (simp add: dec_name_def)
  have "drop (2 * i) (name_bytes n) = enc16 (n ! i) @ name_bytes (drop (Suc i) n)"
    unfolding drop_name_bytes Cons_nth_drop_Suc [OF i, symmetric] by (simp add: name_bytes_def)
  moreover have "dec16 (enc16 w @ xs) = dec16 (enc16 w)" for w xs by (simp add: dec16_def enc16_def)
  ultimately show "dec_name (name_bytes n) ! i = n ! i" using i by (simp add: dec_name_def)
qed (simp add: dec_name_def)

lemma till_nul_id: "0 \<notin> set n \<Longrightarrow> till_nul n = n"
  by (auto simp: till_nul_def takeWhile_eq_all_conv)

text \<open>The variable of an entry exists and is a time-based authenticated one.\<close>

definition cert_live :: "'st driver \<Rightarrow> 'st \<Rightarrow> cert_entry \<Rightarrow> bool" where
  "cert_live drv st e =
     (let (s, i) = FindVariable drv st (fst (fst e)) (snd (fst e))
      in \<not> EFI_ERROR s \<and> has_attr (InfoAttributes i) EFI_VARIABLE_TIME_BASED_AUTHENTICATED_WRITE_ACCESS)"

lemma CleanCerts_step:
  assumes g: "length (snd (fst e)) = 16" and nul: "0 \<notin> set (fst (fst e))" and off: "off = length pre"
    and len: "length (pre @ enc_node e @ post) < 2 ^ 32"
  shows "if cert_live drv st e
    then CleanCerts_scan drv st (pre @ enc_node e @ post) (word_of_nat off) s =
      CleanCerts_scan drv st (pre @ enc_node e @ post) (word_of_nat (off + node_len e)) EFI_SUCCESS
    else \<exists>s' a. CleanCerts_scan drv st (pre @ enc_node e @ post) (word_of_nat off) s =
      Some (s', Some (fst (fst e), snd (fst e), Bit_Operations.or a EFI_VARIABLE_NON_VOLATILE))"
proof -
  let ?D = "pre @ enc_node e @ post"
  note r = rd_node [OF g off, of post]
  have nl: "off + node_len e \<le> length ?D" using off length_enc_node [OF g] by simp
  have w: "unat (word_of_nat off :: u32) = off"
    "unat (word_of_nat (length (fst (fst e))) :: u32) = length (fst (fst e))"
    "unat (word_of_nat (length ?D) :: u32) = length ?D"
    using nl len by (intro u32_len; simp add: node_len_def)+
  have "off < length ?D" using nl by (simp add: node_len_def)
  then have lt: "(word_of_nat off :: u32) < word_of_nat (length ?D)"
    by (simp only: word_less_nat_alt w)
  have sum: "(word_of_nat off :: u32) + word_of_nat (node_len e) = word_of_nat (off + node_len e)"
    by simp
  obtain s1 i where f: "FindVariable drv st (fst (fst e)) (snd (fst e)) = (s1, i)" by force
  have "CleanCerts_scan drv st ?D (word_of_nat off) s =
      (if cert_live drv st e then CleanCerts_scan drv st ?D (word_of_nat (off + node_len e)) s1
       else Some (s1, Some (fst (fst e), snd (fst e),
              Bit_Operations.or (InfoAttributes i) EFI_VARIABLE_NON_VOLATILE)))"
    using lt r w sum f till_nul_id [OF nul]
    by (subst CleanCerts_scan.simps)
      (auto simp: cert_live_def SIZEOF_CERT_DB_DATA_def simp del: of_nat_add)
  then show ?thesis using f by (auto simp: cert_live_def EFI_ERROR_def)
qed

lemma CleanCerts_live:
  assumes "\<forall>e \<in> set es. length (snd (fst e)) = 16 \<and> 0 \<notin> set (fst (fst e)) \<and> cert_live drv st e"
    "length (pre @ enc_nodes es @ post) < 2 ^ 32"
  shows "CleanCerts_scan drv st (pre @ enc_nodes es @ post) (word_of_nat (length pre)) EFI_SUCCESS =
    CleanCerts_scan drv st (pre @ enc_nodes es @ post) (word_of_nat (length (pre @ enc_nodes es))) EFI_SUCCESS"
  using assms
proof (induction es arbitrary: pre)
  case (Cons e es)
  have "CleanCerts_scan drv st (pre @ enc_node e @ enc_nodes es @ post) (word_of_nat (length pre)) EFI_SUCCESS =
    CleanCerts_scan drv st (pre @ enc_node e @ enc_nodes es @ post)
      (word_of_nat (length (pre @ enc_node e))) EFI_SUCCESS"
    using Cons.prems CleanCerts_step [of e "length pre" pre "enc_nodes es @ post" drv st EFI_SUCCESS]
    by (auto simp: length_enc_node)
  also have "\<dots> = CleanCerts_scan drv st ((pre @ enc_node e) @ enc_nodes es @ post)
      (word_of_nat (length ((pre @ enc_node e) @ enc_nodes es))) EFI_SUCCESS"
    using Cons.IH [of "pre @ enc_node e"] Cons.prems by simp
  finally show ?case by simp
qed simp

text \<open>The entries a driver can look up by name: GUIDs of 16 bytes, names without NUL, and none of them
  the database itself.\<close>

definition clean_db :: "bytes \<Rightarrow> cert_entry list \<Rightarrow> bool" where
  "clean_db G es \<longleftrightarrow> wf_db es \<and> (\<forall>e \<in> set es. 0 \<notin> set (fst (fst e)) \<and> fst e \<noteq> (wide ''certdb'', G))"

lemma clean_dbD:
  assumes "clean_db G es"
  shows "wf_db es" "\<forall>e \<in> set es. length (snd (fst e)) = 16 \<and> 0 \<notin> set (fst (fst e))"
    "length (enc32 (word_of_nat (db_len es)) @ enc_nodes es) < 2 ^ 32"
  using assms length_enc_db [of es] by (auto simp: clean_db_def wf_db_def enc_db_def)

lemma CleanCerts_scan_all:
  assumes "clean_db G es" "\<forall>e \<in> set es. cert_live drv st e"
  shows "CleanCerts_scan drv st (enc_db es) 4 EFI_SUCCESS = Some (EFI_SUCCESS, None)"
proof -
  let ?pre = "enc32 (word_of_nat (db_len es))"
  have "CleanCerts_scan drv st (?pre @ enc_nodes es @ []) (word_of_nat (length ?pre)) EFI_SUCCESS =
    CleanCerts_scan drv st (?pre @ enc_nodes es @ []) (word_of_nat (length (?pre @ enc_nodes es))) EFI_SUCCESS"
    by (rule CleanCerts_live) (use clean_dbD [OF assms(1)] assms(2) in auto)
  moreover have "CleanCerts_scan drv st Data (word_of_nat (length Data)) EFI_SUCCESS = Some (EFI_SUCCESS, None)" for Data
    by (subst CleanCerts_scan.simps) simp
  ultimately show ?thesis by (simp add: enc_db_def del: length_append)
qed

lemma CleanCerts_scan_dead:
  assumes c: "clean_db G es" and es: "es = as @ e # bs"
    and live: "\<forall>e \<in> set as. cert_live drv st e" "\<not> cert_live drv st e"
  shows "\<exists>s a. CleanCerts_scan drv st (enc_db es) 4 EFI_SUCCESS =
    Some (s, Some (fst (fst e), snd (fst e), Bit_Operations.or a EFI_VARIABLE_NON_VOLATILE))"
proof -
  let ?pre = "enc32 (word_of_nat (db_len es))"
  note d = clean_dbD [OF c]
  have db: "enc_db es = ?pre @ enc_nodes as @ enc_node e @ enc_nodes bs"
    using es by (simp add: enc_db_def)
  have len: "length (?pre @ enc_nodes as @ enc_node e @ enc_nodes bs) < 2 ^ 32" using d(3) es by simp
  have "CleanCerts_scan drv st (enc_db es) (word_of_nat (length ?pre)) EFI_SUCCESS =
      CleanCerts_scan drv st (enc_db es) (word_of_nat (length (?pre @ enc_nodes as))) EFI_SUCCESS"
    unfolding db by (rule CleanCerts_live) (use d es live len in auto)
  moreover have "\<exists>s a. CleanCerts_scan drv st ((?pre @ enc_nodes as) @ enc_node e @ enc_nodes bs)
      (word_of_nat (length (?pre @ enc_nodes as))) EFI_SUCCESS =
    Some (s, Some (fst (fst e), snd (fst e), Bit_Operations.or a EFI_VARIABLE_NON_VOLATILE))"
    using CleanCerts_step [of e "length (?pre @ enc_nodes as)" "?pre @ enc_nodes as" "enc_nodes bs" drv st EFI_SUCCESS]
      d(2) es live(2) len by (simp del: length_append of_nat_add)
  ultimately show ?thesis unfolding db append_assoc by simp
qed

lemma nv_attr [simp]: "has_attr (Bit_Operations.or a EFI_VARIABLE_NON_VOLATILE) EFI_VARIABLE_NON_VOLATILE"
  by (simp add: has_attr_def attribute_defs and_one_eq mod_2_eq_odd even_or_iff)

text \<open>The scan always asks for the non-volatile database.\<close>

lemma CleanCerts_scan_attr:
  assumes "CleanCerts_scan drv st Data off s = Some (s', Some (n, g, a))"
  shows "has_attr a EFI_VARIABLE_NON_VOLATILE"
proof -
  have "\<forall>s' n g a. r = (s', Some (n, g, a)) \<longrightarrow> has_attr a EFI_VARIABLE_NON_VOLATILE"
    if "CleanCerts_scan drv st Data off s = Some r" for r
    by (rule CleanCerts_scan.raw_induct [OF _ that]) (auto simp: option_inversion split: if_splits)
  with assms show ?thesis by blast
qed

text \<open>Every update of the database succeeds.\<close>

definition certdb_writable :: "'st driver \<Rightarrow> bytes \<Rightarrow> bool" where
  "certdb_writable drv G \<longleftrightarrow>
     (\<forall>st d. fst (UpdateVariable drv st (wide ''certdb'') G d (DbAttr EFI_VARIABLE_NON_VOLATILE) None) = EFI_SUCCESS)"

lemma certdb_update:
  assumes "driver_law drv" "certdb_writable drv G" "has_attr A EFI_VARIABLE_NON_VOLATILE"
  obtains st' i where
    "AuthServiceInternalUpdateVariable drv st (DbName A) G (enc_db es) (DbAttr A) = (EFI_SUCCESS, st')"
    "FindVariable drv st' (wide ''certdb'') G = (EFI_SUCCESS, i)" "InfoData i = Some (enc_db es)"
    "\<And>n g. (n, g) \<noteq> (wide ''certdb'', G) \<Longrightarrow> FindVariable drv st' n g = FindVariable drv st n g"
proof -
  have A: "DbName A = wide ''certdb''" "DbAttr A = DbAttr EFI_VARIABLE_NON_VOLATILE"
    using assms(3) by (simp_all add: DbName_def DbAttr_def) (simp add: has_attr_def attribute_defs)
  let ?u = "UpdateVariable drv st (wide ''certdb'') G (enc_db es) (DbAttr EFI_VARIABLE_NON_VOLATILE) None"
  have up: "?u = (EFI_SUCCESS, snd ?u)" using assms(2) by (simp add: certdb_writable_def prod_eq_iff)
  have "(\<exists>i. FindVariable drv (snd ?u) (wide ''certdb'') G = (EFI_SUCCESS, i) \<and> InfoData i = Some (enc_db es)) \<and>
      (\<forall>n g. (n, g) \<noteq> (wide ''certdb'', G) \<longrightarrow> FindVariable drv (snd ?u) n g = FindVariable drv st n g)"
    using driver_lawD [OF assms(1) up] by simp
  with up that [of "snd ?u"] show ?thesis by (auto simp: A AuthServiceInternalUpdateVariable_def)
qed

lemma clean_db_remove: "clean_db G (as @ e # bs) \<Longrightarrow> clean_db G (as @ bs)"
  using wf_db_remove [of as e bs] by (auto simp: clean_db_def)

lemma cert_live_frame:
  assumes "\<And>n g. (n, g) \<noteq> (wide ''certdb'', G) \<Longrightarrow> FindVariable drv st' n g = FindVariable drv st n g"
    "clean_db G es"
  shows "filter (cert_live drv st') es = filter (cert_live drv st) es"
  using assms by (intro filter_cong) (force simp: clean_db_def cert_live_def)+

text \<open>
  C16: \<open>CleanCertsFromDb\<close> ends and leaves in the database exactly the entries whose variable exists and
  is a time-based authenticated one, in their order; no other variable changes. It holds for a driver
  that keeps its contract and accepts the updates of the database.
\<close>

theorem CleanCertsFromDb_exact:
  assumes law: "driver_law drv" and wr: "certdb_writable drv G"
    and f: "FindVariable drv st (wide ''certdb'') G = (EFI_SUCCESS, i)" "InfoData i = Some (enc_db es)"
    and c: "clean_db G es"
  shows "\<exists>st' i'. CleanCertsFromDb drv G st = Some (EFI_SUCCESS, st') \<and>
    FindVariable drv st' (wide ''certdb'') G = (EFI_SUCCESS, i') \<and>
    InfoData i' = Some (enc_db (filter (cert_live drv st) es)) \<and>
    (\<forall>n g. (n, g) \<noteq> (wide ''certdb'', G) \<longrightarrow> FindVariable drv st' n g = FindVariable drv st n g)"
  using f c
proof (induction "length es" arbitrary: es st i rule: less_induct)
  case less
  show ?case
  proof (cases "\<forall>e \<in> set es. cert_live drv st e")
    case True
    then have "filter (cert_live drv st) es = es" by (simp add: filter_id_conv)
    moreover have "CleanCertsFromDb drv G st = Some (EFI_SUCCESS, st)"
      using less.prems CleanCerts_scan_all [OF less.prems(3) True]
      by (subst CleanCertsFromDb.simps) (simp add: AuthServiceInternalFindVariable_def)
    ultimately show ?thesis using less.prems by auto
  next
    case False
    then obtain as e bs where es: "es = as @ e # bs" and live: "\<not> cert_live drv st e"
      "\<forall>e \<in> set as. cert_live drv st e"
      using split_list_first_prop [of es "\<lambda>e. \<not> cert_live drv st e"] by auto
    from CleanCerts_scan_dead [OF less.prems(3) es live(2,1)] obtain s a where
      scan: "CleanCerts_scan drv st (enc_db es) 4 EFI_SUCCESS =
        Some (s, Some (fst (fst e), snd (fst e), Bit_Operations.or a EFI_VARIABLE_NON_VOLATILE))" by blast
    let ?A = "Bit_Operations.or a EFI_VARIABLE_NON_VOLATILE"
    obtain st1 i1 where up:
      "AuthServiceInternalUpdateVariable drv st (DbName ?A) G (enc_db (as @ bs)) (DbAttr ?A) = (EFI_SUCCESS, st1)"
      and f1: "FindVariable drv st1 (wide ''certdb'') G = (EFI_SUCCESS, i1)" "InfoData i1 = Some (enc_db (as @ bs))"
      and fr: "\<And>n g. (n, g) \<noteq> (wide ''certdb'', G) \<Longrightarrow> FindVariable drv st1 n g = FindVariable drv st n g"
      using certdb_update [OF law wr nv_attr] by metis
    have "DbName ?A = wide ''certdb''" by (simp add: DbName_def)
    then have "DeleteCertsFromDb drv G st (fst (fst e)) (snd (fst e)) ?A = Some (EFI_SUCCESS, st1)"
      using DeleteCertsFromDb_found [of drv st ?A G i es as "fst (fst e)" "snd (fst e)" "snd e" bs]
        less.prems es up by (simp add: clean_db_def)
    then have clean: "CleanCertsFromDb drv G st = CleanCertsFromDb drv G st1"
      using less.prems scan
      by (subst CleanCertsFromDb.simps) (simp add: AuthServiceInternalFindVariable_def)
    have c1: "clean_db G (as @ bs)" using clean_db_remove less.prems(3) es by blast
    have "filter (cert_live drv st1) (as @ bs) = filter (cert_live drv st) es"
      using cert_live_frame [OF fr c1] live es by simp
    with less.hyps [OF _ f1 c1] es fr show ?thesis unfolding clean by auto
  qed
qed

text \<open>
  C23: \<open>CleanCertsFromDb\<close> does not check the status of \<open>DeleteCertsFromDb\<close>: when the database holds an
  entry without its variable and the driver refuses the update (the store is left as it was), the
  function never returns.
\<close>

theorem CleanCertsFromDb_diverges:
  assumes f: "FindVariable drv st (wide ''certdb'') G = (EFI_SUCCESS, i)" "InfoData i = Some (enc_db es)"
    and c: "clean_db G es" and dead: "\<exists>e \<in> set es. \<not> cert_live drv st e"
    and refused: "\<And>d a. \<exists>s. EFI_ERROR s \<and> UpdateVariable drv st (wide ''certdb'') G d a None = (s, st)"
  shows "CleanCertsFromDb drv G st = None"
proof -
  obtain as e bs where es: "es = as @ e # bs" and live: "\<not> cert_live drv st e"
    "\<forall>e \<in> set as. cert_live drv st e"
    using dead split_list_first_prop [of es "\<lambda>e. \<not> cert_live drv st e"] by auto
  from CleanCerts_scan_dead [OF c es live(2,1)] obtain s a where
    scan: "CleanCerts_scan drv st (enc_db es) 4 EFI_SUCCESS =
      Some (s, Some (fst (fst e), snd (fst e), Bit_Operations.or a EFI_VARIABLE_NON_VOLATILE))" by blast
  let ?A = "Bit_Operations.or a EFI_VARIABLE_NON_VOLATILE"
  have "DbName ?A = wide ''certdb''" by (simp add: DbName_def)
  then have "DeleteCertsFromDb drv G st (fst (fst e)) (snd (fst e)) ?A =
      Some (UpdateVariable drv st (wide ''certdb'') G (enc_db (as @ bs)) (DbAttr ?A) None)"
    using DeleteCertsFromDb_found [of drv st ?A G i es as "fst (fst e)" "snd (fst e)" "snd e" bs] f c es
    by (simp add: clean_db_def AuthServiceInternalUpdateVariable_def)
  with refused obtain s' where
    del: "DeleteCertsFromDb drv G st (fst (fst e)) (snd (fst e)) ?A = Some (s', st)" by metis
  have "\<not> (drv' = drv \<and> G' = G \<and> st' = st)" if "CleanCertsFromDb drv' G' st' = Some r" for drv' G' st' r
    by (rule CleanCertsFromDb.raw_induct [OF _ that])
      (use f scan del in \<open>fastforce simp: AuthServiceInternalFindVariable_def\<close>)
  then show ?thesis by (metis not_None_eq)
qed

text \<open>Cleaning changes no other variable, whatever the database holds.\<close>

lemma DeleteCertsFromDb_frame:
  assumes "driver_law drv" "DeleteCertsFromDb drv G st n g A = Some (s, st')" "(n', g') \<noteq> (DbName A, G)"
  shows "FindVariable drv st' n' g' = FindVariable drv st n' g'"
proof -
  from assms(2) consider "st' = st" | Data h where
    "UpdateVariable drv st (DbName A) G (CertDb_remove Data h) (DbAttr A) None = (s, st')"
    by (auto simp: DeleteCertsFromDb_def AuthServiceInternalUpdateVariable_def option_inversion split: option.splits)
  then show ?thesis
  proof cases
    case 2
    have "CertDb_remove Data h \<noteq> []" by (simp add: CertDb_remove_def patch_def enc32_def Let_def)
    from driver_lawD [OF assms(1) 2 DbAttr_no_append this] assms(3) show ?thesis
      by (cases "EFI_ERROR s") auto
  qed simp
qed

lemma CleanCertsFromDb_frame:
  assumes "driver_law drv" "CleanCertsFromDb drv G st = Some r" "(n', g') \<noteq> (wide ''certdb'', G)"
  shows "FindVariable drv (snd r) n' g' = FindVariable drv st n' g'"
proof -
  have "driver_law drv \<longrightarrow> (n', g') \<noteq> (wide ''certdb'', G) \<longrightarrow> FindVariable drv (snd r) n' g' = FindVariable drv st n' g'"
  proof (rule CleanCertsFromDb.raw_induct [OF _ assms(2)], intro impI)
    fix Clean :: "'a driver \<Rightarrow> bytes \<Rightarrow> 'a \<Rightarrow> (efi_status \<times> 'a) option" and drv G st r
    assume IH: "\<And>drv G st r. Clean drv G st = Some r \<Longrightarrow> driver_law drv \<longrightarrow>
        (n', g') \<noteq> (wide ''certdb'', G) \<longrightarrow> FindVariable drv (snd r) n' g' = FindVariable drv st n' g'"
      and body: "(let (Status, Data) = AuthServiceInternalFindVariable drv st (wide ''certdb'') G
        in if EFI_ERROR Status then Some (Status, st)
           else case Data of None \<Rightarrow> Some (EFI_NOT_FOUND, st)
             | Some Data \<Rightarrow> if length Data = 0 then Some (EFI_NOT_FOUND, st)
                 else do { r \<leftarrow> CleanCerts_scan drv st Data 4 Status;
                           case r of (Status, None) \<Rightarrow> Some (Status, st)
                           | (_, Some (VariableName, g, a)) \<Rightarrow>
                               do { d \<leftarrow> DeleteCertsFromDb drv G st VariableName g a; Clean drv G (snd d) } }) = Some r"
      and law: "driver_law drv" and ne: "(n', g') \<noteq> (wide ''certdb'', G)"
    from body consider "snd r = st" | n g a s st1 Data St s0 where "Clean drv G st1 = Some r"
      "DeleteCertsFromDb drv G st n g a = Some (s, st1)" "CleanCerts_scan drv st Data 4 St = Some (s0, Some (n, g, a))"
      by (auto simp: option_inversion split: option.splits)
    then show "FindVariable drv (snd r) n' g' = FindVariable drv st n' g'"
    proof cases
      case 2
      have "has_attr a EFI_VARIABLE_NON_VOLATILE" using CleanCerts_scan_attr [OF 2(3)] .
      then have "DbName a = wide ''certdb''" by (simp add: DbName_def)
      with DeleteCertsFromDb_frame [OF law 2(2), of n' g'] IH [OF 2(1)] law ne show ?thesis by auto
    qed simp
  qed
  with assms show ?thesis by blast
qed

section \<open>A concrete driver\<close>

text \<open>A store that keeps the variables in a map, for the instances below.\<close>

type_synonym var_store = "name16 \<times> bytes \<rightharpoonup> bytes \<times> u32 \<times> efi_time option"

definition map_driver :: "var_store driver" where
  "map_driver =
     \<lparr>FindVariable = (\<lambda>st n g. case st (n, g) of
                       None \<Rightarrow> (EFI_NOT_FOUND, \<lparr>InfoData = None, InfoAttributes = 0, InfoTimeStamp = None\<rparr>)
                     | Some (d, a, t) \<Rightarrow> (EFI_SUCCESS, \<lparr>InfoData = Some d, InfoAttributes = a, InfoTimeStamp = t\<rparr>)),
      UpdateVariable = (\<lambda>st n g d a t.
                       if has_attr a EFI_VARIABLE_APPEND_WRITE
                       then (EFI_SUCCESS, st((n, g) \<mapsto> ((case st (n, g) of None \<Rightarrow> [] | Some (old, _) \<Rightarrow> old) @ d, a, t)))
                       else if d = [] then (EFI_SUCCESS, st((n, g) := None))
                       else (EFI_SUCCESS, st((n, g) \<mapsto> (d, a, t)))),
      WriteFound = (\<lambda>st n g d. st((n, g) := map_option (\<lambda>(_, a, t). (d, a, t)) (st (n, g)))),
      AtRuntime = (\<lambda>_. False),
      GetScratchBuffer = (\<lambda>_ _. EFI_SUCCESS)\<rparr>"

lemma map_driver_law [simp]: "driver_law map_driver"
  by (auto simp: driver_law_def map_driver_def)

lemma map_driver_writable [simp]: "certdb_writable map_driver G"
  unfolding certdb_writable_def by (auto simp: map_driver_def)

text \<open>A driver whose updates all fail.\<close>

definition read_only_driver :: "var_store driver" where
  "read_only_driver = map_driver\<lparr>UpdateVariable := \<lambda>st n g d a t. (EFI_DEVICE_ERROR, st)\<rparr>"

definition sample_db :: "cert_entry list" where
  "sample_db = [((wide ''Kept'', replicate 16 1), [5, 6]), ((wide ''Gone'', replicate 16 1), [7])]"

definition sample_store :: var_store where
  "sample_store =
     [(wide ''certdb'', replicate 16 9) \<mapsto> (enc_db sample_db, 0x27, None),
      (wide ''Kept'', replicate 16 1) \<mapsto> ([1], 0x27, None)]"

lemma sample_db_clean: "clean_db (replicate 16 9) sample_db"
  by (simp add: clean_db_def wf_db_def sample_db_def node_len_def) (simp add: wide_def ord8_def)

lemma sample_db_live:
  "filter (cert_live map_driver sample_store) sample_db = [((wide ''Kept'', replicate 16 1), [5, 6])]"
  by (simp add: sample_db_def cert_live_def map_driver_def sample_store_def)
    (simp add: has_attr_def attribute_defs)

lemma sample_store_find:
  "FindVariable map_driver sample_store (wide ''certdb'') (replicate 16 9) =
     (EFI_SUCCESS, \<lparr>InfoData = Some (enc_db sample_db), InfoAttributes = 0x27, InfoTimeStamp = None\<rparr>)"
  by (simp add: map_driver_def sample_store_def)

theorem CleanCertsFromDb_exact_witness:
  "\<exists>st' i'. CleanCertsFromDb map_driver (replicate 16 9) sample_store = Some (EFI_SUCCESS, st') \<and>
     FindVariable map_driver st' (wide ''certdb'') (replicate 16 9) = (EFI_SUCCESS, i') \<and>
     InfoData i' = Some (enc_db [((wide ''Kept'', replicate 16 1), [5, 6])])"
  using CleanCertsFromDb_exact [OF map_driver_law map_driver_writable sample_store_find _ sample_db_clean]
  by (simp add: sample_db_live) blast

theorem CleanCertsFromDb_diverges_witness:
  "CleanCertsFromDb read_only_driver (replicate 16 9) sample_store = None"
proof -
  have find: "FindVariable read_only_driver = FindVariable map_driver"
    by (simp add: read_only_driver_def)
  then have live: "cert_live read_only_driver = cert_live map_driver"
    by (simp add: fun_eq_iff cert_live_def)
  have "\<exists>e \<in> set sample_db. \<not> cert_live read_only_driver sample_store e"
    unfolding live using sample_db_live by (auto simp: filter_eq_Cons_iff sample_db_def cert_live_def map_driver_def sample_store_def)
  then show ?thesis
    using CleanCertsFromDb_diverges [OF _ _ sample_db_clean, of read_only_driver sample_store] sample_store_find find
    by (simp add: read_only_driver_def)
qed

section \<open>The database refines a map\<close>

text \<open>
  C6: Any sequence of insertions and deletions on the packed database returns, and afterwards
  \<open>GetCertsFromDb\<close> finds for every variable exactly what the map changed by the successful
  operations holds, \<open>EFI_NOT_FOUND\<close> for the others.
\<close>

theorem certdb_refines_map:
  assumes "cert_rel drv G mMax A st m" "\<And>k d. CertIns k d \<in> set ps \<Longrightarrow> cert_ok k d"
  shows "\<exists>ss st'.
    op_run (\<lambda>st k d. InsertCertsToDb drv G mMax st (fst d) (fst k) (snd k) A (Inr (snd d)))
           (\<lambda>st k. DeleteCertsFromDb drv G st (fst k) (snd k) A) st ps = Some (ss, st') \<and>
    (\<forall>k. GetCertsFromDb drv G st' (fst k) (snd k) A =
       Some (case op_spec snd m ps ss k of None \<Rightarrow> Inl EFI_NOT_FOUND | Some c \<Rightarrow> Inr c))"
  using certdb.get_after_ops [where drv = drv and G = G and mMax = mMax and A = A, OF assms(1)] assms(2) by blast

text \<open>
  A certificate digest that was inserted is what \<open>GetCertsFromDb\<close> returns, it does not change the
  entries of other variables, and a second insertion for the same variable is refused with
  \<open>EFI_ACCESS_DENIED\<close> and leaves the first digest in place.
\<close>

theorem InsertCertsToDb_roundtrip:
  assumes "cert_rel drv G mMax A st m" "cert_ok (n, g) (alg, c)"
    and "InsertCertsToDb drv G mMax st alg n g A (Inr c) = Some (EFI_SUCCESS, st')"
    and "cert_ok (n, g) (alg2, c2)"
  shows "GetCertsFromDb drv G st' n g A = Some (Inr c) \<and>
    (\<forall>n2 g2. (n2, g2) \<noteq> (n, g) \<longrightarrow> GetCertsFromDb drv G st' n2 g2 A = GetCertsFromDb drv G st n2 g2 A) \<and>
    (\<exists>st''. InsertCertsToDb drv G mMax st' alg2 n g A (Inr c2) = Some (EFI_ACCESS_DENIED, st'') \<and>
            GetCertsFromDb drv G st'' n g A = Some (Inr c))"
proof -
  have after: "GetCertsFromDb drv G st' n2 g2 A =
      (if (n2, g2) = (n, g) then Some (Inr c) else GetCertsFromDb drv G st n2 g2 A)" for n2 g2
    using certdb.get_after_ins [where drv = drv and mMax = mMax and k' = "(n2, g2)", OF assms(1,2)] assms(3)
    by simp
  have "\<exists>st''. InsertCertsToDb drv G mMax st' alg2 n g A (Inr c2) = Some (EFI_ACCESS_DENIED, st'') \<and>
      GetCertsFromDb drv G st'' n g A = Some (Inr c)"
    using certdb.ins_twice [where drv = drv and mMax = mMax, OF assms(1,2) _ assms(4)] assms(3) by simp
  with after show ?thesis by simp
qed

text \<open>
  After a successful \<open>DeleteCertsFromDb\<close> the variable has no entry, and the entries of the other
  variables are the same.
\<close>

theorem DeleteCertsFromDb_deletes:
  assumes "cert_rel drv G mMax A st m" "DeleteCertsFromDb drv G st n g A = Some (EFI_SUCCESS, st')"
  shows "GetCertsFromDb drv G st' n2 g2 A =
    (if (n2, g2) = (n, g) then Some (Inl EFI_NOT_FOUND) else GetCertsFromDb drv G st n2 g2 A)"
  using certdb.get_after_del [where drv = drv and k = "(n, g)" and k' = "(n2, g2)", OF assms(1)] assms(2) by simp

text \<open>An instance: the sample database and a new variable.\<close>

lemma sample_rel: "cert_rel map_driver (replicate 16 9) 0x1000 EFI_VARIABLE_NON_VOLATILE sample_store (map_of sample_db)"
proof -
  have "DbName EFI_VARIABLE_NON_VOLATILE = wide ''certdb''" by (simp add: DbName_def has_attr_def attribute_defs)
  moreover have "wf_db sample_db" using sample_db_clean by (simp add: clean_db_def)
  moreover have "db_len sample_db \<le> 0x1000" by (simp add: sample_db_def node_len_def wide_def)
  ultimately show ?thesis using sample_store_find by (auto simp: cert_rel_def)
qed

lemma sample_ok: "cert_ok (wide ''New'', replicate 16 2) (0, replicate 32 3)"
  by (simp add: cert_ok_def wide_def HashSizes_def)

definition sample_ops :: "(cert_key, nat \<times> bytes) cert_op list" where
  "sample_ops = [CertIns (wide ''New'', replicate 16 2) (0, replicate 32 3), CertDel (wide ''Gone'', replicate 16 1)]"

lemma sample_ops_ok: "CertIns k d \<in> set sample_ops \<Longrightarrow> cert_ok k d"
  using sample_ok by (auto simp: sample_ops_def)

theorem certdb_refines_map_witness:
  "\<exists>ss st'.
    op_run (\<lambda>st k d. InsertCertsToDb map_driver (replicate 16 9) 0x1000 st (fst d) (fst k) (snd k)
              EFI_VARIABLE_NON_VOLATILE (Inr (snd d)))
           (\<lambda>st k. DeleteCertsFromDb map_driver (replicate 16 9) st (fst k) (snd k) EFI_VARIABLE_NON_VOLATILE)
           sample_store sample_ops = Some (ss, st') \<and>
    (\<forall>k. GetCertsFromDb map_driver (replicate 16 9) st' (fst k) (snd k) EFI_VARIABLE_NON_VOLATILE =
       Some (case op_spec snd (map_of sample_db) sample_ops ss k of
               None \<Rightarrow> Inl EFI_NOT_FOUND | Some c \<Rightarrow> Inr c))"
  by (rule certdb_refines_map [OF sample_rel sample_ops_ok])

lemma sample_insert:
  "\<exists>st'. InsertCertsToDb map_driver (replicate 16 9) 0x1000 sample_store 0 (wide ''New'') (replicate 16 2)
           EFI_VARIABLE_NON_VOLATILE (Inr (replicate 32 3)) = Some (EFI_SUCCESS, st')"
proof -
  have nv: "DbName EFI_VARIABLE_NON_VOLATILE = wide ''certdb''" by (simp add: DbName_def has_attr_def attribute_defs)
  have wf: "wf_db sample_db" using sample_db_clean by (simp add: clean_db_def)
  have ni: "(wide ''New'', replicate 16 2) \<notin> fst ` set sample_db" by (simp add: sample_db_def)
  have len: "length (enc_db sample_db) = 79"
    unfolding length_enc_db [OF wf] by (simp add: sample_db_def node_len_def wide_def)
  have ok: "\<exists>st'. UpdateVariable map_driver st n g (CertDb_append d n2 g2 c) (DbAttr A) t = (EFI_SUCCESS, st')"
    for st n g d n2 g2 c A t by (simp add: map_driver_def)
  show ?thesis
    using FindCertsFromDb_missing [OF wf ni] sample_store_find nv ok len
    by (simp add: InsertCertsToDb_def AuthServiceInternalFindVariable_def HashSizes_def
        SIZEOF_CERT_DB_DATA_def AuthServiceInternalUpdateVariable_def wide_def)
qed

theorem InsertCertsToDb_roundtrip_witness:
  "\<exists>st'. InsertCertsToDb map_driver (replicate 16 9) 0x1000 sample_store 0 (wide ''New'') (replicate 16 2)
           EFI_VARIABLE_NON_VOLATILE (Inr (replicate 32 3)) = Some (EFI_SUCCESS, st') \<and>
         GetCertsFromDb map_driver (replicate 16 9) st' (wide ''New'') (replicate 16 2)
           EFI_VARIABLE_NON_VOLATILE = Some (Inr (replicate 32 3))"
  using sample_insert InsertCertsToDb_roundtrip [OF sample_rel sample_ok _ sample_ok] by blast

lemma sample_delete:
  "\<exists>st'. DeleteCertsFromDb map_driver (replicate 16 9) sample_store (wide ''Kept'') (replicate 16 1)
           EFI_VARIABLE_NON_VOLATILE = Some (EFI_SUCCESS, st')"
proof -
  have nv: "DbName EFI_VARIABLE_NON_VOLATILE = wide ''certdb''" by (simp add: DbName_def has_attr_def attribute_defs)
  have wf: "wf_db sample_db" using sample_db_clean by (simp add: clean_db_def)
  have es: "sample_db = [] @ ((wide ''Kept'', replicate 16 1), [5, 6]) # [((wide ''Gone'', replicate 16 1), [7])]"
    by (simp add: sample_db_def)
  have ok: "\<exists>st'. AuthServiceInternalUpdateVariable map_driver st n g (enc_db es) (DbAttr A) = (EFI_SUCCESS, st')"
    for st n g es A
    by (simp add: map_driver_def AuthServiceInternalUpdateVariable_def)
  show ?thesis
    using DeleteCertsFromDb_found [OF _ _ wf es, of map_driver sample_store EFI_VARIABLE_NON_VOLATILE "replicate 16 9"]
      sample_store_find nv ok by fastforce
qed

theorem DeleteCertsFromDb_deletes_witness:
  "\<exists>st'. DeleteCertsFromDb map_driver (replicate 16 9) sample_store (wide ''Kept'') (replicate 16 1)
           EFI_VARIABLE_NON_VOLATILE = Some (EFI_SUCCESS, st') \<and>
         GetCertsFromDb map_driver (replicate 16 9) st' (wide ''Kept'') (replicate 16 1)
           EFI_VARIABLE_NON_VOLATILE = Some (Inl EFI_NOT_FOUND)"
proof -
  obtain st' where st': "DeleteCertsFromDb map_driver (replicate 16 9) sample_store (wide ''Kept'')
      (replicate 16 1) EFI_VARIABLE_NON_VOLATILE = Some (EFI_SUCCESS, st')" using sample_delete by blast
  from DeleteCertsFromDb_deletes [OF sample_rel this, of "wide ''Kept''" "replicate 16 1"] st' show ?thesis by auto
qed

end
