(* ===== verification/Auth_Verify.thy ===== *)
theory Auth_Verify
  imports Cert_Db
begin

text \<open>
  Verification of a time-based authenticated payload (\<open>AuthServiceInternalCompareTimeStamp\<close>,
  \<open>CalculatePrivAuthVarSignChainSHADigest\<close>, \<open>FindHashAlgorithmIndex\<close> and \<open>VerifyTimeBasedPayload\<close> of
  \<^verbatim>\<open>AuthService.c\<close>). The data of the \<open>SetVariable\<close> call is a byte string that starts with an
  \<open>EFI_VARIABLE_AUTHENTICATION_2\<close>: time stamp, length, revision, type, GUID and the PKCS#7 signature,
  followed by the payload. The crypto library is part of the environment; \<open>None\<close> is again a read
  outside the buffer or a walk that does not end.
\<close>

section \<open>Environment\<close>

text \<open>
  \<open>Pkcs7GetSigners\<close> gives the certificate stack and the top-level certificate, \<open>Pkcs7Verify\<close> is applied
  to the signature, the trusted certificate and the signed data. \<open>X509GetCommonName\<close> gives the name
  without its NUL. The hash functions work on a context of type \<open>'c\<close>.
\<close>

record 'c auth_env =
  Sig :: sig_env
  gEfiSecureBootEnableDisableGuid :: bytes
  gEfiCustomModeEnableGuid :: bytes
  gEfiCertDbGuid :: bytes
  gEfiVendorKeysNvGuid :: bytes
  gEfiCertPkcs7Guid :: bytes
  Pkcs7GetSigners :: "bytes \<Rightarrow> (bytes \<times> bytes) option"
  Pkcs7Verify :: "bytes \<Rightarrow> bytes \<Rightarrow> bytes \<Rightarrow> bool"
  X509GetCommonName :: "bytes \<Rightarrow> efi_status + bytes"
  X509GetTBSCert :: "bytes \<Rightarrow> bytes option"
  HashInit :: "nat \<Rightarrow> 'c option"
  HashUpdate :: "nat \<Rightarrow> 'c \<Rightarrow> bytes \<Rightarrow> 'c option"
  HashFinal :: "nat \<Rightarrow> 'c \<Rightarrow> bytes option"
  UserPhysicalPresent :: bool
  IsVariablePolicyEnabled :: bool
  EfiAtRuntime :: bool
  PcdRequireSelfSignedPk :: bool
  PcdEnforceSelfsignedPk :: bool

datatype authvar_type = AuthVarTypePk | AuthVarTypeKek | AuthVarTypePriv | AuthVarTypePayload

section \<open>Time stamps\<close>

definition AuthServiceInternalCompareTimeStamp :: "efi_time \<Rightarrow> efi_time \<Rightarrow> bool" where
  "AuthServiceInternalCompareTimeStamp FirstTime SecondTime =
     (if Year FirstTime \<noteq> Year SecondTime then Year FirstTime < Year SecondTime
      else if Month FirstTime \<noteq> Month SecondTime then Month FirstTime < Month SecondTime
      else if Day FirstTime \<noteq> Day SecondTime then Day FirstTime < Day SecondTime
      else if Hour FirstTime \<noteq> Hour SecondTime then Hour FirstTime < Hour SecondTime
      else if Minute FirstTime \<noteq> Minute SecondTime then Minute FirstTime < Minute SecondTime
      else Second FirstTime \<le> Second SecondTime)"

definition dec_time :: "bytes \<Rightarrow> efi_time" where
  "dec_time bs =
     \<lparr>Year = dec16 bs, Month = bs ! 2, Day = bs ! 3, Hour = bs ! 4, Minute = bs ! 5, Second = bs ! 6,
      Pad1 = bs ! 7, Nanosecond = dec32 (drop 8 bs), TimeZone = dec16 (drop 12 bs), Daylight = bs ! 14,
      Pad2 = bs ! 15\<rparr>"

definition SIZEOF_EFI_TIME :: nat where
  "SIZEOF_EFI_TIME = 16"

definition rd_time :: "bytes \<Rightarrow> efi_time option" where
  "rd_time Data = map_option dec_time (rd Data 0 SIZEOF_EFI_TIME)"

definition time_pads_zero :: "efi_time \<Rightarrow> bool" where
  "time_pads_zero t \<longleftrightarrow> Pad1 t = 0 \<and> Nanosecond t = 0 \<and> TimeZone t = 0 \<and> Daylight t = 0 \<and> Pad2 t = 0"

section \<open>Hash algorithms\<close>

definition mHashOids :: "bytes list" where
  "mHashOids =
     [[0x60, 0x86, 0x48, 0x01, 0x65, 0x03, 0x04, 0x02, 0x01],
      [0x60, 0x86, 0x48, 0x01, 0x65, 0x03, 0x04, 0x02, 0x02],
      [0x60, 0x86, 0x48, 0x01, 0x65, 0x03, 0x04, 0x02, 0x03]]"

definition TWO_BYTE_ENCODE :: u8 where
  "TWO_BYTE_ENCODE = 0x82"

definition FindHash_at :: "bytes \<Rightarrow> u32 \<Rightarrow> nat \<Rightarrow> nat \<Rightarrow> bytes \<Rightarrow> bool option" where
  "FindHash_at SigData SigDataSize LenOff OidOff Oid =
     (if unat SigDataSize \<ge> OidOff + length Oid then
        do { b \<leftarrow> rd SigData LenOff 1;
             if Bit_Operations.and (hd b) TWO_BYTE_ENCODE = TWO_BYTE_ENCODE then
               do { o1 \<leftarrow> rd SigData OidOff (length Oid); Some (o1 = Oid) }
             else Some False }
      else Some False)"

fun FindHash_loop :: "bytes \<Rightarrow> u32 \<Rightarrow> bytes list \<Rightarrow> nat \<Rightarrow> nat option" where
  "FindHash_loop SigData SigDataSize [] i = Some i"
| "FindHash_loop SigData SigDataSize (Oid # Oids) i =
     do { a \<leftarrow> FindHash_at SigData SigDataSize 1 13 Oid;
          if a then Some i
          else do { b \<leftarrow> FindHash_at SigData SigDataSize 20 32 Oid;
                    if b then Some i else FindHash_loop SigData SigDataSize Oids (i + 1) } }"

definition FindHashAlgorithmIndex :: "bytes \<Rightarrow> u32 \<Rightarrow> nat option" where
  "FindHashAlgorithmIndex SigData SigDataSize = FindHash_loop SigData SigDataSize mHashOids 0"

definition CalculatePrivAuthVarSignChainSHADigest ::
  "'c auth_env \<Rightarrow> nat \<Rightarrow> bytes \<Rightarrow> bytes \<Rightarrow> efi_status + bytes" where
  "CalculatePrivAuthVarSignChainSHADigest E HashAlgId SignerCert TopLevelCert =
     (if HashAlgId \<ge> length HashSizes then Inl EFI_ABORTED
      else case X509GetCommonName E SignerCert of
             Inl Status \<Rightarrow> Inl EFI_ABORTED
           | Inr CertCommonName \<Rightarrow>
               (case do { TbsCert \<leftarrow> X509GetTBSCert E TopLevelCert;
                          c \<leftarrow> HashInit E HashAlgId;
                          c \<leftarrow> HashUpdate E HashAlgId c CertCommonName;
                          c \<leftarrow> HashUpdate E HashAlgId c TbsCert;
                          HashFinal E HashAlgId c } of
                  None \<Rightarrow> Inl EFI_ABORTED
                | Some ShaDigest \<Rightarrow> Inr ShaDigest))"

section \<open>The descriptor\<close>

definition WIN_CERT_TYPE_EFI_GUID :: u16 where
  "WIN_CERT_TYPE_EFI_GUID = 0x0EF1"

definition OFFSET_OF_AUTHINFO2_CERT_DATA :: nat where
  "OFFSET_OF_AUTHINFO2_CERT_DATA = 40"

text \<open>The checks of the descriptor: the time stamp, \<open>SigDataSize\<close> and \<open>HashAlgId\<close>.\<close>

definition Verify_header ::
  "'c auth_env \<Rightarrow> bytes \<Rightarrow> u32 \<Rightarrow> efi_time option \<Rightarrow> (efi_status + efi_time \<times> u32 \<times> nat) option" where
  "Verify_header E Data Attributes OrgTimeStamp =
     do { t \<leftarrow> rd_time Data;
          if \<not> time_pads_zero t then Some (Inl EFI_SECURITY_VIOLATION)
          else if (case OrgTimeStamp of None \<Rightarrow> False
                   | Some o1 \<Rightarrow> \<not> has_attr Attributes EFI_VARIABLE_APPEND_WRITE \<and>
                               AuthServiceInternalCompareTimeStamp t o1)
          then Some (Inl EFI_SECURITY_VIOLATION)
          else
            do { wCertificateType \<leftarrow> rd16 Data 22;
                 if wCertificateType \<noteq> WIN_CERT_TYPE_EFI_GUID then Some (Inl EFI_SECURITY_VIOLATION)
                 else
                   do { CertType \<leftarrow> rd Data 24 16;
                        if CertType \<noteq> gEfiCertPkcs7Guid E then Some (Inl EFI_SECURITY_VIOLATION)
                        else
                          do { dwLength \<leftarrow> rd32 Data 16;
                               let SigDataSize = dwLength - 24
                               in do { HashAlgId \<leftarrow> FindHashAlgorithmIndex
                                                    (drop OFFSET_OF_AUTHINFO2_CERT_DATA Data) SigDataSize;
                                       if has_attr Attributes EFI_VARIABLE_TIME_BASED_AUTHENTICATED_WRITE_ACCESS \<and>
                                          HashAlgId \<ge> length HashSizes
                                       then Some (Inl EFI_SECURITY_VIOLATION)
                                       else Some (Inr (t, SigDataSize, HashAlgId)) } } } } }"

text \<open>\<open>PayloadSize\<close>, in \<open>UINTN\<close> arithmetic, and the serialized values that are signed.\<close>

definition payload_size :: "bytes \<Rightarrow> u32 \<Rightarrow> u64" where
  "payload_size Data SigDataSize =
     word_of_nat (length Data) - word_of_nat OFFSET_OF_AUTHINFO2_CERT_DATA - ucast SigDataSize"

definition new_data_size :: "u64 \<Rightarrow> name16 \<Rightarrow> u64" where
  "new_data_size PayloadSize VariableName =
     PayloadSize + word_of_nat SIZEOF_EFI_TIME + 4 + word_of_nat SIZEOF_GUID + 2 * word_of_nat (length VariableName)"

definition serialize :: "name16 \<Rightarrow> bytes \<Rightarrow> u32 \<Rightarrow> bytes \<Rightarrow> bytes \<Rightarrow> bytes" where
  "serialize VariableName VendorGuid Attr TimeBytes Payload =
     name_bytes VariableName @ VendorGuid @ enc32 Attr @ TimeBytes @ Payload"

section \<open>The four ways of verification\<close>

definition SIG_DATA_OFFSET :: nat where
  "SIG_DATA_OFFSET = 16"

definition Verify_Pk ::
  "'c auth_env \<Rightarrow> 'st driver \<Rightarrow> 'st \<Rightarrow> bytes \<Rightarrow> bytes \<Rightarrow> bool option" where
  "Verify_Pk E drv st SigData NewData =
     (case Pkcs7GetSigners E SigData of
        None \<Rightarrow> Some False
      | Some (SignerCerts, TopLevelCert) \<Rightarrow>
          let (Status, Data) = AuthServiceInternalFindVariable drv st (wide ''PK'') (gEfiGlobalVariableGuid (Sig E))
          in if EFI_ERROR Status then Some False
             else do { Data \<leftarrow> Data;
                       h \<leftarrow> rd_sig_header Data 0;
                       if (word_of_nat (length TopLevelCert) :: u64) \<noteq>
                            ucast (SignatureSize h) - word_of_nat SIG_DATA_OFFSET
                       then Some False
                       else do { Cert \<leftarrow> rd Data (SIZEOF_SIGNATURE_LIST + unat (SignatureHeaderSize h) + SIG_DATA_OFFSET)
                                          (length TopLevelCert);
                                 if Cert \<noteq> TopLevelCert then Some False
                                 else Some (Pkcs7Verify E SigData TopLevelCert NewData) } })"

fun Verify_Kek_certs :: "'c auth_env \<Rightarrow> bytes \<Rightarrow> bytes \<Rightarrow> bytes \<Rightarrow> sig_header \<Rightarrow> nat \<Rightarrow> nat \<Rightarrow> bool option" where
  "Verify_Kek_certs E SigData NewData Data h off 0 = Some False"
| "Verify_Kek_certs E SigData NewData Data h off (Suc n) =
     do { TrustedCert \<leftarrow> rd Data (off + SIG_DATA_OFFSET)
                         (unat (ucast (SignatureSize h) - word_of_nat SIG_DATA_OFFSET :: u64));
          if Pkcs7Verify E SigData TrustedCert NewData then Some True
          else Verify_Kek_certs E SigData NewData Data h (off + unat (SignatureSize h)) n }"

partial_function (option) Verify_Kek_lists ::
  "'c auth_env \<Rightarrow> bytes \<Rightarrow> bytes \<Rightarrow> bytes \<Rightarrow> nat \<Rightarrow> u32 \<Rightarrow> bool option" where
  "Verify_Kek_lists E SigData NewData Data off KekDataSize =
     (if KekDataSize > 0 then
        do { ls \<leftarrow> rd32 Data (off + 16);
             if KekDataSize \<ge> ls then
               do { h \<leftarrow> rd_sig_header Data off;
                    ok \<leftarrow> (if SignatureType h = CertGuid (Sig E) SIG_X509 then
                            if SignatureSize h = 0 then None
                            else Verify_Kek_certs E SigData NewData Data h
                                   (off + SIZEOF_SIGNATURE_LIST + unat (SignatureHeaderSize h))
                                   (unat (sig_room h div ucast (SignatureSize h)))
                          else Some False);
                    if ok then Some True
                    else Verify_Kek_lists E SigData NewData Data (off + unat ls) (KekDataSize - ls) }
             else Some False }
      else Some False)"

definition Verify_Kek ::
  "'c auth_env \<Rightarrow> 'st driver \<Rightarrow> 'st \<Rightarrow> bytes \<Rightarrow> bytes \<Rightarrow> (efi_status + bool) option" where
  "Verify_Kek E drv st SigData NewData =
     (let (Status, Data) = AuthServiceInternalFindVariable drv st (wide ''KEK'') (gEfiGlobalVariableGuid (Sig E))
      in if EFI_ERROR Status then Some (Inl Status)
         else do { Data \<leftarrow> Data;
                   ok \<leftarrow> Verify_Kek_lists E SigData NewData Data 0 (word_of_nat (length Data));
                   Some (Inr ok) })"

text \<open>The first certificate of the stack, \<open>CertDataPtr\<close>.\<close>

definition signer_cert :: "bytes \<Rightarrow> bytes option" where
  "signer_cert SignerCerts =
     do { CertDataLength \<leftarrow> rd32 SignerCerts 1; rd SignerCerts 5 (unat CertDataLength) }"

text \<open>The signer is the one recorded for the existing variable.\<close>

definition Priv_signer_known ::
  "'c auth_env \<Rightarrow> 'st driver \<Rightarrow> 'st \<Rightarrow> name16 \<Rightarrow> bytes \<Rightarrow> u32 \<Rightarrow> nat \<Rightarrow> bytes \<Rightarrow> bytes \<Rightarrow> bool option" where
  "Priv_signer_known E drv st VariableName VendorGuid Attributes HashAlgId SignerCerts TopLevelCert =
     do { r \<leftarrow> GetCertsFromDb drv (gEfiCertDbGuid E) st VariableName VendorGuid Attributes;
          case r of
            Inl Status \<Rightarrow> Some False
          | Inr CertsInCertDb \<Rightarrow>
              if HashAlgId < length HashSizes \<and> length CertsInCertDb = HashSizes ! HashAlgId then
                do { SignerCert \<leftarrow> signer_cert SignerCerts;
                     Some (CalculatePrivAuthVarSignChainSHADigest E HashAlgId SignerCert TopLevelCert =
                             Inr CertsInCertDb) }
              else Some (SignerCerts = CertsInCertDb) }"

definition Verify_Priv ::
  "'c auth_env \<Rightarrow> 'st driver \<Rightarrow> u32 \<Rightarrow> 'st \<Rightarrow> name16 \<Rightarrow> bytes \<Rightarrow> u32 \<Rightarrow> efi_time option \<Rightarrow> nat \<Rightarrow> bytes \<Rightarrow> bytes
     \<Rightarrow> bytes \<Rightarrow> (bool \<times> 'st) option" where
  "Verify_Priv E drv mMaxCertDbSize st VariableName VendorGuid Attributes OrgTimeStamp HashAlgId SigData NewData Payload =
     (case Pkcs7GetSigners E SigData of
        None \<Rightarrow> Some (False, st)
      | Some (SignerCerts, TopLevelCert) \<Rightarrow>
          do { known \<leftarrow> (if OrgTimeStamp \<noteq> None
                          then Priv_signer_known E drv st VariableName VendorGuid Attributes HashAlgId SignerCerts TopLevelCert
                          else Some True);
               if \<not> known \<or> \<not> Pkcs7Verify E SigData TopLevelCert NewData then Some (False, st)
               else if OrgTimeStamp = None \<and> Payload \<noteq> [] then
                 do { SignerCert \<leftarrow> signer_cert SignerCerts;
                      (Status, st') \<leftarrow> InsertCertsToDb drv (gEfiCertDbGuid E) mMaxCertDbSize st HashAlgId VariableName
                                        VendorGuid Attributes
                                        (CalculatePrivAuthVarSignChainSHADigest E HashAlgId SignerCert TopLevelCert);
                      Some (\<not> EFI_ERROR Status, st') }
               else Some (True, st) })"

definition Verify_Payload :: "'c auth_env \<Rightarrow> bytes \<Rightarrow> bytes \<Rightarrow> bytes \<Rightarrow> bool option" where
  "Verify_Payload E SigData NewData Payload =
     do { h \<leftarrow> rd_sig_header Payload 0;
          TrustedCert \<leftarrow> rd Payload (SIZEOF_SIGNATURE_LIST + unat (SignatureHeaderSize h) + SIG_DATA_OFFSET)
                          (unat (ucast (SignatureSize h) - word_of_nat SIG_DATA_OFFSET :: u64));
          Some (Pkcs7Verify E SigData TrustedCert NewData) }"

definition Verify_by_type ::
  "'c auth_env \<Rightarrow> 'st driver \<Rightarrow> u32 \<Rightarrow> 'st \<Rightarrow> name16 \<Rightarrow> bytes \<Rightarrow> u32 \<Rightarrow> authvar_type \<Rightarrow> efi_time option \<Rightarrow> nat
     \<Rightarrow> bytes \<Rightarrow> bytes \<Rightarrow> bytes \<Rightarrow> ((efi_status + bool) \<times> 'st) option" where
  "Verify_by_type E drv mMaxCertDbSize st VariableName VendorGuid Attributes AuthVarType OrgTimeStamp HashAlgId
       SigData NewData Payload =
     (case AuthVarType of
        AuthVarTypePk \<Rightarrow> do { ok \<leftarrow> Verify_Pk E drv st SigData NewData; Some (Inr ok, st) }
      | AuthVarTypeKek \<Rightarrow> do { r \<leftarrow> Verify_Kek E drv st SigData NewData; Some (r, st) }
      | AuthVarTypePriv \<Rightarrow>
          do { (ok, st') \<leftarrow> Verify_Priv E drv mMaxCertDbSize st VariableName VendorGuid Attributes OrgTimeStamp
                             HashAlgId SigData NewData Payload;
               Some (Inr ok, st') }
      | AuthVarTypePayload \<Rightarrow> do { ok \<leftarrow> Verify_Payload E SigData NewData Payload; Some (Inr ok, st) })"

section \<open>Verification\<close>

text \<open>
  The result is a status or the offset of the payload, which extends to the end of the data. The early
  exit is the deletion of a variable while the variable policy is disabled.
\<close>

definition VerifyTimeBasedPayload ::
  "'c auth_env \<Rightarrow> 'st driver \<Rightarrow> u32 \<Rightarrow> 'st \<Rightarrow> name16 \<Rightarrow> bytes \<Rightarrow> bytes \<Rightarrow> u32 \<Rightarrow> authvar_type \<Rightarrow> efi_time option
     \<Rightarrow> ((efi_status + nat) \<times> 'st) option" where
  "VerifyTimeBasedPayload E drv mMaxCertDbSize st VariableName VendorGuid Data Attributes AuthVarType OrgTimeStamp =
     do { hdr \<leftarrow> Verify_header E Data Attributes OrgTimeStamp;
          case hdr of
            Inl Status \<Rightarrow> Some (Inl Status, st)
          | Inr (t, SigDataSize, HashAlgId) \<Rightarrow>
              let PayloadOff = OFFSET_OF_AUTHINFO2_CERT_DATA + unat SigDataSize;
                  PayloadSize = payload_size Data SigDataSize;
                  NewDataSize = new_data_size PayloadSize VariableName
              in if PayloadSize = 0 \<and> \<not> has_attr Attributes EFI_VARIABLE_APPEND_WRITE \<and> \<not> IsVariablePolicyEnabled E
                 then Some (Inr PayloadOff, st)
                 else if EFI_ERROR (GetScratchBuffer drv st (unat NewDataSize)) then Some (Inl EFI_OUT_OF_RESOURCES, st)
                 else
                   do { Payload \<leftarrow> rd Data PayloadOff (unat PayloadSize);
                        SigData \<leftarrow> rd Data OFFSET_OF_AUTHINFO2_CERT_DATA (unat SigDataSize);
                        (r, st') \<leftarrow> Verify_by_type E drv mMaxCertDbSize st VariableName VendorGuid Attributes AuthVarType
                                     OrgTimeStamp HashAlgId SigData
                                     (serialize VariableName VendorGuid Attributes (take SIZEOF_EFI_TIME Data) Payload)
                                     Payload;
                        case r of
                          Inl Status \<Rightarrow> Some (Inl Status, st')
                        | Inr VerifyStatus \<Rightarrow>
                            if \<not> VerifyStatus then Some (Inl EFI_SECURITY_VIOLATION, st')
                            else do { Status \<leftarrow> CheckSignatureListFormat (Sig E) VariableName VendorGuid Payload;
                                      if EFI_ERROR Status then Some (Inl Status, st')
                                      else Some (Inr PayloadOff, st') } } }"

section \<open>The order of time stamps\<close>

definition time_key :: "efi_time \<Rightarrow> nat list" where
  "time_key t = [unat (Year t), unat (Month t), unat (Day t), unat (Hour t), unat (Minute t), unat (Second t)]"

lemma word_ne_nat: "(a :: 'a :: len word) \<noteq> b \<longleftrightarrow> unat a \<noteq> unat b"
  by (simp add: word_unat_eq_iff)

text \<open>
  \<open>AuthServiceInternalCompareTimeStamp\<close> is the lexicographic order on year, month, day, hour, minute
  and second: it holds exactly when the first time is not later than the second.
\<close>

theorem AuthServiceInternalCompareTimeStamp_lex:
  "AuthServiceInternalCompareTimeStamp t1 t2 \<longleftrightarrow>
     time_key t1 = time_key t2 \<or> (time_key t1, time_key t2) \<in> lex {(x, y). x < y}"
  unfolding AuthServiceInternalCompareTimeStamp_def time_key_def word_less_nat_alt word_le_nat_alt word_ne_nat
  by auto

section \<open>The KEK database\<close>

definition kek_certs :: "sig_env \<Rightarrow> slist list \<Rightarrow> bytes set" where
  "kek_certs E ls = {drop 16 s | s. \<exists>l \<in> set ls. sl_type l = CertGuid E SIG_X509 \<and> s \<in> set (sl_sigs l)}"

text \<open>Lists whose signatures hold at least an owner.\<close>

definition kek_wf :: "slist list \<Rightarrow> bool" where
  "kek_wf ls \<longleftrightarrow> (\<forall>l \<in> set ls. wf_sl l \<and> 16 \<le> unat (sl_size l)) \<and> length (enc_sls ls) < 2 ^ 32"

lemma Verify_Kek_certs_enc:
  assumes "16 \<le> unat (SignatureSize h)"
  shows "\<forall>s \<in> set sigs. length s = unat (SignatureSize h) \<Longrightarrow> off = length pre \<Longrightarrow>
    Verify_Kek_certs E SigData NewData (pre @ concat sigs @ post) h off (length sigs) =
      Some (\<exists>s \<in> set sigs. Pkcs7Verify E SigData (drop 16 s) NewData)"
proof (induction sigs arbitrary: pre off)
  case (Cons s sigs)
  let ?n = "unat (SignatureSize h)"
  have ls: "length s = ?n" using Cons.prems by simp
  have "rd ((pre @ take 16 s) @ drop 16 s @ concat sigs @ post) (off + 16) (?n - 16) = Some (drop 16 s)"
    using assms ls Cons.prems(2) by (intro rd_mid) simp_all
  moreover have "(pre @ take 16 s) @ drop 16 s @ concat sigs @ post = pre @ concat (s # sigs) @ post" by simp
  ultimately have "rd (pre @ concat (s # sigs) @ post) (off + 16) (?n - 16) = Some (drop 16 s)" by (simp only:)
  moreover have "Verify_Kek_certs E SigData NewData ((pre @ s) @ concat sigs @ post) h (off + ?n) (length sigs) =
      Some (\<exists>s \<in> set sigs. Pkcs7Verify E SigData (drop 16 s) NewData)"
    using Cons.prems ls by (intro Cons.IH) simp_all
  ultimately show ?case
    using ucast_minus_guid [OF assms] by (simp add: SIG_DATA_OFFSET_def)
qed simp

lemma u32_walk:
  assumes "m + n < 2 ^ 32" "0 < m"
  shows "(word_of_nat (m + n) :: u32) > 0" "(word_of_nat (m + n) :: u32) \<ge> word_of_nat m"
    "(word_of_nat (m + n) :: u32) - word_of_nat m = word_of_nat n"
  using assms by (simp_all only: word_less_nat_alt word_le_nat_alt u32_len unat_0) simp_all

lemma Verify_Kek_lists_enc:
  "kek_wf ls \<Longrightarrow> off = length pre \<Longrightarrow>
   Verify_Kek_lists E SigData NewData (pre @ enc_sls ls) off (word_of_nat (length (enc_sls ls))) =
     Some (\<exists>c \<in> kek_certs (Sig E) ls. Pkcs7Verify E SigData c NewData)"
proof (induction ls arbitrary: pre off)
  case Nil
  then show ?case by (simp add: Verify_Kek_lists.simps kek_certs_def)
next
  case (Cons l ls)
  have wf: "wf_sl l" "16 \<le> unat (sl_size l)" using Cons.prems by (auto simp: kek_wf_def)
  have len: "length (enc_sls (l # ls)) = sl_len l + length (enc_sls ls)" by (simp add: length_enc_sl [OF wf(1)])
  have m: "sl_len l + length (enc_sls ls) < 2 ^ 32" "0 < sl_len l"
    using Cons.prems(1) len wf_sl_len(3) [OF wf(1)] by (auto simp: kek_wf_def)
  note walk = u32_walk [OF m] and hd = rd_header [OF wf(1) Cons.prems(2), of "enc_sls ls"]
  obtain hb where hb: "enc_sl l = hb @ concat (sl_sigs l)" "length hb = 28 + length (sl_hdr l)"
    using enc_sl_split [OF wf(1)] by metis
  have hv: "SignatureType (header_of l) = sl_type l" "SignatureSize (header_of l) = sl_size l" "sl_size l \<noteq> 0"
    "unat (SignatureHeaderSize (header_of l)) = length (sl_hdr l)"
    "unat (sig_room (header_of l) div ucast (sl_size l)) = length (sl_sigs l)"
    using wf wf_sl_len [OF wf(1)] sig_room_header [OF wf(1)] u64_len [of "length (sl_sigs l)"]
    by (simp_all add: header_of_def wf_sl_def)
  have vc: "Verify_Kek_certs E SigData NewData (pre @ enc_sl l @ enc_sls ls) (header_of l)
      (off + 28 + length (sl_hdr l)) (length (sl_sigs l)) =
      Some (\<exists>s \<in> set (sl_sigs l). Pkcs7Verify E SigData (drop 16 s) NewData)"
    using Verify_Kek_certs_enc [of "header_of l" "sl_sigs l" "off + 28 + length (sl_hdr l)" "pre @ hb" E SigData
        NewData "enc_sls ls"] wf hb hv Cons.prems(2) by (simp add: wf_sl_def)
  have IH: "Verify_Kek_lists E SigData NewData (pre @ enc_sl l @ enc_sls ls) (off + sl_len l)
      (word_of_nat (length (enc_sls ls))) = Some (\<exists>c \<in> kek_certs (Sig E) ls. Pkcs7Verify E SigData c NewData)"
    using Cons.IH [of "off + sl_len l" "pre @ enc_sl l"] Cons.prems len
    by (simp add: length_enc_sl [OF wf(1)] kek_wf_def)
  have "Verify_Kek_lists E SigData NewData (pre @ enc_sls (l # ls)) off (word_of_nat (length (enc_sls (l # ls)))) =
      (if sl_type l = CertGuid (Sig E) SIG_X509 \<and> (\<exists>s \<in> set (sl_sigs l). Pkcs7Verify E SigData (drop 16 s) NewData)
       then Some True else Some (\<exists>c \<in> kek_certs (Sig E) ls. Pkcs7Verify E SigData c NewData))"
    using walk hd hv vc IH wf_sl_len(1) [OF wf(1)] len
    by (subst Verify_Kek_lists.simps) (auto simp: SIZEOF_SIGNATURE_LIST_def simp del: of_nat_add)
  moreover have "kek_certs (Sig E) (l # ls) =
      (if sl_type l = CertGuid (Sig E) SIG_X509 then drop 16 ` set (sl_sigs l) else {}) \<union> kek_certs (Sig E) ls"
    by (auto simp: kek_certs_def)
  ultimately show ?case by auto
qed

text \<open>
  The search through the KEK database is exact. On a well-formed database it ends, stays inside the
  value, and accepts a signature exactly when one of the X.509 certificates of the database verifies it.
\<close>

theorem Verify_Kek_exact:
  assumes "FindVariable drv st (wide ''KEK'') (gEfiGlobalVariableGuid (Sig E)) = (EFI_SUCCESS, i)"
    and "InfoData i = Some (enc_sls ls)" "kek_wf ls"
  shows "Verify_Kek E drv st SigData NewData =
    Some (Inr (\<exists>c \<in> kek_certs (Sig E) ls. Pkcs7Verify E SigData c NewData))"
  using assms Verify_Kek_lists_enc [OF assms(3), of 0 "[]" E SigData NewData]
  by (simp add: Verify_Kek_def AuthServiceInternalFindVariable_def)

section \<open>What a verified payload is\<close>

text \<open>
  \<open>trusted\<close> is the certificate a payload may be verified with: for PK the one certificate of the stored
  PK, for KEK a certificate of the KEK database, for other variables the top-level certificate of the
  signature, whose signer must be the recorded one when the variable exists, and for a payload that
  carries its own certificate the first one in it.
\<close>

fun trusted ::
  "'c auth_env \<Rightarrow> 'st driver \<Rightarrow> 'st \<Rightarrow> name16 \<Rightarrow> bytes \<Rightarrow> u32 \<Rightarrow> authvar_type \<Rightarrow> efi_time option \<Rightarrow> bytes \<Rightarrow> bytes \<Rightarrow> bytes \<Rightarrow> bool" where
  "trusted E drv st n g A AuthVarTypePk org SigData Payload c \<longleftrightarrow>
     (\<exists>i d h. FindVariable drv st (wide ''PK'') (gEfiGlobalVariableGuid (Sig E)) = (EFI_SUCCESS, i) \<and> InfoData i = Some d \<and>
        rd_sig_header d 0 = Some h \<and> rd d (44 + unat (SignatureHeaderSize h)) (length c) = Some c \<and>
        (word_of_nat (length c) :: u64) = ucast (SignatureSize h) - 16)"
| "trusted E drv st n g A AuthVarTypeKek org SigData Payload c \<longleftrightarrow>
     (\<exists>i ls. FindVariable drv st (wide ''KEK'') (gEfiGlobalVariableGuid (Sig E)) = (EFI_SUCCESS, i) \<and>
        InfoData i = Some (enc_sls ls) \<and> kek_wf ls \<and> c \<in> kek_certs (Sig E) ls)"
| "trusted E drv st n g A AuthVarTypePriv org SigData Payload c \<longleftrightarrow>
     (\<exists>sc. Pkcs7GetSigners E SigData = Some (sc, c) \<and>
        (org \<noteq> None \<longrightarrow> (\<exists>alg. Priv_signer_known E drv st n g A alg sc c = Some True)))"
| "trusted E drv st n g A AuthVarTypePayload org SigData Payload c \<longleftrightarrow>
     (\<exists>h. rd_sig_header Payload 0 = Some h \<and>
        rd Payload (44 + unat (SignatureHeaderSize h)) (unat (ucast (SignatureSize h) - 16 :: u64)) = Some c)"

definition verified ::
  "'c auth_env \<Rightarrow> 'st driver \<Rightarrow> 'st \<Rightarrow> name16 \<Rightarrow> bytes \<Rightarrow> bytes \<Rightarrow> u32 \<Rightarrow> authvar_type \<Rightarrow> efi_time option \<Rightarrow> nat \<Rightarrow> bool" where
  "verified E drv st n g Data A ty org off \<longleftrightarrow>
     (\<exists>t c. rd_time Data = Some t \<and> time_pads_zero t \<and>
        (\<forall>o1. org = Some o1 \<and> \<not> has_attr A EFI_VARIABLE_APPEND_WRITE \<longrightarrow> \<not> AuthServiceInternalCompareTimeStamp t o1) \<and>
        40 \<le> off \<and> off \<le> length Data \<and>
        trusted E drv st n g A ty org (take (off - 40) (drop 40 Data)) (drop off Data) c \<and>
        Pkcs7Verify E (take (off - 40) (drop 40 Data)) c (serialize n g A (take 16 Data) (drop off Data)))"

text \<open>The stored KEK database is well formed, as \<open>CheckSignatureListFormat\<close> requires of every update.\<close>

definition kek_ok :: "'c auth_env \<Rightarrow> 'st driver \<Rightarrow> 'st \<Rightarrow> bool" where
  "kek_ok E drv st \<longleftrightarrow>
     (\<forall>i. FindVariable drv st (wide ''KEK'') (gEfiGlobalVariableGuid (Sig E)) = (EFI_SUCCESS, i) \<longrightarrow>
          (\<exists>ls. InfoData i = Some (enc_sls ls) \<and> kek_wf ls))"

lemma Verify_Kek_trusted:
  assumes "Verify_Kek E drv st SigData NewData = Some (Inr True)" "kek_ok E drv st"
  shows "\<exists>c. trusted E drv st n g A AuthVarTypeKek org SigData Payload c \<and> Pkcs7Verify E SigData c NewData"
proof -
  from assms(1) obtain i d where i: "FindVariable drv st (wide ''KEK'') (gEfiGlobalVariableGuid (Sig E)) = (EFI_SUCCESS, i)"
    "InfoData i = Some d" and v: "Verify_Kek_lists E SigData NewData d 0 (word_of_nat (length d)) = Some True"
    by (auto simp: Verify_Kek_def AuthServiceInternalFindVariable_def EFI_ERROR_def bind_eq_Some_conv
        split: prod.splits if_splits)
  from assms(2) i obtain ls where ls: "d = enc_sls ls" "kek_wf ls" by (auto simp: kek_ok_def)
  with v Verify_Kek_lists_enc [OF ls(2), of 0 "[]" E SigData NewData] i show ?thesis by auto
qed

lemma Verify_Pk_trusted:
  assumes "Verify_Pk E drv st SigData NewData = Some True"
  shows "\<exists>c. trusted E drv st n g A AuthVarTypePk org SigData Payload c \<and> Pkcs7Verify E SigData c NewData"
  using assms
  by (auto simp: Verify_Pk_def AuthServiceInternalFindVariable_def EFI_ERROR_def bind_eq_Some_conv
      SIG_DATA_OFFSET_def SIZEOF_SIGNATURE_LIST_def add.commute split: prod.splits if_splits option.splits)

lemma Verify_Payload_trusted:
  assumes "Verify_Payload E SigData NewData Payload = Some True"
  shows "\<exists>c. trusted E drv st n g A AuthVarTypePayload org SigData Payload c \<and> Pkcs7Verify E SigData c NewData"
  using assms
  by (auto simp: Verify_Payload_def bind_eq_Some_conv SIG_DATA_OFFSET_def SIZEOF_SIGNATURE_LIST_def add.commute)

lemma Verify_Priv_trusted:
  assumes "Verify_Priv E drv m st n g A org alg SigData NewData Payload = Some (True, st')"
  shows "\<exists>c. trusted E drv st n g A AuthVarTypePriv org SigData Payload c \<and> Pkcs7Verify E SigData c NewData"
  using assms
  by (auto simp: Verify_Priv_def bind_eq_Some_conv split: prod.splits if_splits option.splits)

lemma Verify_by_type_trusted:
  assumes "Verify_by_type E drv m st n g A ty org alg SigData NewData Payload = Some (Inr True, st')"
    "kek_ok E drv st"
  shows "\<exists>c. trusted E drv st n g A ty org SigData Payload c \<and> Pkcs7Verify E SigData c NewData"
  using assms Verify_Kek_trusted Verify_Pk_trusted Verify_Payload_trusted Verify_Priv_trusted
  by (cases ty) (auto simp: Verify_by_type_def bind_eq_Some_conv simp del: trusted.simps split: prod.splits)

lemma Verify_header_Inr:
  assumes "Verify_header E Data A org = Some (Inr (t, sz, alg))"
  shows "rd_time Data = Some t \<and> time_pads_zero t \<and>
    (\<forall>o1. org = Some o1 \<and> \<not> has_attr A EFI_VARIABLE_APPEND_WRITE \<longrightarrow> \<not> AuthServiceInternalCompareTimeStamp t o1)"
  using assms
  by (auto simp: Verify_header_def Let_def bind_eq_Some_conv split: if_splits option.splits)

lemma payload_bounds:
  assumes "rd Data (40 + unat sz) (unat (payload_size Data sz)) = Some Payload" "length Data < 2 ^ 64"
  shows "40 + unat sz \<le> length Data" "Payload = drop (40 + unat sz) Data"
proof -
  show le: "40 + unat sz \<le> length Data" using rd_length [OF assms(1)] by simp
  have "payload_size Data sz = word_of_nat (length Data - (40 + unat sz))"
  proof -
    have "(ucast sz :: u64) = word_of_nat (unat sz)" by (simp add: word_unat_eq_iff unat_ucast_u32 u64_len order_less_trans [OF unsigned_less])
    then show ?thesis using le by (simp add: payload_size_def OFFSET_OF_AUTHINFO2_CERT_DATA_def of_nat_diff algebra_simps)
  qed
  then have "unat (payload_size Data sz) = length Data - (40 + unat sz)"
    using assms(2) by (simp only:) (rule u64_len, simp)
  with assms(1) show "Payload = drop (40 + unat sz) Data" by (auto simp: rd_def split: if_splits)
qed

lemma VerifyTimeBasedPayload_verified:
  assumes "VerifyTimeBasedPayload E drv m st n g Data A ty org = Some (Inr off, st')"
    and "IsVariablePolicyEnabled E" "kek_ok E drv st" "length Data < 2 ^ 64"
  shows "verified E drv st n g Data A ty org off"
proof -
  from assms(1,2) obtain t sz alg Payload SigData where
    hdr: "Verify_header E Data A org = Some (Inr (t, sz, alg))" and off: "off = 40 + unat sz"
    and pl: "rd Data (40 + unat sz) (unat (payload_size Data sz)) = Some Payload"
    and sg: "rd Data 40 (unat sz) = Some SigData"
    and v: "Verify_by_type E drv m st n g A ty org alg SigData (serialize n g A (take 16 Data) Payload) Payload =
      Some (Inr True, st')"
    by (auto simp: VerifyTimeBasedPayload_def OFFSET_OF_AUTHINFO2_CERT_DATA_def SIZEOF_EFI_TIME_def option_inversion)
  note b = payload_bounds [OF pl assms(4)]
  have "SigData = take (off - 40) (drop 40 Data)" using sg off by (auto simp: rd_def split: if_splits)
  with Verify_by_type_trusted [OF v assms(3)] Verify_header_Inr [OF hdr] b off show ?thesis
    unfolding verified_def by auto
qed

text \<open>
  C2: A payload that \<open>VerifyTimeBasedPayload\<close> accepts while the variable policy is enabled and the stored KEK is well formed has a time
  stamp later than the stored one unless it is appended, and a certificate the platform trusts for
  this kind of variable verifies the signature over the name, the GUID, the attributes, the time
  stamp and exactly the bytes behind the signature, which are the payload returned.
\<close>

theorem VerifyTimeBasedPayload_sound:
  assumes "VerifyTimeBasedPayload E drv m st n g Data A ty org = Some (Inr off, st')"
    and "IsVariablePolicyEnabled E" "kek_ok E drv st" "length Data < 2 ^ 64"
  shows "verified E drv st n g Data A ty org off"
  using assms by (rule VerifyTimeBasedPayload_verified)

text \<open>
  A replayed payload is refused: when the variable exists, the write is not an append and the time
  stamp is not later than the stored one, the result is \<open>EFI_SECURITY_VIOLATION\<close> and the store is
  unchanged, whatever the signature.
\<close>

theorem VerifyTimeBasedPayload_replay:
  assumes "rd_time Data = Some t" "\<not> has_attr A EFI_VARIABLE_APPEND_WRITE" "AuthServiceInternalCompareTimeStamp t o1"
  shows "VerifyTimeBasedPayload E drv m st n g Data A ty (Some o1) = Some (Inl EFI_SECURITY_VIOLATION, st)"
  using assms by (simp add: VerifyTimeBasedPayload_def Verify_header_def)

lemma Verify_by_type_error:
  "Verify_by_type E drv m st n g A ty org alg SigData NewData Payload = Some (Inl e, st') \<Longrightarrow> EFI_ERROR e"
  by (cases ty) (auto simp: Verify_by_type_def Verify_Kek_def option_inversion)

lemma Verify_header_error: "Verify_header E Data A org = Some (Inl e) \<Longrightarrow> EFI_ERROR e"
  by (auto simp: Verify_header_def option_inversion split: option.splits)

lemma VerifyTimeBasedPayload_error:
  "VerifyTimeBasedPayload E drv m st n g Data A ty org = Some (Inl e, st') \<Longrightarrow> EFI_ERROR e"
  using Verify_by_type_error Verify_header_error
  by (fastforce simp: VerifyTimeBasedPayload_def option_inversion)

section \<open>Acceptance of a signed payload\<close>

definition enc_time :: "efi_time \<Rightarrow> bytes" where
  "enc_time t = enc16 (Year t) @ [Month t, Day t, Hour t, Minute t, Second t, Pad1 t] @ enc32 (Nanosecond t) @
     enc16 (TimeZone t) @ [Daylight t, Pad2 t]"

definition enc_auth2 :: "bytes \<Rightarrow> efi_time \<Rightarrow> bytes \<Rightarrow> bytes \<Rightarrow> bytes" where
  "enc_auth2 CertType t SigData Payload =
     enc_time t @ enc32 (word_of_nat (24 + length SigData)) @ enc16 0x0200 @ enc16 WIN_CERT_TYPE_EFI_GUID @
     CertType @ SigData @ Payload"

lemma length_enc_time [simp]: "length (enc_time t) = 16"
  by (simp add: enc_time_def)

lemma dec32_enc32_append: "dec32 (enc32 w @ xs) = w"
  using dec32_enc32 [of w] by (simp add: dec32_def enc32_def)

lemma dec16_enc16_append: "dec16 (enc16 w @ xs) = w"
  using dec16_enc16 [of w] by (simp add: dec16_def enc16_def)

lemma nth_enc_time:
  "enc_time t ! 2 = Month t" "enc_time t ! 3 = Day t" "enc_time t ! 4 = Hour t" "enc_time t ! 5 = Minute t"
  "enc_time t ! 6 = Second t" "enc_time t ! 7 = Pad1 t" "enc_time t ! 14 = Daylight t" "enc_time t ! 15 = Pad2 t"
  by (simp_all add: enc_time_def nth_append)

lemma dec_enc_time [simp]: "dec_time (enc_time t) = t"
proof -
  have "dec16 (enc_time t) = Year t" by (simp add: enc_time_def dec16_enc16_append)
  moreover have "dec32 (drop 8 (enc_time t)) = Nanosecond t" by (simp add: enc_time_def dec32_enc32_append)
  moreover have "dec16 (drop 12 (enc_time t)) = TimeZone t" by (simp add: enc_time_def dec16_enc16_append)
  ultimately show ?thesis by (simp add: dec_time_def nth_enc_time)
qed

lemma rd_auth2:
  assumes "length G = 16" and D_def: "D = enc_auth2 G t SigData Payload"
  shows "rd_time D = Some t" "rd32 D 16 = Some (word_of_nat (24 + length SigData))"
    "rd16 D 22 = Some WIN_CERT_TYPE_EFI_GUID" "rd D 24 16 = Some G" "drop 40 D = SigData @ Payload"
    "take 16 D = enc_time t" "length D = 40 + length SigData + length Payload"
    "rd D 40 (length SigData) = Some SigData" "rd D (40 + length SigData) (length Payload) = Some Payload"
proof -
  let ?l = "enc32 (word_of_nat (24 + length SigData))" and ?r = "enc16 0x0200" and ?c = "enc16 WIN_CERT_TYPE_EFI_GUID"
  show "rd_time D = Some t"
    using rd_mid [of 0 "[]" 16 "enc_time t"] by (simp add: D_def enc_auth2_def rd_time_def SIZEOF_EFI_TIME_def)
  show "rd32 D 16 = Some (word_of_nat (24 + length SigData))"
    unfolding D_def enc_auth2_def by (rule rd32_mid) simp
  show "rd16 D 22 = Some WIN_CERT_TYPE_EFI_GUID"
    using rd16_mid [of 22 "enc_time t @ ?l @ ?r" WIN_CERT_TYPE_EFI_GUID "G @ SigData @ Payload"]
    unfolding D_def enc_auth2_def append_assoc by simp
  have a: "D = (enc_time t @ ?l @ ?r @ ?c) @ G @ SigData @ Payload"
    and b: "D = (enc_time t @ ?l @ ?r @ ?c @ G) @ SigData @ Payload"
    and c: "D = (enc_time t @ ?l @ ?r @ ?c @ G @ SigData) @ Payload @ []"
    unfolding D_def enc_auth2_def append_assoc append_Nil2 by (rule refl)+
  show "rd D 24 16 = Some G" unfolding a by (rule rd_mid) (simp_all only: length_append length_enc_time length_enc32 length_enc16 assms(1))
  show "rd D 40 (length SigData) = Some SigData"
    unfolding b by (rule rd_mid) (simp_all add: assms(1))
  show "rd D (40 + length SigData) (length Payload) = Some Payload"
    unfolding c by (rule rd_mid) (simp_all add: assms(1))
  show "drop 40 D = SigData @ Payload" "take 16 D = enc_time t" "length D = 40 + length SigData + length Payload"
    using assms(1) by (simp_all add: D_def enc_auth2_def)
qed

text \<open>The algorithm is found in the signature alone, whatever follows it.\<close>

lemma rd_prefix: "off + n \<le> length xs \<Longrightarrow> rd (xs @ ys) off n = rd xs off n"
  by (simp add: rd_def)

lemma FindHash_at_prefix:
  assumes "length SigData < 2 ^ 32" "LenOff \<le> OidOff" "Oid \<noteq> []"
  shows "FindHash_at (SigData @ ys) (word_of_nat (length SigData)) LenOff OidOff Oid =
    FindHash_at SigData (word_of_nat (length SigData)) LenOff OidOff Oid"
proof (cases "OidOff + length Oid \<le> length SigData")
  case True
  moreover have "0 < length Oid" using assms(3) by simp
  ultimately have "LenOff + 1 \<le> length SigData" using assms(2) by linarith
  then have "rd (SigData @ ys) LenOff 1 = rd SigData LenOff 1"
    "rd (SigData @ ys) OidOff (length Oid) = rd SigData OidOff (length Oid)"
    using True by (simp_all add: rd_prefix)
  then show ?thesis unfolding FindHash_at_def by (simp only:)
next
  case False
  with assms(1) show ?thesis by (simp add: FindHash_at_def u32_len)
qed

lemma FindHash_prefix:
  assumes "length SigData < 2 ^ 32"
  shows "FindHashAlgorithmIndex (SigData @ ys) (word_of_nat (length SigData)) =
    FindHashAlgorithmIndex SigData (word_of_nat (length SigData))"
proof -
  have "[] \<notin> set Oids \<Longrightarrow> FindHash_loop (SigData @ ys) (word_of_nat (length SigData)) Oids i =
      FindHash_loop SigData (word_of_nat (length SigData)) Oids i" for Oids i
  proof (induction Oids arbitrary: i)
    case (Cons Oid Oids)
    then have "Oid \<noteq> []" by auto
    then have "FindHash_at (SigData @ ys) (word_of_nat (length SigData)) 1 13 Oid =
        FindHash_at SigData (word_of_nat (length SigData)) 1 13 Oid"
      "FindHash_at (SigData @ ys) (word_of_nat (length SigData)) 20 32 Oid =
        FindHash_at SigData (word_of_nat (length SigData)) 20 32 Oid"
      by (simp_all add: FindHash_at_prefix [OF assms])
    with Cons show ?case by (simp cong: if_cong)
  qed simp
  moreover have "[] \<notin> set mHashOids" by (simp add: mHashOids_def)
  ultimately show ?thesis unfolding FindHashAlgorithmIndex_def by blast
qed

definition signable :: "'c auth_env \<Rightarrow> u32 \<Rightarrow> efi_time option \<Rightarrow> efi_time \<Rightarrow> bytes \<Rightarrow> nat \<Rightarrow> bool" where
  "signable E A org t SigData alg \<longleftrightarrow>
     length (gEfiCertPkcs7Guid E) = 16 \<and> time_pads_zero t \<and> length SigData + 64 < 2 ^ 32 \<and>
     (org = None \<or> has_attr A EFI_VARIABLE_APPEND_WRITE \<or> \<not> AuthServiceInternalCompareTimeStamp t (the org)) \<and>
     FindHashAlgorithmIndex SigData (word_of_nat (length SigData)) = Some alg \<and> alg < length HashSizes"

lemma Verify_header_enc:
  assumes "signable E A org t SigData alg"
  shows "Verify_header E (enc_auth2 (gEfiCertPkcs7Guid E) t SigData Payload) A org =
    Some (Inr (t, word_of_nat (length SigData), alg))"
proof -
  let ?D = "enc_auth2 (gEfiCertPkcs7Guid E) t SigData Payload"
  have G: "length (gEfiCertPkcs7Guid E) = 16" and sg: "length SigData < 2 ^ 32"
    and al: "FindHashAlgorithmIndex SigData (word_of_nat (length SigData)) = Some alg" "alg < length HashSizes"
    and t: "time_pads_zero t"
    and org: "\<not> (case org of None \<Rightarrow> False | Some o1 \<Rightarrow> \<not> has_attr A EFI_VARIABLE_APPEND_WRITE \<and>
                 AuthServiceInternalCompareTimeStamp t o1)"
    using assms by (auto simp: signable_def split: option.splits)
  note r = rd_auth2 [OF G refl, of t SigData Payload]
  have "word_of_nat (24 + length SigData) - 24 = (word_of_nat (length SigData) :: u32)" by simp
  then show ?thesis
    using r(1-5) t org al FindHash_prefix [OF sg, of Payload]
    by (simp add: Verify_header_def Let_def OFFSET_OF_AUTHINFO2_CERT_DATA_def del: of_nat_add)
qed

text \<open>On an encoded descriptor the verification is the one of the type, then the format check.\<close>

lemma VerifyTimeBasedPayload_enc:
  assumes s: "signable E A org t SigData alg" and pl: "Payload \<noteq> []" "length Payload < 2 ^ 32"
    and scratch: "\<And>n. GetScratchBuffer drv st n = EFI_SUCCESS"
    and D: "D = enc_auth2 (gEfiCertPkcs7Guid E) t SigData Payload"
    and ty: "Verify_by_type E drv m st n g A ty org alg SigData (serialize n g A (enc_time t) Payload) Payload =
      Some (Inr ok, st')"
    and chk: "CheckSignatureListFormat (Sig E) n g Payload = Some EFI_SUCCESS"
  shows "VerifyTimeBasedPayload E drv m st n g D A ty org =
    Some (if ok then Inr (40 + length SigData) else Inl EFI_SECURITY_VIOLATION, st')"
proof -
  have G: "length (gEfiCertPkcs7Guid E) = 16" and sg: "length SigData < 2 ^ 32"
    using s by (auto simp: signable_def)
  note r = rd_auth2 [OF G D]
  have un: "unat (word_of_nat (length SigData) :: u32) = length SigData" by (rule u32_len [OF sg])
  have "payload_size D (word_of_nat (length SigData)) = word_of_nat (length Payload)"
    using r(7) by (simp add: payload_size_def OFFSET_OF_AUTHINFO2_CERT_DATA_def ucast_u32_len [OF sg])
  moreover have "unat (word_of_nat (length Payload) :: u64) = length Payload" using pl(2) by (intro u64_len) simp
  ultimately have ps: "unat (payload_size D (word_of_nat (length SigData))) = length Payload"
    and nz: "payload_size D (word_of_nat (length SigData)) \<noteq> 0" using pl(1) by (auto simp: unat_eq_zero [symmetric])
  show ?thesis
    using Verify_header_enc [OF s, of Payload] r(6,8,9) un ps nz scratch ty chk
    by (simp add: VerifyTimeBasedPayload_def D [symmetric] OFFSET_OF_AUTHINFO2_CERT_DATA_def SIZEOF_EFI_TIME_def Let_def)
qed

text \<open>
  C21: A properly signed, non-empty update of a key database, the kind verified with the KEK, is accepted: the descriptor carries a later time stamp
  and a supported hash algorithm, a certificate of the KEK database verifies the signature over the
  serialized values, and the payload passes the format check. The payload returned starts right behind
  the signature and the store is unchanged.
\<close>

theorem VerifyTimeBasedPayload_accepts:
  assumes "signable E A org t SigData alg" "Payload \<noteq> []" "length Payload < 2 ^ 32"
    and "\<And>n. GetScratchBuffer drv st n = EFI_SUCCESS"
    and "FindVariable drv st (wide ''KEK'') (gEfiGlobalVariableGuid (Sig E)) = (EFI_SUCCESS, i)"
    and "InfoData i = Some (enc_sls ls)" "kek_wf ls" "c \<in> kek_certs (Sig E) ls"
    and "Pkcs7Verify E SigData c (serialize n g A (enc_time t) Payload)"
    and "CheckSignatureListFormat (Sig E) n g Payload = Some EFI_SUCCESS"
  shows "VerifyTimeBasedPayload E drv m st n g (enc_auth2 (gEfiCertPkcs7Guid E) t SigData Payload) A AuthVarTypeKek org =
    Some (Inr (40 + length SigData), st)"
proof (rule VerifyTimeBasedPayload_enc [where ok = True, OF assms(1-4) refl _ assms(10), simplified])
  have "\<exists>c \<in> kek_certs (Sig E) ls. Pkcs7Verify E SigData c (serialize n g A (enc_time t) Payload)"
    using assms(8,9) by blast
  then show "Verify_by_type E drv m st n g A AuthVarTypeKek org alg SigData
      (serialize n g A (enc_time t) Payload) Payload = Some (Inr True, st)"
    using Verify_Kek_lists_enc [OF assms(7), of 0 "[]" E SigData "serialize n g A (enc_time t) Payload"] assms(5,6)
    by (simp add: Verify_by_type_def Verify_Kek_def AuthServiceInternalFindVariable_def)
qed

section \<open>Instances\<close>

text \<open>An environment whose verifier accepts the certificate \<open>[7]\<close> only, a KEK database that holds it and
  a signature for SHA-256.\<close>

definition sample_auth_env :: "bytes auth_env" where
  "sample_auth_env =
     \<lparr>Sig = sample_sig_env, gEfiSecureBootEnableDisableGuid = replicate 16 102,
      gEfiCustomModeEnableGuid = replicate 16 103, gEfiCertDbGuid = replicate 16 104,
      gEfiVendorKeysNvGuid = replicate 16 105, gEfiCertPkcs7Guid = replicate 16 106,
      Pkcs7GetSigners = (\<lambda>s. Some ([1, 1, 0, 0, 0, 9], [7])), Pkcs7Verify = (\<lambda>s c d. c = [7]),
      X509GetCommonName = Inr, X509GetTBSCert = Some, HashInit = (\<lambda>_. Some []),
      HashUpdate = (\<lambda>_ c d. Some (c @ d)), HashFinal = (\<lambda>alg c. Some (take (HashSizes ! alg) (c @ replicate 64 0))),
      UserPhysicalPresent = False, IsVariablePolicyEnabled = True, EfiAtRuntime = False,
      PcdRequireSelfSignedPk = True, PcdEnforceSelfsignedPk = True\<rparr>"

definition sample_time :: "u16 \<Rightarrow> efi_time" where
  "sample_time y =
     \<lparr>Year = y, Month = 1, Day = 2, Hour = 3, Minute = 4, Second = 5, Pad1 = 0, Nanosecond = 0, TimeZone = 0,
      Daylight = 0, Pad2 = 0\<rparr>"

definition sample_kek :: "slist list" where
  "sample_kek = [\<lparr>sl_type = replicate 16 6, sl_hdr = [], sl_size = 17, sl_sigs = [replicate 16 0 @ [7]]\<rparr>]"

definition sample_sig :: bytes where
  "sample_sig = [0x30, 0x82] @ replicate 11 0 @ [0x60, 0x86, 0x48, 0x01, 0x65, 0x03, 0x04, 0x02, 0x01]"

definition auth_store :: var_store where
  "auth_store =
     [(wide ''KEK'', replicate 16 100) \<mapsto> (enc_sls sample_kek, 0x27, Some (sample_time 2020)),
      (wide ''db'', replicate 16 101) \<mapsto> ([], 0x27, Some (sample_time 2020))]"

definition sample_update :: "u16 \<Rightarrow> bytes" where
  "sample_update y = enc_auth2 (replicate 16 106) (sample_time y) sample_sig (enc_sls [sample_sigs [1]])"

lemma sample_env_simps [simp]:
  "Sig sample_auth_env = sample_sig_env" "gEfiGlobalVariableGuid sample_sig_env = replicate 16 100"
  "gEfiImageSecurityDatabaseGuid sample_sig_env = replicate 16 101"
  "gEfiCertPkcs7Guid sample_auth_env = replicate 16 106" "IsVariablePolicyEnabled sample_auth_env"
  "Pkcs7Verify sample_auth_env s c d = (c = [7])" "\<not> UserPhysicalPresent sample_auth_env"
  "\<not> EfiAtRuntime sample_auth_env" "PcdRequireSelfSignedPk sample_auth_env"
  "PcdEnforceSelfsignedPk sample_auth_env"
  by (simp_all add: sample_auth_env_def sample_sig_env_def)

lemma sample_kek_wf: "kek_wf sample_kek"
  by (simp add: kek_wf_def sample_kek_def wf_sl_def sl_len_def enc_sl_def)

lemma sample_kek_cert: "[7] \<in> kek_certs sample_sig_env sample_kek"
proof -
  have "drop 16 (replicate 16 0 @ [7]) = [7 :: u8]" by simp
  then show ?thesis unfolding kek_certs_def sample_kek_def sample_sig_env_def by fastforce
qed

lemma sample_alg: "FindHashAlgorithmIndex sample_sig (word_of_nat (length sample_sig)) = Some 0"
  by (simp add: FindHashAlgorithmIndex_def mHashOids_def sample_sig_def FindHash_at_def rd_def TWO_BYTE_ENCODE_def)

lemma sample_signable: "signable sample_auth_env A (Some (sample_time 2020)) (sample_time 2021) sample_sig 0"
  using sample_alg
  by (simp add: signable_def sample_time_def time_pads_zero_def AuthServiceInternalCompareTimeStamp_def
      HashSizes_def) (simp add: sample_sig_def)

lemma auth_store_kek:
  "FindVariable map_driver auth_store (wide ''KEK'') (replicate 16 100) =
     (EFI_SUCCESS, \<lparr>InfoData = Some (enc_sls sample_kek), InfoAttributes = 0x27, InfoTimeStamp = Some (sample_time 2020)\<rparr>)"
  by (simp add: map_driver_def auth_store_def)

lemma sample_payload:
  "enc_sls [sample_sigs [1]] \<noteq> []" "length (enc_sls [sample_sigs [1]]) < 2 ^ 32"
  "CheckSignatureListFormat sample_sig_env (wide ''db'') (replicate 16 101) (enc_sls [sample_sigs [1]]) = Some EFI_SUCCESS"
proof -
  show ne: "enc_sls [sample_sigs [1]] \<noteq> []" by (simp add: enc_sl_def sample_sigs_def)
  show len: "length (enc_sls [sample_sigs [1]]) < 2 ^ 32"
    by (simp add: length_enc_sl sample_sigs_wf) (simp add: sl_len_def sample_sigs_def)
  show "CheckSignatureListFormat sample_sig_env (wide ''db'') (replicate 16 101) (enc_sls [sample_sigs [1]]) =
      Some EFI_SUCCESS"
    using CheckSignatureListFormat_enc [of "[sample_sigs [1]]" sample_sig_env "wide ''db''" "replicate 16 101"] len
    by (simp add: sample_sigs_supported is_db_def is_pk_def del: enc_sls_simps)
qed

lemma map_driver_scratch [simp]: "GetScratchBuffer map_driver st n = EFI_SUCCESS"
  by (simp add: map_driver_def)

lemma sample_kek_ok: "kek_ok sample_auth_env map_driver auth_store"
  using auth_store_kek sample_kek_wf by (auto simp: kek_ok_def)

theorem Verify_Kek_exact_witness:
  "Verify_Kek sample_auth_env map_driver auth_store sample_sig [1, 2] = Some (Inr True)"
  using Verify_Kek_exact [of map_driver auth_store sample_auth_env _ sample_kek sample_sig "[1, 2]"]
    auth_store_kek sample_kek_wf sample_kek_cert by auto

theorem VerifyTimeBasedPayload_accepts_witness:
  "VerifyTimeBasedPayload sample_auth_env map_driver 0x1000 auth_store (wide ''db'') (replicate 16 101)
     (sample_update 2021) 0x27 AuthVarTypeKek (Some (sample_time 2020)) = Some (Inr (40 + length sample_sig), auth_store)"
  using VerifyTimeBasedPayload_accepts [OF sample_signable sample_payload(1,2) map_driver_scratch _ _ sample_kek_wf,
      where c = "[7]" and st = auth_store and n = "wide ''db''" and g = "replicate 16 101" and m = "0x1000" and A = "0x27"]
    auth_store_kek sample_kek_cert sample_payload(3)
  by (simp add: sample_update_def)

lemma sample_verified:
  "VerifyTimeBasedPayload sample_auth_env map_driver 0x1000 auth_store (wide ''db'') (replicate 16 101)
     (sample_update 2021) 0x27 AuthVarTypeKek (Some (sample_time 2020)) = Some (Inr (40 + length sample_sig), auth_store)"
proof -
  have k: "Verify_Kek_lists sample_auth_env sample_sig d (enc_sls sample_kek) 0 (word_of_nat (length (enc_sls sample_kek))) =
      Some True" for d
    using Verify_Kek_lists_enc [OF sample_kek_wf, of 0 "[]" sample_auth_env sample_sig d] sample_kek_cert by simp
  show ?thesis
    by (rule VerifyTimeBasedPayload_enc [where ok = True, OF sample_signable sample_payload(1,2) map_driver_scratch,
          simplified])
      (use auth_store_kek sample_payload(3) k in \<open>simp_all add: sample_update_def Verify_by_type_def Verify_Kek_def
          AuthServiceInternalFindVariable_def\<close>)
qed

theorem VerifyTimeBasedPayload_sound_witness:
  "verified sample_auth_env map_driver auth_store (wide ''db'') (replicate 16 101) (sample_update 2021) 0x27
     AuthVarTypeKek (Some (sample_time 2020)) (40 + length sample_sig)"
proof (rule VerifyTimeBasedPayload_sound [OF sample_verified _ sample_kek_ok])
  have "length (sample_update 2021) = 40 + length sample_sig + length (enc_sls [sample_sigs [1]])"
    using rd_auth2(7) [of "replicate 16 106" "sample_update 2021"] by (simp add: sample_update_def)
  then show "length (sample_update 2021) < 2 ^ 64"
    using sample_payload(2) by (simp add: sample_sig_def)
qed simp

theorem VerifyTimeBasedPayload_replay_witness:
  "VerifyTimeBasedPayload sample_auth_env map_driver 0x1000 auth_store (wide ''db'') (replicate 16 101)
     (sample_update 2020) 0x27 AuthVarTypeKek (Some (sample_time 2020)) = Some (Inl EFI_SECURITY_VIOLATION, auth_store)"
proof (rule VerifyTimeBasedPayload_replay)
  show "rd_time (sample_update 2020) = Some (sample_time 2020)"
    using rd_auth2(1) [of "replicate 16 106" "sample_update 2020"] by (simp add: sample_update_def)
qed (simp_all add: has_attr_def attribute_defs AuthServiceInternalCompareTimeStamp_def)

end
