(* ===== verification/Auth_Service.thy ===== *)
theory Auth_Service
  imports Auth_Verify Boot_Config
begin

text \<open>
  The authenticated-variable service: platform mode, the processing of PK, KEK, db, dbx, dbt and of
  other variables (\<^verbatim>\<open>AuthService.c\<close>), and its entry points \<open>AuthVariableLibInitialize\<close> and
  \<open>AuthVariableLibProcessVariable\<close> (\<^verbatim>\<open>AuthVariableLib.c\<close>). The state holds the module's globals, the
  variable store behind the driver, and the caller's data buffer, which the duplicate filter
  overwrites in place.
\<close>

section \<open>State and constants\<close>

definition USER_MODE :: u32 where "USER_MODE = 0"

definition SETUP_MODE :: u32 where "SETUP_MODE = 1"

definition SECURE_BOOT_ENABLE :: u8 where "SECURE_BOOT_ENABLE = 1"

definition SECURE_BOOT_DISABLE :: u8 where "SECURE_BOOT_DISABLE = 0"

definition SECURE_BOOT_MODE_ENABLE :: u8 where "SECURE_BOOT_MODE_ENABLE = 1"

definition SECURE_BOOT_MODE_DISABLE :: u8 where "SECURE_BOOT_MODE_DISABLE = 0"

definition STANDARD_SECURE_BOOT_MODE :: u8 where "STANDARD_SECURE_BOOT_MODE = 0"

definition CUSTOM_SECURE_BOOT_MODE :: u8 where "CUSTOM_SECURE_BOOT_MODE = 1"

definition VENDOR_KEYS_VALID :: u8 where "VENDOR_KEYS_VALID = 1"

definition VENDOR_KEYS_MODIFIED :: u8 where "VENDOR_KEYS_MODIFIED = 0"

lemmas mode_defs =
  USER_MODE_def SETUP_MODE_def SECURE_BOOT_ENABLE_def SECURE_BOOT_DISABLE_def SECURE_BOOT_MODE_ENABLE_def
  SECURE_BOOT_MODE_DISABLE_def STANDARD_SECURE_BOOT_MODE_def CUSTOM_SECURE_BOOT_MODE_def
  VENDOR_KEYS_VALID_def VENDOR_KEYS_MODIFIED_def

record 'st auth_state =
  mPlatformMode :: u32
  mVendorKeyState :: u8
  mMaxCertDbSize :: u32
  VarStore :: 'st
  CallerData :: bytes

definition AUTHINFO_SIZE :: nat where
  "AUTHINFO_SIZE = 560"

text \<open>\<open>AUTHINFO2_SIZE\<close>: the time stamp and \<open>dwLength\<close> bytes.\<close>

definition AUTHINFO2_SIZE :: "bytes \<Rightarrow> nat option" where
  "AUTHINFO2_SIZE Data = map_option (\<lambda>dwLength. 16 + unat dwLength) (rd32 Data 16)"

section \<open>Access to the store\<close>

definition update_var ::
  "'st driver \<Rightarrow> 'st auth_state \<Rightarrow> name16 \<Rightarrow> bytes \<Rightarrow> bytes \<Rightarrow> u32 \<Rightarrow> efi_status \<times> 'st auth_state" where
  "update_var drv st VariableName VendorGuid Data Attributes =
     (let (Status, vs) = AuthServiceInternalUpdateVariable drv (VarStore st) VariableName VendorGuid Data Attributes
      in (Status, st\<lparr>VarStore := vs\<rparr>))"

text \<open>The data of the update is the caller's buffer from \<open>off\<close> to its end. The status of
  \<open>FilterSignatureList\<close> is not used.\<close>

definition AuthServiceInternalUpdateVariableWithTimeStamp ::
  "'c auth_env \<Rightarrow> 'st driver \<Rightarrow> 'st auth_state \<Rightarrow> name16 \<Rightarrow> bytes \<Rightarrow> nat \<Rightarrow> u32 \<Rightarrow> efi_time
     \<Rightarrow> (efi_status \<times> 'st auth_state) option" where
  "AuthServiceInternalUpdateVariableWithTimeStamp E drv st VariableName VendorGuid off Attributes TimeStamp =
     (let Data = drop off (CallerData st);
          (FindStatus, OrgData) = AuthServiceInternalFindVariable drv (VarStore st) VariableName VendorGuid
      in do { (Data, Buffer) \<leftarrow>
                (if \<not> EFI_ERROR FindStatus \<and> has_attr Attributes EFI_VARIABLE_APPEND_WRITE \<and>
                    (is_db (Sig E) VariableName VendorGuid \<or> is_kek (Sig E) VariableName VendorGuid)
                 then do { (_, NewData) \<leftarrow>
                             FilterSignatureList (\<not> EFI_ERROR (GetScratchBuffer drv (VarStore st) (length Data)))
                               (case OrgData of None \<Rightarrow> [] | Some d \<Rightarrow> d) Data;
                           Some (NewData, patch (CallerData st) off NewData) }
                 else Some (Data, CallerData st));
              let (Status, vs) = UpdateVariable drv (VarStore st) VariableName VendorGuid Data Attributes (Some TimeStamp)
              in Some (Status, st\<lparr>VarStore := vs, CallerData := Buffer\<rparr>) })"

section \<open>Platform mode\<close>

definition NeedPhysicallyPresent :: "'c auth_env \<Rightarrow> name16 \<Rightarrow> bytes \<Rightarrow> bool" where
  "NeedPhysicallyPresent E VariableName VendorGuid \<longleftrightarrow>
     IsVariablePolicyEnabled E \<and>
     (VendorGuid = gEfiSecureBootEnableDisableGuid E \<and> VariableName = wide ''SecureBootEnable'' \<or>
      VendorGuid = gEfiCustomModeEnableGuid E \<and> VariableName = wide ''CustomMode'')"

definition InCustomMode :: "'c auth_env \<Rightarrow> 'st driver \<Rightarrow> 'st \<Rightarrow> bool option" where
  "InCustomMode E drv vs =
     (let (Status, Data) = AuthServiceInternalFindVariable drv vs (wide ''CustomMode'') (gEfiCustomModeEnableGuid E)
      in if EFI_ERROR Status then Some False
         else do { Data \<leftarrow> Data; b \<leftarrow> rd Data 0 1; Some (hd b = CUSTOM_SECURE_BOOT_MODE) })"

definition UpdatePlatformMode ::
  "'c auth_env \<Rightarrow> 'st driver \<Rightarrow> 'st auth_state \<Rightarrow> u32 \<Rightarrow> (efi_status \<times> 'st auth_state) option" where
  "UpdatePlatformMode E drv st Mode =
     (let G = gEfiGlobalVariableGuid (Sig E);
          (Status, Data) = AuthServiceInternalFindVariable drv (VarStore st) (wide ''SetupMode'') G
      in if EFI_ERROR Status then Some (Status, st)
         else do { Data \<leftarrow> Data;
                   _ \<leftarrow> rd Data 0 1;
                   let mode = ucast Mode :: u8;
                       st = st\<lparr>mPlatformMode := ucast mode,
                               VarStore := WriteFound drv (VarStore st) (wide ''SetupMode'') G (patch Data 0 [mode])\<rparr>
                   in if AtRuntime drv (VarStore st) then Some (Status, st)
                      else
                        let (Status, _) = AuthServiceInternalFindVariable drv (VarStore st) (wide ''SecureBoot'') G
                        in if \<not> EFI_ERROR Status \<and> mPlatformMode st \<noteq> USER_MODE \<and> mPlatformMode st \<noteq> SETUP_MODE
                           then Some (EFI_NOT_FOUND, st)
                           else
                             let SecureBootMode = (if EFI_ERROR Status then SECURE_BOOT_MODE_DISABLE
                                                   else if mPlatformMode st = USER_MODE then SECURE_BOOT_MODE_ENABLE
                                                   else SECURE_BOOT_MODE_DISABLE);
                                 (Status, st) = update_var drv st (wide ''SecureBoot'') G [SecureBootMode]
                                   (attrs [EFI_VARIABLE_RUNTIME_ACCESS, EFI_VARIABLE_BOOTSERVICE_ACCESS])
                             in if EFI_ERROR Status then Some (Status, st)
                                else
                                  let (Status, _) = AuthServiceInternalFindVariable drv (VarStore st)
                                        (wide ''SecureBootEnable'') (gEfiSecureBootEnableDisableGuid E)
                                  in if SecureBootMode \<noteq> SECURE_BOOT_MODE_ENABLE \<and> EFI_ERROR Status
                                     then Some (EFI_SUCCESS, st)
                                     else Some (update_var drv st (wide ''SecureBootEnable'')
                                            (gEfiSecureBootEnableDisableGuid E)
                                            (if SecureBootMode = SECURE_BOOT_MODE_ENABLE then [SECURE_BOOT_ENABLE] else [])
                                            (attrs [EFI_VARIABLE_NON_VOLATILE, EFI_VARIABLE_BOOTSERVICE_ACCESS])) })"

definition VendorKeyIsModified ::
  "'c auth_env \<Rightarrow> 'st driver \<Rightarrow> 'st auth_state \<Rightarrow> efi_status \<times> 'st auth_state" where
  "VendorKeyIsModified E drv st =
     (if mVendorKeyState st = VENDOR_KEYS_MODIFIED then (EFI_SUCCESS, st)
      else
        let st = st\<lparr>mVendorKeyState := VENDOR_KEYS_MODIFIED\<rparr>;
            (Status, st) = update_var drv st (wide ''VendorKeysNv'') (gEfiVendorKeysNvGuid E) [VENDOR_KEYS_MODIFIED]
              (attrs [EFI_VARIABLE_NON_VOLATILE, EFI_VARIABLE_BOOTSERVICE_ACCESS,
                      EFI_VARIABLE_TIME_BASED_AUTHENTICATED_WRITE_ACCESS])
        in if EFI_ERROR Status then (Status, st)
           else update_var drv st (wide ''VendorKeys'') (gEfiGlobalVariableGuid (Sig E)) [VENDOR_KEYS_MODIFIED]
                  (attrs [EFI_VARIABLE_RUNTIME_ACCESS, EFI_VARIABLE_BOOTSERVICE_ACCESS]))"

section \<open>Verified updates\<close>

text \<open>The status, \<open>*VarDel\<close> (\<open>False\<close> when the function leaves it alone) and the state.\<close>

definition VerifyTimeBasedPayloadAndUpdate ::
  "'c auth_env \<Rightarrow> 'st driver \<Rightarrow> 'st auth_state \<Rightarrow> name16 \<Rightarrow> bytes \<Rightarrow> u32 \<Rightarrow> authvar_type
     \<Rightarrow> (efi_status \<times> bool \<times> 'st auth_state) option" where
  "VerifyTimeBasedPayloadAndUpdate E drv st VariableName VendorGuid Attributes AuthVarType =
     (if EfiAtRuntime E then Some (EFI_WRITE_PROTECTED, False, st)
      else
        let (FindStatus, Org) = FindVariable drv (VarStore st) VariableName VendorGuid
        in do { (r, vs) \<leftarrow> VerifyTimeBasedPayload E drv (mMaxCertDbSize st) (VarStore st) VariableName VendorGuid
                             (CallerData st) Attributes AuthVarType
                             (if EFI_ERROR FindStatus then None else InfoTimeStamp Org);
                let st = st\<lparr>VarStore := vs\<rparr>
                in case r of
                     Inl Status \<Rightarrow> Some (Status, False, st)
                   | Inr off \<Rightarrow>
                       do { t \<leftarrow> rd_time (CallerData st);
                            let IsDel = (\<not> EFI_ERROR FindStatus \<and> off = length (CallerData st) \<and>
                                         \<not> has_attr Attributes EFI_VARIABLE_APPEND_WRITE)
                            in do { (Status, st) \<leftarrow> AuthServiceInternalUpdateVariableWithTimeStamp E drv st VariableName
                                                    VendorGuid off Attributes t;
                                    (Status, st) \<leftarrow>
                                      (if IsDel \<and> AuthVarType = AuthVarTypePriv \<and> \<not> EFI_ERROR Status
                                       then do { (Status, vs) \<leftarrow> DeleteCertsFromDb drv (gEfiCertDbGuid E) (VarStore st)
                                                                VariableName VendorGuid Attributes;
                                                 Some (Status, st\<lparr>VarStore := vs\<rparr>) }
                                       else Some (Status, st));
                                    Some (Status, IsDel \<and> \<not> EFI_ERROR Status, st) } } })"

section \<open>PK, KEK and the signature databases\<close>

text \<open>The unauthenticated update of the payload behind the descriptor, with or without the format
  check: the status, whether the payload is empty, and the state.\<close>

definition update_payload ::
  "'c auth_env \<Rightarrow> 'st driver \<Rightarrow> 'st auth_state \<Rightarrow> name16 \<Rightarrow> bytes \<Rightarrow> u32 \<Rightarrow> bool
     \<Rightarrow> (efi_status \<times> bool \<times> 'st auth_state) option" where
  "update_payload E drv st VariableName VendorGuid Attributes Check =
     do { off \<leftarrow> AUTHINFO2_SIZE (CallerData st);
          if off > length (CallerData st) then None
          else
            let Del = (off = length (CallerData st))
            in do { Status \<leftarrow> (if Check
                              then CheckSignatureListFormat (Sig E) VariableName VendorGuid (drop off (CallerData st))
                              else Some EFI_SUCCESS);
                    if EFI_ERROR Status then Some (Status, Del, st)
                    else do { t \<leftarrow> rd_time (CallerData st);
                              (Status, st) \<leftarrow> AuthServiceInternalUpdateVariableWithTimeStamp E drv st VariableName
                                                VendorGuid off Attributes t;
                              Some (Status, Del, st) } } }"

text \<open>The last step of \<open>ProcessVarWithPk\<close>: enrolling or deleting PK changes the platform mode.\<close>

definition Pk_mode_change ::
  "'c auth_env \<Rightarrow> 'st driver \<Rightarrow> 'st auth_state \<Rightarrow> bool \<Rightarrow> bool \<Rightarrow> efi_status \<Rightarrow> (efi_status \<times> 'st auth_state) option" where
  "Pk_mode_change E drv st IsPk Del Status =
     (if \<not> EFI_ERROR Status \<and> IsPk then
        if mPlatformMode st = SETUP_MODE \<and> \<not> Del then UpdatePlatformMode E drv st USER_MODE
        else if mPlatformMode st = USER_MODE \<and> Del then UpdatePlatformMode E drv st SETUP_MODE
        else Some (Status, st)
      else Some (Status, st))"

definition nv_and_time :: "u32 \<Rightarrow> bool" where
  "nv_and_time Attributes \<longleftrightarrow>
     has_attr Attributes EFI_VARIABLE_NON_VOLATILE \<and>
     has_attr Attributes EFI_VARIABLE_TIME_BASED_AUTHENTICATED_WRITE_ACCESS"

definition ProcessVarWithPk ::
  "'c auth_env \<Rightarrow> 'st driver \<Rightarrow> 'st auth_state \<Rightarrow> name16 \<Rightarrow> bytes \<Rightarrow> u32 \<Rightarrow> bool
     \<Rightarrow> (efi_status \<times> 'st auth_state) option" where
  "ProcessVarWithPk E drv st VariableName VendorGuid Attributes IsPk =
     (if \<not> nv_and_time Attributes then Some (EFI_INVALID_PARAMETER, st)
      else
        do { custom \<leftarrow> InCustomMode E drv (VarStore st);
             if custom \<and> UserPhysicalPresent E \<or> \<not> IsVariablePolicyEnabled E \<or>
                mPlatformMode st = SETUP_MODE \<and> \<not> (PcdRequireSelfSignedPk E \<and> IsPk)
             then do { (Status, Del, st) \<leftarrow> update_payload E drv st VariableName VendorGuid Attributes True;
                       if EFI_ERROR Status then Some (Status, st)
                       else let (Status, st) = (if mPlatformMode st \<noteq> SETUP_MODE \<or> PcdRequireSelfSignedPk E \<and> IsPk
                                                then VendorKeyIsModified E drv st else (Status, st))
                            in Pk_mode_change E drv st IsPk Del Status }
             else if mPlatformMode st = USER_MODE
             then do { (Status, Del, st) \<leftarrow> VerifyTimeBasedPayloadAndUpdate E drv st VariableName VendorGuid Attributes
                                             AuthVarTypePk;
                       Pk_mode_change E drv st IsPk Del Status }
             else if \<not> PcdEnforceSelfsignedPk E \<and> mPlatformMode st = SETUP_MODE \<and> IsPk
             then do { (Status, _, st) \<leftarrow> update_payload E drv st VariableName VendorGuid Attributes False;
                       if EFI_ERROR Status then Some (Status, st)
                       else Pk_mode_change E drv st IsPk False Status }
             else do { (Status, Del, st) \<leftarrow> VerifyTimeBasedPayloadAndUpdate E drv st VariableName VendorGuid Attributes
                                             AuthVarTypePayload;
                       Pk_mode_change E drv st IsPk Del Status } })"

definition ProcessVarWithKek ::
  "'c auth_env \<Rightarrow> 'st driver \<Rightarrow> 'st auth_state \<Rightarrow> name16 \<Rightarrow> bytes \<Rightarrow> u32 \<Rightarrow> (efi_status \<times> 'st auth_state) option" where
  "ProcessVarWithKek E drv st VariableName VendorGuid Attributes =
     (if \<not> nv_and_time Attributes then Some (EFI_INVALID_PARAMETER, st)
      else
        do { custom \<leftarrow> (if mPlatformMode st = USER_MODE then InCustomMode E drv (VarStore st) else Some False);
             if mPlatformMode st = USER_MODE \<and> \<not> (custom \<and> UserPhysicalPresent E)
             then do { (Status, _, st) \<leftarrow> VerifyTimeBasedPayloadAndUpdate E drv st VariableName VendorGuid Attributes
                                           AuthVarTypeKek;
                       Some (Status, st) }
             else do { (Status, _, st) \<leftarrow> update_payload E drv st VariableName VendorGuid Attributes True;
                       if EFI_ERROR Status then Some (Status, st)
                       else if mPlatformMode st \<noteq> SETUP_MODE then Some (VendorKeyIsModified E drv st)
                       else Some (Status, st) } })"

section \<open>Other variables\<close>

definition IsDeleteAuthVariable :: "u32 \<Rightarrow> bytes \<Rightarrow> u32 \<Rightarrow> bool option" where
  "IsDeleteAuthVariable OrgAttributes Data Attributes =
     (if Attributes = OrgAttributes \<and>
         (has_attr Attributes EFI_VARIABLE_AUTHENTICATED_WRITE_ACCESS \<or>
          has_attr Attributes EFI_VARIABLE_TIME_BASED_AUTHENTICATED_WRITE_ACCESS)
      then if has_attr Attributes EFI_VARIABLE_TIME_BASED_AUTHENTICATED_WRITE_ACCESS
           then do { n \<leftarrow> AUTHINFO2_SIZE Data; Some (length Data = n) }
           else Some (length Data = AUTHINFO_SIZE)
      else Some False)"

definition ProcessVariable ::
  "'c auth_env \<Rightarrow> 'st driver \<Rightarrow> 'st auth_state \<Rightarrow> name16 \<Rightarrow> bytes \<Rightarrow> u32 \<Rightarrow> (efi_status \<times> 'st auth_state) option" where
  "ProcessVariable E drv st VariableName VendorGuid Attributes =
     (let (Status, Org) = FindVariable drv (VarStore st) VariableName VendorGuid
      in do { del \<leftarrow> (if EFI_ERROR Status then Some False
                      else IsDeleteAuthVariable (InfoAttributes Org) (CallerData st) Attributes);
              if del \<and> (UserPhysicalPresent E \<or> \<not> IsVariablePolicyEnabled E)
              then let (Status, st) = update_var drv st VariableName VendorGuid [] 0
                   in if \<not> EFI_ERROR Status \<and> has_attr Attributes EFI_VARIABLE_TIME_BASED_AUTHENTICATED_WRITE_ACCESS
                      then do { (Status, vs) \<leftarrow> DeleteCertsFromDb drv (gEfiCertDbGuid E) (VarStore st) VariableName
                                               VendorGuid Attributes;
                                Some (Status, st\<lparr>VarStore := vs\<rparr>) }
                      else Some (Status, st)
              else if NeedPhysicallyPresent E VariableName VendorGuid \<and> \<not> UserPhysicalPresent E
              then Some (EFI_SECURITY_VIOLATION, st)
              else if has_attr Attributes EFI_VARIABLE_AUTHENTICATED_WRITE_ACCESS then Some (EFI_UNSUPPORTED, st)
              else if has_attr Attributes EFI_VARIABLE_TIME_BASED_AUTHENTICATED_WRITE_ACCESS
              then do { (Status, _, st) \<leftarrow> VerifyTimeBasedPayloadAndUpdate E drv st VariableName VendorGuid Attributes
                                            AuthVarTypePriv;
                        Some (Status, st) }
              else if InfoData Org \<noteq> None \<and>
                      (has_attr (InfoAttributes Org) EFI_VARIABLE_AUTHENTICATED_WRITE_ACCESS \<or>
                       has_attr (InfoAttributes Org) EFI_VARIABLE_TIME_BASED_AUTHENTICATED_WRITE_ACCESS)
              then Some (EFI_WRITE_PROTECTED, st)
              else Some (update_var drv st VariableName VendorGuid (CallerData st) Attributes) })"

definition AuthVariableLibProcessVariable ::
  "'c auth_env \<Rightarrow> 'st driver \<Rightarrow> 'st auth_state \<Rightarrow> name16 \<Rightarrow> bytes \<Rightarrow> u32 \<Rightarrow> (efi_status \<times> 'st auth_state) option" where
  "AuthVariableLibProcessVariable E drv st VariableName VendorGuid Attributes =
     (if is_pk (Sig E) VariableName VendorGuid then ProcessVarWithPk E drv st VariableName VendorGuid Attributes True
      else if is_kek (Sig E) VariableName VendorGuid
      then ProcessVarWithPk E drv st VariableName VendorGuid Attributes False
      else if is_db (Sig E) VariableName VendorGuid
      then do { (Status, st) \<leftarrow> ProcessVarWithPk E drv st VariableName VendorGuid Attributes False;
                if EFI_ERROR Status then ProcessVarWithKek E drv st VariableName VendorGuid Attributes
                else Some (Status, st) }
      else ProcessVariable E drv st VariableName VendorGuid Attributes)"

section \<open>Initialization\<close>

text \<open>\<open>if (EFI_ERROR (Status)) return Status;\<close> after a call.\<close>

definition and_then :: "efi_status \<times> 's \<Rightarrow> ('s \<Rightarrow> (efi_status \<times> 's) option) \<Rightarrow> (efi_status \<times> 's) option" where
  "and_then r f = (if EFI_ERROR (fst r) then Some r else f (snd r))"

definition GetBootConfigSecureBootPolicy :: "boot_config_state \<Rightarrow> u8" where
  "GetBootConfigSecureBootPolicy cfg =
     (case GetAndromedaUefiConfigUint32ByName cfg (Some ''SecureBootEnabled'') True of
        Inl Status \<Rightarrow> SECURE_BOOT_ENABLE
      | Inr Value \<Rightarrow> if Value = 1 then SECURE_BOOT_ENABLE
                     else if Value = 0 then SECURE_BOOT_DISABLE
                     else SECURE_BOOT_ENABLE)"

definition mSignatureSupport :: "sig_env \<Rightarrow> bytes" where
  "mSignatureSupport E =
     concat (map (CertGuid E) [SIG_SHA1, SIG_SHA256, SIG_SHA384, SIG_SHA512, SIG_RSA2048, SIG_X509])"

abbreviation attr_BS_RT :: u32 where
  "attr_BS_RT \<equiv> attrs [EFI_VARIABLE_BOOTSERVICE_ACCESS, EFI_VARIABLE_RUNTIME_ACCESS]"

abbreviation attr_NV_BS :: u32 where
  "attr_NV_BS \<equiv> attrs [EFI_VARIABLE_NON_VOLATILE, EFI_VARIABLE_BOOTSERVICE_ACCESS]"

text \<open>The platform mode and the variables \<open>SetupMode\<close> and \<open>SignatureSupport\<close>.\<close>

definition Init_SetupMode ::
  "'c auth_env \<Rightarrow> 'st driver \<Rightarrow> 'st auth_state \<Rightarrow> (efi_status \<times> 'st auth_state) option" where
  "Init_SetupMode E drv st =
     (let G = gEfiGlobalVariableGuid (Sig E);
          (Status, _) = AuthServiceInternalFindVariable drv (VarStore st) (wide ''PK'') G;
          st = st\<lparr>mPlatformMode := if EFI_ERROR Status then SETUP_MODE else USER_MODE\<rparr>
      in and_then (update_var drv st (wide ''SetupMode'') G [ucast (mPlatformMode st)] attr_BS_RT)
           (\<lambda>st. Some (update_var drv st (wide ''SignatureSupport'') G (mSignatureSupport (Sig E)) attr_BS_RT)))"

text \<open>\<open>SecureBootEnable\<close> from the boot configuration, and \<open>SecureBoot\<close>.\<close>

definition Init_SecureBoot ::
  "'c auth_env \<Rightarrow> boot_config_state \<Rightarrow> 'st driver \<Rightarrow> 'st auth_state \<Rightarrow> (efi_status \<times> 'st auth_state) option" where
  "Init_SecureBoot E cfg drv st =
     (let (Status, Data) = AuthServiceInternalFindVariable drv (VarStore st) (wide ''SecureBootEnable'')
            (gEfiSecureBootEnableDisableGuid E);
          SecureBootEnable = (if mPlatformMode st = USER_MODE then GetBootConfigSecureBootPolicy cfg
                              else SECURE_BOOT_DISABLE);
          r = (if mPlatformMode st = USER_MODE \<and> (EFI_ERROR Status \<or> Data \<noteq> Some [SecureBootEnable])
               then update_var drv st (wide ''SecureBootEnable'') (gEfiSecureBootEnableDisableGuid E)
                      [SecureBootEnable] attr_NV_BS
               else (EFI_SUCCESS, st))
      in and_then r
           (\<lambda>st. let SecureBootMode = (if SecureBootEnable = SECURE_BOOT_ENABLE \<and> mPlatformMode st = USER_MODE
                                       then SECURE_BOOT_MODE_ENABLE else SECURE_BOOT_MODE_DISABLE)
                 in and_then (update_var drv st (wide ''SecureBoot'') (gEfiGlobalVariableGuid (Sig E)) [SecureBootMode]
                               (attrs [EFI_VARIABLE_RUNTIME_ACCESS, EFI_VARIABLE_BOOTSERVICE_ACCESS]))
                      (\<lambda>st. Some (update_var drv st (wide ''CustomMode'') (gEfiCustomModeEnableGuid E)
                                   [STANDARD_SECURE_BOOT_MODE] attr_NV_BS))))"

text \<open>The certificate databases: \<open>certdb\<close> is created or cleaned, \<open>certdbv\<close> created.\<close>

definition Init_CertDb ::
  "'c auth_env \<Rightarrow> 'st driver \<Rightarrow> 'st auth_state \<Rightarrow> (efi_status \<times> 'st auth_state) option" where
  "Init_CertDb E drv st =
     (let (Status, _) = AuthServiceInternalFindVariable drv (VarStore st) (wide ''certdb'') (gEfiCertDbGuid E)
      in do { r \<leftarrow> (if EFI_ERROR Status
                    then Some (update_var drv st (wide ''certdb'') (gEfiCertDbGuid E) (enc32 4)
                                (DbAttr EFI_VARIABLE_NON_VOLATILE))
                    else do { (Status, vs) \<leftarrow> CleanCertsFromDb drv (gEfiCertDbGuid E) (VarStore st);
                              Some (Status, st\<lparr>VarStore := vs\<rparr>) });
              and_then r (\<lambda>st. Some (update_var drv st (wide ''certdbv'') (gEfiCertDbGuid E) (enc32 4) (DbAttr 0))) })"

definition Init_VendorKeys ::
  "'c auth_env \<Rightarrow> 'st driver \<Rightarrow> 'st auth_state \<Rightarrow> (efi_status \<times> 'st auth_state) option" where
  "Init_VendorKeys E drv st =
     (let (Status, Data) = AuthServiceInternalFindVariable drv (VarStore st) (wide ''VendorKeysNv'') (gEfiVendorKeysNvGuid E)
      in do { r \<leftarrow> (if \<not> EFI_ERROR Status
                    then do { Data \<leftarrow> Data; b \<leftarrow> rd Data 0 1; Some (EFI_SUCCESS, st\<lparr>mVendorKeyState := hd b\<rparr>) }
                    else Some (update_var drv (st\<lparr>mVendorKeyState := VENDOR_KEYS_VALID\<rparr>) (wide ''VendorKeysNv'')
                                (gEfiVendorKeysNvGuid E) [VENDOR_KEYS_VALID]
                                (attrs [EFI_VARIABLE_NON_VOLATILE, EFI_VARIABLE_BOOTSERVICE_ACCESS,
                                        EFI_VARIABLE_TIME_BASED_AUTHENTICATED_WRITE_ACCESS])));
              and_then r (\<lambda>st. Some (update_var drv st (wide ''VendorKeys'') (gEfiGlobalVariableGuid (Sig E))
                                      [mVendorKeyState st]
                                      (attrs [EFI_VARIABLE_RUNTIME_ACCESS, EFI_VARIABLE_BOOTSERVICE_ACCESS]))) })"

text \<open>
  \<open>HashPools\<close> and \<open>StorePool\<close> say whether the allocations of the hash contexts and of the store succeed;
  \<open>MaxAuthVariableSize\<close> is a field of the input context. The output context (the addresses the driver
  relocates) is constant.
\<close>

definition AuthVariableLibInitialize ::
  "'c auth_env \<Rightarrow> boot_config_state \<Rightarrow> bool \<Rightarrow> bool \<Rightarrow> u64 \<Rightarrow> 'st driver \<Rightarrow> 'st auth_state
     \<Rightarrow> (efi_status \<times> 'st auth_state) option" where
  "AuthVariableLibInitialize E cfg HashPools StorePool MaxAuthVariableSize drv st =
     (if \<not> HashPools then Some (EFI_OUT_OF_RESOURCES, st)
      else
        let st = st\<lparr>mMaxCertDbSize := ucast (MaxAuthVariableSize - 16)\<rparr>
        in if \<not> StorePool then Some (EFI_OUT_OF_RESOURCES, st)
           else do { r \<leftarrow> Init_SetupMode E drv st;
                     r \<leftarrow> and_then r (Init_SecureBoot E cfg drv);
                     r \<leftarrow> and_then r (Init_CertDb E drv);
                     and_then r (Init_VendorKeys E drv) })"

section \<open>Only verified updates change the key variables\<close>

lemma VerifyTimeBasedPayload_store:
  assumes "VerifyTimeBasedPayload E drv m vs n g Data A ty org = Some (r, vs')" "ty \<noteq> AuthVarTypePriv"
  shows "vs' = vs"
  using assms
  by (cases ty) (auto simp: VerifyTimeBasedPayload_def Verify_by_type_def option_inversion)

text \<open>The time stamp stored with a variable.\<close>

definition stored_time :: "'st driver \<Rightarrow> 'st \<Rightarrow> name16 \<Rightarrow> bytes \<Rightarrow> efi_time option" where
  "stored_time drv vs n g =
     (let (s, i) = FindVariable drv vs n g in if EFI_ERROR s then None else InfoTimeStamp i)"

text \<open>A verified update either fails without touching the state, or the payload was verified.\<close>

lemma VerifyAndUpdate_cases:
  assumes r: "VerifyTimeBasedPayloadAndUpdate E drv st n g A ty = Some (s, del, st')"
    and "ty \<noteq> AuthVarTypePriv" "IsVariablePolicyEnabled E" "kek_ok E drv (VarStore st)"
    and "length (CallerData st) < 2 ^ 64"
  shows "EFI_ERROR s \<and> \<not> del \<and> st' = st \<or>
    (\<exists>off. verified E drv (VarStore st) n g (CallerData st) A ty (stored_time drv (VarStore st) n g) off)"
proof (cases "EfiAtRuntime E")
  case True
  then show ?thesis using r by (simp add: VerifyTimeBasedPayloadAndUpdate_def)
next
  case False
  obtain fs i where f: "FindVariable drv (VarStore st) n g = (fs, i)" by force
  let ?org = "stored_time drv (VarStore st) n g"
  have org: "(if EFI_ERROR fs then None else InfoTimeStamp i) = ?org" by (simp add: stored_time_def f)
  obtain v vs where v: "VerifyTimeBasedPayload E drv (mMaxCertDbSize st) (VarStore st) n g (CallerData st) A ty ?org =
      Some (v, vs)"
    using r False f org by (auto simp: VerifyTimeBasedPayloadAndUpdate_def option_inversion)
  have vs: "vs = VarStore st" using VerifyTimeBasedPayload_store [OF v assms(2)] .
  show ?thesis
  proof (cases v)
    case (Inl e)
    then have "s = e" "\<not> del" "st' = st"
      using r False f org v vs by (auto simp: VerifyTimeBasedPayloadAndUpdate_def)
    moreover have "EFI_ERROR e"
      using v unfolding Inl by (rule VerifyTimeBasedPayload_error)
    ultimately show ?thesis by simp
  next
    case (Inr off)
    with VerifyTimeBasedPayload_verified [OF v [unfolded Inr] assms(3,4,5)] show ?thesis by blast
  qed
qed

lemma mode_distinct [simp]: "USER_MODE \<noteq> SETUP_MODE" "SETUP_MODE \<noteq> USER_MODE"
  by (simp_all add: mode_defs)

text \<open>The platform enforces signatures: user mode, variable policy enabled, no user present.\<close>

definition enforcing :: "'c auth_env \<Rightarrow> 'st driver \<Rightarrow> 'st auth_state \<Rightarrow> bool" where
  "enforcing E drv st \<longleftrightarrow>
     IsVariablePolicyEnabled E \<and> \<not> UserPhysicalPresent E \<and> mPlatformMode st = USER_MODE \<and>
     kek_ok E drv (VarStore st) \<and> length (CallerData st) < 2 ^ 64"

definition update_verified :: "'c auth_env \<Rightarrow> 'st driver \<Rightarrow> 'st auth_state \<Rightarrow> name16 \<Rightarrow> bytes \<Rightarrow> u32 \<Rightarrow> authvar_type \<Rightarrow> bool" where
  "update_verified E drv st n g A ty \<longleftrightarrow>
     (\<exists>off. verified E drv (VarStore st) n g (CallerData st) A ty (stored_time drv (VarStore st) n g) off)"

lemma enforcing_cases:
  assumes "enforcing E drv st" "ty \<noteq> AuthVarTypePriv"
    "VerifyTimeBasedPayloadAndUpdate E drv st n g A ty = Some (s, del, st')"
  shows "EFI_ERROR s \<and> \<not> del \<and> st' = st \<or> update_verified E drv st n g A ty"
  using VerifyAndUpdate_cases [OF assms(3,2)] assms(1) by (simp add: enforcing_def update_verified_def)

lemma ProcessVarWithPk_enforcing:
  assumes e: "enforcing E drv st" and r: "ProcessVarWithPk E drv st n g A pk = Some (s, st')"
  shows "EFI_ERROR s \<and> st' = st \<or> update_verified E drv st n g A AuthVarTypePk"
proof (cases "nv_and_time A")
  case False
  then show ?thesis using r by (simp add: ProcessVarWithPk_def)
next
  case True
  with e r obtain s1 del st1 where
    v: "VerifyTimeBasedPayloadAndUpdate E drv st n g A AuthVarTypePk = Some (s1, del, st1)"
    and p: "Pk_mode_change E drv st1 pk del s1 = Some (s, st')"
    by (auto simp: ProcessVarWithPk_def enforcing_def option_inversion)
  from enforcing_cases [OF e _ v] p show ?thesis by (auto simp: Pk_mode_change_def)
qed

lemma ProcessVarWithKek_enforcing:
  assumes e: "enforcing E drv st" and r: "ProcessVarWithKek E drv st n g A = Some (s, st')"
  shows "EFI_ERROR s \<and> st' = st \<or> update_verified E drv st n g A AuthVarTypeKek"
proof (cases "nv_and_time A")
  case False
  then show ?thesis using r by (simp add: ProcessVarWithKek_def)
next
  case True
  with e r obtain del where v: "VerifyTimeBasedPayloadAndUpdate E drv st n g A AuthVarTypeKek = Some (s, del, st')"
    by (auto simp: ProcessVarWithKek_def enforcing_def option_inversion)
  from enforcing_cases [OF e _ v] show ?thesis by auto
qed

text \<open>
  C1: While the platform enforces signatures (user mode, variable policy enabled, no user present, a well-formed KEK), an update of PK, KEK, db, dbx or dbt either fails and
  leaves the whole state as it was, or the data carries a time stamp later than the stored one (unless
  it is appended) and a signature over the name, GUID, attributes, time stamp and payload that the
  stored PK verifies, or, for db, dbx and dbt, a certificate of the stored KEK database.
\<close>

theorem AuthVariableLibProcessVariable_authentic:
  assumes "enforcing E drv st" "is_pk (Sig E) n g \<or> is_kek (Sig E) n g \<or> is_db (Sig E) n g"
    and "AuthVariableLibProcessVariable E drv st n g A = Some (s, st')"
  shows "EFI_ERROR s \<and> st' = st \<or> update_verified E drv st n g A AuthVarTypePk \<or>
    is_db (Sig E) n g \<and> update_verified E drv st n g A AuthVarTypeKek"
proof (cases "is_pk (Sig E) n g \<or> is_kek (Sig E) n g")
  case True
  then obtain pk where "ProcessVarWithPk E drv st n g A pk = Some (s, st')"
    using assms(3) by (auto simp: AuthVariableLibProcessVariable_def split: if_splits)
  from ProcessVarWithPk_enforcing [OF assms(1) this] show ?thesis by blast
next
  case False
  then have db: "is_db (Sig E) n g" using assms(2) by blast
  with False assms(3) obtain s1 st1 where p: "ProcessVarWithPk E drv st n g A False = Some (s1, st1)"
    and q: "if EFI_ERROR s1 then ProcessVarWithKek E drv st1 n g A = Some (s, st') else s = s1 \<and> st' = st1"
    by (auto simp: AuthVariableLibProcessVariable_def option_inversion)
  from ProcessVarWithPk_enforcing [OF assms(1) p] show ?thesis
    using ProcessVarWithKek_enforcing [OF assms(1), of n g A s st'] q db by (auto split: if_splits)
qed

text \<open>
  At runtime the key variables are locked while the platform enforces signatures: an update of PK,
  KEK, db, dbx or dbt with the required attributes returns \<open>EFI_WRITE_PROTECTED\<close> and changes nothing,
  even with a valid signature.
\<close>

theorem AuthVariableLibProcessVariable_runtime:
  assumes "enforcing E drv st" "EfiAtRuntime E" "nv_and_time A"
    and "is_pk (Sig E) n g \<or> is_kek (Sig E) n g \<or> is_db (Sig E) n g"
    and "InCustomMode E drv (VarStore st) \<noteq> None"
  shows "AuthVariableLibProcessVariable E drv st n g A = Some (EFI_WRITE_PROTECTED, st)"
  using assms
  by (auto simp: AuthVariableLibProcessVariable_def ProcessVarWithPk_def ProcessVarWithKek_def enforcing_def
      VerifyTimeBasedPayloadAndUpdate_def Pk_mode_change_def)

text \<open>
  C22: A variable that was created authenticated cannot be replaced or appended to by a request without the time-based attribute:
  \<open>ProcessVariable\<close> returns an error and leaves the state as it was, \<open>EFI_SECURITY_VIOLATION\<close> for a variable reserved to a
  present user when there is none, \<open>EFI_UNSUPPORTED\<close> for a counter-based request, \<open>EFI_WRITE_PROTECTED\<close> otherwise. The one exception is the deletion of
  a counter-based variable with its own attributes and a bare descriptor, by a present user or with the variable policy disabled.
\<close>

theorem ProcessVariable_protected:
  assumes "FindVariable drv (VarStore st) n g = (EFI_SUCCESS, i)" "InfoData i \<noteq> None"
    and "has_attr (InfoAttributes i) EFI_VARIABLE_AUTHENTICATED_WRITE_ACCESS \<or>
      has_attr (InfoAttributes i) EFI_VARIABLE_TIME_BASED_AUTHENTICATED_WRITE_ACCESS"
    and "\<not> has_attr A EFI_VARIABLE_TIME_BASED_AUTHENTICATED_WRITE_ACCESS"
  shows "ProcessVariable E drv st n g A =
    Some (if (UserPhysicalPresent E \<or> \<not> IsVariablePolicyEnabled E) \<and> A = InfoAttributes i \<and> length (CallerData st) = AUTHINFO_SIZE
          then update_var drv st n g [] 0
          else (if NeedPhysicallyPresent E n g \<and> \<not> UserPhysicalPresent E then EFI_SECURITY_VIOLATION
                else if has_attr A EFI_VARIABLE_AUTHENTICATED_WRITE_ACCESS then EFI_UNSUPPORTED
                else EFI_WRITE_PROTECTED, st))"
  using assms by (auto simp: ProcessVariable_def IsDeleteAuthVariable_def split: prod.splits)

section \<open>Platform mode and the variables that report it\<close>

text \<open>
  What the mode changes rely on of the driver, beside \<open>driver_law\<close>: an update of one variable does not
  change another, and a write through the data pointer of a found variable changes that variable's data
  only.
\<close>

definition driver_frame :: "'st driver \<Rightarrow> bool" where
  "driver_frame drv \<longleftrightarrow>
     (\<forall>st n g d a t n' g'. (n', g') \<noteq> (n, g) \<longrightarrow>
        FindVariable drv (snd (UpdateVariable drv st n g d a t)) n' g' = FindVariable drv st n' g')"

definition driver_write :: "'st driver \<Rightarrow> bool" where
  "driver_write drv \<longleftrightarrow>
     (\<forall>st n g d i. FindVariable drv st n g = (EFI_SUCCESS, i) \<longrightarrow>
        FindVariable drv (WriteFound drv st n g d) n g = (EFI_SUCCESS, i\<lparr>InfoData := Some d\<rparr>) \<and>
        (\<forall>n' g'. (n', g') \<noteq> (n, g) \<longrightarrow>
           FindVariable drv (WriteFound drv st n g d) n' g' = FindVariable drv st n' g'))"

definition good_driver :: "'st driver \<Rightarrow> bool" where
  "good_driver drv \<longleftrightarrow> driver_law drv \<and> driver_frame drv \<and> driver_write drv \<and> (\<forall>st. \<not> AtRuntime drv st)"

definition value_of :: "'st driver \<Rightarrow> 'st \<Rightarrow> name16 \<Rightarrow> bytes \<Rightarrow> bytes option" where
  "value_of drv vs n g = (let (s, i) = FindVariable drv vs n g in if EFI_ERROR s then None else InfoData i)"

lemma update_var_other:
  assumes "driver_frame drv" "update_var drv st n g d A = (s, st')" "(n', g') \<noteq> (n, g)"
  shows "FindVariable drv (VarStore st') n' g' = FindVariable drv (VarStore st) n' g'"
proof -
  have "VarStore st' = snd (UpdateVariable drv (VarStore st) n g d A None)"
    using assms(2) by (auto simp: update_var_def AuthServiceInternalUpdateVariable_def split: prod.splits)
  then show ?thesis using assms(1,3) unfolding driver_frame_def by simp
qed

lemma update_var_same:
  assumes "driver_law drv" "update_var drv st n g d A = (EFI_SUCCESS, st')" "d \<noteq> []"
    "\<not> has_attr A EFI_VARIABLE_APPEND_WRITE"
  shows "value_of drv (VarStore st') n g = Some d"
proof -
  have "UpdateVariable drv (VarStore st) n g d A None = (EFI_SUCCESS, VarStore st')"
    using assms(2) by (auto simp: update_var_def AuthServiceInternalUpdateVariable_def split: prod.splits)
  from driver_lawD [OF assms(1) this assms(4,3)] show ?thesis by (auto simp: value_of_def)
qed

lemma update_var_fields:
  assumes "update_var drv st n g d A = (s, st')"
  shows "mPlatformMode st' = mPlatformMode st" "mVendorKeyState st' = mVendorKeyState st"
    "mMaxCertDbSize st' = mMaxCertDbSize st" "CallerData st' = CallerData st"
  using assms by (auto simp: update_var_def split: prod.splits)

lemma attrs_no_append [simp]:
  "\<not> has_attr (attrs [EFI_VARIABLE_RUNTIME_ACCESS, EFI_VARIABLE_BOOTSERVICE_ACCESS]) EFI_VARIABLE_APPEND_WRITE"
  "\<not> has_attr attr_BS_RT EFI_VARIABLE_APPEND_WRITE" "\<not> has_attr attr_NV_BS EFI_VARIABLE_APPEND_WRITE"
  by (simp_all add: has_attr_def attrs_def attribute_defs)

text \<open>
  The state reports its mode: \<open>SetupMode\<close> is the mode, and \<open>SecureBoot\<close> is not 1 in setup mode. In user mode \<open>SecureBoot\<close> may have either
  value, because the boot configuration can disable secure boot at the initialization; the properties say which value it gets.
\<close>

definition mode_inv :: "'c auth_env \<Rightarrow> 'st driver \<Rightarrow> 'st auth_state \<Rightarrow> bool" where
  "mode_inv E drv st \<longleftrightarrow>
     (mPlatformMode st = USER_MODE \<or> mPlatformMode st = SETUP_MODE) \<and>
     value_of drv (VarStore st) (wide ''SetupMode'') (gEfiGlobalVariableGuid (Sig E)) = Some [ucast (mPlatformMode st)] \<and>
     (\<exists>b. value_of drv (VarStore st) (wide ''SecureBoot'') (gEfiGlobalVariableGuid (Sig E)) = Some [b] \<and>
          (mPlatformMode st = SETUP_MODE \<longrightarrow> b = SECURE_BOOT_MODE_DISABLE))"

lemma UpdatePlatformMode_sets:
  assumes drv: "good_driver drv" and r: "UpdatePlatformMode E drv st Mode = Some (EFI_SUCCESS, st')"
    and inv: "mode_inv E drv st" and Mode: "Mode = USER_MODE \<or> Mode = SETUP_MODE"
  shows "mPlatformMode st' = Mode \<and>
    value_of drv (VarStore st') (wide ''SetupMode'') (gEfiGlobalVariableGuid (Sig E)) = Some [ucast Mode] \<and>
    value_of drv (VarStore st') (wide ''SecureBoot'') (gEfiGlobalVariableGuid (Sig E)) =
      Some [if Mode = USER_MODE then SECURE_BOOT_MODE_ENABLE else SECURE_BOOT_MODE_DISABLE]"
proof -
  let ?G = "gEfiGlobalVariableGuid (Sig E)" and ?m = "ucast Mode :: u8"
  have law: "driver_law drv" "driver_frame drv" "driver_write drv" "\<And>st. \<not> AtRuntime drv st"
    using drv by (auto simp: good_driver_def)
  have um: "ucast ?m = Mode" using Mode by (auto simp: mode_defs)
  obtain i b where f: "FindVariable drv (VarStore st) (wide ''SetupMode'') ?G = (EFI_SUCCESS, i)" "InfoData i = Some [b]"
    using inv by (auto simp: mode_inv_def value_of_def EFI_ERROR_def split: prod.splits if_splits)
  define st1 where "st1 = st\<lparr>mPlatformMode := Mode,
      VarStore := WriteFound drv (VarStore st) (wide ''SetupMode'') ?G [?m]\<rparr>"
  have w: "FindVariable drv (VarStore st1) (wide ''SetupMode'') ?G = (EFI_SUCCESS, i\<lparr>InfoData := Some [?m]\<rparr>)"
    "FindVariable drv (VarStore st1) (wide ''SecureBoot'') ?G = FindVariable drv (VarStore st) (wide ''SecureBoot'') ?G"
    using law(3) f(1) by (auto simp: st1_def driver_write_def)
  obtain j where j: "FindVariable drv (VarStore st1) (wide ''SecureBoot'') ?G = (EFI_SUCCESS, j)"
    using inv w(2) by (auto simp: mode_inv_def value_of_def EFI_ERROR_def split: prod.splits if_splits)
  let ?sb = "if Mode = USER_MODE then SECURE_BOOT_MODE_ENABLE else SECURE_BOOT_MODE_DISABLE"
  let ?a = "attrs [EFI_VARIABLE_RUNTIME_ACCESS, EFI_VARIABLE_BOOTSERVICE_ACCESS]"
  obtain s2 st2 where u2: "update_var drv st1 (wide ''SecureBoot'') ?G [?sb] ?a = (s2, st2)" by force
  have pt: "patch [b] 0 [?m] = [?m]" by (simp add: patch_def)
  have step: "UpdatePlatformMode E drv st Mode =
      (if EFI_ERROR s2 then Some (s2, st2)
       else let (Status, _) = AuthServiceInternalFindVariable drv (VarStore st2) (wide ''SecureBootEnable'')
                 (gEfiSecureBootEnableDisableGuid E)
            in if ?sb \<noteq> SECURE_BOOT_MODE_ENABLE \<and> EFI_ERROR Status then Some (EFI_SUCCESS, st2)
               else Some (update_var drv st2 (wide ''SecureBootEnable'') (gEfiSecureBootEnableDisableGuid E)
                      (if ?sb = SECURE_BOOT_MODE_ENABLE then [SECURE_BOOT_ENABLE] else []) attr_NV_BS))"
    using f j u2 law(4) Mode um pt
    unfolding UpdatePlatformMode_def st1_def
    by (auto simp: AuthServiceInternalFindVariable_def rd_def Let_def)
  have s2: "s2 = EFI_SUCCESS" using r step by (auto simp: EFI_ERROR_def split: if_splits)
  have m2: "mPlatformMode st2 = Mode" using update_var_fields [OF u2] by (simp add: st1_def)
  have v2: "value_of drv (VarStore st2) (wide ''SetupMode'') ?G = Some [?m]"
    "value_of drv (VarStore st2) (wide ''SecureBoot'') ?G = Some [?sb]"
    using update_var_other [OF law(2) u2] w(1) update_var_same [OF law(1) u2 [unfolded s2]]
    by (simp_all add: value_of_def)
  from r step s2 consider "st' = st2" | d where
    "update_var drv st2 (wide ''SecureBootEnable'') (gEfiSecureBootEnableDisableGuid E) d attr_NV_BS = (EFI_SUCCESS, st')"
    by (auto split: prod.splits if_splits)
  then show ?thesis
  proof cases
    case 1
    with m2 v2 show ?thesis by simp
  next
    case 2
    with m2 v2 update_var_fields [OF 2] update_var_other [OF law(2) 2] show ?thesis by (simp add: value_of_def)
  qed
qed

text \<open>A step that leaves the mode and the two variables alone.\<close>

definition same_mode :: "'c auth_env \<Rightarrow> 'st driver \<Rightarrow> 'st auth_state \<Rightarrow> 'st auth_state \<Rightarrow> bool" where
  "same_mode E drv st st' \<longleftrightarrow>
     mPlatformMode st' = mPlatformMode st \<and>
     (\<forall>n \<in> {wide ''SetupMode'', wide ''SecureBoot''}.
        FindVariable drv (VarStore st') n (gEfiGlobalVariableGuid (Sig E)) =
        FindVariable drv (VarStore st) n (gEfiGlobalVariableGuid (Sig E)))"

lemma same_mode_inv: "same_mode E drv st st' \<Longrightarrow> mode_inv E drv st \<Longrightarrow> mode_inv E drv st'"
  by (simp add: same_mode_def mode_inv_def value_of_def)

lemma same_mode_refl [simp]: "same_mode E drv st st"
  by (simp add: same_mode_def)

lemma same_mode_trans: "same_mode E drv st st1 \<Longrightarrow> same_mode E drv st1 st2 \<Longrightarrow> same_mode E drv st st2"
  by (simp add: same_mode_def)

lemma UpdateWithTimeStamp_same_mode:
  assumes "driver_frame drv" "n \<noteq> wide ''SetupMode''" "n \<noteq> wide ''SecureBoot''"
    "AuthServiceInternalUpdateVariableWithTimeStamp E drv st n g off A t = Some (s, st')"
  shows "same_mode E drv st st'"
proof -
  from assms(4) obtain d where u: "UpdateVariable drv (VarStore st) n g d A (Some t) = (s, VarStore st')"
    and m: "mPlatformMode st' = mPlatformMode st"
    by (auto simp: AuthServiceInternalUpdateVariableWithTimeStamp_def option_inversion)
  have "VarStore st' = snd (UpdateVariable drv (VarStore st) n g d A (Some t))" using u by simp
  with m show ?thesis using assms(1-3) unfolding same_mode_def driver_frame_def by auto
qed

lemma update_payload_same_mode:
  assumes "driver_frame drv" "n \<noteq> wide ''SetupMode''" "n \<noteq> wide ''SecureBoot''"
    "update_payload E drv st n g A c = Some (s, del, st')"
  shows "same_mode E drv st st'"
  using assms UpdateWithTimeStamp_same_mode [OF assms(1-3)]
  by (auto simp: update_payload_def option_inversion)

lemma VerifyAndUpdate_same_mode:
  assumes "driver_frame drv" "n \<noteq> wide ''SetupMode''" "n \<noteq> wide ''SecureBoot''" "ty \<noteq> AuthVarTypePriv"
    "VerifyTimeBasedPayloadAndUpdate E drv st n g A ty = Some (s, del, st')"
  shows "same_mode E drv st st'"
proof (cases "EfiAtRuntime E")
  case True
  then show ?thesis using assms(5) by (simp add: VerifyTimeBasedPayloadAndUpdate_def)
next
  case False
  have st: "st\<lparr>VarStore := VarStore st\<rparr> = st" by simp
  show ?thesis
    using False assms(4,5) UpdateWithTimeStamp_same_mode [OF assms(1-3), of E] VerifyTimeBasedPayload_store
    unfolding VerifyTimeBasedPayloadAndUpdate_def
    by (auto simp: option_inversion dest!: VerifyTimeBasedPayload_store)
qed

lemma update_var_same_mode:
  assumes "driver_frame drv" "update_var drv st n g d A = (s, st')"
    "n \<noteq> wide ''SetupMode''" "n \<noteq> wide ''SecureBoot''"
  shows "same_mode E drv st st'"
  using update_var_other [OF assms(1,2)] update_var_fields [OF assms(2)] assms(3,4) by (simp add: same_mode_def)

lemma VendorKeyIsModified_same_mode:
  assumes "driver_frame drv" "VendorKeyIsModified E drv st = (s, st')"
  shows "same_mode E drv st st'"
proof (cases "mVendorKeyState st = VENDOR_KEYS_MODIFIED")
  case True
  then show ?thesis using assms(2) by (simp add: VendorKeyIsModified_def)
next
  case False
  have "same_mode E drv st (st\<lparr>mVendorKeyState := VENDOR_KEYS_MODIFIED\<rparr>)" by (simp add: same_mode_def)
  with False assms(2) show ?thesis
    by (auto simp: VendorKeyIsModified_def Let_def split: prod.splits if_splits
        dest!: update_var_same_mode [OF assms(1), where E = E] elim!: same_mode_trans)
qed

definition secure_boot_var :: "'c auth_env \<Rightarrow> 'st driver \<Rightarrow> 'st auth_state \<Rightarrow> bytes option" where
  "secure_boot_var E drv st = value_of drv (VarStore st) (wide ''SecureBoot'') (gEfiGlobalVariableGuid (Sig E))"

text \<open>A write of PK is not verified in these cases.\<close>

definition pk_free :: "'c auth_env \<Rightarrow> 'st driver \<Rightarrow> 'st auth_state \<Rightarrow> bool" where
  "pk_free E drv st \<longleftrightarrow>
     InCustomMode E drv (VarStore st) = Some True \<and> UserPhysicalPresent E \<or> \<not> IsVariablePolicyEnabled E \<or>
     mPlatformMode st = SETUP_MODE \<and> \<not> PcdRequireSelfSignedPk E"

lemma Pk_mode_change_inv:
  assumes "good_driver drv" "mode_inv E drv st" "Pk_mode_change E drv st True del s = Some (EFI_SUCCESS, st')"
  shows "mode_inv E drv st' \<and> mPlatformMode st' = (if del then SETUP_MODE else USER_MODE) \<and>
    secure_boot_var E drv st' =
      (if mPlatformMode st' = mPlatformMode st then secure_boot_var E drv st
       else Some [if mPlatformMode st' = USER_MODE then SECURE_BOOT_MODE_ENABLE else SECURE_BOOT_MODE_DISABLE])"
  using assms UpdatePlatformMode_sets [OF assms(1) _ assms(2)]
  by (auto simp: Pk_mode_change_def mode_inv_def secure_boot_var_def mode_defs split: if_splits)

text \<open>Every way through \<open>ProcessVarWithPk\<close> that succeeds ends with the mode change, from a state with the
  same mode.\<close>

lemma ProcessVarWithPk_mode_change:
  assumes drv: "driver_frame drv" and n: "n \<noteq> wide ''SetupMode''" "n \<noteq> wide ''SecureBoot''"
    and r: "ProcessVarWithPk E drv st n g A pk = Some (EFI_SUCCESS, st')"
  shows "\<exists>st1 s del. same_mode E drv st st1 \<and> Pk_mode_change E drv st1 pk del s = Some (EFI_SUCCESS, st') \<and>
    (pk \<and> pk_free E drv st \<longrightarrow>
       (\<forall>off. AUTHINFO2_SIZE (CallerData st) = Some off \<longrightarrow> del = (off = length (CallerData st))))"
proof -
  obtain custom where c: "InCustomMode E drv (VarStore st) = Some custom" and A: "nv_and_time A"
    using r by (auto simp: ProcessVarWithPk_def option_inversion)
  note up = update_payload_same_mode [OF drv n] and vf = VerifyAndUpdate_same_mode [OF drv n]
  let ?free = "custom \<and> UserPhysicalPresent E \<or> \<not> IsVariablePolicyEnabled E \<or>
      mPlatformMode st = SETUP_MODE \<and> \<not> (PcdRequireSelfSignedPk E \<and> pk)"
  show ?thesis
  proof (cases ?free)
    case True
    with r c A obtain s1 del st1 where p: "update_payload E drv st n g A True = Some (s1, del, st1)"
      and q: "\<not> EFI_ERROR s1" "(let (Status, st2) = (if mPlatformMode st1 \<noteq> SETUP_MODE \<or> PcdRequireSelfSignedPk E \<and> pk
            then VendorKeyIsModified E drv st1 else (s1, st1)) in Pk_mode_change E drv st2 pk del Status) =
          Some (EFI_SUCCESS, st')"
      by (auto simp: ProcessVarWithPk_def option_inversion)
    have del: "\<forall>off. AUTHINFO2_SIZE (CallerData st) = Some off \<longrightarrow> del = (off = length (CallerData st))"
      using p by (auto simp: update_payload_def option_inversion)
    have "\<exists>st2 s2. same_mode E drv st1 st2 \<and> Pk_mode_change E drv st2 pk del s2 = Some (EFI_SUCCESS, st')"
      using q(2) VendorKeyIsModified_same_mode [OF drv, of E st1] same_mode_refl [of E drv st1]
      by (cases "VendorKeyIsModified E drv st1"; simp split: if_splits; blast)
    with up [OF p] del show ?thesis by (meson same_mode_trans)
  next
    case free: False
    then have ns: "\<not> (pk \<and> pk_free E drv st)" using c by (auto simp: pk_free_def)
    from r c A free consider
      (v) s1 del st1 ty where "VerifyTimeBasedPayloadAndUpdate E drv st n g A ty = Some (s1, del, st1)"
        "ty \<noteq> AuthVarTypePriv" "Pk_mode_change E drv st1 pk del s1 = Some (EFI_SUCCESS, st')"
    | (u) s1 del st1 where "update_payload E drv st n g A False = Some (s1, del, st1)"
        "Pk_mode_change E drv st1 pk False s1 = Some (EFI_SUCCESS, st')"
      by (auto simp: ProcessVarWithPk_def option_inversion)
    then show ?thesis
    proof cases
      case v
      with vf [OF v(2,1)] ns show ?thesis by blast
    next
      case u
      with up [OF u(1)] ns show ?thesis by blast
    qed
  qed
qed

text \<open>
  C5: A successful write of PK at boot time keeps the platform mode and the variables that report it in step. The mode is user or setup and
  \<open>SetupMode\<close> holds it. When the write changes the mode, \<open>SecureBoot\<close> becomes 1 in user mode and 0 in setup mode; otherwise it keeps its
  value, which is 0 in setup mode. When the write is not verified (in setup mode with no self-signed PK required, in custom mode with a
  user present, or with the variable policy disabled), a write with a payload ends in user mode and one without a payload in setup mode.
\<close>

theorem AuthVariableLibProcessVariable_pk_mode:
  assumes "good_driver drv" "mode_inv E drv st" "is_pk (Sig E) n g"
    and "AuthVariableLibProcessVariable E drv st n g A = Some (EFI_SUCCESS, st')"
  shows "mode_inv E drv st' \<and>
    secure_boot_var E drv st' =
      (if mPlatformMode st' = mPlatformMode st then secure_boot_var E drv st
       else Some [if mPlatformMode st' = USER_MODE then SECURE_BOOT_MODE_ENABLE else SECURE_BOOT_MODE_DISABLE]) \<and>
    (pk_free E drv st \<longrightarrow>
       (\<forall>off. AUTHINFO2_SIZE (CallerData st) = Some off \<longrightarrow>
          mPlatformMode st' = (if off = length (CallerData st) then SETUP_MODE else USER_MODE)))"
proof -
  have n: "n \<noteq> wide ''SetupMode''" "n \<noteq> wide ''SecureBoot''" using assms(3) by (auto simp: is_pk_def)
  have fr: "driver_frame drv" using assms(1) by (simp add: good_driver_def)
  have "ProcessVarWithPk E drv st n g A True = Some (EFI_SUCCESS, st')"
    using assms(3,4) by (simp add: AuthVariableLibProcessVariable_def)
  from ProcessVarWithPk_mode_change [OF fr n this] obtain st1 s del where
    m: "same_mode E drv st st1" and p: "Pk_mode_change E drv st1 True del s = Some (EFI_SUCCESS, st')"
    and d: "pk_free E drv st \<longrightarrow>
       (\<forall>off. AUTHINFO2_SIZE (CallerData st) = Some off \<longrightarrow> del = (off = length (CallerData st)))" by blast
  have "mPlatformMode st1 = mPlatformMode st" "secure_boot_var E drv st1 = secure_boot_var E drv st"
    using m by (simp_all add: same_mode_def secure_boot_var_def value_of_def)
  with Pk_mode_change_inv [OF assms(1) same_mode_inv [OF m assms(2)] p] d show ?thesis by simp
qed

section \<open>Initialization reports the secure-boot state\<close>

lemma and_then_success:
  "and_then r f = Some (EFI_SUCCESS, st') \<longleftrightarrow> (\<exists>st. r = (EFI_SUCCESS, st) \<and> f st = Some (EFI_SUCCESS, st'))"
  by (cases r) (auto simp: and_then_def EFI_ERROR_def)

definition pk_present :: "'c auth_env \<Rightarrow> 'st driver \<Rightarrow> 'st \<Rightarrow> bool" where
  "pk_present E drv vs \<longleftrightarrow> \<not> EFI_ERROR (fst (FindVariable drv vs (wide ''PK'') (gEfiGlobalVariableGuid (Sig E))))"

lemma Init_SetupMode_sets:
  assumes drv: "good_driver drv" and r: "Init_SetupMode E drv st = Some (EFI_SUCCESS, st')"
  shows "mPlatformMode st' = (if pk_present E drv (VarStore st) then USER_MODE else SETUP_MODE) \<and>
    value_of drv (VarStore st') (wide ''SetupMode'') (gEfiGlobalVariableGuid (Sig E)) = Some [ucast (mPlatformMode st')]"
proof -
  let ?G = "gEfiGlobalVariableGuid (Sig E)"
  let ?st = "st\<lparr>mPlatformMode := if pk_present E drv (VarStore st) then USER_MODE else SETUP_MODE\<rparr>"
  have law: "driver_law drv" "driver_frame drv" using drv by (auto simp: good_driver_def)
  obtain st1 where u1: "update_var drv ?st (wide ''SetupMode'') ?G [ucast (mPlatformMode ?st)] attr_BS_RT = (EFI_SUCCESS, st1)"
    and u2: "update_var drv st1 (wide ''SignatureSupport'') ?G (mSignatureSupport (Sig E)) attr_BS_RT = (EFI_SUCCESS, st')"
    using r by (auto simp: Init_SetupMode_def and_then_success pk_present_def AuthServiceInternalFindVariable_def Let_def
        split: prod.splits if_splits)
  have "value_of drv (VarStore st1) (wide ''SetupMode'') ?G = Some [ucast (mPlatformMode ?st)]"
    by (rule update_var_same [OF law(1) u1]) simp_all
  with update_var_other [OF law(2) u2] update_var_fields [OF u1] update_var_fields [OF u2] show ?thesis
    by (simp add: value_of_def)
qed

text \<open>The value of \<open>SecureBoot\<close> after initialization.\<close>

definition secure_boot_value :: "boot_config_state \<Rightarrow> bool \<Rightarrow> u8" where
  "secure_boot_value cfg pk =
     (if pk \<and> GetAndromedaUefiConfigUint32ByName cfg (Some ''SecureBootEnabled'') True \<noteq> Inr 0 then 1 else 0)"

lemma policy_disable:
  "GetBootConfigSecureBootPolicy cfg = SECURE_BOOT_ENABLE \<longleftrightarrow>
     GetAndromedaUefiConfigUint32ByName cfg (Some ''SecureBootEnabled'') True \<noteq> Inr 0"
  by (auto simp: GetBootConfigSecureBootPolicy_def mode_defs split: sum.splits)

lemma Init_SecureBoot_sets:
  assumes drv: "good_driver drv" and r: "Init_SecureBoot E cfg drv st = Some (EFI_SUCCESS, st')"
    and mode: "mPlatformMode st = USER_MODE \<or> mPlatformMode st = SETUP_MODE"
  shows "mPlatformMode st' = mPlatformMode st \<and>
    FindVariable drv (VarStore st') (wide ''SetupMode'') (gEfiGlobalVariableGuid (Sig E)) =
      FindVariable drv (VarStore st) (wide ''SetupMode'') (gEfiGlobalVariableGuid (Sig E)) \<and>
    value_of drv (VarStore st') (wide ''SecureBoot'') (gEfiGlobalVariableGuid (Sig E)) =
      Some [secure_boot_value cfg (mPlatformMode st = USER_MODE)]"
proof -
  let ?G = "gEfiGlobalVariableGuid (Sig E)" and ?sb = "[secure_boot_value cfg (mPlatformMode st = USER_MODE)]"
  let ?a = "attrs [EFI_VARIABLE_RUNTIME_ACCESS, EFI_VARIABLE_BOOTSERVICE_ACCESS]"
  have law: "driver_law drv" "driver_frame drv" using drv by (auto simp: good_driver_def)
  obtain st1 where u1: "same_mode E drv st st1" and
    f: "and_then (update_var drv st1 (wide ''SecureBoot'') ?G ?sb ?a)
         (\<lambda>st. Some (update_var drv st (wide ''CustomMode'') (gEfiCustomModeEnableGuid E)
            [STANDARD_SECURE_BOOT_MODE] attr_NV_BS)) = Some (EFI_SUCCESS, st')"
  proof -
    obtain fs fd where fv: "AuthServiceInternalFindVariable drv (VarStore st) (wide ''SecureBootEnable'')
        (gEfiSecureBootEnableDisableGuid E) = (fs, fd)" by force
    define en where "en = (if mPlatformMode st = USER_MODE then GetBootConfigSecureBootPolicy cfg else SECURE_BOOT_DISABLE)"
    define r0 where "r0 = (if mPlatformMode st = USER_MODE \<and> (EFI_ERROR fs \<or> fd \<noteq> Some [en])
        then update_var drv st (wide ''SecureBootEnable'') (gEfiSecureBootEnableDisableGuid E) [en] attr_NV_BS
        else (EFI_SUCCESS, st))"
    have sm: "same_mode E drv st (snd r0)"
      using update_var_same_mode [OF law(2) prod.collapse [symmetric], where E = E] by (simp add: r0_def)
    have "mPlatformMode (snd r0) = mPlatformMode st" using sm by (simp add: same_mode_def)
    then have sb: "[if en = SECURE_BOOT_ENABLE \<and> mPlatformMode (snd r0) = USER_MODE
        then SECURE_BOOT_MODE_ENABLE else SECURE_BOOT_MODE_DISABLE] = ?sb"
      by (simp add: en_def secure_boot_value_def policy_disable) (simp add: mode_defs)
    have "and_then (update_var drv (snd r0) (wide ''SecureBoot'') ?G ?sb ?a)
         (\<lambda>st. Some (update_var drv st (wide ''CustomMode'') (gEfiCustomModeEnableGuid E)
            [STANDARD_SECURE_BOOT_MODE] attr_NV_BS)) = Some (EFI_SUCCESS, st')"
      using r sb unfolding Init_SecureBoot_def fv r0_def [symmetric] en_def [symmetric]
      by (auto simp: and_then_success Let_def r0_def [symmetric] en_def [symmetric])
    with sm that show thesis by blast
  qed
  obtain st2 where u2: "update_var drv st1 (wide ''SecureBoot'') ?G ?sb ?a = (EFI_SUCCESS, st2)"
    and u3: "update_var drv st2 (wide ''CustomMode'') (gEfiCustomModeEnableGuid E)
            [STANDARD_SECURE_BOOT_MODE] attr_NV_BS = (EFI_SUCCESS, st')"
    using f by (auto simp: and_then_success)
  have "value_of drv (VarStore st2) (wide ''SecureBoot'') ?G = Some ?sb"
    by (rule update_var_same [OF law(1) u2]) simp_all
  with u1 update_var_other [OF law(2) u2] update_var_other [OF law(2) u3] update_var_fields [OF u2] update_var_fields [OF u3]
  show ?thesis by (simp add: same_mode_def value_of_def)
qed

lemma Init_CertDb_same_mode:
  assumes drv: "good_driver drv" and r: "Init_CertDb E drv st = Some (EFI_SUCCESS, st')"
  shows "same_mode E drv st st'"
proof -
  have law: "driver_law drv" "driver_frame drv" using drv by (auto simp: good_driver_def)
  from r obtain st1 s0 where
    c: "update_var drv st (wide ''certdb'') (gEfiCertDbGuid E) (enc32 4) (DbAttr EFI_VARIABLE_NON_VOLATILE) = (s0, st1) \<or>
        (\<exists>vs. CleanCertsFromDb drv (gEfiCertDbGuid E) (VarStore st) = Some (s0, vs) \<and> st1 = st\<lparr>VarStore := vs\<rparr>)"
    and u: "update_var drv st1 (wide ''certdbv'') (gEfiCertDbGuid E) (enc32 4) (DbAttr 0) = (EFI_SUCCESS, st')"
    by (auto simp: Init_CertDb_def option_inversion and_then_success split: prod.splits if_splits)
  from c have "same_mode E drv st st1"
    using update_var_same_mode [OF law(2), where E = E] CleanCertsFromDb_frame [OF law(1)]
    by (fastforce simp: same_mode_def)
  moreover have "same_mode E drv st1 st'"
    by (rule update_var_same_mode [OF law(2) u]) simp_all
  ultimately show ?thesis by (rule same_mode_trans)
qed

lemma Init_VendorKeys_same_mode:
  assumes drv: "good_driver drv" and r: "Init_VendorKeys E drv st = Some (EFI_SUCCESS, st')"
  shows "same_mode E drv st st'"
proof -
  have law: "driver_frame drv" using drv by (auto simp: good_driver_def)
  have v: "same_mode E drv st (st\<lparr>mVendorKeyState := k\<rparr>)" for k by (simp add: same_mode_def)
  from r obtain st1 d where
    u: "update_var drv st1 (wide ''VendorKeys'') (gEfiGlobalVariableGuid (Sig E)) d
        (attrs [EFI_VARIABLE_RUNTIME_ACCESS, EFI_VARIABLE_BOOTSERVICE_ACCESS]) = (EFI_SUCCESS, st')"
    and c: "same_mode E drv st st1"
    by (auto simp: Init_VendorKeys_def option_inversion and_then_success v split: prod.splits if_splits
        dest: same_mode_trans [OF v update_var_same_mode [OF law]])
  have "same_mode E drv st1 st'"
    by (rule update_var_same_mode [OF law u]) simp_all
  with c show ?thesis by (rule same_mode_trans)
qed

text \<open>
  C9: After a successful initialization the platform is in user mode exactly when PK exists, \<open>SetupMode\<close>
  holds the mode, and \<open>SecureBoot\<close> is 1 exactly when PK exists and the boot configuration does not set
  \<open>SecureBootEnabled\<close> to 0: a missing, unreadable or invalid setting leaves secure boot on.
\<close>

theorem AuthVariableLibInitialize_secure_boot:
  assumes "good_driver drv"
    and "AuthVariableLibInitialize E cfg HashPools StorePool MaxSize drv st = Some (EFI_SUCCESS, st')"
  shows "mPlatformMode st' = (if pk_present E drv (VarStore st) then USER_MODE else SETUP_MODE) \<and>
    mode_inv E drv st' \<and>
    value_of drv (VarStore st') (wide ''SecureBoot'') (gEfiGlobalVariableGuid (Sig E)) =
      Some [secure_boot_value cfg (pk_present E drv (VarStore st))]"
proof -
  let ?st = "st\<lparr>mMaxCertDbSize := ucast (MaxSize - 16)\<rparr>"
  from assms(2) obtain st1 st2 st3 where
    r: "Init_SetupMode E drv ?st = Some (EFI_SUCCESS, st1)" "Init_SecureBoot E cfg drv st1 = Some (EFI_SUCCESS, st2)"
      "Init_CertDb E drv st2 = Some (EFI_SUCCESS, st3)" "Init_VendorKeys E drv st3 = Some (EFI_SUCCESS, st')"
    by (auto simp: AuthVariableLibInitialize_def option_inversion and_then_success split: if_splits)
  note a = Init_SetupMode_sets [OF assms(1) r(1)]
  then have m: "mPlatformMode st1 = USER_MODE \<or> mPlatformMode st1 = SETUP_MODE" by simp
  note b = Init_SecureBoot_sets [OF assms(1) r(2) m]
  have c: "same_mode E drv st2 st'"
    using Init_CertDb_same_mode [OF assms(1) r(3)] Init_VendorKeys_same_mode [OF assms(1) r(4)] same_mode_trans by blast
  have "secure_boot_value cfg (mPlatformMode st1 = USER_MODE) = SECURE_BOOT_MODE_DISABLE"
    if "mPlatformMode st1 = SETUP_MODE" using that by (simp add: secure_boot_value_def mode_defs)
  with a b have "mode_inv E drv st2" using m by (auto simp: mode_inv_def value_of_def)
  with a b c show ?thesis
    using same_mode_inv [OF c] by (auto simp: same_mode_def value_of_def)
qed

section \<open>Instances\<close>

lemma map_driver_good [simp]: "good_driver map_driver"
proof -
  have "driver_frame map_driver" "driver_write map_driver" "\<not> AtRuntime map_driver st" for st
    by (auto simp: driver_frame_def driver_write_def map_driver_def split: option.splits)
  then show ?thesis by (simp add: good_driver_def)
qed

definition sample_auth_state :: "var_store auth_state" where
  "sample_auth_state =
     \<lparr>mPlatformMode = USER_MODE, mVendorKeyState = VENDOR_KEYS_VALID, mMaxCertDbSize = 0x1000, VarStore = auth_store,
      CallerData = sample_update 2021\<rparr>"

lemma sample_update_length: "length (sample_update y) < 2 ^ 64" "rd_time (sample_update y) = Some (sample_time y)"
proof -
  have G: "length (replicate 16 106 :: bytes) = 16" by simp
  note r = rd_auth2 [OF G, of "sample_update y" "sample_time y" sample_sig "enc_sls [sample_sigs [1]]"]
  show "length (sample_update y) < 2 ^ 64"
    using r(7) sample_payload(2) by (simp add: sample_update_def sample_sig_def)
  show "rd_time (sample_update y) = Some (sample_time y)" using r(1) by (simp add: sample_update_def)
qed

lemma sample_enforcing: "enforcing sample_auth_env map_driver sample_auth_state"
  using sample_kek_ok sample_update_length(1) by (simp add: enforcing_def sample_auth_state_def)

lemma sample_is_db:
  "is_db sample_sig_env (wide ''db'') (replicate 16 101)" "\<not> is_kek sample_sig_env (wide ''db'') (replicate 16 101)"
  "\<not> is_pk sample_sig_env (wide ''db'') (replicate 16 101)"
  by (simp_all add: is_db_def is_kek_def is_pk_def)

lemma sample_custom: "InCustomMode E map_driver auth_store = Some False"
  by (simp add: InCustomMode_def AuthServiceInternalFindVariable_def map_driver_def auth_store_def)

lemma sample_pk_refused:
  "VerifyTimeBasedPayload sample_auth_env map_driver 0x1000 auth_store (wide ''db'') (replicate 16 101)
     (sample_update 2021) 0x27 AuthVarTypePk (Some (sample_time 2020)) = Some (Inl EFI_SECURITY_VIOLATION, auth_store)"
proof -
  have "FindVariable map_driver auth_store (wide ''PK'') (replicate 16 100) =
      (EFI_NOT_FOUND, \<lparr>InfoData = None, InfoAttributes = 0, InfoTimeStamp = None\<rparr>)"
    by (simp add: map_driver_def auth_store_def)
  then have "Verify_Pk sample_auth_env map_driver auth_store s d = Some False" for s d
    by (simp add: Verify_Pk_def AuthServiceInternalFindVariable_def split: option.split)
  then show ?thesis
    by (intro VerifyTimeBasedPayload_enc [where ok = False, OF sample_signable sample_payload(1,2) map_driver_scratch,
          simplified])
      (use sample_payload(3) in \<open>simp_all add: sample_update_def Verify_by_type_def\<close>)
qed

lemma sample_db_time:
  "FindVariable map_driver auth_store (wide ''db'') (replicate 16 101) =
     (EFI_SUCCESS, \<lparr>InfoData = Some [], InfoAttributes = 0x27, InfoTimeStamp = Some (sample_time 2020)\<rparr>)"
  by (simp add: map_driver_def auth_store_def)

lemma sample_db_update:
  "\<exists>st'. AuthVariableLibProcessVariable sample_auth_env map_driver sample_auth_state (wide ''db'') (replicate 16 101) 0x27 =
     Some (EFI_SUCCESS, st')"
proof -
  have a: "nv_and_time 0x27" "\<not> has_attr 0x27 EFI_VARIABLE_APPEND_WRITE"
    by (simp_all add: nv_and_time_def has_attr_def attribute_defs)
  have u: "\<exists>st'. AuthServiceInternalUpdateVariableWithTimeStamp sample_auth_env map_driver sample_auth_state (wide ''db'')
      (replicate 16 101) off 0x27 t = Some (EFI_SUCCESS, st')" for off t
    using a(2) by (simp add: AuthServiceInternalUpdateVariableWithTimeStamp_def sample_auth_state_def map_driver_def
        AuthServiceInternalFindVariable_def auth_store_def Let_def)
  have pk: "ProcessVarWithPk sample_auth_env map_driver sample_auth_state (wide ''db'') (replicate 16 101) 0x27 False =
      Some (EFI_SECURITY_VIOLATION, sample_auth_state)"
    using sample_pk_refused sample_db_time sample_custom [of sample_auth_env] a
    by (simp add: ProcessVarWithPk_def VerifyTimeBasedPayloadAndUpdate_def sample_auth_state_def Pk_mode_change_def)
  have "\<exists>st'. ProcessVarWithKek sample_auth_env map_driver sample_auth_state (wide ''db'') (replicate 16 101) 0x27 =
      Some (EFI_SUCCESS, st')"
    using sample_verified sample_db_time sample_custom [of sample_auth_env] a u [of "40 + length sample_sig" "sample_time 2021"]
      sample_update_length(2) [of 2021]
    by (auto simp: ProcessVarWithKek_def VerifyTimeBasedPayloadAndUpdate_def sample_auth_state_def)
  with pk sample_is_db show ?thesis by (simp add: AuthVariableLibProcessVariable_def)
qed

theorem AuthVariableLibProcessVariable_authentic_witness:
  "\<exists>st'. AuthVariableLibProcessVariable sample_auth_env map_driver sample_auth_state (wide ''db'') (replicate 16 101) 0x27 =
       Some (EFI_SUCCESS, st') \<and>
     (update_verified sample_auth_env map_driver sample_auth_state (wide ''db'') (replicate 16 101) 0x27 AuthVarTypePk \<or>
      update_verified sample_auth_env map_driver sample_auth_state (wide ''db'') (replicate 16 101) 0x27 AuthVarTypeKek)"
proof -
  obtain st' where r: "AuthVariableLibProcessVariable sample_auth_env map_driver sample_auth_state (wide ''db'')
      (replicate 16 101) 0x27 = Some (EFI_SUCCESS, st')" using sample_db_update by blast
  from AuthVariableLibProcessVariable_authentic [OF sample_enforcing _ this] sample_is_db r show ?thesis by auto
qed

theorem AuthVariableLibProcessVariable_runtime_witness:
  "AuthVariableLibProcessVariable (sample_auth_env\<lparr>EfiAtRuntime := True\<rparr>) map_driver sample_auth_state (wide ''db'')
     (replicate 16 101) 0x27 = Some (EFI_WRITE_PROTECTED, sample_auth_state)"
proof (rule AuthVariableLibProcessVariable_runtime)
  show "enforcing (sample_auth_env\<lparr>EfiAtRuntime := True\<rparr>) map_driver sample_auth_state"
    using sample_enforcing by (simp add: enforcing_def kek_ok_def)
  show "nv_and_time 0x27" by (simp add: nv_and_time_def has_attr_def attribute_defs)
qed (simp_all add: sample_is_db sample_custom sample_auth_state_def)

theorem ProcessVariable_protected_witness:
  "ProcessVariable sample_auth_env map_driver sample_auth_state (wide ''db'') (replicate 16 101) 0x7 =
     Some (EFI_WRITE_PROTECTED, sample_auth_state)"
  using ProcessVariable_protected [of map_driver sample_auth_state "wide ''db''" "replicate 16 101" _ "0x7" sample_auth_env]
    sample_db_time
  by (simp add: sample_auth_state_def NeedPhysicallyPresent_def) (simp add: has_attr_def attribute_defs)

text \<open>Setup mode, with PK not required to be self-signed.\<close>

definition setup_env :: "bytes auth_env" where
  "setup_env = sample_auth_env\<lparr>PcdRequireSelfSignedPk := False\<rparr>"

definition setup_store :: var_store where
  "setup_store =
     [(wide ''SetupMode'', replicate 16 100) \<mapsto> ([1], 0x6, None), (wide ''SecureBoot'', replicate 16 100) \<mapsto> ([0], 0x6, None)]"

definition setup_state :: "var_store auth_state" where
  "setup_state =
     \<lparr>mPlatformMode = SETUP_MODE, mVendorKeyState = VENDOR_KEYS_VALID, mMaxCertDbSize = 0x1000, VarStore = setup_store,
      CallerData = sample_update 2021\<rparr>"

lemma setup_env_simps [simp]:
  "Sig setup_env = sample_sig_env" "IsVariablePolicyEnabled setup_env" "\<not> PcdRequireSelfSignedPk setup_env"
  "\<not> UserPhysicalPresent setup_env" "gEfiCustomModeEnableGuid setup_env = replicate 16 103"
  "gEfiSecureBootEnableDisableGuid setup_env = replicate 16 102"
  by (simp_all add: setup_env_def) (simp_all add: sample_auth_env_def)

lemma map_driver_ops:
  "FindVariable map_driver = (\<lambda>st n g. case st (n, g) of
       None \<Rightarrow> (EFI_NOT_FOUND, \<lparr>InfoData = None, InfoAttributes = 0, InfoTimeStamp = None\<rparr>)
     | Some (d, a, t) \<Rightarrow> (EFI_SUCCESS, \<lparr>InfoData = Some d, InfoAttributes = a, InfoTimeStamp = t\<rparr>))"
  "\<not> has_attr a EFI_VARIABLE_APPEND_WRITE \<Longrightarrow> UpdateVariable map_driver st n g d a t =
     (EFI_SUCCESS, if d = [] then st((n, g) := None) else st((n, g) \<mapsto> (d, a, t)))"
  "WriteFound map_driver st n g d = st((n, g) := map_option (\<lambda>(_, a, t). (d, a, t)) (st (n, g)))"
  "AtRuntime map_driver st = False"
  by (simp_all add: map_driver_def)

lemma map_driver_update_var:
  "\<not> has_attr a EFI_VARIABLE_APPEND_WRITE \<Longrightarrow> update_var map_driver st n g d a =
     (EFI_SUCCESS, st\<lparr>VarStore := if d = [] then (VarStore st)((n, g) := None) else (VarStore st)((n, g) \<mapsto> (d, a, None))\<rparr>)"
  by (simp add: update_var_def AuthServiceInternalUpdateVariable_def map_driver_ops)

lemma setup_mode_inv: "mode_inv setup_env map_driver setup_state"
  by (simp add: mode_inv_def setup_state_def setup_store_def value_of_def map_driver_ops mode_defs)

lemma sample_update_size: "AUTHINFO2_SIZE (sample_update y) = Some (40 + length sample_sig)"
  "40 + length sample_sig < length (sample_update y)"
  "drop (40 + length sample_sig) (sample_update y) = enc_sls [sample_sigs [1]]"
proof -
  have G: "length (replicate 16 106 :: bytes) = 16" by simp
  note r = rd_auth2 [OF G, of "sample_update y" "sample_time y" sample_sig "enc_sls [sample_sigs [1]]"]
  have "unat (word_of_nat (24 + length sample_sig) :: u32) = 24 + length sample_sig"
    by (rule u32_len) (simp add: sample_sig_def)
  then show "AUTHINFO2_SIZE (sample_update y) = Some (40 + length sample_sig)"
    using r(2) by (simp add: AUTHINFO2_SIZE_def sample_update_def del: of_nat_add)
  show "40 + length sample_sig < length (sample_update y)"
    using r(7) sample_payload(1) by (simp add: sample_update_def del: enc_sls_simps)
  have "drop (length sample_sig) (drop 40 (sample_update y)) = enc_sls [sample_sigs [1]]"
    using r(5) by (simp add: sample_update_def del: enc_sls_simps)
  then show "drop (40 + length sample_sig) (sample_update y) = enc_sls [sample_sigs [1]]"
    by (simp add: add.commute)
qed

lemma setup_enrol:
  "\<exists>st'. AuthVariableLibProcessVariable setup_env map_driver setup_state (wide ''PK'') (replicate 16 100) 0x27 =
     Some (EFI_SUCCESS, st')"
proof -
  have a: "nv_and_time 0x27" "\<not> has_attr 0x27 EFI_VARIABLE_APPEND_WRITE"
    by (simp_all add: nv_and_time_def has_attr_def attribute_defs)
  have pk: "is_pk sample_sig_env (wide ''PK'') (replicate 16 100)" by (simp add: is_pk_def)
  have c: "InCustomMode setup_env map_driver setup_store = Some False"
    by (simp add: InCustomMode_def AuthServiceInternalFindVariable_def map_driver_ops setup_store_def)
  have chk: "CheckSignatureListFormat sample_sig_env (wide ''PK'') (replicate 16 100) (enc_sls [sample_sigs [1]]) =
      Some EFI_SUCCESS"
    using CheckSignatureListFormat_enc [of "[sample_sigs [1]]" sample_sig_env "wide ''PK''" "replicate 16 100"]
      sample_payload(2) pk
    by (simp add: sample_sigs_supported del: enc_sls_simps) (simp add: sig_total_def sample_sigs_def)
  let ?st = "setup_state\<lparr>VarStore := setup_store((wide ''PK'', replicate 16 100) \<mapsto>
      (enc_sls [sample_sigs [1]], 0x27, Some (sample_time 2021)))\<rparr>"
  have u: "update_payload setup_env map_driver setup_state (wide ''PK'') (replicate 16 100) 0x27 True =
      Some (EFI_SUCCESS, False, ?st)"
    using sample_update_size [of 2021] chk sample_update_length(2) [of 2021] a(2) sample_payload(1)
    by (simp add: update_payload_def setup_state_def AuthServiceInternalUpdateVariableWithTimeStamp_def
        AuthServiceInternalFindVariable_def map_driver_ops setup_store_def del: enc_sls_simps)
  have "\<exists>st'. UpdatePlatformMode setup_env map_driver ?st USER_MODE = Some (EFI_SUCCESS, st')"
    by (simp add: UpdatePlatformMode_def AuthServiceInternalFindVariable_def map_driver_ops setup_store_def setup_state_def
        rd_def patch_def map_driver_update_var Let_def) (simp add: mode_defs)
  with u c a pk show ?thesis
    by (simp add: AuthVariableLibProcessVariable_def ProcessVarWithPk_def setup_state_def Pk_mode_change_def)
qed

theorem AuthVariableLibProcessVariable_pk_mode_witness:
  "\<exists>st'. AuthVariableLibProcessVariable setup_env map_driver setup_state (wide ''PK'') (replicate 16 100) 0x27 =
       Some (EFI_SUCCESS, st') \<and> mode_inv setup_env map_driver st' \<and> mPlatformMode st' = USER_MODE \<and>
     secure_boot_var setup_env map_driver st' = Some [SECURE_BOOT_MODE_ENABLE]"
proof -
  obtain st' where r: "AuthVariableLibProcessVariable setup_env map_driver setup_state (wide ''PK'') (replicate 16 100) 0x27 =
      Some (EFI_SUCCESS, st')" using setup_enrol by blast
  have pk: "is_pk (Sig setup_env) (wide ''PK'') (replicate 16 100)" by (simp add: is_pk_def)
  have "pk_free setup_env map_driver setup_state" by (simp add: pk_free_def setup_state_def)
  with AuthVariableLibProcessVariable_pk_mode [OF map_driver_good setup_mode_inv pk r] r sample_update_size [of 2021]
  show ?thesis by (auto simp: setup_state_def mode_defs)
qed

text \<open>A first boot with PK enrolled and no boot configuration.\<close>

definition pk_store :: var_store where
  "pk_store = [(wide ''PK'', replicate 16 100) \<mapsto> ([1], 0x27, None)]"

definition boot_state :: "var_store auth_state" where
  "boot_state =
     \<lparr>mPlatformMode = SETUP_MODE, mVendorKeyState = 0, mMaxCertDbSize = 0, VarStore = pk_store, CallerData = []\<rparr>"

definition no_config :: boot_config_state where
  "no_config = \<lparr>gAndromedaBootConfigBuffer = None, ConfigHob = None\<rparr>"

lemma no_config_value: "GetAndromedaUefiConfigUint32ByName no_config (Some k) True \<noteq> Inr 0"
  by (simp add: GetAndromedaUefiConfigUint32ByName_def GetAndromedaBootConfigUint32_def GetAndromedaBootConfigUint64_def
      GetAndromedaBootConfigValue_def GetBootConfig_def no_config_def split: option.splits)

lemma sample_env_guids [simp]:
  "gEfiSecureBootEnableDisableGuid sample_auth_env = replicate 16 102"
  "gEfiCustomModeEnableGuid sample_auth_env = replicate 16 103"
  "gEfiCertDbGuid sample_auth_env = replicate 16 104" "gEfiVendorKeysNvGuid sample_auth_env = replicate 16 105"
  by (simp_all add: sample_auth_env_def)

lemma enc32_ne [simp]: "enc32 w \<noteq> []"
  by (simp add: enc32_def)

text \<open>On the map driver every stage succeeds and keeps the variables it does not name.\<close>

lemma map_driver_init:
  assumes "VarStore st (wide ''certdb'', replicate 16 104) = None"
    "VarStore st (wide ''VendorKeysNv'', replicate 16 105) = None"
  shows "\<exists>st'. AuthVariableLibInitialize sample_auth_env cfg True True m map_driver st = Some (EFI_SUCCESS, st')"
proof -
  have vk: "\<not> has_attr (attrs [EFI_VARIABLE_NON_VOLATILE, EFI_VARIABLE_BOOTSERVICE_ACCESS,
      EFI_VARIABLE_TIME_BASED_AUTHENTICATED_WRITE_ACCESS]) EFI_VARIABLE_APPEND_WRITE"
    by (simp add: has_attr_def attrs_def attribute_defs)
  let ?fresh = "\<lambda>st n g. VarStore st (wide n, replicate 16 g) = None"
  have s1: "\<exists>st1. Init_SetupMode sample_auth_env map_driver st = Some (EFI_SUCCESS, st1) \<and>
      ?fresh st1 ''certdb'' 104 \<and> ?fresh st1 ''VendorKeysNv'' 105"
    if "?fresh st ''certdb'' 104" "?fresh st ''VendorKeysNv'' 105" for st
    using that by (simp add: Init_SetupMode_def and_then_def map_driver_update_var Let_def split: prod.split)
  have s2: "\<exists>st1. Init_SecureBoot sample_auth_env cfg map_driver st = Some (EFI_SUCCESS, st1) \<and>
      ?fresh st1 ''certdb'' 104 \<and> ?fresh st1 ''VendorKeysNv'' 105"
    if "?fresh st ''certdb'' 104" "?fresh st ''VendorKeysNv'' 105" for st
    using that by (simp add: Init_SecureBoot_def and_then_def map_driver_update_var Let_def split: prod.split)
  have s3: "\<exists>st1. Init_CertDb sample_auth_env map_driver st = Some (EFI_SUCCESS, st1) \<and> ?fresh st1 ''VendorKeysNv'' 105"
    if "?fresh st ''certdb'' 104" "?fresh st ''VendorKeysNv'' 105" for st
    using that by (simp add: Init_CertDb_def and_then_def map_driver_update_var AuthServiceInternalFindVariable_def map_driver_ops)
  have s4: "\<exists>st1. Init_VendorKeys sample_auth_env map_driver st = Some (EFI_SUCCESS, st1)"
    if "?fresh st ''VendorKeysNv'' 105" for st
    using that vk by (simp add: Init_VendorKeys_def and_then_def map_driver_update_var AuthServiceInternalFindVariable_def map_driver_ops)
  obtain st1 where 1: "Init_SetupMode sample_auth_env map_driver (st\<lparr>mMaxCertDbSize := ucast (m - 16)\<rparr>) = Some (EFI_SUCCESS, st1)"
    "?fresh st1 ''certdb'' 104" "?fresh st1 ''VendorKeysNv'' 105"
    using s1 [of "st\<lparr>mMaxCertDbSize := ucast (m - 16)\<rparr>"] assms by auto
  obtain st2 where 2: "Init_SecureBoot sample_auth_env cfg map_driver st1 = Some (EFI_SUCCESS, st2)"
    "?fresh st2 ''certdb'' 104" "?fresh st2 ''VendorKeysNv'' 105" using s2 [OF 1(2,3)] by auto
  obtain st3 where 3: "Init_CertDb sample_auth_env map_driver st2 = Some (EFI_SUCCESS, st3)" "?fresh st3 ''VendorKeysNv'' 105"
    using s3 [OF 2(2,3)] by auto
  from 1(1) 2(1) 3(1) s4 [OF 3(2)] show ?thesis by (auto simp: AuthVariableLibInitialize_def and_then_def)
qed

theorem AuthVariableLibInitialize_secure_boot_witness:
  "\<exists>st'. AuthVariableLibInitialize sample_auth_env no_config True True 0x1000 map_driver boot_state = Some (EFI_SUCCESS, st') \<and>
     mPlatformMode st' = USER_MODE \<and>
     value_of map_driver (VarStore st') (wide ''SecureBoot'') (replicate 16 100) = Some [1]"
proof -
  obtain st' where r: "AuthVariableLibInitialize sample_auth_env no_config True True 0x1000 map_driver boot_state =
      Some (EFI_SUCCESS, st')"
    using map_driver_init [of boot_state no_config "0x1000"] by (auto simp: boot_state_def pk_store_def)
  have "pk_present sample_auth_env map_driver (VarStore boot_state)"
    by (simp add: pk_present_def boot_state_def pk_store_def map_driver_ops)
  with AuthVariableLibInitialize_secure_boot [OF map_driver_good r] r no_config_value [of "''SecureBootEnabled''"]
  show ?thesis by (simp add: secure_boot_value_def)
qed

end
