(* ===== verification/Ab_Slots.thy ===== *)
theory Ab_Slots
  imports Byte_Buffer "HOL-Library.Sublist"
begin

unbundle bit_operations_syntax

text \<open>
  The A/B slot logic of the Android loader (\<^verbatim>\<open>BootLib/PartitionTableUpdate.c\<close>): the table of
  partitions read from the storage device, the choice of the active slot from the attribute bits of
  the two boot partitions, the switch to the other slot, and the retry counter. A name is the list of
  its characters before the NUL in an array of 36; a name of 36 characters has no NUL, and a scan that
  passes its end is the value \<open>None\<close>. The attribute words are related to a record of the A/B fields by
  \<open>slot_view\<close>, on which the lemmas about the operations are stated.
\<close>

section \<open>Data\<close>

datatype MemCardType = EMMC | UFS | NAND | UNKNOWN

record PartitionEntry =
  PartitionTypeGUID :: bytes
  UniquePartitionGUID :: bytes
  StartingLBA :: u64
  EndingLBA :: u64
  Attributes :: u64
  PartitionName :: name16
  lun :: u32

text \<open>
  \<open>Ptable\<close> holds, for each handle of a LUN, its partition record if it has one; \<open>MaxLuns\<close> is its
  length. \<open>PtnEntries\<close> are the first \<open>PartitionCount\<close> elements of the array. \<open>BootLun\<close> is the boot LUN
  set in the UFS device, and \<open>ResetRequested\<close> records a call of \<open>ResetSystem\<close>.
\<close>

text \<open>
  The two halves of \<open>NandABAttr\<close>, the attributes and names kept in the misc partition of a NAND device.
\<close>

record NandABPtnHeader =
  NandAttributes :: u8
  SlotName :: name16

record ab_state =
  Ptable :: "PartitionEntry option list list"
  PtnEntries :: "PartitionEntry list"
  PtnEntriesBak :: "PartitionEntry list"
  FirstBoot :: bool
  HeadNode :: "name16 list"
  BootLun :: u32
  ResetRequested :: bool
  Misc :: "NandABPtnHeader list"

datatype root_device = NandRoot | EmmcRoot | UfsLU nat

text \<open>
  The environment: the type of the storage device, build options, and the results of the protocols the
  code calls. \<open>BlkIOHandles\<close> gives the status and the handles \<open>GetBlkIOHandles\<close> stored for a root device.
\<close>

record ab_env =
  CheckRootDeviceType :: MemCardType
  TargetBuildVariantUser :: bool
  IsABRetryCountDisabled :: bool
  IsBootDevImage :: bool
  IsABRetryCountUpdateRequired :: bool
  UfsHandles :: efi_status
  CardInfoProtocol :: efi_status
  CardInfoRevision :: bool
  BootLU :: efi_status
  PoolOk :: "nat \<Rightarrow> bool"
  NandMiscPartiGuid :: efi_status
  MiscRead :: efi_status
  MiscWrite :: efi_status
  BlkIOHandles :: "root_device \<Rightarrow> efi_status \<times> PartitionEntry option list"

section \<open>Attribute bits\<close>

definition PART_ATT_PRIORITY_VAL :: u64 where "PART_ATT_PRIORITY_VAL = push_bit 48 3"
definition PART_ATT_ACTIVE_VAL :: u64 where "PART_ATT_ACTIVE_VAL = push_bit 50 1"
definition PART_ATT_MAX_RETRY_COUNT_VAL :: u64 where "PART_ATT_MAX_RETRY_COUNT_VAL = push_bit 51 7"
definition PART_ATT_SUCCESSFUL_VAL :: u64 where "PART_ATT_SUCCESSFUL_VAL = push_bit 54 1"
definition PART_ATT_UNBOOTABLE_VAL :: u64 where "PART_ATT_UNBOOTABLE_VAL = push_bit 55 1"
definition MAX_PRIORITY :: u64 where "MAX_PRIORITY = 3"
definition MAX_NUM_PARTITIONS :: nat where "MAX_NUM_PARTITIONS = 128"
definition BOOT_PART_SIZE :: nat where "BOOT_PART_SIZE = 32"
definition NAME_SIZE :: nat where "NAME_SIZE = 36"

section \<open>Wide-string functions\<close>

definition StrnCmp_eq :: "name16 \<Rightarrow> name16 \<Rightarrow> nat \<Rightarrow> bool" where
  "StrnCmp_eq a b n \<longleftrightarrow> take n a = take n b"

definition StrLen :: "name16 \<Rightarrow> nat option" where
  "StrLen a = (if length a < NAME_SIZE then Some (length a) else None)"

definition StrStr :: "name16 \<Rightarrow> name16 \<Rightarrow> bool option" where
  "StrStr a b = (if sublist b a then Some True else if length a < NAME_SIZE then Some False else None)"

definition name_at :: "name16 \<Rightarrow> nat \<Rightarrow> u16 option" where
  "name_at a i = (if i < length a then Some (a ! i) else if i < NAME_SIZE then Some 0 else None)"

text \<open>\<open>StrnCatS\<close> into an array of \<open>BOOT_PART_SIZE\<close> leaves the array alone when the result does not fit.\<close>

definition StrnCatS :: "name16 \<Rightarrow> name16 \<Rightarrow> name16" where
  "StrnCatS a b = (if length a + length b < BOOT_PART_SIZE then a @ b else a)"

section \<open>Looking up partitions\<close>

fun first_index :: "('a \<Rightarrow> bool) \<Rightarrow> 'a list \<Rightarrow> nat option" where
  "first_index P [] = None"
| "first_index P (x # xs) = (if P x then Some 0 else map_option Suc (first_index P xs))"

definition GetPartitionIndex :: "ab_state \<Rightarrow> name16 \<Rightarrow> nat option" where
  "GetPartitionIndex S Pname = first_index (\<lambda>e. StrnCmp_eq (PartitionName e) Pname NAME_SIZE) (PtnEntries S)"

fun PartitionIdxInLun_loop :: "name16 \<Rightarrow> u32 \<Rightarrow> PartitionEntry list \<Rightarrow> nat \<Rightarrow> nat option" where
  "PartitionIdxInLun_loop Pname Lun [] RelativeIndex = None"
| "PartitionIdxInLun_loop Pname Lun (e # es) RelativeIndex =
     (if Lun = lun e then
        if StrnCmp_eq Pname (PartitionName e) NAME_SIZE then Some RelativeIndex
        else PartitionIdxInLun_loop Pname Lun es (Suc RelativeIndex)
      else PartitionIdxInLun_loop Pname Lun es RelativeIndex)"

definition GetPartitionIdxInLun :: "ab_state \<Rightarrow> name16 \<Rightarrow> u32 \<Rightarrow> nat option" where
  "GetPartitionIdxInLun S Pname Lun = PartitionIdxInLun_loop Pname Lun (PtnEntries S) 0"

definition GetPartitionEntry :: "ab_state \<Rightarrow> name16 \<Rightarrow> nat option" where
  "GetPartitionEntry S Partition = GetPartitionIndex S Partition"

definition GetBootPartitionEntry :: "ab_state \<Rightarrow> name16 \<Rightarrow> nat option" where
  "GetBootPartitionEntry S Suffix =
     (if StrnCmp_eq (wide ''_a'') Suffix (length Suffix) then GetPartitionIndex S (wide ''boot_a'')
      else if StrnCmp_eq (wide ''_b'') Suffix (length Suffix) then GetPartitionIndex S (wide ''boot_b'')
      else None)"

definition Attr :: "ab_state \<Rightarrow> nat \<Rightarrow> u64" where
  "Attr S i = Attributes (PtnEntries S ! i)"

definition set_Attr :: "nat \<Rightarrow> u64 \<Rightarrow> ab_state \<Rightarrow> ab_state" where
  "set_Attr i a S = S\<lparr>PtnEntries := (PtnEntries S)[i := (PtnEntries S ! i)\<lparr>Attributes := a\<rparr>]\<rparr>"

fun MultiSlot_loop :: "name16 \<Rightarrow> PartitionEntry list \<Rightarrow> nat \<Rightarrow> bool option" where
  "MultiSlot_loop Pname [] SlotCount = Some False"
| "MultiSlot_loop Pname (e # es) SlotCount =
     (if StrnCmp_eq (PartitionName e) Pname (length Pname) then
        do { c \<leftarrow> name_at (PartitionName e) (length Pname);
             if c = word_of_nat (ord8 (CHR ''_'')) then
               do { d \<leftarrow> name_at (PartitionName e) (length Pname + 1);
                    if d = word_of_nat (ord8 (CHR ''a'')) \<or> d = word_of_nat (ord8 (CHR ''b''))
                    then if Suc SlotCount > 1 then Some True else MultiSlot_loop Pname es (Suc SlotCount)
                    else MultiSlot_loop Pname es SlotCount }
             else MultiSlot_loop Pname es SlotCount }
      else MultiSlot_loop Pname es SlotCount)"

definition PartitionHasMultiSlot :: "ab_state \<Rightarrow> name16 \<Rightarrow> bool option" where
  "PartitionHasMultiSlot S Pname = MultiSlot_loop Pname (PtnEntries S) 0"

section \<open>Attributes of the table\<close>

text \<open>
  The comparison with the backup copy is commented out in the source, so \<open>UpdatePartitionAttributes\<close>
  returns at its first statement: nothing is ever written to the device.
\<close>

definition IsUpdatePartitionAttributes :: "ab_state \<Rightarrow> bool" where
  "IsUpdatePartitionAttributes S = False"

definition UpdatePartitionAttributes :: "ab_state \<Rightarrow> ab_state" where
  "UpdatePartitionAttributes S = S"

fun MarkPtn_loop :: "name16 \<Rightarrow> PartitionEntry list \<Rightarrow> PartitionEntry list option" where
  "MarkPtn_loop ActiveSlot [] = Some []"
| "MarkPtn_loop ActiveSlot (e # es) =
     do { found \<leftarrow> StrStr (PartitionName e) ActiveSlot;
          es' \<leftarrow> MarkPtn_loop ActiveSlot es;
          Some ((if found then e\<lparr>Attributes := Attributes e OR PART_ATT_ACTIVE_VAL\<rparr>
                 else e\<lparr>Attributes := Attributes e AND NOT PART_ATT_ACTIVE_VAL\<rparr>) # es') }"

definition MarkPtnActive :: "name16 \<Rightarrow> ab_state \<Rightarrow> ab_state option" where
  "MarkPtnActive ActiveSlot S =
     do { es \<leftarrow> MarkPtn_loop ActiveSlot (PtnEntries S);
          Some (UpdatePartitionAttributes (S\<lparr>PtnEntries := es\<rparr>)) }"

definition SwapPtnGuid :: "nat option \<Rightarrow> nat option \<Rightarrow> PartitionEntry list \<Rightarrow> PartitionEntry list" where
  "SwapPtnGuid p1 p2 es =
     (case (p1, p2) of
        (Some i, Some j) \<Rightarrow>
          (let Temp = PartitionTypeGUID (es ! i);
               es = es[i := (es ! i)\<lparr>PartitionTypeGUID := PartitionTypeGUID (es ! j)\<rparr>]
           in es[j := (es ! j)\<lparr>PartitionTypeGUID := Temp\<rparr>])
      | _ \<Rightarrow> es)"

section \<open>The list of two-slot partitions\<close>

fun MultiSlotParts_partner :: "name16 \<Rightarrow> name16 list \<Rightarrow> bool option" where
  "MultiSlotParts_partner SearchString [] = Some False"
| "MultiSlotParts_partner SearchString (n # ns) =
     (if n = [] then MultiSlotParts_partner SearchString ns
      else do { Len \<leftarrow> StrLen SearchString;
                PtnLen \<leftarrow> StrLen n;
                if PtnLen = Len \<and> StrnCmp_eq n SearchString (Len - 1) \<and>
                   (sublist (wide ''_a'') SearchString \<or> sublist (wide ''_b'') SearchString)
                then Some True
                else MultiSlotParts_partner SearchString ns })"

text \<open>
  The node's array has \<open>BOOT_PART_SIZE\<close> elements, but \<open>StrnCpyS\<close> is given its size in bytes: a name
  of 34 or more characters is written past its end.
\<close>

fun MultiSlotParts_loop :: "ab_env \<Rightarrow> name16 list \<Rightarrow> name16 list \<Rightarrow> (efi_status \<times> name16 list) option" where
  "MultiSlotParts_loop E [] Head = Some (EFI_SUCCESS, Head)"
| "MultiSlotParts_loop E (s # ss) Head =
     (if s = [] then MultiSlotParts_loop E ss Head
      else do { p \<leftarrow> MultiSlotParts_partner s ss;
                if p then
                  if PoolOk E (length Head) then
                    if length s - 2 < BOOT_PART_SIZE
                    then MultiSlotParts_loop E ss (take (length s - 2) s # Head)
                    else None
                  else Some (EFI_OUT_OF_RESOURCES, Head)
                else MultiSlotParts_loop E ss Head })"

definition GetMultiSlotPartsList :: "ab_env \<Rightarrow> ab_state \<Rightarrow> (efi_status \<times> ab_state) option" where
  "GetMultiSlotPartsList E S =
     do { (Status, Head) \<leftarrow> MultiSlotParts_loop E (map PartitionName (PtnEntries S)) (HeadNode S);
          Some (Status, S\<lparr>HeadNode := Head\<rparr>) }"

section \<open>Switching the slot\<close>

definition UfsGetSetBootLun_status :: "ab_env \<Rightarrow> efi_status" where
  "UfsGetSetBootLun_status E =
     (if EFI_ERROR (UfsHandles E) then EFI_NOT_FOUND
      else if CardInfoProtocol E \<noteq> EFI_SUCCESS then CardInfoProtocol E
      else if \<not> CardInfoRevision E then EFI_NOT_FOUND
      else EFI_SUCCESS)"

definition UfsGetBootLun :: "ab_env \<Rightarrow> ab_state \<Rightarrow> u32 \<Rightarrow> efi_status \<times> u32" where
  "UfsGetBootLun E S UfsBootLun =
     (UfsGetSetBootLun_status E,
      if UfsGetSetBootLun_status E = EFI_SUCCESS \<and> BootLU E = EFI_SUCCESS then BootLun S else UfsBootLun)"

definition UfsSetBootLun :: "ab_env \<Rightarrow> u32 \<Rightarrow> ab_state \<Rightarrow> ab_state" where
  "UfsSetBootLun E UfsBootLun S =
     (if UfsGetSetBootLun_status E = EFI_SUCCESS \<and> BootLU E = EFI_SUCCESS
      then S\<lparr>BootLun := UfsBootLun\<rparr> else S)"

fun Switch_find ::
  "name16 \<Rightarrow> name16 \<Rightarrow> nat \<Rightarrow> PartitionEntry list \<Rightarrow> nat option \<Rightarrow> nat option \<Rightarrow> nat option \<times> nat option" where
  "Switch_find CurSlot NewSlot i [] PtnCurrent PtnNew = (PtnCurrent, PtnNew)"
| "Switch_find CurSlot NewSlot i (e # es) PtnCurrent PtnNew =
     (if StrnCmp_eq (PartitionName e) CurSlot (length CurSlot)
      then Switch_find CurSlot NewSlot (Suc i) es (Some i) PtnNew
      else if StrnCmp_eq (PartitionName e) NewSlot (length NewSlot)
      then Switch_find CurSlot NewSlot (Suc i) es PtnCurrent (Some i)
      else Switch_find CurSlot NewSlot (Suc i) es PtnCurrent PtnNew)"

definition Switch_node :: "name16 \<Rightarrow> name16 \<Rightarrow> name16 \<Rightarrow> PartitionEntry list \<Rightarrow> PartitionEntry list" where
  "Switch_node SetActive SetInactive PartName es =
     (let (PtnCurrent, PtnNew) =
            Switch_find (StrnCatS PartName SetInactive) (StrnCatS PartName SetActive) 0 es None None
      in SwapPtnGuid PtnCurrent PtnNew es)"

definition Switch_lun :: "ab_env \<Rightarrow> name16 \<Rightarrow> ab_state \<Rightarrow> ab_state" where
  "Switch_lun E SetActive S =
     (if CheckRootDeviceType E = UFS then
        (let UfsBootLun = snd (UfsGetBootLun E S 0)
         in UfsSetBootLun E
              (if UfsBootLun = 1 \<and> StrnCmp_eq SetActive (wide ''_b'') 2 then 2
               else if UfsBootLun = 2 \<and> StrnCmp_eq SetActive (wide ''_a'') 2 then 1
               else UfsBootLun) S)
      else S)"

definition SwitchPtnSlots :: "ab_env \<Rightarrow> name16 \<Rightarrow> ab_state \<Rightarrow> ab_state option" where
  "SwitchPtnSlots E SetActive S =
     (let SetInactive = (if StrnCmp_eq SetActive (wide ''_a'') 2 then wide ''_b'' else wide ''_a'') in
      do { (Status, S) \<leftarrow> (if HeadNode S = [] then GetMultiSlotPartsList E S else Some (EFI_SUCCESS, S));
           if Status \<noteq> EFI_SUCCESS then Some S
           else
             (let S = S\<lparr>PtnEntries := fold (Switch_node SetActive SetInactive) (HeadNode S) (PtnEntries S)\<rparr>
              in Some (UpdatePartitionAttributes (Switch_lun E SetActive S))) })"

section \<open>The active slot\<close>

definition Slots :: "name16 list" where
  "Slots = [wide ''_a'', wide ''_b'']"

definition BootPriority :: "u64 \<Rightarrow> u64" where
  "BootPriority a = drop_bit 48 (a AND PART_ATT_PRIORITY_VAL)"

definition RetryCount :: "u64 \<Rightarrow> u64" where
  "RetryCount a = drop_bit 51 (a AND PART_ATT_MAX_RETRY_COUNT_VAL)"

definition Unbootable :: "u64 \<Rightarrow> u64" where
  "Unbootable a = drop_bit 55 (a AND PART_ATT_UNBOOTABLE_VAL)"

definition BootSuccess :: "u64 \<Rightarrow> u64" where
  "BootSuccess a = drop_bit 54 (a AND PART_ATT_SUCCESSFUL_VAL)"

fun ActiveSlot_loop :: "ab_state \<Rightarrow> name16 list \<Rightarrow> u64 \<Rightarrow> name16 \<Rightarrow> efi_status \<times> name16" where
  "ActiveSlot_loop S [] Priority ActiveSlot = (EFI_SUCCESS, ActiveSlot)"
| "ActiveSlot_loop S (s # ss) Priority ActiveSlot =
     (case GetBootPartitionEntry S s of
        None \<Rightarrow> (EFI_NOT_FOUND, ActiveSlot)
      | Some BootPartition \<Rightarrow>
          (let a = Attr S BootPartition
           in if a AND PART_ATT_ACTIVE_VAL \<noteq> 0 \<and> BootPriority a > Priority
              then ActiveSlot_loop S ss (BootPriority a) s
              else ActiveSlot_loop S ss Priority ActiveSlot))"

definition IsSuffixEmpty :: "name16 option \<Rightarrow> bool" where
  "IsSuffixEmpty CheckSlot = (case CheckSlot of None \<Rightarrow> True | Some Suffix \<Rightarrow> length Suffix = 0)"

definition FirstBoot_attr :: "u64 \<Rightarrow> u64" where
  "FirstBoot_attr a =
     a AND (NOT PART_ATT_SUCCESSFUL_VAL AND NOT PART_ATT_UNBOOTABLE_VAL) OR
     (PART_ATT_PRIORITY_VAL OR PART_ATT_ACTIVE_VAL OR PART_ATT_MAX_RETRY_COUNT_VAL)"

definition GetActiveSlot :: "name16 \<Rightarrow> ab_state \<Rightarrow> efi_status \<times> name16 \<times> ab_state" where
  "GetActiveSlot ActiveSlot S =
     (let (Status, ActiveSlot) = ActiveSlot_loop S Slots 0 ActiveSlot
      in if EFI_ERROR Status then (Status, ActiveSlot, S)
         else if IsSuffixEmpty (Some ActiveSlot) then
           (case GetBootPartitionEntry S (Slots ! 0) of
              None \<Rightarrow> (EFI_NOT_FOUND, ActiveSlot, S)
            | Some SlotA \<Rightarrow>
                (let a = Attr S SlotA
                 in if a AND PART_ATT_ACTIVE_VAL = 0 \<and> a AND PART_ATT_SUCCESSFUL_VAL = 0 \<and>
                       a AND PART_ATT_UNBOOTABLE_VAL = 0 \<and> BootPriority a = 0
                    then (EFI_SUCCESS, Slots ! 0,
                          (UpdatePartitionAttributes (set_Attr SlotA (FirstBoot_attr a) S))\<lparr>FirstBoot := True\<rparr>)
                    else (EFI_NOT_FOUND, ActiveSlot, S)))
         else (EFI_SUCCESS, ActiveSlot, S))"

definition FindPtnActiveSlot :: "ab_state \<Rightarrow> ab_state" where
  "FindPtnActiveSlot S = snd (snd (GetActiveSlot [] S))"

definition GetCurrentSlotSuffix :: "ab_state \<Rightarrow> (name16 \<times> ab_state) option" where
  "GetCurrentSlotSuffix S =
     do { IsMultiSlot \<leftarrow> PartitionHasMultiSlot S (wide ''boot'');
          Some (if \<not> IsMultiSlot then ([], S) else snd (GetActiveSlot [] S)) }"

definition IsCurrentSlotBootable :: "ab_state \<Rightarrow> bool \<times> ab_state" where
  "IsCurrentSlotBootable S =
     (let (Status, CurrentSlot, S) = GetActiveSlot [] S
      in if Status \<noteq> EFI_SUCCESS then (False, S)
         else case GetBootPartitionEntry S CurrentSlot of
                None \<Rightarrow> (False, S)
              | Some BootPartition \<Rightarrow>
                  (Attr S BootPartition AND PART_ATT_UNBOOTABLE_VAL = 0 \<and>
                   Attr S BootPartition AND PART_ATT_SUCCESSFUL_VAL \<noteq> 0, S))"

section \<open>Setting the active slot\<close>

definition Activate_attr :: "bool \<Rightarrow> u64 \<Rightarrow> u64" where
  "Activate_attr ResetSuccessBit a =
     (let a = a OR (PART_ATT_PRIORITY_VAL OR PART_ATT_ACTIVE_VAL OR PART_ATT_MAX_RETRY_COUNT_VAL);
          a = a AND NOT PART_ATT_UNBOOTABLE_VAL
      in if ResetSuccessBit \<and> a AND PART_ATT_SUCCESSFUL_VAL \<noteq> 0
         then a AND NOT PART_ATT_SUCCESSFUL_VAL else a)"

definition Deactivate_attr :: "u64 \<Rightarrow> u64" where
  "Deactivate_attr a =
     a AND (NOT PART_ATT_PRIORITY_VAL AND NOT PART_ATT_ACTIVE_VAL) OR push_bit 48 (MAX_PRIORITY - 1)"

definition AlternateSlot :: "name16 \<Rightarrow> name16" where
  "AlternateSlot s = (if StrnCmp_eq s (Slots ! 0) 2 then Slots ! 1 else Slots ! 0)"

definition Match_lun :: "ab_env \<Rightarrow> name16 \<Rightarrow> ab_state \<Rightarrow> ab_state" where
  "Match_lun E CurrentSlot S =
     (if CheckRootDeviceType E = UFS then
        (let UfsBootLun = snd (UfsGetBootLun E S 0)
         in if UfsBootLun = 1 \<and> StrnCmp_eq CurrentSlot (wide ''_b'') 2 then UfsSetBootLun E 2 S
            else if UfsBootLun = 2 \<and> StrnCmp_eq CurrentSlot (wide ''_a'') 2 then UfsSetBootLun E 1 S
            else S)
      else S)"

definition SetActiveSlot :: "ab_env \<Rightarrow> name16 option \<Rightarrow> bool \<Rightarrow> ab_state \<Rightarrow> (efi_status \<times> ab_state) option" where
  "SetActiveSlot E Slot ResetSuccessBit S =
     (case Slot of
        None \<Rightarrow> Some (EFI_INVALID_PARAMETER, S)
      | Some NewSlot \<Rightarrow>
          (let (Status, CurrentSlot, S) = GetActiveSlot [] S
           in if Status \<noteq> EFI_SUCCESS then Some (Status, S)
              else case GetBootPartitionEntry S NewSlot of
                None \<Rightarrow> Some (EFI_NOT_FOUND, S)
              | Some i \<Rightarrow>
                  (let S = set_Attr i (Activate_attr ResetSuccessBit (Attr S i)) S
                   in case GetBootPartitionEntry S (AlternateSlot NewSlot) of
                        None \<Rightarrow> Some (EFI_NOT_FOUND, S)
                      | Some j \<Rightarrow>
                          (let S = UpdatePartitionAttributes (set_Attr j (Deactivate_attr (Attr S j)) S)
                           in if StrnCmp_eq CurrentSlot NewSlot (length CurrentSlot)
                              then Some (EFI_SUCCESS, Match_lun E CurrentSlot S)
                              else do { S \<leftarrow> SwitchPtnSlots E NewSlot S;
                                        S \<leftarrow> MarkPtnActive NewSlot S;
                                        Some (EFI_SUCCESS, S) }))))"

section \<open>Choosing a bootable slot\<close>

text \<open>
  The mask in \<open>HandleActiveSlotUnbootable\<close> is ORed in, so it sets the unbootable bit and leaves the
  successful bit as it is.
\<close>

definition HandleActiveSlotUnbootable :: "ab_env \<Rightarrow> ab_state \<Rightarrow> (efi_status \<times> ab_state) option" where
  "HandleActiveSlotUnbootable E S =
     (let (Status, ActiveSlot, S) = GetActiveSlot [] S
      in if Status \<noteq> EFI_SUCCESS then Some (Status, S)
         else case GetBootPartitionEntry S ActiveSlot of
           None \<Rightarrow> Some (EFI_NOT_FOUND, S)
         | Some i \<Rightarrow>
             (let S = (if FirstBoot S \<and> \<not> TargetBuildVariantUser E then S\<lparr>FirstBoot := False\<rparr>
                       else UpdatePartitionAttributes
                              (set_Attr i (Attr S i OR (PART_ATT_UNBOOTABLE_VAL AND NOT PART_ATT_SUCCESSFUL_VAL)) S))
              in case GetBootPartitionEntry S (AlternateSlot ActiveSlot) of
                   None \<Rightarrow> Some (EFI_NOT_FOUND, S)
                 | Some j \<Rightarrow>
                     if Unbootable (Attr S j) = 0 \<and> BootSuccess (Attr S j) = 1 then
                       do { (Status, S) \<leftarrow> SetActiveSlot E (Some (AlternateSlot ActiveSlot)) False S;
                            if Status \<noteq> EFI_SUCCESS then Some (Status, S)
                            else Some (EFI_LOAD_ERROR, S\<lparr>ResetRequested := True\<rparr>) }
                     else Some (EFI_LOAD_ERROR, S)))"

definition ClearUnbootable :: "ab_state \<Rightarrow> efi_status \<times> ab_state" where
  "ClearUnbootable S =
     (let (Status, ActiveSlot, S) = GetActiveSlot [] S
      in if Status \<noteq> EFI_SUCCESS then (Status, S)
         else case GetBootPartitionEntry S ActiveSlot of
           None \<Rightarrow> (EFI_NOT_FOUND, S)
         | Some i \<Rightarrow>
             (EFI_SUCCESS, UpdatePartitionAttributes (set_Attr i (Attr S i AND NOT PART_ATT_UNBOOTABLE_VAL) S)))"

definition ValidateSlotGuids :: "ab_env \<Rightarrow> ab_state \<Rightarrow> name16 \<Rightarrow> efi_status option" where
  "ValidateSlotGuids E S BootableSlot =
     (case GetBootPartitionEntry S BootableSlot of
        None \<Rightarrow> Some EFI_NOT_FOUND
      | Some BootEntry \<Rightarrow>
          if BootableSlot = [] then None
          else case GetPartitionEntry S (wide ''abl_'' @ [last BootableSlot]) of
            None \<Rightarrow> Some EFI_NOT_FOUND
          | Some PartEntry \<Rightarrow>
              if PartitionTypeGUID (PtnEntries S ! BootEntry) = PartitionTypeGUID (PtnEntries S ! PartEntry)
              then Some EFI_DEVICE_ERROR
              else if CheckRootDeviceType E = UFS then
                (let (Status, UfsBootLun) = UfsGetBootLun E S 0
                 in if Status \<noteq> EFI_SUCCESS then Some Status
                    else if UfsBootLun = 1 \<and> BootableSlot = wide ''_a'' \<or>
                            UfsBootLun = 2 \<and> BootableSlot = wide ''_b''
                    then Some EFI_SUCCESS
                    else Some EFI_DEVICE_ERROR)
              else if CheckRootDeviceType E = EMMC then Some EFI_SUCCESS
              else Some EFI_DEVICE_ERROR)"

definition Retry_attr :: "u64 \<Rightarrow> u64" where
  "Retry_attr a = a AND NOT PART_ATT_MAX_RETRY_COUNT_VAL OR push_bit 51 (RetryCount a - 1)"

definition Find_out :: "efi_status \<Rightarrow> name16 \<Rightarrow> ab_state \<Rightarrow> efi_status \<times> name16 option \<times> ab_state" where
  "Find_out Status BootableSlot S =
     (Status, Some (if Status \<noteq> EFI_SUCCESS then [] else BootableSlot), S)"

definition Find_try :: "ab_env \<Rightarrow> nat \<Rightarrow> ab_state \<Rightarrow> (efi_status \<times> ab_state) option" where
  "Find_try E i S =
     (if Unbootable (Attr S i) = 0 \<and> BootSuccess (Attr S i) = 1 then Some (EFI_SUCCESS, S)
      else if Unbootable (Attr S i) = 0 \<and> BootSuccess (Attr S i) = 0 \<and> RetryCount (Attr S i) > 0
      then Some (EFI_SUCCESS,
             if \<not> IsABRetryCountDisabled E \<and> \<not> IsBootDevImage E \<and> IsABRetryCountUpdateRequired E
             then UpdatePartitionAttributes (set_Attr i (Retry_attr (Attr S i)) S) else S)
      else HandleActiveSlotUnbootable E S)"

definition FindBootableSlot ::
  "ab_env \<Rightarrow> name16 option \<Rightarrow> ab_state \<Rightarrow> (efi_status \<times> name16 option \<times> ab_state) option" where
  "FindBootableSlot E Slot S =
     (case Slot of
        None \<Rightarrow> Some (EFI_INVALID_PARAMETER, None, S)
      | Some BootableSlot \<Rightarrow>
          (let (Status, BootableSlot, S) = GetActiveSlot BootableSlot S
           in if Status \<noteq> EFI_SUCCESS then Some (Status, Some BootableSlot, S)
              else case GetBootPartitionEntry S BootableSlot of
                None \<Rightarrow> Some (EFI_NOT_FOUND, Some BootableSlot, S)
              | Some i \<Rightarrow>
                  do { (Status, S) \<leftarrow> Find_try E i S;
                       if Status \<noteq> EFI_SUCCESS then Some (Find_out Status BootableSlot S)
                       else do {
                         Status \<leftarrow> (if CheckRootDeviceType E \<noteq> NAND then ValidateSlotGuids E S BootableSlot
                                    else Some EFI_SUCCESS);
                         if Status \<noteq> EFI_SUCCESS then Some (Find_out Status BootableSlot S)
                         else do { S \<leftarrow> MarkPtnActive BootableSlot S;
                                   Some (Find_out EFI_SUCCESS BootableSlot S) } } }))"

section \<open>Reading the partitions\<close>

definition GetMaxLuns :: "ab_state \<Rightarrow> nat" where
  "GetMaxLuns S = length (Ptable S)"

definition GetPartitionCount :: "ab_state \<Rightarrow> nat" where
  "GetPartitionCount S = length (PtnEntries S)"

text \<open>
  \<open>GetBlkIOHandles\<close> fills the array from its start and sets \<open>MaxHandles\<close> only when it succeeds.
\<close>

definition Ptable_fill ::
  "efi_status \<times> PartitionEntry option list \<Rightarrow> PartitionEntry option list \<Rightarrow> nat \<times> PartitionEntry option list" where
  "Ptable_fill r HandleInfoList =
     (let filled = take MAX_NUM_PARTITIONS (snd r)
      in (if EFI_ERROR (fst r) then MAX_NUM_PARTITIONS else length filled,
          filled @ drop (length filled) HandleInfoList))"

definition EnumeratePartitions :: "ab_env \<Rightarrow> ab_state \<Rightarrow> efi_status \<times> ab_state" where
  "EnumeratePartitions E S =
     (let empty = replicate MAX_NUM_PARTITIONS None;
          Status = fst (BlkIOHandles E NandRoot);
          (MaxHandles, HandleInfoList) = Ptable_fill (BlkIOHandles E NandRoot) empty
      in if Status = EFI_SUCCESS \<and> MaxHandles > 0
         then (Status, S\<lparr>Ptable := [take MaxHandles HandleInfoList]\<rparr>)
         else
           (let Status = fst (BlkIOHandles E EmmcRoot);
                (MaxHandles, HandleInfoList) = Ptable_fill (BlkIOHandles E EmmcRoot) HandleInfoList
            in if Status = EFI_SUCCESS \<and> MaxHandles > 0
               then (Status, S\<lparr>Ptable := [take MaxHandles HandleInfoList]\<rparr>)
               else
                 (fst (BlkIOHandles E (UfsLU 7)),
                  S\<lparr>Ptable := map (\<lambda>i. case Ptable_fill (BlkIOHandles E (UfsLU i)) (if i = 0 then HandleInfoList else empty)
                                      of (n, hs) \<Rightarrow> take n hs) [0 ..< 8]\<rparr>)))"

definition NoRecord :: PartitionEntry where
  "NoRecord = \<lparr>PartitionTypeGUID = replicate 16 0, UniquePartitionGUID = replicate 16 0, StartingLBA = 0,
     EndingLBA = 0, Attributes = 0, PartitionName = [], lun = 0\<rparr>"

definition Ptable_entries :: "nat \<Rightarrow> PartitionEntry option list \<Rightarrow> PartitionEntry list" where
  "Ptable_entries i hs =
     map (\<lambda>h. (case h of None \<Rightarrow> NoRecord | Some e \<Rightarrow> e)\<lparr>lun := word_of_nat i\<rparr>) hs"

fun NandFromMisc_loop :: "(name16 \<times> NandABPtnHeader) list \<Rightarrow> ab_state \<Rightarrow> efi_status \<times> ab_state" where
  "NandFromMisc_loop [] S = (EFI_SUCCESS, S)"
| "NandFromMisc_loop ((s, h) # xs) S =
     (case GetBootPartitionEntry S s of
        None \<Rightarrow> (EFI_NOT_FOUND, S)
      | Some i \<Rightarrow>
          NandFromMisc_loop xs
            (if StrnCmp_eq (PartitionName (PtnEntries S ! i)) (SlotName h) 14
             then set_Attr i (push_bit 48 (ucast (NandAttributes h))) S else S))"

fun NandToMisc_loop :: "ab_state \<Rightarrow> name16 list \<Rightarrow> efi_status \<times> NandABPtnHeader list" where
  "NandToMisc_loop S [] = (EFI_SUCCESS, [])"
| "NandToMisc_loop S (s # ss) =
     (case GetBootPartitionEntry S s of
        None \<Rightarrow> (EFI_NOT_FOUND, [])
      | Some i \<Rightarrow>
          (let (Status, hs) = NandToMisc_loop S ss
           in (Status, \<lparr>NandAttributes = ucast (drop_bit 48 (Attr S i) AND 0xff),
                        SlotName = PartitionName (PtnEntries S ! i)\<rparr> # hs)))"

definition NandABUpdatePartition :: "ab_env \<Rightarrow> bool \<Rightarrow> ab_state \<Rightarrow> efi_status \<times> ab_state" where
  "NandABUpdatePartition E ToMisc S =
     (if NandMiscPartiGuid E \<noteq> EFI_SUCCESS then (NandMiscPartiGuid E, S)
      else if MiscRead E \<noteq> EFI_SUCCESS then (MiscRead E, S)
      else if ToMisc then
        (let (Status, hs) = NandToMisc_loop S Slots
         in if EFI_ERROR Status then (Status, S)
            else (Status, if MiscWrite E = EFI_SUCCESS then S\<lparr>Misc := hs\<rparr> else S))
      else NandFromMisc_loop (zip Slots (Misc S)) S)"

definition UpdatePartitionEntries :: "ab_env \<Rightarrow> ab_state \<Rightarrow> ab_state" where
  "UpdatePartitionEntries E S =
     (let S = S\<lparr>PtnEntries := take MAX_NUM_PARTITIONS
                 (concat (map (\<lambda>i. Ptable_entries i (Ptable S ! i)) [0 ..< GetMaxLuns S]))\<rparr>;
          S = (if CheckRootDeviceType E = NAND then snd (NandABUpdatePartition E False S) else S)
      in S\<lparr>PtnEntriesBak := PtnEntries S\<rparr>)"

section \<open>The A/B fields of an attribute word\<close>

record slot_view =
  priority :: u64
  active :: bool
  retry :: u64
  successful :: bool
  unbootable :: bool

definition slot_view :: "u64 \<Rightarrow> slot_view" where
  "slot_view a = \<lparr>priority = BootPriority a, active = bit a 50, retry = RetryCount a,
     successful = bit a 54, unbootable = bit a 55\<rparr>"

lemmas PART_ATT_defs = PART_ATT_PRIORITY_VAL_def PART_ATT_ACTIVE_VAL_def PART_ATT_MAX_RETRY_COUNT_VAL_def
  PART_ATT_SUCCESSFUL_VAL_def PART_ATT_UNBOOTABLE_VAL_def MAX_PRIORITY_def

lemma and_flag_eq_0 [simp]:
  "a AND PART_ATT_ACTIVE_VAL = 0 \<longleftrightarrow> \<not> bit a 50"
  "a AND PART_ATT_SUCCESSFUL_VAL = 0 \<longleftrightarrow> \<not> bit a 54"
  "a AND PART_ATT_UNBOOTABLE_VAL = 0 \<longleftrightarrow> \<not> bit a 55"
  using bit_iff_and_push_bit_not_eq_0 [of a 50] bit_iff_and_push_bit_not_eq_0 [of a 54]
    bit_iff_and_push_bit_not_eq_0 [of a 55]
  by (simp_all add: PART_ATT_defs)

lemma numeral_masks: "(3 :: u64) = mask 2" "(7 :: u64) = mask 3"
  by (simp_all add: mask_eq_exp_minus_1)

lemma drop_flag:
  fixes a :: u64
  assumes "n < 64"
  shows "drop_bit n (a AND push_bit n 1) = of_bool (bit a n)"
  by (rule bit_eqI) (use assms in \<open>auto simp: bit_simps\<close>)

lemma Unbootable_bit [simp]: "Unbootable a = of_bool (bit a 55)"
  unfolding Unbootable_def PART_ATT_UNBOOTABLE_VAL_def by (rule drop_flag) simp

lemma BootSuccess_bit [simp]: "BootSuccess a = of_bool (bit a 54)"
  unfolding BootSuccess_def PART_ATT_SUCCESSFUL_VAL_def by (rule drop_flag) simp

lemma BootPriority_take: "BootPriority a = take_bit 2 (drop_bit 48 a)"
  unfolding BootPriority_def PART_ATT_defs numeral_masks
  by (rule bit_eqI) (auto simp: bit_simps)

lemma RetryCount_take: "RetryCount a = take_bit 3 (drop_bit 51 a)"
  unfolding RetryCount_def PART_ATT_defs numeral_masks
  by (rule bit_eqI) (auto simp: bit_simps)

text \<open>How each update of an attribute word changes its fields.\<close>

declare bit_numeral_word_iff [simp del]

lemma bit_small: "bit (2 :: u64) n \<longleftrightarrow> n = 1" "bit (3 :: u64) n \<longleftrightarrow> n < 2" "bit (7 :: u64) n \<longleftrightarrow> n < 3"
  using bit_mask_iff [of 2 n, where ?'a = "64 word"] bit_mask_iff [of 3 n, where ?'a = "64 word"]
    bit_exp_iff [of 1 n, where ?'a = "64 word"]
  by (auto simp: numeral_masks)

lemma bit_PART_ATT:
  "bit PART_ATT_PRIORITY_VAL n \<longleftrightarrow> 48 \<le> n \<and> n < 50"
  "bit PART_ATT_ACTIVE_VAL n \<longleftrightarrow> n = 50"
  "bit PART_ATT_MAX_RETRY_COUNT_VAL n \<longleftrightarrow> 51 \<le> n \<and> n < 54"
  "bit PART_ATT_SUCCESSFUL_VAL n \<longleftrightarrow> n = 54"
  "bit PART_ATT_UNBOOTABLE_VAL n \<longleftrightarrow> n = 55"
  "bit (MAX_PRIORITY - 1) n \<longleftrightarrow> n = 1"
  unfolding PART_ATT_defs
  by (auto simp: bit_push_bit_iff bit_small bit_1_iff simp del: push_bit_numeral push_bit_of_1)

lemmas field_bits = slot_view_def BootPriority_take RetryCount_take bit_PART_ATT bit_simps bit_small

lemma slot_view_set_active [simp]: "slot_view (a OR PART_ATT_ACTIVE_VAL) = (slot_view a)\<lparr>active := True\<rparr>"
  by (auto simp: field_bits intro!: bit_eqI)

lemma slot_view_clear_active [simp]:
  "slot_view (a AND NOT PART_ATT_ACTIVE_VAL) = (slot_view a)\<lparr>active := False\<rparr>"
  by (auto simp: field_bits intro!: bit_eqI)

lemma slot_view_unbootable [simp]:
  "slot_view (a OR (PART_ATT_UNBOOTABLE_VAL AND NOT PART_ATT_SUCCESSFUL_VAL)) = (slot_view a)\<lparr>unbootable := True\<rparr>"
  by (auto simp: field_bits intro!: bit_eqI)

lemma slot_view_clear_unbootable [simp]:
  "slot_view (a AND NOT PART_ATT_UNBOOTABLE_VAL) = (slot_view a)\<lparr>unbootable := False\<rparr>"
  by (auto simp: field_bits intro!: bit_eqI)

lemma slot_view_FirstBoot [simp]:
  "slot_view (FirstBoot_attr a) =
     \<lparr>priority = 3, active = True, retry = 7, successful = False, unbootable = False\<rparr>"
  by (auto simp: FirstBoot_attr_def field_bits intro!: bit_eqI)

lemma slot_view_Activate [simp]:
  "slot_view (Activate_attr r a) =
     \<lparr>priority = 3, active = True, retry = 7, successful = bit a 54 \<and> \<not> r, unbootable = False\<rparr>"
  by (auto simp: Activate_attr_def Let_def field_bits intro!: bit_eqI)

lemma slot_view_Deactivate [simp]:
  "slot_view (Deactivate_attr a) = (slot_view a)\<lparr>priority := 2, active := False\<rparr>"
  by (auto simp: Deactivate_attr_def field_bits intro!: bit_eqI)

lemma RetryCount_less: "unat (RetryCount a) < 8"
proof -
  have "unat (RetryCount a) = take_bit 3 (unat (drop_bit 51 a))"
    by (simp only: RetryCount_take unsigned_take_bit_eq)
  then show ?thesis using take_bit_nat_less_exp [of 3 "unat (drop_bit 51 a)"] by simp
qed

lemma unat_RetryCount_pred: "RetryCount a > 0 \<Longrightarrow> unat (RetryCount a - 1) = unat (RetryCount a) - 1"
  by (simp add: unat_sub word_le_nat_alt word_less_nat_alt)

lemma slot_view_Retry [simp]:
  assumes "RetryCount a > 0"
  shows "slot_view (Retry_attr a) = (slot_view a)\<lparr>retry := RetryCount a - 1\<rparr>"
proof -
  define r where "r = RetryCount a - 1"
  have "unat r < 2 ^ 3"
    using RetryCount_less [of a] unat_RetryCount_pred [OF assms] by (simp add: r_def)
  then have "take_bit 3 (unat r) = unat r" by (rule take_bit_nat_eq_self)
  then have "take_bit 3 r = r"
    by (simp only: word_unat_eq_iff unsigned_take_bit_eq)
  then have b: "3 \<le> n \<Longrightarrow> \<not> bit r n" for n by (metis bit_take_bit_iff not_less)
  show ?thesis
    unfolding Retry_attr_def r_def [symmetric]
    by (auto simp: field_bits b not_less intro!: bit_eqI)
qed

lemma slot_view_eqD:
  assumes "slot_view a = v"
  shows "bit a 50 = active v" "bit a 54 = successful v" "bit a 55 = unbootable v"
    "BootPriority a = priority v" "RetryCount a = retry v"
  using assms by (auto simp: slot_view_def)

lemma slot_view_sel [simp]:
  "active (slot_view a) = bit a 50" "successful (slot_view a) = bit a 54" "unbootable (slot_view a) = bit a 55"
  "priority (slot_view a) = BootPriority a" "retry (slot_view a) = RetryCount a"
  by (simp_all add: slot_view_def)

section \<open>Lemmas on the table\<close>

named_theorems ab_simps

definition part_names :: "ab_state \<Rightarrow> name16 list" where
  "part_names S = map PartitionName (PtnEntries S)"

definition part_attrs :: "ab_state \<Rightarrow> u64 list" where
  "part_attrs S = map Attributes (PtnEntries S)"

lemma length_part_names [simp]: "length (part_names S) = length (PtnEntries S)"
  by (simp add: part_names_def)

lemma first_index_SomeD: "first_index P xs = Some i \<Longrightarrow> i < length xs \<and> P (xs ! i)"
  by (induction xs arbitrary: i) (auto split: if_splits)

lemma first_index_map: "first_index P (map f xs) = first_index (P \<circ> f) xs"
  by (induction xs) auto

lemma GetPartitionIndex_names:
  "GetPartitionIndex S Pname = first_index (\<lambda>x. take NAME_SIZE x = take NAME_SIZE Pname) (part_names S)"
  by (simp add: GetPartitionIndex_def part_names_def first_index_map StrnCmp_eq_def comp_def)

lemma GetPartitionIndex_cong: "part_names S' = part_names S \<Longrightarrow> GetPartitionIndex S' n = GetPartitionIndex S n"
  by (simp add: GetPartitionIndex_names)

lemma GetBootPartitionEntry_cong:
  "part_names S' = part_names S \<Longrightarrow> GetBootPartitionEntry S' n = GetBootPartitionEntry S n"
  by (simp add: GetBootPartitionEntry_def GetPartitionIndex_names)

lemma GetPartitionIndex_SomeD:
  assumes "GetPartitionIndex S n = Some i" "length n < NAME_SIZE"
  shows "i < length (PtnEntries S)" "part_names S ! i = n" "PartitionName (PtnEntries S ! i) = n"
proof -
  from first_index_SomeD [OF assms(1) [unfolded GetPartitionIndex_names]]
  have i: "i < length (PtnEntries S)" "take NAME_SIZE (part_names S ! i) = n"
    using assms(2) by auto
  then show "i < length (PtnEntries S)" by simp
  show "part_names S ! i = n"
    using i(2) assms(2) by (metis length_take min_less_iff_conj less_irrefl not_less take_all)
  then show "PartitionName (PtnEntries S ! i) = n" using i(1) by (simp add: part_names_def)
qed

lemma Attr_set_Attr [ab_simps]:
  "i < length (PtnEntries S) \<Longrightarrow> Attr (set_Attr i a S) j = (if j = i then a else Attr S j)"
  by (simp add: Attr_def set_Attr_def)

lemma set_Attr_frame [ab_simps]:
  "part_names (set_Attr i a S) = part_names S"
  "length (PtnEntries (set_Attr i a S)) = length (PtnEntries S)"
  "Ptable (set_Attr i a S) = Ptable S" "HeadNode (set_Attr i a S) = HeadNode S"
  "BootLun (set_Attr i a S) = BootLun S" "FirstBoot (set_Attr i a S) = FirstBoot S"
  "ResetRequested (set_Attr i a S) = ResetRequested S" "Misc (set_Attr i a S) = Misc S"
  "PtnEntriesBak (set_Attr i a S) = PtnEntriesBak S"
  by (simp_all add: set_Attr_def part_names_def map_update) (simp flip: map_update)

lemma Attr_cong: "part_attrs S' = part_attrs S \<Longrightarrow> i < length (PtnEntries S) \<Longrightarrow> Attr S' i = Attr S i"
  unfolding part_attrs_def Attr_def by (metis length_map nth_map)

text \<open>The two boot partitions.\<close>

definition two_slots :: "ab_state \<Rightarrow> nat \<Rightarrow> nat \<Rightarrow> bool" where
  "two_slots S a b \<longleftrightarrow>
     GetPartitionIndex S (wide ''boot_a'') = Some a \<and> GetPartitionIndex S (wide ''boot_b'') = Some b"

lemma two_slotsD:
  assumes "two_slots S a b"
  shows "a < length (PtnEntries S)" "b < length (PtnEntries S)" "a \<noteq> b"
    "part_names S ! a = wide ''boot_a''" "part_names S ! b = wide ''boot_b''"
    "GetBootPartitionEntry S (wide ''_a'') = Some a" "GetBootPartitionEntry S (wide ''_b'') = Some b"
proof -
  have ab: "GetPartitionIndex S (wide ''boot_a'') = Some a" "GetPartitionIndex S (wide ''boot_b'') = Some b"
    using assms by (simp_all add: two_slots_def)
  note A = GetPartitionIndex_SomeD [OF ab(1)] and B = GetPartitionIndex_SomeD [OF ab(2)]
  show "a < length (PtnEntries S)" "b < length (PtnEntries S)" "part_names S ! a = wide ''boot_a''"
    "part_names S ! b = wide ''boot_b''"
    using A B by (simp_all add: NAME_SIZE_def)
  then show "a \<noteq> b" by auto
  show "GetBootPartitionEntry S (wide ''_a'') = Some a" "GetBootPartitionEntry S (wide ''_b'') = Some b"
    using ab by (simp_all add: GetBootPartitionEntry_def StrnCmp_eq_def)
qed

lemma two_slots_cong: "part_names S' = part_names S \<Longrightarrow> two_slots S' a b = two_slots S a b"
  by (simp add: two_slots_def GetPartitionIndex_names)

section \<open>The choice of the active slot\<close>

text \<open>The slot with the higher non-zero priority among the active ones, \<open>_a\<close> on a tie.\<close>

definition pick_slot :: "slot_view \<Rightarrow> slot_view \<Rightarrow> name16 option" where
  "pick_slot va vb =
     (if active vb \<and> priority vb > (if active va then priority va else 0) then Some (wide ''_b'')
      else if active va \<and> priority va > 0 then Some (wide ''_a'')
      else None)"

definition fresh_view :: "slot_view \<Rightarrow> bool" where
  "fresh_view v \<longleftrightarrow> \<not> active v \<and> \<not> successful v \<and> \<not> unbootable v \<and> priority v = 0"

abbreviation view :: "ab_state \<Rightarrow> nat \<Rightarrow> slot_view" where
  "view S i \<equiv> slot_view (Attr S i)"

lemma Slots_nth [simp]: "Slots ! 0 = wide ''_a''" "Slots ! Suc 0 = wide ''_b''"
  by (simp_all add: Slots_def)

lemma ActiveSlot_loop_pick:
  assumes "two_slots S a b"
  shows "ActiveSlot_loop S Slots 0 s =
    (EFI_SUCCESS, case pick_slot (view S a) (view S b) of None \<Rightarrow> s | Some t \<Rightarrow> t)"
  using two_slotsD(6,7) [OF assms] by (auto simp: Slots_def pick_slot_def Let_def word_less_nat_alt)

lemma GetActiveSlot_pick:
  assumes "two_slots S a b" "pick_slot (view S a) (view S b) = Some t"
  shows "GetActiveSlot s S = (EFI_SUCCESS, t, S)"
proof -
  have "t \<noteq> []" using assms(2) by (auto simp: pick_slot_def split: if_splits)
  then show ?thesis
    using assms by (simp add: GetActiveSlot_def ActiveSlot_loop_pick IsSuffixEmpty_def)
qed

lemma GetActiveSlot_fresh:
  assumes "two_slots S a b" "pick_slot (view S a) (view S b) = None" "fresh_view (view S a)"
  shows "GetActiveSlot [] S =
    (EFI_SUCCESS, wide ''_a'', (set_Attr a (FirstBoot_attr (Attr S a)) S)\<lparr>FirstBoot := True\<rparr>)"
  using assms two_slotsD(6) [OF assms(1)]
  by (simp add: GetActiveSlot_def ActiveSlot_loop_pick IsSuffixEmpty_def fresh_view_def
      Let_def UpdatePartitionAttributes_def)

lemma GetActiveSlot_none:
  assumes "two_slots S a b" "pick_slot (view S a) (view S b) = None" "\<not> fresh_view (view S a)"
  shows "GetActiveSlot [] S = (EFI_NOT_FOUND, [], S)"
  using assms two_slotsD(6) [OF assms(1)]
  by (simp add: GetActiveSlot_def ActiveSlot_loop_pick IsSuffixEmpty_def fresh_view_def Let_def)

text \<open>A state in which an active slot can be found, and that slot.\<close>

definition has_active :: "ab_state \<Rightarrow> bool" where
  "has_active S \<longleftrightarrow> fst (GetActiveSlot [] S) = EFI_SUCCESS"

section \<open>Frames\<close>

lemma map_update_same: "f y = f (xs ! i) \<Longrightarrow> map f (xs[i := y]) = map f xs"
  by (cases "i < length xs") (simp_all add: map_update list_update_same_conv list_update_beyond)

lemma SwapPtnGuid_frame:
  "map PartitionName (SwapPtnGuid p q es) = map PartitionName es \<and>
   map Attributes (SwapPtnGuid p q es) = map Attributes es"
  by (auto simp: SwapPtnGuid_def Let_def map_update_same split: option.splits)

lemma Switch_fold_frame:
  "map PartitionName (fold (Switch_node s t) ns es) = map PartitionName es \<and>
   map Attributes (fold (Switch_node s t) ns es) = map Attributes es"
  by (induction ns arbitrary: es) (simp_all add: Switch_node_def SwapPtnGuid_frame split: prod.splits)

lemma Switch_lun_frame [ab_simps]:
  "PtnEntries (Switch_lun E s S) = PtnEntries S" "Ptable (Switch_lun E s S) = Ptable S"
  "Misc (Switch_lun E s S) = Misc S" "FirstBoot (Switch_lun E s S) = FirstBoot S"
  "PtnEntries (Match_lun E s S) = PtnEntries S" "Ptable (Match_lun E s S) = Ptable S"
  "Misc (Match_lun E s S) = Misc S" "FirstBoot (Match_lun E s S) = FirstBoot S"
  by (simp_all add: Switch_lun_def Match_lun_def UfsSetBootLun_def Let_def)

lemma SwitchPtnSlots_frame:
  assumes "SwitchPtnSlots E s S = Some S'"
  shows "part_names S' = part_names S" "part_attrs S' = part_attrs S" "Ptable S' = Ptable S"
    "Misc S' = Misc S" "FirstBoot S' = FirstBoot S"
  using assms
  by (auto simp: SwitchPtnSlots_def GetMultiSlotPartsList_def option_inversion part_names_def part_attrs_def
      UpdatePartitionAttributes_def ab_simps Switch_fold_frame)

text \<open>With names of at most 33 characters no name is scanned or copied past its end.\<close>

definition short_names :: "ab_state \<Rightarrow> bool" where
  "short_names S \<longleftrightarrow> (\<forall>n \<in> set (part_names S). length n < BOOT_PART_SIZE + 2)"

lemma MultiSlotParts_partner_total:
  assumes "length s < NAME_SIZE" "\<forall>n \<in> set ns. length n < NAME_SIZE"
  shows "\<exists>r. MultiSlotParts_partner s ns = Some r"
  using assms by (induction ns) (auto simp: StrLen_def)

lemma MultiSlotParts_loop_total:
  assumes "\<forall>n \<in> set ns. length n < BOOT_PART_SIZE + 2"
  shows "\<exists>st h. MultiSlotParts_loop E ns H = Some (st, h)"
  using assms
proof (induction ns arbitrary: H)
  case (Cons n ns)
  moreover have "\<exists>r. MultiSlotParts_partner n ns = Some r"
    using Cons.prems by (intro MultiSlotParts_partner_total) (auto simp: BOOT_PART_SIZE_def NAME_SIZE_def)
  ultimately show ?case by (auto simp: BOOT_PART_SIZE_def)
qed simp

lemma MarkPtn_loop_total:
  assumes "\<forall>e \<in> set es. length (PartitionName e) < NAME_SIZE"
  shows "MarkPtn_loop s es =
    Some (map (\<lambda>e. if sublist s (PartitionName e) then e\<lparr>Attributes := Attributes e OR PART_ATT_ACTIVE_VAL\<rparr>
                   else e\<lparr>Attributes := Attributes e AND NOT PART_ATT_ACTIVE_VAL\<rparr>) es)"
  using assms by (induction es) (auto simp: StrStr_def)

lemma MarkPtnActive_frame:
  assumes "MarkPtnActive s S = Some S'"
  shows "part_names S' = part_names S \<and> Ptable S' = Ptable S \<and> Misc S' = Misc S \<and>
     FirstBoot S' = FirstBoot S \<and> BootLun S' = BootLun S"
proof -
  have "map PartitionName es' = map PartitionName es" if "MarkPtn_loop s es = Some es'" for es es'
    using that by (induction es arbitrary: es') (auto simp: option_inversion)
  then show ?thesis
    using assms by (auto simp: MarkPtnActive_def option_inversion part_names_def UpdatePartitionAttributes_def)
qed

section \<open>Correctness of \<open>SetActiveSlot\<close>\<close>

lemma sublist_wide [simp]: "sublist (wide s) (wide t) \<longleftrightarrow> sublist s t"
proof
  assume "sublist (wide s) (wide t)"
  then obtain p q where pq: "wide t = p @ wide s @ q" by (auto simp: sublist_def)
  then have "wide (take (length s) (drop (length p) t)) = wide s"
    by (simp add: wide_def flip: take_map drop_map)
  then have "take (length s) (drop (length p) t) = s" by simp
  then show "sublist s t" by (metis sublist_take sublist_drop sublist_order.order.trans)
next
  assume "sublist s t"
  then obtain p q where "t = p @ s @ q" by (auto simp: sublist_def)
  then have "wide t = wide p @ wide s @ wide q" by simp
  then show "sublist (wide s) (wide t)" unfolding sublist_def by blast
qed

definition slot_ok :: "name16 \<Rightarrow> bool" where
  "slot_ok s \<longleftrightarrow> s = wide ''_a'' \<or> s = wide ''_b''"

definition slot_index :: "nat \<Rightarrow> nat \<Rightarrow> name16 \<Rightarrow> nat" where
  "slot_index a b s = (if s = wide ''_a'' then a else b)"

lemma slot_cases:
  assumes "two_slots S a b" "slot_ok s"
  shows "GetBootPartitionEntry S s = Some (slot_index a b s)"
    "GetBootPartitionEntry S (AlternateSlot s) = Some (slot_index b a s)"
    "slot_index a b s < length (PtnEntries S)" "slot_index b a s < length (PtnEntries S)"
    "slot_index a b s \<noteq> slot_index b a s"
    "slot_ok (AlternateSlot s)" "AlternateSlot s \<noteq> s" "AlternateSlot (AlternateSlot s) = s"
    "slot_index a b (AlternateSlot s) = slot_index b a s" "slot_index b a (AlternateSlot s) = slot_index a b s"
    "sublist s (part_names S ! slot_index a b s)" "\<not> sublist s (part_names S ! slot_index b a s)"
  using two_slotsD [OF assms(1)] assms(2)
  by (auto simp: slot_ok_def slot_index_def AlternateSlot_def StrnCmp_eq_def sublist_code)

lemma pick_slot_ok: "pick_slot va vb = Some s \<Longrightarrow> slot_ok s"
  by (auto simp: pick_slot_def slot_ok_def split: if_splits)

lemma pick_slot_index:
  assumes "slot_ok s" "v (slot_index a b s) = v1" "v (slot_index b a s) = v2" "active v1" "priority v1 > 0" "\<not> active v2"
  shows "pick_slot (v a) (v b) = Some s"
  using assms by (auto simp: pick_slot_def slot_ok_def slot_index_def split: if_splits)

text \<open>What \<open>GetActiveSlot\<close> leaves of the state.\<close>

lemma GetActiveSlot_ok:
  assumes "two_slots S a b" "GetActiveSlot [] S = (EFI_SUCCESS, c, S1)"
  shows "slot_ok c" "pick_slot (view S1 a) (view S1 b) = Some c" "part_names S1 = part_names S"
    "Ptable S1 = Ptable S" "Misc S1 = Misc S" "HeadNode S1 = HeadNode S" "BootLun S1 = BootLun S"
    "two_slots S1 a b"
    "\<And>t. pick_slot (view S a) (view S b) = Some t \<Longrightarrow> S1 = S \<and> c = t"
proof -
  note ab = two_slotsD [OF assms(1)]
  consider t where "pick_slot (view S a) (view S b) = Some t"
    | "pick_slot (view S a) (view S b) = None" "fresh_view (view S a)"
    | "pick_slot (view S a) (view S b) = None" "\<not> fresh_view (view S a)" by fastforce
  note C = this
  have m: "slot_ok c \<and> pick_slot (view S1 a) (view S1 b) = Some c \<and> part_names S1 = part_names S \<and>
      Ptable S1 = Ptable S \<and> Misc S1 = Misc S \<and> HeadNode S1 = HeadNode S \<and> BootLun S1 = BootLun S \<and>
      (\<forall>t. pick_slot (view S a) (view S b) = Some t \<longrightarrow> S1 = S \<and> c = t)"
  proof (cases rule: C)
    case (1 t)
    then show ?thesis using assms GetActiveSlot_pick [OF assms(1) 1] by (simp add: pick_slot_ok)
  next
    case 2
    let ?T = "set_Attr a (FirstBoot_attr (Attr S a)) S"
    from GetActiveSlot_fresh [OF assms(1) 2] assms(2)
    have S1: "c = wide ''_a''" "S1 = ?T\<lparr>FirstBoot := True\<rparr>" by auto
    have fr: "Attr (X\<lparr>FirstBoot := x\<rparr>) k = Attr X k" "part_names (X\<lparr>FirstBoot := x\<rparr>) = part_names X" for X x k
      by (simp_all add: Attr_def part_names_def)
    have "\<not> (bit (Attr S b) 50 \<and> BootPriority (Attr S b) \<noteq> 0)"
      using 2(1) by (auto simp: pick_slot_def word_gt_0 split: if_splits)
    then have "pick_slot (view ?T a) (view ?T b) = Some (wide ''_a'')"
      using ab(1-3) slot_view_FirstBoot [of "Attr S a"]
      by (auto simp: pick_slot_def ab_simps dest!: slot_view_eqD)
    then show ?thesis using S1 2 by (simp add: fr slot_ok_def ab_simps)
  next
    case 3
    then show ?thesis using assms GetActiveSlot_none [OF assms(1) 3] by simp
  qed
  then show "slot_ok c" "pick_slot (view S1 a) (view S1 b) = Some c" "part_names S1 = part_names S"
    "Ptable S1 = Ptable S" "Misc S1 = Misc S" "HeadNode S1 = HeadNode S" "BootLun S1 = BootLun S"
    "\<And>t. pick_slot (view S a) (view S b) = Some t \<Longrightarrow> S1 = S \<and> c = t" by blast+
  show "two_slots S1 a b" using m assms(1) two_slots_cong by blast
qed

lemma SwitchPtnSlots_total:
  assumes "short_names S" shows "\<exists>S'. SwitchPtnSlots E s S = Some S'"
proof -
  obtain st h where "MultiSlotParts_loop E (map PartitionName (PtnEntries S)) [] = Some (st, h)"
    using MultiSlotParts_loop_total assms unfolding short_names_def part_names_def by blast
  then show ?thesis by (simp add: SwitchPtnSlots_def GetMultiSlotPartsList_def Let_def)
qed

lemma MarkPtnActive_total:
  assumes "short_names S"
  shows "\<exists>S'. MarkPtnActive s S = Some S' \<and>
    (\<forall>k < length (PtnEntries S). view S' k = (view S k)\<lparr>active := sublist s (part_names S ! k)\<rparr>)"
proof -
  have "\<forall>e \<in> set (PtnEntries S). length (PartitionName e) < NAME_SIZE"
    using assms by (auto simp: short_names_def part_names_def BOOT_PART_SIZE_def NAME_SIZE_def)
  then show ?thesis
    by (auto simp: MarkPtnActive_def MarkPtn_loop_total UpdatePartitionAttributes_def Attr_def part_names_def)
qed

lemma short_names_cong: "part_names S' = part_names S \<Longrightarrow> short_names S' = short_names S"
  by (simp add: short_names_def)

lemma length_cong: "part_names S' = part_names S \<Longrightarrow> length (PtnEntries S') = length (PtnEntries S)"
  by (metis length_part_names)

lemma StrnCmp_slot: "slot_ok c \<Longrightarrow> slot_ok s \<Longrightarrow> StrnCmp_eq c s (length c) \<longleftrightarrow> c = s"
  by (auto simp: slot_ok_def StrnCmp_eq_def)

lemma SetActiveSlot_effect:
  assumes ab: "two_slots S a b" and sn: "short_names S" and ok: "slot_ok s"
    and act: "GetActiveSlot [] S = (EFI_SUCCESS, c, S1)"
  defines "i \<equiv> slot_index a b s" and "j \<equiv> slot_index b a s"
  shows "\<exists>S'. SetActiveSlot E (Some s) r S = Some (EFI_SUCCESS, S') \<and>
    part_names S' = part_names S \<and> Ptable S' = Ptable S \<and>
    view S' i = \<lparr>priority = 3, active = True, retry = 7, successful = bit (Attr S1 i) 54 \<and> \<not> r, unbootable = False\<rparr> \<and>
    view S' j = (view S1 j)\<lparr>priority := 2, active := False\<rparr>"
proof -
  note G = GetActiveSlot_ok [OF ab act]
  note I = slot_cases [OF G(8) ok, folded i_def j_def]
  define T where "T = set_Attr i (Activate_attr r (Attr S1 i)) S1"
  define U where "U = set_Attr j (Deactivate_attr (Attr T j)) T"
  have names: "part_names T = part_names S1" "part_names U = part_names S1"
    by (simp_all add: T_def U_def ab_simps)
  have bT: "GetBootPartitionEntry T (AlternateSlot s) = Some j"
    using I(2) names(1) GetBootPartitionEntry_cong by metis
  have fr: "part_names U = part_names S" "Ptable U = Ptable S"
    using names G(3,4) by (simp_all add: U_def T_def ab_simps)
  have v: "view U i = \<lparr>priority = 3, active = True, retry = 7, successful = bit (Attr S1 i) 54 \<and> \<not> r, unbootable = False\<rparr>"
    "view U j = (view S1 j)\<lparr>priority := 2, active := False\<rparr>"
    using I(3-5) by (simp_all add: U_def T_def ab_simps)
  have step: "SetActiveSlot E (Some s) r S =
     (if c = s then Some (EFI_SUCCESS, Match_lun E c U)
      else do { S \<leftarrow> SwitchPtnSlots E s U; S \<leftarrow> MarkPtnActive s S; Some (EFI_SUCCESS, S) })"
    using act I(1) bT
    by (simp add: SetActiveSlot_def Let_def UpdatePartitionAttributes_def StrnCmp_slot [OF G(1) ok]
        T_def [symmetric] U_def [symmetric])
  show ?thesis
  proof (cases "c = s")
    case True
    then show ?thesis
      using fr v by (simp add: step ab_simps part_names_def Attr_def)
  next
    case False
    obtain V where V: "SwitchPtnSlots E s U = Some V"
      using SwitchPtnSlots_total sn short_names_cong [OF fr(1)] by blast
    note W = SwitchPtnSlots_frame [OF V]
    have len: "length (PtnEntries V) = length (PtnEntries S1)" "length (PtnEntries U) = length (PtnEntries S1)"
      using W(1) fr(1) G(3) by (metis length_cong)+
    obtain X where X: "MarkPtnActive s V = Some X"
      "\<And>k. k < length (PtnEntries V) \<Longrightarrow> view X k = (view V k)\<lparr>active := sublist s (part_names V ! k)\<rparr>"
      using MarkPtnActive_total [of V s] sn short_names_cong [of V S] W(1) fr(1) by auto
    have "view V i = view U i" "view V j = view U j"
      using Attr_cong [OF W(2), of i] Attr_cong [OF W(2), of j] I(3,4) len by simp_all
    moreover have "sublist s (part_names V ! i)" "\<not> sublist s (part_names V ! j)"
      using I(11,12) W(1) names by simp_all
    ultimately have "view X i = view U i \<and> view X j = view U j"
      using X(2) [of i] X(2) [of j] I(3,4) len v by simp
    then have "view X i = \<lparr>priority = 3, active = True, retry = 7, successful = bit (Attr S1 i) 54 \<and> \<not> r, unbootable = False\<rparr>"
      "view X j = (view S1 j)\<lparr>priority := 2, active := False\<rparr>"
      using v by metis+
    moreover have "part_names X = part_names S" "Ptable X = Ptable S"
      using MarkPtnActive_frame [OF X(1)] W(1,3) fr by metis+
    moreover have "SetActiveSlot E (Some s) r S = Some (EFI_SUCCESS, X)"
      using False V X(1) by (simp add: step)
    ultimately show ?thesis by blast
  qed
qed

text \<open>The boot LUN of a UFS device follows the slot.\<close>

definition ufs_ready :: "ab_env \<Rightarrow> bool" where
  "ufs_ready E \<longleftrightarrow> CheckRootDeviceType E = UFS \<and> UfsGetSetBootLun_status E = EFI_SUCCESS \<and> BootLU E = EFI_SUCCESS"

definition slot_lun :: "name16 \<Rightarrow> u32" where
  "slot_lun s = (if s = wide ''_a'' then 1 else 2)"

lemma MultiSlotParts_loop_status:
  assumes "\<And>k. PoolOk E k" "MultiSlotParts_loop E ns H = Some (st, h)"
  shows "st = EFI_SUCCESS"
  using assms(2)
proof (induction ns arbitrary: H)
  case (Cons n ns)
  then show ?case
    using assms(1) by (auto simp: option_inversion split: if_splits)
qed simp

lemma lun_ops:
  assumes "ufs_ready E" "BootLun S = 1 \<or> BootLun S = 2" "slot_ok s"
  shows "BootLun (Switch_lun E s S) = slot_lun s" "BootLun (Match_lun E s S) = slot_lun s"
  using assms
  by (auto simp: ufs_ready_def slot_ok_def slot_lun_def Switch_lun_def Match_lun_def UfsGetBootLun_def
      UfsSetBootLun_def StrnCmp_eq_def Let_def)

lemma SwitchPtnSlots_lun:
  assumes "SwitchPtnSlots E s S = Some S'" "ufs_ready E" "\<And>k. PoolOk E k"
    "BootLun S = 1 \<or> BootLun S = 2" "slot_ok s"
  shows "BootLun S' = slot_lun s"
proof -
  have "BootLun (Switch_lun E s T) = slot_lun s" if "BootLun T = BootLun S" for T
    using lun_ops(1) [of E T s] assms that by simp
  then show ?thesis
    using assms(1) MultiSlotParts_loop_status [OF assms(3)]
    by (auto simp: SwitchPtnSlots_def GetMultiSlotPartsList_def option_inversion UpdatePartitionAttributes_def)
qed

lemma SetActiveSlot_lun:
  assumes ab: "two_slots S a b" and ok: "slot_ok s" and act: "GetActiveSlot [] S = (EFI_SUCCESS, c, S1)"
    and E: "ufs_ready E" "\<And>k. PoolOk E k" "BootLun S = 1 \<or> BootLun S = 2"
    and R: "SetActiveSlot E (Some s) r S = Some (EFI_SUCCESS, S')"
  shows "BootLun S' = slot_lun s"
proof -
  note G = GetActiveSlot_ok [OF ab act]
  have cs: "StrnCmp_eq c s (length c) \<longleftrightarrow> c = s" by (rule StrnCmp_slot [OF G(1) ok])
  have M: "BootLun (Match_lun E s T) = slot_lun s" if "BootLun T = BootLun S1" for T
    using lun_ops(2) [of E T s] E ok G(7) that by simp
  have X: "BootLun X = slot_lun s"
    if "SwitchPtnSlots E s T = Some V" "MarkPtnActive s V = Some X" "BootLun T = BootLun S1" for T V X
    using SwitchPtnSlots_lun [OF that(1) E(1,2) _ ok] that(3) E(3) G(7) MarkPtnActive_frame [OF that(2)] by simp
  show ?thesis
    using R act
    by (auto simp: SetActiveSlot_def option_inversion UpdatePartitionAttributes_def cs ab_simps M X
        split: option.splits if_splits)
qed

section \<open>The type GUIDs of the boot partitions\<close>

text \<open>
  The partitions at \<open>a\<close> and \<open>b\<close> are the two boot partitions, and no other name starts with \<open>boot_\<close>. The code compares
  prefixes, so another such name could be taken for one of them.
\<close>

definition boot_pair :: "name16 list \<Rightarrow> nat \<Rightarrow> nat \<Rightarrow> bool" where
  "boot_pair ns a b \<longleftrightarrow> a < length ns \<and> b < length ns \<and> ns ! a = wide ''boot_a'' \<and> ns ! b = wide ''boot_b'' \<and>
     (\<forall>k < length ns. take 5 (ns ! k) = wide ''boot_'' \<longrightarrow> k = a \<or> k = b)"

definition type_guid :: "ab_state \<Rightarrow> nat \<Rightarrow> bytes" where
  "type_guid S k = PartitionTypeGUID (PtnEntries S ! k)"

fun last_ix :: "('a \<Rightarrow> bool) \<Rightarrow> nat \<Rightarrow> 'a list \<Rightarrow> nat option \<Rightarrow> nat option" where
  "last_ix P i [] p = p"
| "last_ix P i (x # xs) p = last_ix P (Suc i) xs (if P x then Some i else p)"

lemma Switch_find_last:
  "Switch_find c n i es p q =
     (last_ix (\<lambda>e. StrnCmp_eq (PartitionName e) c (length c)) i es p,
      last_ix (\<lambda>e. \<not> StrnCmp_eq (PartitionName e) c (length c) \<and> StrnCmp_eq (PartitionName e) n (length n)) i es q)"
  by (induction es arbitrary: i p q) simp_all

lemma last_ix_sound: "last_ix P i es p = Some x \<Longrightarrow> p = Some x \<or> (\<exists>k < length es. x = i + k \<and> P (es ! k))"
proof (induction es arbitrary: i p)
  case (Cons e es)
  have "last_ix P (Suc i) es (if P e then Some i else p) = Some x" using Cons.prems by simp
  from Cons.IH [OF this] consider "(if P e then Some i else p) = Some x" | k where "k < length es" "x = Suc i + k" "P (es ! k)" by blast
  then show ?case
  proof cases
    case 1
    then show ?thesis by (cases "P e") (auto intro!: exI [of _ 0])
  next
    case (2 k)
    then show ?thesis by (intro disjI2 exI [of _ "Suc k"]) simp
  qed
qed simp

lemma last_ix_None: "last_ix P i es p = None \<Longrightarrow> p = None \<and> (\<forall>e \<in> set es. \<not> P e)"
proof (induction es arbitrary: i p)
  case (Cons e es)
  have "last_ix P (Suc i) es (if P e then Some i else p) = None" using Cons.prems by simp
  from Cons.IH [OF this] show ?case by (cases "P e") simp_all
qed simp

lemma last_ix_only:
  assumes "x < length es" "P (es ! x)" "\<And>k. k < length es \<Longrightarrow> P (es ! k) \<Longrightarrow> k = x"
  shows "last_ix P 0 es None = Some x"
proof (cases "last_ix P 0 es None")
  case None
  from last_ix_None [OF this] assms(1,2) show ?thesis by (meson nth_mem)
next
  case (Some y)
  from last_ix_sound [OF this] assms(3) Some show ?thesis by auto
qed

text \<open>The suffix of a slot stands in the name of a boot partition only at its end.\<close>

lemma take_pair:
  assumes "take (length n + 2) w = n @ [u, y]"
  shows "w ! length n = u" "w ! (length n + 1) = y" "n = take (length n) w" "length n + 2 \<le> length w"
proof -
  have w: "w = n @ u # y # drop (length n + 2) w" using append_take_drop_id [of "length n + 2" w] unfolding assms by simp
  show "w ! length n = u" "w ! (length n + 1) = y" "n = take (length n) w" by (subst w; simp add: nth_append)+
  show "length n + 2 \<le> length w" using arg_cong [OF assms, of length] by simp
qed

lemma boot_prefix:
  assumes "take (length n + 2) (wide ''boot_'' @ [x]) = n @ [word_of_nat (ord8 (CHR ''_'')), y]"
  shows "n = wide ''boot'' \<and> x = y"
proof -
  note t = take_pair [OF assms]
  have "length n \<le> 4" using t(4) by simp
  then have "length n = 0 \<or> length n = 1 \<or> length n = 2 \<or> length n = 3 \<or> length n = 4" by linarith
  then have "length n = 4" using t(1) by (auto simp: wide_def ord8_def)
  with t(2,3) show ?thesis by (simp add: wide_def)
qed

lemma wide_slot: "wide ''_a'' = [word_of_nat (ord8 (CHR ''_'')), word_of_nat (ord8 (CHR ''a''))]"
  "wide ''_b'' = [word_of_nat (ord8 (CHR ''_'')), word_of_nat (ord8 (CHR ''b''))]"
  "wide ''boot_a'' = wide ''boot_'' @ [word_of_nat (ord8 (CHR ''a''))]" "wide ''boot_b'' = wide ''boot_'' @ [word_of_nat (ord8 (CHR ''b''))]"
  by (simp_all add: wide_def)

lemma boot_match:
  assumes "boot_pair ns a b" "k < length ns"
  shows "StrnCmp_eq (ns ! k) (wide ''boot_a'') 6 \<longleftrightarrow> k = a" "StrnCmp_eq (ns ! k) (wide ''boot_b'') 6 \<longleftrightarrow> k = b"
proof -
  have t: "take 5 x = wide ''boot_''" if "StrnCmp_eq x (wide ''boot_'' @ [c]) 6" for x c
    using arg_cong [OF that [unfolded StrnCmp_eq_def], of "take 5"] by simp
  have ab: "ns ! a = wide ''boot_a''" "ns ! b = wide ''boot_b''" using assms(1) by (simp_all add: boot_pair_def)
  have p: "k = a \<or> k = b" if "take 5 (ns ! k) = wide ''boot_''" using assms that by (simp add: boot_pair_def)
  have ne: "\<not> StrnCmp_eq (wide ''boot_b'') (wide ''boot_a'') 6" "\<not> StrnCmp_eq (wide ''boot_a'') (wide ''boot_b'') 6"
    by (simp_all add: StrnCmp_eq_def)
  have eq: "StrnCmp_eq x x 6" for x by (simp add: StrnCmp_eq_def)
  have "StrnCmp_eq (ns ! k) (wide ''boot_a'') 6 \<Longrightarrow> k = a \<or> k = b" "StrnCmp_eq (ns ! k) (wide ''boot_b'') 6 \<Longrightarrow> k = a \<or> k = b"
    unfolding wide_slot using p t by blast+
  then show "StrnCmp_eq (ns ! k) (wide ''boot_a'') 6 \<longleftrightarrow> k = a" "StrnCmp_eq (ns ! k) (wide ''boot_b'') 6 \<longleftrightarrow> k = b"
    using ne eq ab by auto
qed

lemma other_match:
  assumes "boot_pair ns a b" "k = a \<or> k = b" "slot_ok s" "n \<noteq> wide ''boot''"
  shows "\<not> StrnCmp_eq (ns ! k) (n @ s) (length (n @ s))"
proof
  assume m: "StrnCmp_eq (ns ! k) (n @ s) (length (n @ s))"
  obtain y where s: "s = [word_of_nat (ord8 (CHR ''_'')), y]" using assms(3) by (auto simp: slot_ok_def wide_slot)
  obtain x where "ns ! k = wide ''boot_'' @ [x]" using assms(1,2) by (auto simp: boot_pair_def wide_slot)
  with m have "take (length n + 2) (wide ''boot_'' @ [x]) = n @ [word_of_nat (ord8 (CHR ''_'')), y]"
    by (simp add: StrnCmp_eq_def s)
  from boot_prefix [OF this] assms(4) show False by simp
qed

lemma SwapPtnGuid_nth:
  assumes "i < length es" "j < length es" "i \<noteq> j" "k < length es"
  shows "PartitionTypeGUID (SwapPtnGuid (Some i) (Some j) es ! k) =
    PartitionTypeGUID (es ! (if k = i then j else if k = j then i else k))"
  using assms by (simp add: SwapPtnGuid_def Let_def nth_list_update)

lemma SwapPtnGuid_other:
  assumes "k < length es" "p \<noteq> Some k" "q \<noteq> Some k"
  shows "SwapPtnGuid p q es ! k = es ! k"
  using assms by (cases p; cases q) (simp_all add: SwapPtnGuid_def Let_def)

lemma Switch_node_other:
  assumes "boot_pair (map PartitionName es) a b" "k = a \<or> k = b" "slot_ok s" "slot_ok t" "n \<noteq> wide ''boot''"
  shows "Switch_node s t n es ! k = es ! k"
proof -
  have k: "k < length es" using assms(1,2) by (auto simp: boot_pair_def)
  have nm: "\<not> StrnCmp_eq (PartitionName (es ! k)) (n @ u) (length (n @ u))" if "slot_ok u" for u
    using other_match [OF assms(1,2) that assms(5)] k by simp
  have ix: "last_ix P 0 es None \<noteq> Some k" if "\<not> P (es ! k)" for P
    using last_ix_sound [of P 0 es None k] that by auto
  show ?thesis
  proof (cases "length n + 2 < BOOT_PART_SIZE")
    case True
    have l: "length u = 2" if "slot_ok u" for u using that by (auto simp: slot_ok_def)
    show ?thesis
      unfolding Switch_node_def Switch_find_last StrnCatS_def l [OF assms(3)] l [OF assms(4)] if_P [OF True] Let_def prod.case
      by (rule SwapPtnGuid_other [OF k]; rule ix) (simp_all add: nm assms(3,4) del: length_append)
  next
    case False
    have "last_ix (\<lambda>e. \<not> P e \<and> P e) 0 es None = None" for P
      using last_ix_sound [of "\<lambda>e. \<not> P e \<and> P e" 0 es None] by (cases "last_ix (\<lambda>e. \<not> P e \<and> P e) 0 es None") auto
    then show ?thesis
      using False assms(3,4) by (auto simp: Switch_node_def Switch_find_last StrnCatS_def SwapPtnGuid_def slot_ok_def split: option.splits)
  qed
qed

lemma Switch_node_boot:
  assumes "boot_pair (map PartitionName es) a b" "k = a \<or> k = b" "slot_ok s"
  shows "PartitionTypeGUID (Switch_node s (AlternateSlot s) (wide ''boot'') es ! k) = PartitionTypeGUID (es ! (if k = a then b else a))"
proof -
  have ab: "a < length es" "b < length es" using assms(1) by (simp_all add: boot_pair_def)
  have "wide ''boot_a'' \<noteq> wide ''boot_b''" by simp
  then have "a \<noteq> b" using assms(1) unfolding boot_pair_def by metis
  note ab = ab this
  have cat: "StrnCatS (wide ''boot'') (wide ''_a'') = wide ''boot_a''" "StrnCatS (wide ''boot'') (wide ''_b'') = wide ''boot_b''"
    by (simp_all add: StrnCatS_def BOOT_PART_SIZE_def NAME_SIZE_def)
  have m: "StrnCmp_eq (PartitionName (es ! k)) (wide ''boot_a'') 6 \<longleftrightarrow> k = a"
    "StrnCmp_eq (PartitionName (es ! k)) (wide ''boot_b'') 6 \<longleftrightarrow> k = b" if "k < length es" for k
    using boot_match [OF assms(1), of k] that by simp_all
  have l: "last_ix (\<lambda>e. StrnCmp_eq (PartitionName e) (wide ''boot_a'') 6) 0 es None = Some a"
    "last_ix (\<lambda>e. StrnCmp_eq (PartitionName e) (wide ''boot_b'') 6) 0 es None = Some b"
    "last_ix (\<lambda>e. \<not> StrnCmp_eq (PartitionName e) (wide ''boot_a'') 6 \<and> StrnCmp_eq (PartitionName e) (wide ''boot_b'') 6) 0 es None = Some b"
    "last_ix (\<lambda>e. \<not> StrnCmp_eq (PartitionName e) (wide ''boot_b'') 6 \<and> StrnCmp_eq (PartitionName e) (wide ''boot_a'') 6) 0 es None = Some a"
    by (rule last_ix_only; use ab m in simp)+
  have len: "length (wide ''boot_a'') = 6" "length (wide ''boot_b'') = 6" by simp_all
  have "Switch_node (wide ''_a'') (wide ''_b'') (wide ''boot'') es = SwapPtnGuid (Some b) (Some a) es"
    "Switch_node (wide ''_b'') (wide ''_a'') (wide ''boot'') es = SwapPtnGuid (Some a) (Some b) es"
    unfolding Switch_node_def Switch_find_last cat len l by simp_all
  moreover have "AlternateSlot (wide ''_a'') = wide ''_b''" "AlternateSlot (wide ''_b'') = wide ''_a''"
    by (simp_all add: AlternateSlot_def Slots_def StrnCmp_eq_def)
  ultimately show ?thesis using assms(2,3) ab SwapPtnGuid_nth [of a es b k] SwapPtnGuid_nth [of b es a k]
    by (auto simp: slot_ok_def)
qed

lemma Switch_fold_boot:
  assumes "boot_pair (map PartitionName es) a b" "k = a \<or> k = b" "slot_ok s" "count_list ns (wide ''boot'') \<le> 1"
  shows "PartitionTypeGUID (fold (Switch_node s (AlternateSlot s)) ns es ! k) =
    PartitionTypeGUID (es ! (if count_list ns (wide ''boot'') = 0 then k else if k = a then b else a))"
  using assms
proof (induction ns arbitrary: es k)
  case (Cons n ns)
  let ?es = "Switch_node s (AlternateSlot s) n es"
  have t: "slot_ok (AlternateSlot s)" using Cons.prems(3) by (auto simp: slot_ok_def AlternateSlot_def Slots_def StrnCmp_eq_def)
  have "map PartitionName ?es = map PartitionName es" using Switch_fold_frame [of s "AlternateSlot s" "[n]" es] by simp
  then have p: "boot_pair (map PartitionName ?es) a b" using Cons.prems(1) by simp
  have other: "(if k = a then b else a) = a \<or> (if k = a then b else a) = b" for k by simp
  show ?case
  proof (cases "n = wide ''boot''")
    case True
    then have c: "count_list ns (wide ''boot'') = 0" using Cons.prems(4) by simp
    have "PartitionTypeGUID (fold (Switch_node s (AlternateSlot s)) ns ?es ! k) = PartitionTypeGUID (?es ! k)"
      using Cons.IH [OF p Cons.prems(2,3)] c by simp
    also have "\<dots> = PartitionTypeGUID (es ! (if k = a then b else a))"
      unfolding True by (rule Switch_node_boot [OF Cons.prems(1-3)])
    finally show ?thesis using True by simp
  next
    case False
    then have n: "?es ! j = es ! j" if "j = a \<or> j = b" for j using Switch_node_other [OF Cons.prems(1) that Cons.prems(3) t] by simp
    show ?thesis
      using Cons.IH [OF p Cons.prems(2,3)] Cons.prems(2,4) False n [OF other] n [of k] by simp
  qed
qed simp

section \<open>The list of two-slot partitions has the boot partition once\<close>

lemma MultiSlotParts_partner_iff:
  assumes "length s < NAME_SIZE" "\<forall>n \<in> set ns. length n < NAME_SIZE"
  shows "MultiSlotParts_partner s ns =
    Some (\<exists>n \<in> set ns. n \<noteq> [] \<and> length n = length s \<and> StrnCmp_eq n s (length s - 1) \<and> (sublist (wide ''_a'') s \<or> sublist (wide ''_b'') s))"
  using assms by (induction ns) (auto simp: StrLen_def)

abbreviation boot_named :: "name16 \<Rightarrow> bool" where
  "boot_named n \<equiv> take 5 n = wide ''boot_''"

lemma boot_named_base:
  assumes "take (length s - 2) s = wide ''boot''" "sublist (wide ''_a'') s \<or> sublist (wide ''_b'') s"
  shows "boot_named s"
proof -
  have l: "length s = 6" using arg_cong [OF assms(1), of length] by simp
  then have "length (drop 4 s) = Suc (Suc 0)" by simp
  then obtain c d where "drop 4 s = [c, d]" unfolding length_Suc_conv by auto
  moreover have "take 4 s = wide ''boot''" using assms(1) l by simp
  ultimately have s: "s = wide ''boot'' @ [c, d]" using append_take_drop_id [of 4 s] by simp
  show ?thesis using assms(2) by (auto simp: s wide_def ord8_def sublist_Cons_right)
qed

lemma MultiSlotParts_count:
  assumes "\<And>k. PoolOk E k" "MultiSlotParts_loop E ns H = Some (st, h)" "\<forall>n \<in> set ns. length n < BOOT_PART_SIZE + 2"
    and "\<forall>n \<in> set ns. boot_named n \<longrightarrow> n = wide ''boot_a'' \<or> n = wide ''boot_b''"
  shows "count_list h (wide ''boot'') = count_list H (wide ''boot'') + (length (filter boot_named ns) - 1)"
  using assms(2-4)
proof (induction ns arbitrary: H)
  case (Cons n ns)
  have boot: "length m = 6 \<and> take (length m - 2) m = wide ''boot''" if "m \<in> set (n # ns)" "boot_named m" for m
    using Cons.prems(3) that by (auto simp: wide_slot)
  show ?case
  proof (cases "n = []")
    case True
    have "[] \<noteq> wide ''boot_''" by (metis list.distinct(1) wide_eq_Nil)
    then show ?thesis using Cons True by simp
  next
    case False
    have lt: "length n < NAME_SIZE" "\<forall>m \<in> set ns. length m < NAME_SIZE"
      using Cons.prems(2) by (auto simp: BOOT_PART_SIZE_def NAME_SIZE_def)
    let ?p = "\<exists>m \<in> set ns. m \<noteq> [] \<and> length m = length n \<and> StrnCmp_eq m n (length n - 1) \<and> (sublist (wide ''_a'') n \<or> sublist (wide ''_b'') n)"
    have H: "MultiSlotParts_loop E ns (if ?p then take (length n - 2) n # H else H) = Some (st, h)"
      using Cons.prems(1,2) False assms(1) MultiSlotParts_partner_iff [OF lt] by (auto split: if_splits)
    have ih: "count_list h (wide ''boot'') = count_list (if ?p then take (length n - 2) n # H else H) (wide ''boot'') + (length (filter boot_named ns) - 1)"
      using Cons.IH [OF H] Cons.prems(2,3) by simp
    have some: "filter boot_named ns \<noteq> [] \<longleftrightarrow> ?p" if "boot_named n"
    proof -
      have n: "length n = 6" "sublist (wide ''_a'') n \<or> sublist (wide ''_b'') n"
        using Cons.prems(3) that by (auto simp: sublist_Cons_right wide_def)
      have "boot_named m \<longleftrightarrow> m \<noteq> [] \<and> length m = length n \<and> StrnCmp_eq m n (length n - 1)" if "m \<in> set ns" for m
        using boot [of m] that n(1) \<open>boot_named n\<close> by (auto simp: StrnCmp_eq_def)
      then show ?thesis using n(2) by (auto simp: filter_empty_conv)
    qed
    show ?thesis
    proof (cases "boot_named n")
      case True
      then show ?thesis using ih some boot [of n] by (cases "filter boot_named ns") auto
    next
      case nb: False
      then have "?p \<longrightarrow> take (length n - 2) n \<noteq> wide ''boot''" using boot_named_base by blast
      then show ?thesis using ih nb by auto
    qed
  qed
qed simp

lemma boot_pair_named:
  assumes "boot_pair ns a b"
  shows "length (filter boot_named ns) = 2" "\<forall>n \<in> set ns. boot_named n \<longrightarrow> n = wide ''boot_a'' \<or> n = wide ''boot_b''"
proof -
  have ab: "a < length ns" "b < length ns" "ns ! a = wide ''boot_a''" "ns ! b = wide ''boot_b''"
    "\<And>k. k < length ns \<Longrightarrow> boot_named (ns ! k) \<Longrightarrow> k = a \<or> k = b" using assms by (simp_all add: boot_pair_def)
  have "wide ''boot_a'' \<noteq> wide ''boot_b''" by simp
  then have "a \<noteq> b" using ab(3,4) by metis
  have "{k. k < length ns \<and> boot_named (ns ! k)} = {a, b}" using ab by (auto simp: wide_slot)
  then show "length (filter boot_named ns) = 2" using \<open>a \<noteq> b\<close> by (simp add: length_filter_conv_card)
  show "\<forall>n \<in> set ns. boot_named n \<longrightarrow> n = wide ''boot_a'' \<or> n = wide ''boot_b''"
    using ab by (metis in_set_conv_nth)
qed

lemma SwitchPtnSlots_guid:
  assumes "SwitchPtnSlots E s S = Some S'" "boot_pair (part_names S) a b" "\<And>k. PoolOk E k" "short_names S" "slot_ok s"
    and "HeadNode S = [] \<or> count_list (HeadNode S) (wide ''boot'') = 1" "k = a \<or> k = b"
  shows "type_guid S' k = type_guid S (if k = a then b else a)"
proof -
  have alt: "(if StrnCmp_eq s (wide ''_a'') 2 then wide ''_b'' else wide ''_a'') = AlternateSlot s"
    using assms(5) by (auto simp: AlternateSlot_def Slots_def)
  obtain S1 where S1: "PtnEntries S1 = PtnEntries S" "count_list (HeadNode S1) (wide ''boot'') = 1"
    "S' = UpdatePartitionAttributes (Switch_lun E s (S1\<lparr>PtnEntries := fold (Switch_node s (AlternateSlot s)) (HeadNode S1) (PtnEntries S1)\<rparr>))"
  proof (cases "HeadNode S = []")
    case False
    then show thesis using that [of S] assms(1,6) alt by (simp add: SwitchPtnSlots_def)
  next
    case True
    obtain st h where L: "MultiSlotParts_loop E (map PartitionName (PtnEntries S)) [] = Some (st, h)"
      using assms(1) True by (auto simp: SwitchPtnSlots_def GetMultiSlotPartsList_def option_inversion)
    then have "st = EFI_SUCCESS" using MultiSlotParts_loop_status assms(3) by blast
    moreover have "count_list h (wide ''boot'') = 1"
      using MultiSlotParts_count [OF assms(3) L] boot_pair_named [OF assms(2)] assms(4) by (simp add: part_names_def short_names_def)
    ultimately show thesis
      using that [of "S\<lparr>HeadNode := h\<rparr>"] assms(1) True L alt by (simp add: SwitchPtnSlots_def GetMultiSlotPartsList_def)
  qed
  show ?thesis
    using Switch_fold_boot [of "PtnEntries S" a b k s "HeadNode S1"] S1 assms(2,5,7)
    by (simp add: type_guid_def UpdatePartitionAttributes_def ab_simps part_names_def)
qed

lemma MarkPtn_loop_guid: "MarkPtn_loop s es = Some es' \<Longrightarrow> map PartitionTypeGUID es' = map PartitionTypeGUID es"
  by (induction es arbitrary: es') (auto simp: option_inversion split: if_splits)

lemma MarkPtnActive_guid:
  assumes "MarkPtnActive s S = Some S'" "k < length (PtnEntries S)"
  shows "type_guid S' k = type_guid S k"
proof -
  obtain es where "MarkPtn_loop s (PtnEntries S) = Some es" "PtnEntries S' = es"
    using assms(1) by (auto simp: MarkPtnActive_def option_inversion UpdatePartitionAttributes_def)
  moreover from this have "map PartitionTypeGUID es = map PartitionTypeGUID (PtnEntries S)" by (simp add: MarkPtn_loop_guid)
  ultimately show ?thesis using assms(2) by (metis length_map nth_map type_guid_def)
qed

lemma set_Attr_guid [simp]: "type_guid (set_Attr i x S) k = type_guid S k"
  by (cases "k < length (PtnEntries S)"; cases "i = k") (simp_all add: type_guid_def set_Attr_def nth_list_update list_update_beyond)

text \<open>Setting another slot than the active one exchanges the type GUIDs of the two boot partitions; setting the active one keeps them.\<close>

lemma SetActiveSlot_guid:
  assumes ab: "two_slots S a b" and sn: "short_names S" and ok: "slot_ok s" and act: "GetActiveSlot [] S = (EFI_SUCCESS, c, S1)"
    and b: "boot_pair (part_names S) a b" "\<And>k. PoolOk E k" "HeadNode S = [] \<or> count_list (HeadNode S) (wide ''boot'') = 1"
    and r: "SetActiveSlot E (Some s) r S = Some (EFI_SUCCESS, S')" and k: "k = a \<or> k = b"
  shows "type_guid S' k = type_guid S1 (if c = s then k else if k = a then b else a)"
proof -
  note G = GetActiveSlot_ok [OF ab act]
  note I = slot_cases [OF G(8) ok]
  let ?i = "slot_index a b s" and ?j = "slot_index b a s"
  define T where "T = set_Attr ?i (Activate_attr r (Attr S1 ?i)) S1"
  define U where "U = set_Attr ?j (Deactivate_attr (Attr T ?j)) T"
  have U: "part_names U = part_names S" "HeadNode U = HeadNode S" "type_guid U k = type_guid S1 k" for k
    using G(3,6) by (simp_all add: U_def T_def ab_simps)
  have "part_names T = part_names S1" by (simp add: T_def ab_simps)
  then have "GetBootPartitionEntry T (AlternateSlot s) = Some ?j" using I(2) GetBootPartitionEntry_cong by metis
  then have step: "SetActiveSlot E (Some s) r S =
     (if c = s then Some (EFI_SUCCESS, Match_lun E c U)
      else do { S \<leftarrow> SwitchPtnSlots E s U; S \<leftarrow> MarkPtnActive s S; Some (EFI_SUCCESS, S) })"
    using act I(1) by (simp add: SetActiveSlot_def Let_def UpdatePartitionAttributes_def StrnCmp_slot [OF G(1) ok]
        T_def [symmetric] U_def [symmetric])
  show ?thesis
  proof (cases "c = s")
    case True
    then have "S' = Match_lun E c U" using r step by simp
    then show ?thesis using True U(3) by (simp add: type_guid_def ab_simps)
  next
    case False
    then obtain V where V: "SwitchPtnSlots E s U = Some V" "MarkPtnActive s V = Some S'"
      using r step by (auto simp: option_inversion)
    have "k < length (PtnEntries V)"
      using k b(1) SwitchPtnSlots_frame(1) [OF V(1)] U(1) by (metis boot_pair_def length_part_names)
    then have "type_guid S' k = type_guid V k" using MarkPtnActive_guid [OF V(2)] by simp
    moreover have "type_guid V k = type_guid U (if k = a then b else a)"
      using SwitchPtnSlots_guid [OF V(1) _ b(2) _ ok _ k] U(1,2) b(1,3) sn short_names_cong [OF U(1)] by simp
    ultimately show ?thesis using False U(3) by simp
  qed
qed

section \<open>Sequences of slot changes\<close>

text \<open>
  What a user of the slot table relies on: in a good state every valid slot can be activated, and it
  is then the current one.
\<close>

fun activate_all :: "('k \<Rightarrow> bool \<Rightarrow> 's \<Rightarrow> 's option) \<Rightarrow> ('k \<times> bool) list \<Rightarrow> 's \<Rightarrow> 's option" where
  "activate_all f [] s = Some s"
| "activate_all f ((k, r) # xs) s = do { s' \<leftarrow> f k r s; activate_all f xs s' }"

locale slot_store =
  fixes good :: "'s \<Rightarrow> bool" and valid :: "'k \<Rightarrow> bool" and current :: "'s \<Rightarrow> 'k option"
    and activate :: "'k \<Rightarrow> bool \<Rightarrow> 's \<Rightarrow> 's option"
  assumes activate: "good s \<Longrightarrow> valid k \<Longrightarrow> \<exists>s'. activate k r s = Some s' \<and> good s' \<and> current s' = Some k"
begin

lemma last_wins:
  assumes "good s" "\<forall>x \<in> set xs. valid (fst x)"
  shows "\<exists>s'. activate_all activate xs s = Some s' \<and> good s' \<and>
    current s' = (if xs = [] then current s else Some (fst (last xs)))"
  using assms
proof (induction xs arbitrary: s)
  case (Cons x xs)
  obtain k r where x: "x = (k, r)" by (cases x)
  obtain s1 where s1: "activate k r s = Some s1" "good s1" "current s1 = Some k"
    using activate [of s k r] Cons.prems by (auto simp: x)
  with Cons.IH [of s1] Cons.prems show ?case by (auto simp: x)
qed simp

end

definition current_slot :: "ab_state \<Rightarrow> name16 option" where
  "current_slot S = (if fst (GetActiveSlot [] S) = EFI_SUCCESS then Some (fst (snd (GetActiveSlot [] S))) else None)"

definition activate_slot :: "ab_env \<Rightarrow> name16 \<Rightarrow> bool \<Rightarrow> ab_state \<Rightarrow> ab_state option" where
  "activate_slot E s r S =
     do { (Status, S) \<leftarrow> SetActiveSlot E (Some s) r S;
          if Status = EFI_SUCCESS then Some S else None }"

definition good_table :: "ab_state \<Rightarrow> bool" where
  "good_table S \<longleftrightarrow> GetPartitionIndex S (wide ''boot_a'') \<noteq> None \<and> GetPartitionIndex S (wide ''boot_b'') \<noteq> None \<and>
     short_names S \<and> current_slot S \<noteq> None"

lemma good_tableE:
  assumes "good_table S"
  obtains a b c S1 where "two_slots S a b" "short_names S" "GetActiveSlot [] S = (EFI_SUCCESS, c, S1)"
    "current_slot S = Some c"
  using assms unfolding good_table_def current_slot_def two_slots_def
  by (cases "GetActiveSlot [] S") (auto split: if_splits)

lemma current_slot_pick:
  "two_slots S a b \<Longrightarrow> pick_slot (view S a) (view S b) = Some t \<Longrightarrow> current_slot S = Some t"
  by (simp add: current_slot_def GetActiveSlot_pick)

lemma activate_slot_good:
  assumes "good_table S" "slot_ok s"
  shows "\<exists>S'. activate_slot E s r S = Some S' \<and> good_table S' \<and> current_slot S' = Some s"
proof -
  obtain a b c S1 where ab: "two_slots S a b" "short_names S" "GetActiveSlot [] S = (EFI_SUCCESS, c, S1)"
    using good_tableE [OF assms(1)] .
  obtain S' where S': "SetActiveSlot E (Some s) r S = Some (EFI_SUCCESS, S')" "part_names S' = part_names S"
    and v: "view S' (slot_index a b s) = \<lparr>priority = 3, active = True, retry = 7,
        successful = bit (Attr S1 (slot_index a b s)) 54 \<and> \<not> r, unbootable = False\<rparr>"
      "view S' (slot_index b a s) = (view S1 (slot_index b a s))\<lparr>priority := 2, active := False\<rparr>"
    using SetActiveSlot_effect [OF ab(1,2) assms(2) ab(3), of E r] by blast
  have ab': "two_slots S' a b" using two_slots_cong [OF S'(2)] ab(1) by simp
  have "pick_slot (view S' a) (view S' b) = Some s"
    by (rule pick_slot_index [where v = "view S'", OF assms(2) v]) (simp_all add: word_gt_0)
  then have "current_slot S' = Some s" by (rule current_slot_pick [OF ab'])
  then show ?thesis
    using S'(1) ab' ab(2) short_names_cong [OF S'(2)]
    by (simp add: activate_slot_def good_table_def two_slots_def)
qed

interpretation slot_table: slot_store good_table slot_ok current_slot "activate_slot E" for E
  by unfold_locales (rule activate_slot_good)

section \<open>Correctness of \<open>FindBootableSlot\<close>\<close>

lemma MarkPtn_loop_Some:
  "MarkPtn_loop s es = Some es' \<Longrightarrow>
   es' = map (\<lambda>e. if sublist s (PartitionName e) then e\<lparr>Attributes := Attributes e OR PART_ATT_ACTIVE_VAL\<rparr>
                  else e\<lparr>Attributes := Attributes e AND NOT PART_ATT_ACTIVE_VAL\<rparr>) es"
  by (induction es arbitrary: es') (auto simp: StrStr_def option_inversion)

lemma MarkPtnActive_view:
  assumes "MarkPtnActive s S = Some S'" "k < length (PtnEntries S)"
  shows "view S' k = (view S k)\<lparr>active := sublist s (part_names S ! k)\<rparr>"
  using assms
  by (auto simp: MarkPtnActive_def option_inversion UpdatePartitionAttributes_def Attr_def part_names_def
      dest!: MarkPtn_loop_Some)

lemma HandleActiveSlotUnbootable_error:
  "HandleActiveSlotUnbootable E S = Some (st, S') \<Longrightarrow> st \<noteq> EFI_SUCCESS"
  by (auto simp: HandleActiveSlotUnbootable_def option_inversion split: option.splits if_splits)

lemma ValidateSlotGuids_lun:
  assumes "ValidateSlotGuids E S s = Some EFI_SUCCESS"
  shows "CheckRootDeviceType E = UFS \<Longrightarrow> BootLun S = slot_lun s"
  using assms
  by (auto simp: ValidateSlotGuids_def UfsGetBootLun_def slot_lun_def split: option.splits if_splits)

text \<open>The entry the retry counter leaves in the table.\<close>

definition retry_counted :: "ab_env \<Rightarrow> bool" where
  "retry_counted E \<longleftrightarrow> \<not> IsABRetryCountDisabled E \<and> \<not> IsBootDevImage E \<and> IsABRetryCountUpdateRequired E"

definition tried_view :: "ab_env \<Rightarrow> slot_view \<Rightarrow> slot_view" where
  "tried_view E v = (if \<not> successful v \<and> retry_counted E then v\<lparr>retry := retry v - 1\<rparr> else v)"

definition bootable_view :: "slot_view \<Rightarrow> bool" where
  "bootable_view v \<longleftrightarrow> \<not> unbootable v \<and> (successful v \<or> retry v > 0)"

lemma Find_try_success:
  assumes "Find_try E i S = Some (EFI_SUCCESS, S2)"
  shows "bootable_view (view S i)"
    "S2 = (if \<not> bit (Attr S i) 54 \<and> retry_counted E then set_Attr i (Retry_attr (Attr S i)) S else S)"
  using assms
  by (auto simp: Find_try_def bootable_view_def retry_counted_def UpdatePartitionAttributes_def
      dest: HandleActiveSlotUnbootable_error split: if_splits)

lemma Find_try_handle: "\<not> bootable_view (view S i) \<Longrightarrow> Find_try E i S = HandleActiveSlotUnbootable E S"
  by (auto simp: Find_try_def bootable_view_def)

lemma Find_try_boots:
  "bootable_view (view S i) \<Longrightarrow> Find_try E i S =
     Some (EFI_SUCCESS, if \<not> bit (Attr S i) 54 \<and> retry_counted E then set_Attr i (Retry_attr (Attr S i)) S else S)"
  by (auto simp: Find_try_def bootable_view_def retry_counted_def UpdatePartitionAttributes_def)

lemma FindBootableSlot_inversion:
  assumes "FindBootableSlot E (Some x) S = Some (EFI_SUCCESS, sl, S')"
  obtains s S1 i S2 where "GetActiveSlot x S = (EFI_SUCCESS, s, S1)" "sl = Some s"
    "GetBootPartitionEntry S1 s = Some i" "Find_try E i S1 = Some (EFI_SUCCESS, S2)"
    "CheckRootDeviceType E \<noteq> NAND \<longrightarrow> ValidateSlotGuids E S2 s = Some EFI_SUCCESS"
    "MarkPtnActive s S2 = Some S'"
proof -
  obtain st s S1 where G: "GetActiveSlot x S = (st, s, S1)" by (cases "GetActiveSlot x S") auto
  with assms have st: "st = EFI_SUCCESS" by (auto simp: FindBootableSlot_def split: if_splits)
  from assms G obtain i where i: "GetBootPartitionEntry S1 s = Some i"
    by (cases "GetBootPartitionEntry S1 s") (auto simp: FindBootableSlot_def st)
  from assms G i obtain S2 where "Find_try E i S1 = Some (EFI_SUCCESS, S2)" "sl = Some s"
    "CheckRootDeviceType E \<noteq> NAND \<longrightarrow> ValidateSlotGuids E S2 s = Some EFI_SUCCESS"
    "MarkPtnActive s S2 = Some S'"
    by (auto simp: FindBootableSlot_def st option_inversion Find_out_def)
  with G i that show ?thesis by (simp add: st)
qed

lemma FindBootableSlot_effect:
  assumes ab: "two_slots S a b" and R: "FindBootableSlot E (Some []) S = Some (EFI_SUCCESS, sl, S')"
  shows "\<exists>s S1. GetActiveSlot [] S = (EFI_SUCCESS, s, S1) \<and> sl = Some s \<and> slot_ok s \<and>
    bootable_view (view S1 (slot_index a b s)) \<and>
    view S' (slot_index a b s) = (tried_view E (view S1 (slot_index a b s)))\<lparr>active := True\<rparr> \<and>
    view S' (slot_index b a s) = (view S1 (slot_index b a s))\<lparr>active := False\<rparr> \<and>
    (CheckRootDeviceType E = UFS \<longrightarrow> BootLun S' = slot_lun s) \<and>
    part_names S' = part_names S \<and> Ptable S' = Ptable S"
proof -
  obtain s S1 i S2 where act: "GetActiveSlot [] S = (EFI_SUCCESS, s, S1)" and sl: "sl = Some s"
    and i: "GetBootPartitionEntry S1 s = Some i" and t: "Find_try E i S1 = Some (EFI_SUCCESS, S2)"
    and v: "CheckRootDeviceType E \<noteq> NAND \<longrightarrow> ValidateSlotGuids E S2 s = Some EFI_SUCCESS"
    and m: "MarkPtnActive s S2 = Some S'"
    using FindBootableSlot_inversion [OF R] .
  note G = GetActiveSlot_ok [OF ab act]
  note I = slot_cases [OF G(8) G(1)]
  have i': "i = slot_index a b s" using i I(1) by simp
  note T = Find_try_success [OF t, unfolded i']
  let ?i = "slot_index a b s" and ?j = "slot_index b a s"
  have S2: "part_names S2 = part_names S1" "Ptable S2 = Ptable S1" "view S2 ?j = view S1 ?j"
    "view S2 ?i = tried_view E (view S1 ?i)"
    using T I(3-5) by (auto simp: ab_simps tried_view_def bootable_view_def)
  have len: "length (PtnEntries S2) = length (PtnEntries S1)" using S2(1) by (rule length_cong)
  have "view S' ?i = (tried_view E (view S1 ?i))\<lparr>active := True\<rparr>" "view S' ?j = (view S1 ?j)\<lparr>active := False\<rparr>"
    using MarkPtnActive_view [OF m, of ?i] MarkPtnActive_view [OF m, of ?j] I(3,4,11,12) S2 len by simp_all
  moreover have "CheckRootDeviceType E = UFS \<longrightarrow> BootLun S' = slot_lun s"
    using v ValidateSlotGuids_lun [of E S2 s] MarkPtnActive_frame [OF m] by auto
  moreover have "part_names S' = part_names S" "Ptable S' = Ptable S"
    using MarkPtnActive_frame [OF m] S2(1,2) G(3,4) by simp_all
  ultimately show ?thesis using act sl G(1) T(1) by blast
qed

section \<open>Falling back to the other slot\<close>

definition failed_view :: "ab_env \<Rightarrow> ab_state \<Rightarrow> slot_view \<Rightarrow> slot_view" where
  "failed_view E S v = (if FirstBoot S \<and> \<not> TargetBuildVariantUser E then v else v\<lparr>unbootable := True\<rparr>)"

lemma pick_slot_cong:
  "active v' = active v \<Longrightarrow> priority v' = priority v \<Longrightarrow> active w' = active w \<Longrightarrow> priority w' = priority w \<Longrightarrow>
   pick_slot v' w' = pick_slot v w"
  by (simp only: pick_slot_def)

lemma HandleActiveSlotUnbootable_effect:
  assumes ab: "two_slots S a b" and sn: "short_names S" and p: "pick_slot (view S a) (view S b) = Some s"
  defines "i \<equiv> slot_index a b s" and "j \<equiv> slot_index b a s"
  shows "\<exists>S'. HandleActiveSlotUnbootable E S = Some (EFI_LOAD_ERROR, S') \<and>
    part_names S' = part_names S \<and> Ptable S' = Ptable S \<and>
    (if \<not> unbootable (view S j) \<and> successful (view S j)
     then view S' i = (failed_view E S (view S i))\<lparr>priority := 2, active := False\<rparr> \<and>
       view S' j = \<lparr>priority = 3, active = True, retry = 7, successful = True, unbootable = False\<rparr> \<and> ResetRequested S'
     else view S' i = failed_view E S (view S i) \<and> view S' j = view S j \<and> ResetRequested S' = ResetRequested S)"
proof -
  have ok: "slot_ok s" using p by (rule pick_slot_ok)
  note I = slot_cases [OF ab ok, folded i_def j_def]
  define T where "T = (if FirstBoot S \<and> \<not> TargetBuildVariantUser E then S\<lparr>FirstBoot := False\<rparr>
    else set_Attr i (Attr S i OR (PART_ATT_UNBOOTABLE_VAL AND NOT PART_ATT_SUCCESSFUL_VAL)) S)"
  have fr: "Attr (X\<lparr>FirstBoot := x\<rparr>) k = Attr X k" "part_names (X\<lparr>FirstBoot := x\<rparr>) = part_names X" for X x k
    by (simp_all add: Attr_def part_names_def)
  have T: "part_names T = part_names S" "Ptable T = Ptable S" "ResetRequested T = ResetRequested S"
    "view T i = failed_view E S (view S i)" "view T j = view S j"
    using I(3-5) by (simp_all add: T_def ab_simps fr failed_view_def)
  have abT: "two_slots T a b" using two_slots_cong [OF T(1)] ab by simp
  have "active (view T k) = active (view S k) \<and> priority (view T k) = priority (view S k)" if "k = i \<or> k = j" for k
    using that T(5) by (elim disjE) (simp_all only: T(4) failed_view_def, simp_all)
  moreover have "(a = i \<or> a = j) \<and> (b = i \<or> b = j)" by (auto simp: i_def j_def slot_index_def)
  ultimately have "pick_slot (view T a) (view T b) = pick_slot (view S a) (view S b)"
    by (intro pick_slot_cong) blast+
  with p have act: "GetActiveSlot [] T = (EFI_SUCCESS, s, T)" by (simp add: GetActiveSlot_pick [OF abT])
  have bT: "GetBootPartitionEntry T (AlternateSlot s) = Some j"
    using I(2) GetBootPartitionEntry_cong [OF T(1)] by simp
  have bits: "bit (Attr T j) 54 = successful (view S j)" "bit (Attr T j) 55 = unbootable (view S j)"
    using slot_view_eqD [OF T(5)] by simp_all
  have T': "(if FirstBoot S \<and> \<not> TargetBuildVariantUser E then S\<lparr>FirstBoot := False\<rparr>
    else UpdatePartitionAttributes
           (set_Attr i (Attr S i OR (PART_ATT_UNBOOTABLE_VAL AND NOT PART_ATT_SUCCESSFUL_VAL)) S)) = T"
    by (simp add: T_def UpdatePartitionAttributes_def)
  have step: "HandleActiveSlotUnbootable E S =
     (if \<not> unbootable (view S j) \<and> successful (view S j) then
        do { (Status, S) \<leftarrow> SetActiveSlot E (Some (AlternateSlot s)) False T;
             if Status \<noteq> EFI_SUCCESS then Some (Status, S) else Some (EFI_LOAD_ERROR, S\<lparr>ResetRequested := True\<rparr>) }
      else Some (EFI_LOAD_ERROR, T))"
    using I(1) bT GetActiveSlot_pick [OF ab p] bits
    by (simp add: HandleActiveSlotUnbootable_def Let_def T')
  show ?thesis
  proof (cases "\<not> unbootable (view S j) \<and> successful (view S j)")
    case True
    obtain S' where S': "SetActiveSlot E (Some (AlternateSlot s)) False T = Some (EFI_SUCCESS, S')"
      "part_names S' = part_names T" "Ptable S' = Ptable T"
      "view S' j = \<lparr>priority = 3, active = True, retry = 7, successful = bit (Attr T j) 54, unbootable = False\<rparr>"
      "view S' i = (view T i)\<lparr>priority := 2, active := False\<rparr>"
      using SetActiveSlot_effect [OF abT _ I(6) act, of E False] sn short_names_cong [OF T(1)]
      by (auto simp: I(9,10) [unfolded i_def j_def] i_def j_def)
    have fr': "Attr (X\<lparr>ResetRequested := x\<rparr>) k = Attr X k"
      "part_names (X\<lparr>ResetRequested := x\<rparr>) = part_names X" for X x k
      by (simp_all add: Attr_def part_names_def)
    show ?thesis
      using True S' T bits by (simp add: step fr')
  next
    case False
    then have "HandleActiveSlotUnbootable E S = Some (EFI_LOAD_ERROR, T)" unfolding step by (rule if_not_P)
    with T False show ?thesis by auto
  qed
qed

section \<open>Boots\<close>

text \<open>
  What survives a reset: the partition records of the device, the misc partition and the boot LUN. The
  table in memory and the static variables are set up again.
\<close>

definition power_on :: "ab_env \<Rightarrow> ab_state \<Rightarrow> ab_state" where
  "power_on E S = UpdatePartitionEntries E
     (S\<lparr>PtnEntries := [], PtnEntriesBak := [], FirstBoot := False, HeadNode := [], ResetRequested := False\<rparr>)"

inductive ab_step :: "ab_env \<Rightarrow> ab_state \<Rightarrow> ab_state \<Rightarrow> bool" for E where
  step_set: "SetActiveSlot E s r S = Some (st, S') \<Longrightarrow> ab_step E S S'"
| step_find: "FindBootableSlot E s S = Some (st, t, S') \<Longrightarrow> ab_step E S S'"
| step_handle: "HandleActiveSlotUnbootable E S = Some (st, S') \<Longrightarrow> ab_step E S S'"
| step_clear: "ClearUnbootable S = (st, S') \<Longrightarrow> ab_step E S S'"
| step_active: "ab_step E S (FindPtnActiveSlot S)"
| step_suffix: "GetCurrentSlotSuffix S = Some (s, S') \<Longrightarrow> ab_step E S S'"
| step_bootable: "IsCurrentSlotBootable S = (x, S') \<Longrightarrow> ab_step E S S'"
| step_power: "ab_step E S (power_on E S)"

inductive_cases ab_stepE: "ab_step E S S'"

definition device :: "ab_state \<Rightarrow> PartitionEntry option list list \<times> NandABPtnHeader list" where
  "device S = (Ptable S, Misc S)"

lemma device_update [simp]:
  "device (set_Attr i a S) = device S" "device (S\<lparr>FirstBoot := x\<rparr>) = device S"
  "device (S\<lparr>ResetRequested := x\<rparr>) = device S" "device (S\<lparr>PtnEntries := es\<rparr>) = device S"
  "device (S\<lparr>PtnEntriesBak := es\<rparr>) = device S" "device (S\<lparr>HeadNode := h\<rparr>) = device S"
  "device (UpdatePartitionAttributes S) = device S" "device (Match_lun E s S) = device S"
  "device (Switch_lun E s S) = device S"
  by (simp_all add: device_def ab_simps UpdatePartitionAttributes_def)

lemma GetActiveSlot_device: "GetActiveSlot s S = (st, c, S') \<Longrightarrow> device S' = device S"
  by (auto simp: GetActiveSlot_def Let_def split: prod.splits option.splits if_splits)

lemma SwitchPtnSlots_device: "SwitchPtnSlots E s S = Some S' \<Longrightarrow> device S' = device S"
  using SwitchPtnSlots_frame by (auto simp: device_def)

lemma MarkPtnActive_device: "MarkPtnActive s S = Some S' \<Longrightarrow> device S' = device S"
  using MarkPtnActive_frame by (auto simp: device_def)

lemma SetActiveSlot_device: "SetActiveSlot E s r S = Some (st, S') \<Longrightarrow> device S' = device S"
  by (auto simp: SetActiveSlot_def option_inversion case_option_eq_Some
      dest!: GetActiveSlot_device SwitchPtnSlots_device MarkPtnActive_device)

lemma HandleActiveSlotUnbootable_device: "HandleActiveSlotUnbootable E S = Some (st, S') \<Longrightarrow> device S' = device S"
  by (auto simp: HandleActiveSlotUnbootable_def option_inversion case_option_eq_Some
      dest!: GetActiveSlot_device SetActiveSlot_device)

lemma Find_try_device: "Find_try E i S = Some (st, S') \<Longrightarrow> device S' = device S"
  by (auto simp: Find_try_def split: if_splits dest!: HandleActiveSlotUnbootable_device)

lemma FindBootableSlot_device: "FindBootableSlot E s S = Some (st, t, S') \<Longrightarrow> device S' = device S"
  by (auto simp: FindBootableSlot_def Find_out_def option_inversion case_option_eq_Some
      dest!: GetActiveSlot_device Find_try_device MarkPtnActive_device)

lemma NandFromMisc_device: "device (snd (NandFromMisc_loop xs S)) = device S"
  by (induction xs S rule: NandFromMisc_loop.induct) (auto split: option.splits)

lemma UpdatePartitionEntries_device: "device (UpdatePartitionEntries E S) = device S"
  by (auto simp: UpdatePartitionEntries_def NandABUpdatePartition_def Let_def NandFromMisc_device)

lemma ab_step_device: "ab_step E S S' \<Longrightarrow> device S' = device S"
proof (induction rule: ab_step.induct)
  case (step_clear S st S')
  then show ?case
    by (auto simp: ClearUnbootable_def Let_def split: prod.splits option.splits if_splits dest!: GetActiveSlot_device)
next
  case (step_active S)
  then show ?case
    by (cases "GetActiveSlot [] S") (auto simp: FindPtnActiveSlot_def dest: GetActiveSlot_device)
next
  case (step_suffix S s S')
  then show ?case
    by (auto simp: GetCurrentSlotSuffix_def option_inversion split: if_splits)
       (metis GetActiveSlot_device prod.collapse snd_conv)
next
  case (step_bootable S x S')
  then show ?case
    by (auto simp: IsCurrentSlotBootable_def Let_def split: prod.splits option.splits if_splits dest!: GetActiveSlot_device)
next
  case (step_power S)
  then show ?case by (simp add: power_on_def UpdatePartitionEntries_device)
qed (auto dest: SetActiveSlot_device FindBootableSlot_device HandleActiveSlotUnbootable_device)

lemma ab_steps_device: "(ab_step E)\<^sup>*\<^sup>* S S' \<Longrightarrow> device S' = device S"
  by (induction rule: rtranclp_induct) (auto dest: ab_step_device)

text \<open>The table after a reset is a function of the device.\<close>

lemma GetBootPartitionEntry_entries:
  "PtnEntries S = PtnEntries T \<Longrightarrow> GetBootPartitionEntry S s = GetBootPartitionEntry T s"
  by (rule GetBootPartitionEntry_cong) (simp add: part_names_def)

lemma NandFromMisc_entries:
  "PtnEntries S = PtnEntries T \<Longrightarrow>
   PtnEntries (snd (NandFromMisc_loop xs S)) = PtnEntries (snd (NandFromMisc_loop xs T))"
proof (induction xs arbitrary: S T)
  case (Cons x xs)
  obtain s h where x: "x = (s, h)" by (cases x)
  note B = GetBootPartitionEntry_entries [OF Cons.prems, of s]
  show ?case
  proof (cases "GetBootPartitionEntry T s")
    case None
    then show ?thesis using B Cons.prems by (simp add: x)
  next
    case (Some i)
    have "PtnEntries (if c then set_Attr i a S else S) = PtnEntries (if c then set_Attr i a T else T)" for c a
      using Cons.prems by (simp add: set_Attr_def)
    from Cons.IH [OF this] show ?thesis by (simp only: x NandFromMisc_loop.simps B Some option.case Cons.prems)
  qed
qed simp

lemma NandFromMisc_lun: "BootLun (snd (NandFromMisc_loop xs S)) = BootLun S"
  by (induction xs S rule: NandFromMisc_loop.induct) (auto simp: ab_simps split: option.splits)

lemma power_on_lun: "BootLun (power_on E S) = BootLun S"
  by (simp add: power_on_def UpdatePartitionEntries_def NandABUpdatePartition_def Let_def NandFromMisc_lun)

lemma power_on_entries:
  assumes "device S = device T"
  shows "PtnEntries (power_on E S) = PtnEntries (power_on E T)"
  using assms
  by (auto simp: power_on_def UpdatePartitionEntries_def NandABUpdatePartition_def Let_def device_def
      GetMaxLuns_def intro!: NandFromMisc_entries)

lemma table_entries_cong:
  assumes "PtnEntries S = PtnEntries T"
  shows "two_slots S a b = two_slots T a b" "view S k = view T k" "short_names S = short_names T"
    "part_names S = part_names T"
  using assms by (simp_all add: part_names_def Attr_def short_names_def two_slots_def GetPartitionIndex_def)

lemma power_on_steps:
  assumes "(ab_step E)\<^sup>*\<^sup>* (power_on E S) S'"
  shows "PtnEntries (power_on E S') = PtnEntries (power_on E S)"
proof (rule power_on_entries)
  have "device S' = device (power_on E S)" using assms by (rule ab_steps_device)
  also have "\<dots> = device S" by (rule ab_step_device [OF step_power])
  finally show "device S' = device S" .
qed

lemma current_slot_entries:
  assumes "PtnEntries S = PtnEntries T" shows "current_slot S = current_slot T"
proof -
  note B = GetBootPartitionEntry_entries [OF assms]
  have A: "Attr S k = Attr T k" for k using assms by (simp add: Attr_def)
  have "ActiveSlot_loop S ss p x = ActiveSlot_loop T ss p x" for ss p x
    by (induction ss arbitrary: p x) (simp_all add: A B cong: option.case_cong if_cong)
  then show ?thesis
    by (auto simp: current_slot_def GetActiveSlot_def A B Let_def split: prod.splits option.splits)
qed

section \<open>A sample device\<close>

definition sample_entry :: "string \<Rightarrow> u8 \<Rightarrow> u64 \<Rightarrow> PartitionEntry" where
  "sample_entry n g a = \<lparr>PartitionTypeGUID = replicate 16 g, UniquePartitionGUID = replicate 16 g, StartingLBA = 8,
     EndingLBA = 15, Attributes = a, PartitionName = wide n, lun = 0\<rparr>"

definition sample_ab :: "u64 \<Rightarrow> u64 \<Rightarrow> ab_state" where
  "sample_ab a b = \<lparr>Ptable = [[Some (sample_entry ''boot_a'' 1 a), Some (sample_entry ''boot_b'' 2 b),
       Some (sample_entry ''abl_a'' 3 0), Some (sample_entry ''abl_b'' 4 0)]],
     PtnEntries = [sample_entry ''boot_a'' 1 a, sample_entry ''boot_b'' 2 b,
       sample_entry ''abl_a'' 3 0, sample_entry ''abl_b'' 4 0],
     PtnEntriesBak = [], FirstBoot = False, HeadNode = [], BootLun = 1, ResetRequested = False, Misc = []\<rparr>"

definition sample_env :: ab_env where
  "sample_env = \<lparr>CheckRootDeviceType = UFS, TargetBuildVariantUser = True, IsABRetryCountDisabled = False,
     IsBootDevImage = False, IsABRetryCountUpdateRequired = True, UfsHandles = EFI_SUCCESS,
     CardInfoProtocol = EFI_SUCCESS, CardInfoRevision = True, BootLU = EFI_SUCCESS, PoolOk = (\<lambda>k. True),
     NandMiscPartiGuid = EFI_NOT_FOUND, MiscRead = EFI_NOT_FOUND, MiscWrite = EFI_NOT_FOUND,
     BlkIOHandles = (\<lambda>r. (EFI_SUCCESS, []))\<rparr>"

text \<open>Slot \<open>_a\<close> is active and untried; slot \<open>_b\<close> booted once.\<close>

definition tried_attr :: u64 where "tried_attr = push_bit 48 63"
definition backup_attr :: u64 where "backup_attr = push_bit 48 66"

lemma sample_views:
  "slot_view tried_attr = \<lparr>priority = 3, active = True, retry = 7, successful = False, unbootable = False\<rparr>"
  "slot_view backup_attr = \<lparr>priority = 2, active = False, retry = 0, successful = True, unbootable = False\<rparr>"
  by (simp_all add: slot_view_def tried_attr_def backup_attr_def BootPriority_take RetryCount_take
      bit_numeral_word_iff)

lemma sample_ab_facts:
  "two_slots (sample_ab a b) 0 1" "short_names (sample_ab a b)" "Attr (sample_ab a b) 0 = a"
  "Attr (sample_ab a b) 1 = b" "Attr (sample_ab a b) (Suc 0) = b" "BootLun (sample_ab a b) = 1"
  by (simp_all add: two_slots_def sample_ab_def sample_entry_def GetPartitionIndex_def StrnCmp_eq_def
      short_names_def part_names_def Attr_def BOOT_PART_SIZE_def NAME_SIZE_def)

lemma sample_env_ready: "ufs_ready sample_env" "PoolOk sample_env k"
  by (simp_all add: ufs_ready_def sample_env_def UfsGetSetBootLun_status_def)

lemma sample_active: "GetActiveSlot x (sample_ab tried_attr backup_attr) =
  (EFI_SUCCESS, wide ''_a'', sample_ab tried_attr backup_attr)"
  by (rule GetActiveSlot_pick [OF sample_ab_facts(1)])
     (simp add: sample_ab_facts sample_views pick_slot_def word_gt_0)

section \<open>Properties\<close>

text \<open>
  C14: In a table with both boot partitions, names of at most 33 characters and an active slot,
  \<open>SetActiveSlot\<close> to \<open>_a\<close> or \<open>_b\<close> succeeds and the slot is then the active one: it has the highest
  priority and all retries, is not unbootable, and keeps its successful bit unless the caller resets it,
  while the other slot is inactive at priority 2 with its other fields unchanged. When no other name starts with
  \<open>boot_\<close> and no allocation fails, the type GUIDs of the two boot partitions are exchanged exactly when the active slot changes. On a working UFS device the
  boot LUN follows the slot.
\<close>

theorem SetActiveSlot_exact:
  assumes "two_slots S a b" "short_names S" "slot_ok s" "GetActiveSlot [] S = (EFI_SUCCESS, c, S1)"
  shows "\<exists>S'. SetActiveSlot E (Some s) r S = Some (EFI_SUCCESS, S') \<and> current_slot S' = Some s \<and>
    view S' (slot_index a b s) = \<lparr>priority = 3, active = True, retry = 7,
      successful = bit (Attr S1 (slot_index a b s)) 54 \<and> \<not> r, unbootable = False\<rparr> \<and>
    view S' (slot_index b a s) = (view S1 (slot_index b a s))\<lparr>priority := 2, active := False\<rparr> \<and>
    (boot_pair (part_names S) a b \<and> (\<forall>k. PoolOk E k) \<and> (HeadNode S = [] \<or> count_list (HeadNode S) (wide ''boot'') = 1) \<longrightarrow>
       type_guid S' a = type_guid S1 (if c = s then a else b) \<and> type_guid S' b = type_guid S1 (if c = s then b else a)) \<and>
    (ufs_ready E \<and> (\<forall>k. PoolOk E k) \<and> (BootLun S = 1 \<or> BootLun S = 2) \<longrightarrow> BootLun S' = slot_lun s)"
proof -
  obtain S' where S': "SetActiveSlot E (Some s) r S = Some (EFI_SUCCESS, S')" "part_names S' = part_names S"
    and v: "view S' (slot_index a b s) = \<lparr>priority = 3, active = True, retry = 7,
        successful = bit (Attr S1 (slot_index a b s)) 54 \<and> \<not> r, unbootable = False\<rparr>"
      "view S' (slot_index b a s) = (view S1 (slot_index b a s))\<lparr>priority := 2, active := False\<rparr>"
    using SetActiveSlot_effect [OF assms, of E r] by blast
  have "current_slot S' = Some s"
  proof (rule current_slot_pick)
    show "two_slots S' a b" using two_slots_cong [OF S'(2)] assms(1) by simp
    show "pick_slot (view S' a) (view S' b) = Some s"
      by (rule pick_slot_index [where v = "view S'", OF assms(3) v]) (simp_all add: word_gt_0)
  qed
  moreover have "ufs_ready E \<and> (\<forall>k. PoolOk E k) \<and> (BootLun S = 1 \<or> BootLun S = 2) \<longrightarrow> BootLun S' = slot_lun s"
    using SetActiveSlot_lun [OF assms(1,3,4) _ _ _ S'(1)] by blast
  moreover have "type_guid S' a = type_guid S1 (if c = s then a else b) \<and> type_guid S' b = type_guid S1 (if c = s then b else a)"
    if "boot_pair (part_names S) a b" "\<forall>k. PoolOk E k" "HeadNode S = [] \<or> count_list (HeadNode S) (wide ''boot'') = 1"
  proof -
    have "a \<noteq> b" by (rule two_slotsD(3) [OF assms(1)])
    then show ?thesis
      using SetActiveSlot_guid [OF assms that(1) _ that(3) S'(1), of a] SetActiveSlot_guid [OF assms that(1) _ that(3) S'(1), of b] that(2) by auto
  qed
  ultimately show ?thesis using S'(1) v by blast
qed

lemma sample_boot_pair: "boot_pair (part_names (sample_ab x y)) 0 1" "HeadNode (sample_ab x y) = []"
  "type_guid (sample_ab x y) 0 = replicate 16 1" "type_guid (sample_ab x y) 1 = replicate 16 2"
proof -
  have "take 5 (wide ''abl_a'') \<noteq> wide ''boot_''" "take 5 (wide ''abl_b'') \<noteq> wide ''boot_''" by (simp_all add: wide_def ord8_def)
  then show "boot_pair (part_names (sample_ab x y)) 0 1"
    by (auto simp: boot_pair_def part_names_def sample_ab_def sample_entry_def less_Suc_eq)
qed (simp_all add: sample_ab_def sample_entry_def type_guid_def)

theorem SetActiveSlot_exact_witness:
  "\<exists>S'. SetActiveSlot sample_env (Some (wide ''_b'')) True (sample_ab tried_attr backup_attr) = Some (EFI_SUCCESS, S') \<and>
     current_slot S' = Some (wide ''_b'') \<and> BootLun S' = 2 \<and> type_guid S' 0 = replicate 16 2 \<and> type_guid S' 1 = replicate 16 1"
proof -
  have ok: "slot_ok (wide ''_b'')" and ne: "wide ''_a'' \<noteq> wide ''_b''" by (simp_all add: slot_ok_def)
  from SetActiveSlot_exact [OF sample_ab_facts(1,2) ok sample_active, of sample_env True]
  show ?thesis using sample_env_ready ne by (auto simp: sample_ab_facts slot_lun_def sample_boot_pair simp del: One_nat_def)
qed

text \<open>
  A sequence of slot changes behaves as an assignment: every call succeeds, and the active slot is
  the last one that was set, from any good table.
\<close>

theorem SetActiveSlot_last_wins:
  assumes "good_table S" "\<forall>x \<in> set xs. slot_ok (fst x)"
  shows "\<exists>S'. activate_all (activate_slot E) xs S = Some S' \<and> good_table S' \<and>
    current_slot S' = (if xs = [] then current_slot S else Some (fst (last xs)))"
  using assms by (rule slot_table.last_wins)

theorem SetActiveSlot_last_wins_witness:
  "\<exists>S'. activate_all (activate_slot sample_env) [(wide ''_b'', True), (wide ''_a'', False)]
     (sample_ab tried_attr backup_attr) = Some S' \<and> current_slot S' = Some (wide ''_a'')"
proof -
  have "good_table (sample_ab tried_attr backup_attr)"
    using sample_ab_facts(1,2) [of tried_attr backup_attr]
    by (simp add: good_table_def two_slots_def current_slot_def sample_active)
  from SetActiveSlot_last_wins [OF this, of "[(wide ''_b'', True), (wide ''_a'', False)]" sample_env]
  show ?thesis by (auto simp: slot_ok_def)
qed

text \<open>
  C13: When \<open>FindBootableSlot\<close> succeeds it returns the active slot; that slot was not unbootable and
  had booted before or had retries left. Its retry counter goes down by one exactly when the slot has
  not booted before and the count applies, so it never wraps; the other slot becomes inactive, no other field
  changes, and on UFS the boot LUN is the slot's.
\<close>

theorem FindBootableSlot_sound:
  assumes "two_slots S a b" "FindBootableSlot E (Some []) S = Some (EFI_SUCCESS, sl, S')"
  shows "\<exists>s S1. GetActiveSlot [] S = (EFI_SUCCESS, s, S1) \<and> sl = Some s \<and> slot_ok s \<and>
    bootable_view (view S1 (slot_index a b s)) \<and>
    view S' (slot_index a b s) = (tried_view E (view S1 (slot_index a b s)))\<lparr>active := True\<rparr> \<and>
    view S' (slot_index b a s) = (view S1 (slot_index b a s))\<lparr>active := False\<rparr> \<and>
    (CheckRootDeviceType E = UFS \<longrightarrow> BootLun S' = slot_lun s) \<and>
    part_names S' = part_names S \<and> Ptable S' = Ptable S"
  using assms by (rule FindBootableSlot_effect)

lemma sample_find:
  "\<exists>S'. FindBootableSlot sample_env (Some []) (sample_ab tried_attr backup_attr) =
     Some (EFI_SUCCESS, Some (wide ''_a''), S')"
proof -
  let ?S = "sample_ab tried_attr backup_attr"
  define T where "T = set_Attr 0 (Retry_attr tried_attr) ?S"
  have b: "GetBootPartitionEntry ?S (wide ''_a'') = Some 0" by (rule two_slotsD(6) [OF sample_ab_facts(1)])
  have "bootable_view (view ?S 0)"
    by (simp only: sample_ab_facts sample_views bootable_view_def) (simp add: word_gt_0)
  then have t: "Find_try sample_env 0 ?S = Some (EFI_SUCCESS, T)"
    using slot_view_eqD(2) [OF sample_views(1)]
    by (simp add: Find_try_boots T_def sample_ab_facts retry_counted_def sample_env_def)
  have names: "part_names T = part_names ?S" by (simp add: T_def ab_simps)
  have "last (wide ''_a'') # [] = wide ''a''" by (simp add: wide_def)
  then have abl: "wide ''abl_'' @ [last (wide ''_a'')] = wide ''abl_a''" by simp
  have "GetPartitionIndex ?S (wide ''abl_a'') = Some 2"
    by (simp add: GetPartitionIndex_def sample_ab_def sample_entry_def StrnCmp_eq_def NAME_SIZE_def)
  then have "GetPartitionEntry T (wide ''abl_a'') = Some 2"
    by (simp add: GetPartitionEntry_def GetPartitionIndex_names names)
  moreover have "GetBootPartitionEntry T (wide ''_a'') = Some 0"
    using b GetBootPartitionEntry_cong [OF names] by simp
  moreover have "PartitionTypeGUID (PtnEntries T ! 0) = replicate 16 1" "PartitionTypeGUID (PtnEntries T ! 2) = replicate 16 3"
    by (simp_all add: T_def set_Attr_def sample_ab_def sample_entry_def)
  moreover have "BootLun T = 1" by (simp add: T_def ab_simps sample_ab_facts)
  ultimately have v: "ValidateSlotGuids sample_env T (wide ''_a'') = Some EFI_SUCCESS"
    by (simp add: ValidateSlotGuids_def abl sample_env_def UfsGetBootLun_def UfsGetSetBootLun_status_def)
  obtain S' where "MarkPtnActive (wide ''_a'') T = Some S'"
    using MarkPtnActive_total [of T] sample_ab_facts(2) short_names_cong [OF names] by blast
  then show ?thesis
    using v t b by (simp add: FindBootableSlot_def sample_active Find_out_def)
qed

theorem FindBootableSlot_sound_witness:
  "\<exists>S'. FindBootableSlot sample_env (Some []) (sample_ab tried_attr backup_attr) =
      Some (EFI_SUCCESS, Some (wide ''_a''), S') \<and> RetryCount (Attr S' 0) = 6 \<and> BootLun S' = 1"
proof -
  obtain S' where R: "FindBootableSlot sample_env (Some []) (sample_ab tried_attr backup_attr) =
      Some (EFI_SUCCESS, Some (wide ''_a''), S')"
    using sample_find by blast
  have "view S' 0 = (tried_view sample_env (slot_view tried_attr))\<lparr>active := True\<rparr> \<and> BootLun S' = 1"
    using FindBootableSlot_sound [OF sample_ab_facts(1) R]
    by (auto simp: sample_active sample_ab_facts slot_index_def slot_lun_def sample_env_def)
  moreover have "tried_view sample_env (slot_view tried_attr) = (slot_view tried_attr)\<lparr>retry := 6\<rparr>"
    by (simp only: sample_views tried_view_def) (simp add: retry_counted_def sample_env_def)
  ultimately show ?thesis using R by (auto dest!: slot_view_eqD(5))
qed

text \<open>
  When the active slot is declared unbootable and the other slot has booted before, the other slot
  becomes the active one with all retries and the system is reset; \<open>FindBootableSlot\<close> does this when the active
  slot has no boot left, and returns an error with an empty suffix. The failed slot is marked unbootable,
  but its successful bit stays as it was, although the code ANDs the mask with the complement of that bit.
\<close>

theorem HandleActiveSlotUnbootable_fallback:
  assumes "two_slots S a b" "short_names S" "pick_slot (view S a) (view S b) = Some s"
    "\<not> unbootable (view S (slot_index b a s))" "successful (view S (slot_index b a s))"
    "TargetBuildVariantUser E \<or> \<not> FirstBoot S"
  shows "\<exists>S'. HandleActiveSlotUnbootable E S = Some (EFI_LOAD_ERROR, S') \<and>
    (\<not> bootable_view (view S (slot_index a b s)) \<longrightarrow>
       FindBootableSlot E (Some x) S = Some (EFI_LOAD_ERROR, Some [], S')) \<and>
    ResetRequested S' \<and> current_slot S' = Some (AlternateSlot s) \<and>
    view S' (slot_index b a s) = \<lparr>priority = 3, active = True, retry = 7, successful = True, unbootable = False\<rparr> \<and>
    view S' (slot_index a b s) = (view S (slot_index a b s))\<lparr>priority := 2, active := False, unbootable := True\<rparr>"
proof -
  let ?i = "slot_index a b s" and ?j = "slot_index b a s"
  have ok: "slot_ok s" using assms(3) by (rule pick_slot_ok)
  note I = slot_cases [OF assms(1) ok]
  obtain S' where H: "HandleActiveSlotUnbootable E S = Some (EFI_LOAD_ERROR, S')" "part_names S' = part_names S"
      "ResetRequested S'"
    and v: "view S' ?j = \<lparr>priority = 3, active = True, retry = 7, successful = True, unbootable = False\<rparr>"
      "view S' ?i = (view S ?i)\<lparr>unbootable := True, priority := 2, active := False\<rparr>"
    using HandleActiveSlotUnbootable_effect [OF assms(1-3), of E] assms(4-6) by (auto simp: failed_view_def)
  have "current_slot S' = Some (AlternateSlot s)"
  proof (rule current_slot_pick)
    show "two_slots S' a b" using two_slots_cong [OF H(2)] assms(1) by simp
    show "pick_slot (view S' a) (view S' b) = Some (AlternateSlot s)"
      by (rule pick_slot_index [where v = "view S'" and a = a and b = b, OF I(6), unfolded I(9,10), OF v]) (simp_all add: word_gt_0)
  qed
  moreover have "FindBootableSlot E (Some x) S = Some (EFI_LOAD_ERROR, Some [], S')" if "\<not> bootable_view (view S ?i)"
    using GetActiveSlot_pick [OF assms(1,3)] I(1) Find_try_handle [OF that] H(1)
    by (simp add: FindBootableSlot_def Find_out_def)
  ultimately show ?thesis using H v by auto
qed

theorem HandleActiveSlotUnbootable_fallback_witness:
  "\<exists>S'. HandleActiveSlotUnbootable sample_env (sample_ab tried_attr backup_attr) = Some (EFI_LOAD_ERROR, S') \<and>
     ResetRequested S' \<and> current_slot S' = Some (wide ''_b'')"
proof -
  let ?S = "sample_ab tried_attr backup_attr"
  have p: "pick_slot (view ?S 0) (view ?S 1) = Some (wide ''_a'')"
    by (simp add: sample_ab_facts sample_views pick_slot_def word_gt_0)
  have j: "\<not> unbootable (view ?S (slot_index 1 0 (wide ''_a'')))" "successful (view ?S (slot_index 1 0 (wide ''_a'')))"
    by (simp_all only: slot_index_def simp_thms if_True sample_ab_facts sample_views) simp_all
  have "TargetBuildVariantUser sample_env \<or> \<not> FirstBoot ?S" by (simp add: sample_env_def)
  from HandleActiveSlotUnbootable_fallback [OF sample_ab_facts(1,2) p j this, of "[]"]
  show ?thesis by (auto simp: AlternateSlot_def StrnCmp_eq_def)
qed

lemma sample_power: "PtnEntries (power_on sample_env (sample_ab a b)) = PtnEntries (sample_ab a b)"
  by (simp add: power_on_def UpdatePartitionEntries_def sample_env_def sample_ab_def sample_entry_def
      GetMaxLuns_def Ptable_entries_def MAX_NUM_PARTITIONS_def)

lemma sample_power_facts:
  defines "D \<equiv> power_on sample_env (sample_ab tried_attr backup_attr)"
  shows "two_slots D 0 1" "short_names D" "pick_slot (view D 0) (view D 1) = Some (wide ''_a'')" "BootLun D = 1"
  using table_entries_cong [OF sample_power, of tried_attr backup_attr] sample_ab_facts(1,2)
  by (simp_all add: D_def power_on_lun sample_ab_facts sample_views pick_slot_def word_gt_0)

lemma sample_power_switch:
  defines "D \<equiv> power_on sample_env (sample_ab tried_attr backup_attr)"
  shows "\<exists>S'. SetActiveSlot sample_env (Some (wide ''_b'')) True D = Some (EFI_SUCCESS, S')"
proof -
  note F = sample_power_facts [folded D_def]
  have "slot_ok (wide ''_b'')" by (simp add: slot_ok_def)
  from SetActiveSlot_effect [OF F(1,2) this GetActiveSlot_pick [OF F(1,3)], of sample_env True]
  show ?thesis by blast
qed

text \<open>
  C25: No slot operation is remembered. After any sequence of boots, slot changes, failures and
  queries, a reset brings back the partition table of the first boot, with the active slot and the retry
  counters it had then, because \<open>UpdatePartitionAttributes\<close> returns before it writes. So the retries of a
  slot that never boots are not used up.
\<close>

theorem ab_changes_lost:
  assumes "(ab_step E)\<^sup>*\<^sup>* (power_on E S) S'"
  shows "PtnEntries (power_on E S') = PtnEntries (power_on E S) \<and>
    current_slot (power_on E S') = current_slot (power_on E S)"
  using power_on_steps [OF assms] current_slot_entries by blast

theorem ab_changes_lost_witness:
  "\<exists>S'. SetActiveSlot sample_env (Some (wide ''_b'')) True
      (power_on sample_env (sample_ab tried_attr backup_attr)) = Some (EFI_SUCCESS, S') \<and>
     current_slot (power_on sample_env S') = Some (wide ''_a'')"
proof -
  let ?D = "power_on sample_env (sample_ab tried_attr backup_attr)"
  obtain S' where S': "SetActiveSlot sample_env (Some (wide ''_b'')) True ?D = Some (EFI_SUCCESS, S')"
    using sample_power_switch by blast
  have "(ab_step sample_env)\<^sup>*\<^sup>* ?D S'" using step_set [OF S'] by (rule r_into_rtranclp)
  from ab_changes_lost [OF this] current_slot_pick [OF sample_power_facts(1,3)] S' show ?thesis by auto
qed

text \<open>
  C15: On a UFS device a change of slot makes the next boot fail. \<open>SetActiveSlot\<close> to the other slot sets
  the boot LUN, which survives a reset, but not the attributes, so \<open>FindBootableSlot\<close> then finds the old slot
  with the LUN of the new one and does not succeed.
\<close>

theorem SetActiveSlot_reboot_fails:
  assumes "two_slots (power_on E S) a b" "short_names (power_on E S)"
    "pick_slot (view (power_on E S) a) (view (power_on E S) b) = Some s" "slot_ok t" "t \<noteq> s"
    "ufs_ready E" "\<forall>k. PoolOk E k" "BootLun S = 1 \<or> BootLun S = 2"
    "SetActiveSlot E (Some t) r (power_on E S) = Some (EFI_SUCCESS, S')"
  shows "\<nexists>sl S''. FindBootableSlot E (Some []) (power_on E S') = Some (EFI_SUCCESS, sl, S'')"
proof
  assume "\<exists>sl S''. FindBootableSlot E (Some []) (power_on E S') = Some (EFI_SUCCESS, sl, S'')"
  then obtain sl S'' where R: "FindBootableSlot E (Some []) (power_on E S') = Some (EFI_SUCCESS, sl, S'')" by blast
  have "(ab_step E)\<^sup>*\<^sup>* (power_on E S) S'" using step_set [OF assms(9)] by (rule r_into_rtranclp)
  note C = table_entries_cong [OF power_on_steps [OF this]]
  have ab: "two_slots (power_on E S') a b" using C(1) assms(1) by simp
  have act: "GetActiveSlot [] (power_on E S') = (EFI_SUCCESS, s, power_on E S')"
    using assms(3) C(2) by (intro GetActiveSlot_pick [OF ab]) simp
  have l: "BootLun (power_on E S') = slot_lun t"
    unfolding power_on_lun
    using SetActiveSlot_lun [OF assms(1,4) GetActiveSlot_pick [OF assms(1,3)] assms(6) _ _ assms(9)] assms(7,8)
    by (simp add: power_on_lun)
  obtain u S1 i S2 where "GetActiveSlot [] (power_on E S') = (EFI_SUCCESS, u, S1)"
      "Find_try E i S1 = Some (EFI_SUCCESS, S2)" and
    v: "CheckRootDeviceType E \<noteq> NAND \<longrightarrow> ValidateSlotGuids E S2 u = Some EFI_SUCCESS"
    using FindBootableSlot_inversion [OF R] .
  then have "u = s" "BootLun S2 = slot_lun t"
    using act l Find_try_success(2) [of E i S1 S2] by (auto simp: ab_simps)
  then have "slot_lun s = slot_lun t"
    using v assms(6) ValidateSlotGuids_lun [of E S2 s] by (simp add: ufs_ready_def)
  then show False
    using assms(4,5) pick_slot_ok [OF assms(3)] by (auto simp: slot_lun_def slot_ok_def split: if_splits)
qed

theorem SetActiveSlot_reboot_fails_witness:
  "\<exists>S'. SetActiveSlot sample_env (Some (wide ''_b'')) True
      (power_on sample_env (sample_ab tried_attr backup_attr)) = Some (EFI_SUCCESS, S') \<and>
     (\<nexists>sl S''. FindBootableSlot sample_env (Some []) (power_on sample_env S') = Some (EFI_SUCCESS, sl, S''))"
proof -
  obtain S' where S': "SetActiveSlot sample_env (Some (wide ''_b'')) True
      (power_on sample_env (sample_ab tried_attr backup_attr)) = Some (EFI_SUCCESS, S')"
    using sample_power_switch by blast
  have t: "slot_ok (wide ''_b'')" "wide ''_b'' \<noteq> wide ''_a''" by (simp_all add: slot_ok_def)
  have p: "\<forall>k. PoolOk sample_env k" "BootLun (sample_ab tried_attr backup_attr) = 1 \<or> BootLun (sample_ab tried_attr backup_attr) = 2"
    by (simp_all add: sample_env_ready sample_ab_facts)
  from SetActiveSlot_reboot_fails [OF sample_power_facts(1-3) t sample_env_ready(1) p S'] S' show ?thesis by blast
qed

end
