(* ===== verification/Gpt_Image.thy ===== *)
theory Gpt_Image
  imports Byte_Buffer
begin

text \<open>
  Writing a partition table image (\<^verbatim>\<open>BootLib/PartitionTableUpdate.c\<close>, \<open>UpdatePartitionTable\<close>): the image
  sent by the host is checked, patched for the size of the device, and written as two GUID partition tables.
  The image is a byte buffer, pointers into it are offsets, and an access outside is \<open>None\<close>. The device is the
  record of its geometry and of the results of its operations; the blocks written are kept in a list.
\<close>

section \<open>Data\<close>

record GptHeaderData =
  FirstUsableLba :: u64
  PartEntrySz :: u32
  HeaderSz :: u32
  MaxPtCnt :: u32
  LastUsableLba :: u64

text \<open>
  \<open>StorageHandle\<close> is the result of \<open>GetStorageHandle\<close> with the number of handles found;
  \<open>CalculateCrc32\<close> has no value when the boot service fails; \<open>WriteBlocks\<close> gives the status of each write.
\<close>

record gpt_env =
  StorageHandle :: "efi_status \<times> nat"
  LastBlock :: u64
  BlockSize :: u32
  CalculateCrc32 :: "bytes \<Rightarrow> u32 option"
  EraseBlocks :: efi_status
  WriteBlocks :: "nat \<Rightarrow> efi_status"

record gpt_state =
  Gpt :: bytes
  ParseSecondaryGpt :: bool
  FlashingGpt :: bool
  Erased :: bool
  Written :: "(u64 \<times> bytes) list"

definition GPT_SIGNATURE_1 :: u32 where "GPT_SIGNATURE_1 = 0x54524150"
definition GPT_SIGNATURE_2 :: u32 where "GPT_SIGNATURE_2 = 0x20494645"
definition GPT_HEADER_SIZE :: u32 where "GPT_HEADER_SIZE = 92"
definition GPT_LBA :: u32 where "GPT_LBA = 1"
definition GPT_PART_ENTRY_SIZE :: u32 where "GPT_PART_ENTRY_SIZE = 128"
definition MIN_PARTITION_ARRAY_SIZE :: u32 where "MIN_PARTITION_ARRAY_SIZE = 0x4000"
definition MAX_PARTITION_ENTRIES_SZ :: u32 where "MAX_PARTITION_ENTRIES_SZ = 128 * 128"
definition PARTITION_ENTRY_SIZE :: u32 where "PARTITION_ENTRY_SIZE = 128"

section \<open>Size of the device\<close>

definition GetPartitionSize :: "(u64 \<times> u32) option \<Rightarrow> u64" where
  "GetPartitionSize BlockIo =
     (case BlockIo of
        None \<Rightarrow> 0
      | Some (Last, Size) \<Rightarrow>
          if (- 1) - 1 < Last then 0
          else if (- 1) div (Last + 1) < ucast Size then 0
          else (Last + 1) * ucast Size)"

section \<open>The type of the image\<close>

datatype partition_type = PARTITION_TYPE_MBR | PARTITION_TYPE_GPT | PARTITION_TYPE_GPT_BACKUP

definition PartitionVerifyMbrSignature :: "u32 \<Rightarrow> bytes \<Rightarrow> bool option" where
  "PartitionVerifyMbrSignature Sz G =
     (if 511 \<ge> Sz then Some False
      else do { b0 \<leftarrow> rd G 510 1;
                if b0 \<noteq> [0x55] then Some False
                else do { b1 \<leftarrow> rd G 511 1; Some (b1 = [0xAA]) } })"

definition MbrGetPartitionType :: "u32 \<Rightarrow> bytes \<Rightarrow> u8 option option" where
  "MbrGetPartitionType Sz G =
     (if Sz \<le> 450 then Some None else do { t \<leftarrow> rd G 450 1; Some (Some (t ! 0)) })"

definition PartitionGetType :: "u32 \<Rightarrow> bytes \<Rightarrow> partition_type option option" where
  "PartitionGetType Sz G =
     do { mbr \<leftarrow> PartitionVerifyMbrSignature Sz G;
          if mbr then
            do { t \<leftarrow> MbrGetPartitionType Sz G;
                 Some (map_option (\<lambda>t. if t = 0xEE then PARTITION_TYPE_GPT else PARTITION_TYPE_MBR) t) }
          else Some (Some PARTITION_TYPE_GPT_BACKUP) }"

definition PartitionVerifyMibibImage :: "bytes \<Rightarrow> bool option" where
  "PartitionVerifyMibibImage Img =
     do { m1 \<leftarrow> rd32 Img 0;
          if m1 \<noteq> 0xFE569FAC then Some False
          else do { m2 \<leftarrow> rd32 Img 4; Some (m2 = 0xCD7F127A) } }"

section \<open>Parsing a header\<close>

text \<open>\<open>Some (None, S)\<close> is the return value \<open>FAILURE\<close>. The header's check sum field is zero while it is computed.\<close>

definition Parse_crc :: "gpt_env \<Rightarrow> nat \<Rightarrow> u32 \<Rightarrow> bytes \<Rightarrow> (u32 option \<times> bytes) option" where
  "Parse_crc E base BlkSz G =
     do { s \<leftarrow> rd32 G base;
          if s \<noteq> GPT_SIGNATURE_2 then Some (None, G)
          else do {
            s \<leftarrow> rd32 G (base + 4);
            if s \<noteq> GPT_SIGNATURE_1 then Some (None, G)
            else do {
              Size \<leftarrow> rd32 G (base + 12);
              if Size < GPT_HEADER_SIZE then Some (None, G)
              else if Size > BlkSz then Some (None, G)
              else do {
                CrcOrig \<leftarrow> rd32 G (base + 16);
                G \<leftarrow> put (base + 16) (enc32 0) G;
                hdr \<leftarrow> rd G base (unat Size);
                case CalculateCrc32 E hdr of
                  None \<Rightarrow> Some (None, G)
                | Some CrcVal \<Rightarrow>
                    if CrcVal \<noteq> CrcOrig then Some (None, G)
                    else do { G \<leftarrow> put (base + 16) (enc32 CrcVal) G; Some (Some Size, G) } } } } }"

definition ParseGptHeader ::
  "gpt_env \<Rightarrow> nat \<Rightarrow> u64 \<Rightarrow> u32 \<Rightarrow> gpt_state \<Rightarrow> (GptHeaderData option \<times> gpt_state) option" where
  "ParseGptHeader E base DeviceDensity BlkSz S =
     do { (sz, G) \<leftarrow> Parse_crc E base BlkSz (Gpt S);
          let S = S\<lparr>Gpt := G\<rparr>;
          case sz of
            None \<Rightarrow> Some (None, S)
          | Some Size \<Rightarrow>
              do { Lba \<leftarrow> rd64 G (base + 24);
                   First \<leftarrow> rd64 G (base + 40);
                   Cnt \<leftarrow> rd32 G (base + 80);
                   EntrySz \<leftarrow> rd32 G (base + 84);
                   Last \<leftarrow> rd64 G (base + 48);
                   if \<not> ParseSecondaryGpt S \<and> (ucast Lba :: u32) \<noteq> GPT_LBA then Some (None, S)
                   else if First > DeviceDensity div ucast BlkSz then Some (None, S)
                   else if Last > DeviceDensity div ucast BlkSz then Some (None, S)
                   else if EntrySz \<noteq> GPT_PART_ENTRY_SIZE then Some (None, S)
                   else if Cnt > MIN_PARTITION_ARRAY_SIZE div EntrySz then Some (None, S)
                   else Some (Some \<lparr>FirstUsableLba = First, PartEntrySz = EntrySz, HeaderSz = Size,
                                    MaxPtCnt = Cnt, LastUsableLba = Last\<rparr>, S) } }"

section \<open>Patching the image\<close>

function Patch_count :: "bytes \<Rightarrow> nat \<Rightarrow> u32 \<Rightarrow> nat \<Rightarrow> nat option" where
  "Patch_count G base Cnt TotalPart =
     (if TotalPart < unat Cnt then
        do { x \<leftarrow> rd64 G (base + unat (word_of_nat TotalPart * PARTITION_ENTRY_SIZE));
             if x \<noteq> 0 then Patch_count G base Cnt (Suc TotalPart)
             else do { y \<leftarrow> rd64 G (base + unat (word_of_nat TotalPart * PARTITION_ENTRY_SIZE) + 8);
                       if y \<noteq> 0 then Patch_count G base Cnt (Suc TotalPart) else Some TotalPart } }
      else Some TotalPart)"
  by pat_completeness auto

termination
  by (relation "measure (\<lambda>(G, base, Cnt, t). unat Cnt - t)") auto

definition PtnEntryBlks :: "u32 \<Rightarrow> u32" where
  "PtnEntryBlks BlkSz = MAX_PARTITION_ENTRIES_SZ div BlkSz + 1"

definition LastUsable :: "u64 \<Rightarrow> u32 \<Rightarrow> u64" where
  "LastUsable DeviceDensity BlkSz = DeviceDensity div ucast BlkSz - ucast (PtnEntryBlks BlkSz + 1)"

definition Patch_lbas :: "u64 \<Rightarrow> u32 \<Rightarrow> u32 \<Rightarrow> bytes \<Rightarrow> bytes option" where
  "Patch_lbas DeviceDensity PartEntryArrSz BlkSz G =
     (let Primary = unat BlkSz;
          Secondary = unat (2 * PartEntryArrSz) + unat BlkSz + Primary
      in do { G \<leftarrow> put (Primary + 32) (enc64 (DeviceDensity div ucast BlkSz - 1)) G;
              G \<leftarrow> put (Primary + 48) (enc64 (LastUsable DeviceDensity BlkSz)) G;
              G \<leftarrow> put (Secondary + 24) (enc64 1) G;
              G \<leftarrow> put (Secondary + 48) (enc64 (LastUsable DeviceDensity BlkSz)) G;
              put (Secondary + 72) (enc64 (DeviceDensity div ucast BlkSz - ucast (PtnEntryBlks BlkSz))) G })"

definition Patch_last :: "u64 \<Rightarrow> u32 \<Rightarrow> u32 \<Rightarrow> u32 \<Rightarrow> bytes \<Rightarrow> bytes option" where
  "Patch_last DeviceDensity PartEntryArrSz Cnt BlkSz G =
     (let Entries = unat BlkSz + unat BlkSz
      in do { TotalPart \<leftarrow> Patch_count G Entries Cnt 0;
              let LastPartOffset = (word_of_nat TotalPart - 1) * PARTITION_ENTRY_SIZE + 40;
              G \<leftarrow> put (Entries + unat LastPartOffset) (enc64 (LastUsable DeviceDensity BlkSz)) G;
              put (Entries + unat LastPartOffset + unat PartEntryArrSz) (enc64 (LastUsable DeviceDensity BlkSz)) G })"

definition Patch_sum :: "gpt_env \<Rightarrow> nat \<Rightarrow> nat \<Rightarrow> nat \<Rightarrow> bytes \<Rightarrow> (bool \<times> bytes) option" where
  "Patch_sum E from n field G =
     do { data \<leftarrow> rd G from n;
          case CalculateCrc32 E data of
            None \<Rightarrow> Some (False, G)
          | Some CrcVal \<Rightarrow> do { G \<leftarrow> put field (enc32 CrcVal) G; Some (True, G) } }"

text \<open>\<open>thenW r f\<close> goes on with \<open>f\<close> when \<open>r\<close> did not return \<open>FAILURE\<close>.\<close>

definition thenW :: "(bool \<times> 's) option \<Rightarrow> ('s \<Rightarrow> (bool \<times> 's) option) \<Rightarrow> (bool \<times> 's) option" where
  "thenW r f = do { (ok, S) \<leftarrow> r; if ok then f S else Some (False, S) }"

definition Patch_header :: "gpt_env \<Rightarrow> nat \<Rightarrow> bytes \<Rightarrow> (bool \<times> bytes) option" where
  "Patch_header E base G =
     do { G \<leftarrow> put (base + 16) (enc32 0) G; Patch_sum E base (unat GPT_HEADER_SIZE) (base + 16) G }"

text \<open>
  The four check sums: the two arrays of entries, then the two headers with their field set to zero first.
\<close>

definition Patch_sums :: "gpt_env \<Rightarrow> u32 \<Rightarrow> GptHeaderData \<Rightarrow> u32 \<Rightarrow> bytes \<Rightarrow> (bool \<times> bytes) option" where
  "Patch_sums E PartEntryArrSz h BlkSz G =
     (let Primary = unat BlkSz;
          Secondary = unat (2 * PartEntryArrSz) + unat BlkSz + Primary;
          Entries = Primary + unat BlkSz;
          n = unat (MaxPtCnt h * PartEntrySz h)
      in thenW (Patch_sum E Entries n (Primary + 88) G) (\<lambda>G.
         thenW (Patch_sum E (Entries + unat PartEntryArrSz) n (Secondary + 88) G) (\<lambda>G.
         thenW (Patch_header E Primary G) (\<lambda>G. Patch_header E Secondary G))))"

definition PatchGpt :: "gpt_env \<Rightarrow> u64 \<Rightarrow> u32 \<Rightarrow> GptHeaderData \<Rightarrow> u32 \<Rightarrow> bytes \<Rightarrow> (bool \<times> bytes) option" where
  "PatchGpt E DeviceDensity PartEntryArrSz h BlkSz G =
     do { G \<leftarrow> Patch_lbas DeviceDensity PartEntryArrSz BlkSz G;
          G \<leftarrow> Patch_last DeviceDensity PartEntryArrSz (MaxPtCnt h) BlkSz G;
          Patch_sums E PartEntryArrSz h BlkSz G }"

section \<open>Writing the table\<close>

definition ErasePartition :: "gpt_env \<Rightarrow> gpt_state \<Rightarrow> bool \<times> gpt_state" where
  "ErasePartition E S =
     (if GetPartitionSize (Some (LastBlock E, BlockSize E)) = 0 then (False, S)
      else if EraseBlocks E \<noteq> EFI_SUCCESS then (False, S)
      else (True, S\<lparr>Erased := True\<rparr>))"

definition write_blk :: "gpt_env \<Rightarrow> u64 \<Rightarrow> nat \<Rightarrow> nat \<Rightarrow> gpt_state \<Rightarrow> (bool \<times> gpt_state) option" where
  "write_blk E Lba from n S =
     do { data \<leftarrow> rd (Gpt S) from n;
          if EFI_ERROR (WriteBlocks E (length (Written S))) then Some (False, S)
          else Some (True, S\<lparr>Written := Written S @ [(Lba, data)]\<rparr>) }"

definition Write_tables :: "gpt_env \<Rightarrow> u32 \<Rightarrow> u32 \<Rightarrow> gpt_state \<Rightarrow> (bool \<times> gpt_state) option" where
  "Write_tables E BlkSz PartEntryArrSz S =
     (let Primary = unat BlkSz;
          Secondary = unat (2 * PartEntryArrSz) + unat BlkSz + Primary;
          n = unat PartEntryArrSz
      in thenW (write_blk E 0 0 (unat BlkSz) S) (\<lambda>S.
         thenW (write_blk E 1 Primary (unat BlkSz) S) (\<lambda>S.
         do { BackUpGptLba \<leftarrow> rd64 (Gpt S) (Primary + 32);
              thenW (write_blk E BackUpGptLba Secondary (unat BlkSz) S) (\<lambda>S.
              do { PartitionEntryLba \<leftarrow> rd64 (Gpt S) (Primary + 72);
                   thenW (write_blk E PartitionEntryLba (Primary + unat BlkSz) n S) (\<lambda>S.
                   do { PartitionEntryLba \<leftarrow> rd64 (Gpt S) (Secondary + 72);
                        write_blk E PartitionEntryLba (Primary + unat BlkSz + n) n S }) }) })))"

definition Write_patched :: "gpt_env \<Rightarrow> u32 \<Rightarrow> u64 \<Rightarrow> u32 \<Rightarrow> GptHeaderData \<Rightarrow> gpt_state \<Rightarrow> (bool \<times> gpt_state) option" where
  "Write_patched E Sz DeviceDensity PartEntryArrSz h S =
     do { (ok, G) \<leftarrow> PatchGpt E DeviceDensity PartEntryArrSz h (BlockSize E) (Gpt S);
          if \<not> ok then Some (False, S\<lparr>Gpt := G\<rparr>)
          else
            thenW (Some (ErasePartition E (S\<lparr>Gpt := G\<rparr>))) (\<lambda>S.
            thenW (Write_tables E (BlockSize E) PartEntryArrSz S) (\<lambda>S.
            Some (True, S\<lparr>FlashingGpt := False,
                    Gpt := replicate (unat Sz) 0 @ drop (unat Sz) (Gpt S)\<rparr>))) }"

definition Write_backup :: "gpt_env \<Rightarrow> u32 \<Rightarrow> u64 \<Rightarrow> GptHeaderData \<Rightarrow> gpt_state \<Rightarrow> (bool \<times> gpt_state) option" where
  "Write_backup E Sz DeviceDensity h S =
     (let BlkSz = BlockSize E;
          PartEntryArrSz = (if PartEntrySz h * MaxPtCnt h < MIN_PARTITION_ARRAY_SIZE
                            then MIN_PARTITION_ARRAY_SIZE else PartEntrySz h * MaxPtCnt h)
      in if Sz < 2 * PartEntryArrSz + BlkSz * 3 then Some (False, S)
         else do {
           (h, S) \<leftarrow> ParseGptHeader E (unat (2 * PartEntryArrSz) + unat BlkSz + unat BlkSz)
                       DeviceDensity BlkSz (S\<lparr>ParseSecondaryGpt := True\<rparr>);
           case h of
             None \<Rightarrow> Some (False, S)
           | Some h \<Rightarrow> Write_patched E Sz DeviceDensity PartEntryArrSz h S })"

text \<open>
  \<open>WriteGpt\<close> gives \<open>True\<close> for the return value 0. When no handle or several are found without an
  error, it returns the status of the search, which is 0.
\<close>

definition WriteGpt :: "gpt_env \<Rightarrow> u32 \<Rightarrow> gpt_state \<Rightarrow> (bool \<times> gpt_state) option" where
  "WriteGpt E Sz S =
     (if fst (StorageHandle E) \<noteq> EFI_SUCCESS \<or> snd (StorageHandle E) \<noteq> 1
      then Some (fst (StorageHandle E) = EFI_SUCCESS, S)
      else
        (let DeviceDensity = GetPartitionSize (Some (LastBlock E, BlockSize E));
             BlkSz = BlockSize E
         in if DeviceDensity = 0 then Some (False, S)
            else if Sz \<le> BlkSz * 2 then Some (False, S)
            else do {
              (h, S) \<leftarrow> ParseGptHeader E (unat BlkSz) DeviceDensity BlkSz S;
              case h of
                None \<Rightarrow> Some (False, S)
              | Some h \<Rightarrow> Write_backup E Sz DeviceDensity h S }))"

definition UpdatePartitionTable :: "gpt_env \<Rightarrow> u32 \<Rightarrow> gpt_state \<Rightarrow> (efi_status \<times> gpt_state) option" where
  "UpdatePartitionTable E Sz S =
     do { t \<leftarrow> PartitionGetType Sz (Gpt S);
          case t of
            None \<Rightarrow> Some (EFI_NOT_FOUND, S)
          | Some PARTITION_TYPE_GPT \<Rightarrow>
              do { (ok, S) \<leftarrow> WriteGpt E Sz (S\<lparr>FlashingGpt := True\<rparr>);
                   Some (if ok then EFI_SUCCESS else EFI_VOLUME_CORRUPTED, S) }
          | Some _ \<Rightarrow> Some (EFI_UNSUPPORTED, S) }"

section \<open>Headers that are accepted\<close>

text \<open>The size in bytes, or 0 when it does not fit in 64 bits.\<close>

lemma GetPartitionSize_exact:
  "unat (GetPartitionSize (Some (n, s))) =
     (if (unat n + 1) * unat s < 2 ^ 64 then (unat n + 1) * unat s else 0)"
proof (cases "n = - 1")
  case True
  then have "unat n + 1 = 2 ^ 64" by (simp add: unsigned_minus_1_eq_mask mask_eq_exp_minus_1)
  then show ?thesis using True by (cases "unat s") (simp_all add: GetPartitionSize_def word_less_nat_alt)
next
  case False
  have N: "unat n < 2 ^ 64 - 1"
  proof -
    have "unat n \<noteq> unat (- 1 :: u64)" using False by (simp add: word_unat_eq_iff)
    then show ?thesis using unsigned_less [of n, where ?'a = nat]
      by (simp add: unsigned_minus_1_eq_mask mask_eq_exp_minus_1)
  qed
  then have n1: "unat (n + 1) = unat n + 1" by (simp add: unat_word_ariths)
  have "\<not> (- 1) - 1 < n" using N unat_max_minus [of 1] by (simp add: word_less_nat_alt)
  moreover have "unat (ucast s :: u64) = unat s" using unsigned_less [of s, where ?'a = nat] by (simp add: unsigned_ucast_eq take_bit_nat_eq_self)
  moreover have "(- 1) div (n + 1) < (ucast s :: u64) \<longleftrightarrow> 2 ^ 64 - 1 < unat s * (unat n + 1)"
    using calculation(2) n1 by (simp add: word_less_nat_alt unat_div div_less_iff_less_mult
        unsigned_minus_1_eq_mask mask_eq_exp_minus_1)
  ultimately show ?thesis using n1 by (auto simp: GetPartitionSize_def unat_word_ariths mult.commute)
qed

lemma rd_defined: "off + n \<le> length bs \<Longrightarrow> \<exists>xs. rd bs off n = Some xs"
  by (simp add: rd_def)

lemma Parse_crc_cases:
  assumes len: "base + unat BlkSz \<le> length G" and blk: "92 \<le> unat BlkSz"
  shows "\<exists>r G'. Parse_crc E base BlkSz G = Some (r, G') \<and> length G' = length G \<and>
    (r \<noteq> None \<longrightarrow> G' = G) \<and> (\<forall>sz. r = Some sz \<longrightarrow> 92 \<le> unat sz \<and> sz \<le> BlkSz)"
proof -
  have "base + 20 \<le> length G" using assms by simp
  then obtain s0 s1 sz c where r: "rd32 G base = Some s0" "rd32 G (base + 4) = Some s1"
    "rd32 G (base + 12) = Some sz" "rd32 G (base + 16) = Some c"
    using rd32_defined [of base G] rd32_defined [of "base + 4" G] rd32_defined [of "base + 12" G]
      rd32_defined [of "base + 16" G] by auto
  let ?Z = "patch G (base + 16) (enc32 0)"
  have p: "put (base + 16) (enc32 0) G = Some ?Z" "length ?Z = length G"
    using assms by (simp_all add: put_Some)
  have same: "patch ?Z (base + 16) (enc32 c) = G" using r(4) by (rule patch_back) simp
  then have undo: "put (base + 16) (enc32 c) ?Z = Some G" using p(2) assms by (simp add: put_Some)
  show ?thesis
  proof (cases "s0 = GPT_SIGNATURE_2 \<and> s1 = GPT_SIGNATURE_1 \<and> GPT_HEADER_SIZE \<le> sz \<and> sz \<le> BlkSz")
    case True
    then have sz: "92 \<le> unat sz" "unat sz \<le> unat BlkSz"
      by (simp_all add: GPT_HEADER_SIZE_def word_le_nat_alt)
    then obtain hdr where "rd ?Z base (unat sz) = Some hdr"
      using rd_defined [of base "unat sz" ?Z] p(2) len by auto
    with True r p undo sz show ?thesis
      by (cases "CalculateCrc32 E hdr") (auto simp: Parse_crc_def not_less)
  next
    case False
    then show ?thesis using r by (auto simp: Parse_crc_def not_le not_less)
  qed
qed

text \<open>What the checks establish of an accepted header.\<close>

definition header_ok :: "gpt_env \<Rightarrow> u64 \<Rightarrow> GptHeaderData \<Rightarrow> bool" where
  "header_ok E DeviceDensity h \<longleftrightarrow> 92 \<le> unat (HeaderSz h) \<and> HeaderSz h \<le> BlockSize E \<and> PartEntrySz h = 128 \<and>
     unat (MaxPtCnt h) \<le> 128 \<and> FirstUsableLba h \<le> DeviceDensity div ucast (BlockSize E) \<and>
     LastUsableLba h \<le> DeviceDensity div ucast (BlockSize E)"

lemma ParseGptHeader_cases:
  assumes len: "base + unat (BlockSize E) \<le> length (Gpt S)" and blk: "92 \<le> unat (BlockSize E)"
  shows "\<exists>r S'. ParseGptHeader E base D (BlockSize E) S = Some (r, S') \<and>
    S' = S\<lparr>Gpt := Gpt S'\<rparr> \<and> length (Gpt S') = length (Gpt S) \<and> 
    (\<forall>h. r = Some h \<longrightarrow> S' = S \<and> header_ok E D h \<and> rd32 (Gpt S) (base + 80) = Some (MaxPtCnt h))"
proof -
  obtain r G where c: "Parse_crc E base (BlockSize E) (Gpt S) = Some (r, G)" "length G = length (Gpt S)"
      "r \<noteq> None \<longrightarrow> G = Gpt S" "\<forall>sz. r = Some sz \<longrightarrow> 92 \<le> unat sz \<and> sz \<le> BlockSize E"
    using Parse_crc_cases [OF assms] by blast
  show ?thesis
  proof (cases r)
    case None
    then show ?thesis using c by (auto simp: ParseGptHeader_def)
  next
    case (Some sz)
    have "base + 92 \<le> length G" using assms c(2) by simp
    then obtain a f n e l where "rd64 G (base + 24) = Some a" "rd64 G (base + 40) = Some f"
      "rd32 G (base + 80) = Some n" "rd32 G (base + 84) = Some e" "rd64 G (base + 48) = Some l"
      using rd64_defined [of "base + 24" G] rd64_defined [of "base + 40" G] rd32_defined [of "base + 80" G]
        rd32_defined [of "base + 84" G] rd64_defined [of "base + 48" G] by auto
    moreover have "\<not> MIN_PARTITION_ARRAY_SIZE div GPT_PART_ENTRY_SIZE < n \<Longrightarrow> unat n \<le> 128"
      by (simp add: MIN_PARTITION_ARRAY_SIZE_def GPT_PART_ENTRY_SIZE_def word_less_nat_alt unat_div)
    ultimately show ?thesis
      using Some c by (auto simp: ParseGptHeader_def header_ok_def GPT_PART_ENTRY_SIZE_def not_less)
  qed
qed

section \<open>The patched image\<close>




text \<open>The bytes two images share outside a set of positions.\<close>

definition agree_off :: "nat set \<Rightarrow> bytes \<Rightarrow> bytes \<Rightarrow> bool" where
  "agree_off X G H \<longleftrightarrow> length H = length G \<and> (\<forall>k < length G. k \<notin> X \<longrightarrow> H ! k = G ! k)"

lemma agree_off_refl [simp]: "agree_off X G G"
  by (simp add: agree_off_def)




lemma agree_off_rd:
  assumes "agree_off X G H" "{i ..< i + n} \<inter> X = {}" shows "rd H i n = rd G i n"
  using assms by (intro rd_eqI) (auto simp: agree_off_def)


lemma agree_off_rd64: "agree_off X G H \<Longrightarrow> {i ..< i + 8} \<inter> X = {} \<Longrightarrow> rd64 H i = rd64 G i"
  by (simp add: rd64_def agree_off_rd)



definition services_ok :: "gpt_env \<Rightarrow> bool" where
  "services_ok E \<longleftrightarrow> (\<forall>d. CalculateCrc32 E d \<noteq> None) \<and> EraseBlocks E = EFI_SUCCESS \<and> (\<forall>k. WriteBlocks E k = EFI_SUCCESS)"




lemma ivl_disjoint: "a + n \<le> b \<or> b + m \<le> a \<Longrightarrow> {a ..< a + n} \<inter> {b ..< b + m} = {}" for a b n m :: nat
  by auto

lemma layout_consts:
  "unat (2 * MIN_PARTITION_ARRAY_SIZE) = 32768" "unat MIN_PARTITION_ARRAY_SIZE = 16384" "unat GPT_HEADER_SIZE = 92"
  by (simp_all add: MIN_PARTITION_ARRAY_SIZE_def GPT_HEADER_SIZE_def)

abbreviation secondary :: "nat \<Rightarrow> nat" where
  "secondary B \<equiv> 32768 + B + B"




definition lba_fields :: "nat \<Rightarrow> nat set" where
  "lba_fields B = {B + 32 ..< B + 40} \<union> {B + 48 ..< B + 56} \<union> {secondary B + 24 ..< secondary B + 32} \<union>
     {secondary B + 48 ..< secondary B + 56} \<union> {secondary B + 72 ..< secondary B + 80}"

text \<open>
  The layout of a device of \<open>D\<close> bytes: the backup header is in the last block, the backup array in front of it, and the space for
  partitions ends in front of that. The code counts one block more for an array than its 16384 bytes take.
\<close>

definition backup_lba :: "u64 \<Rightarrow> u32 \<Rightarrow> u64" where
  "backup_lba D BlkSz = D div ucast BlkSz - 1"

definition array_lba :: "u64 \<Rightarrow> u32 \<Rightarrow> u64" where
  "array_lba D BlkSz = D div ucast BlkSz - word_of_nat (16384 div unat BlkSz + 1)"

definition last_lba :: "u64 \<Rightarrow> u32 \<Rightarrow> u64" where
  "last_lba D BlkSz = D div ucast BlkSz - word_of_nat (16384 div unat BlkSz + 2)"

lemma layout_lbas:
  assumes "512 \<le> unat BlkSz"
  shows "LastUsable D BlkSz = last_lba D BlkSz" "D div ucast BlkSz - ucast (PtnEntryBlks BlkSz) = array_lba D BlkSz"
proof -
  have q: "16384 div unat BlkSz \<le> 16384 div 512" using assms by (intro div_le_mono2) simp_all
  then have "unat (PtnEntryBlks BlkSz) = 16384 div unat BlkSz + 1" "unat (PtnEntryBlks BlkSz + 1) = 16384 div unat BlkSz + 2"
    by (simp_all add: PtnEntryBlks_def MAX_PARTITION_ENTRIES_SZ_def unat_word_ariths unat_div)
  then have "(ucast (PtnEntryBlks BlkSz) :: u64) = word_of_nat (16384 div unat BlkSz + 1)"
    "(ucast (PtnEntryBlks BlkSz + 1) :: u64) = word_of_nat (16384 div unat BlkSz + 2)"
    by (metis of_nat_unat)+
  then show "LastUsable D BlkSz = last_lba D BlkSz" "D div ucast BlkSz - ucast (PtnEntryBlks BlkSz) = array_lba D BlkSz"
    by (simp_all only: LastUsable_def last_lba_def array_lba_def)
qed

definition lbas_ok :: "u64 \<Rightarrow> u32 \<Rightarrow> bytes \<Rightarrow> bool" where
  "lbas_ok D BlkSz G \<longleftrightarrow>
     rd64 G (unat BlkSz + 32) = Some (backup_lba D BlkSz) \<and>
     rd64 G (unat BlkSz + 48) = Some (last_lba D BlkSz) \<and>
     rd64 G (secondary (unat BlkSz) + 24) = Some 1 \<and>
     rd64 G (secondary (unat BlkSz) + 48) = Some (last_lba D BlkSz) \<and>
     rd64 G (secondary (unat BlkSz) + 72) = Some (array_lba D BlkSz)"

lemma Patch_lbas_spec:
  assumes B: "B = unat BlkSz" "512 \<le> B" and len: "3 * B + 32768 \<le> length G"
  shows "\<exists>H. Patch_lbas D MIN_PARTITION_ARRAY_SIZE BlkSz G = Some H \<and> agree_off (lba_fields B) G H \<and> lbas_ok D BlkSz H"
proof -
  let ?P = "\<lambda>off w G. patch G off (enc64 w)"
  let ?G1 = "?P (B + 32) (D div ucast BlkSz - 1) G"
  let ?G2 = "?P (B + 48) (LastUsable D BlkSz) ?G1"
  let ?G3 = "?P (secondary B + 24) 1 ?G2"
  let ?G4 = "?P (secondary B + 48) (LastUsable D BlkSz) ?G3"
  let ?G5 = "?P (secondary B + 72) (D div ucast BlkSz - ucast (PtnEntryBlks BlkSz)) ?G4"
  have "Patch_lbas D MIN_PARTITION_ARRAY_SIZE BlkSz G = Some ?G5"
    using B(2) len unfolding Patch_lbas_def layout_consts Let_def B(1) [symmetric] by (simp add: put_Some)
  moreover have "agree_off (lba_fields B) G ?G5"
    using B(2) len by (auto simp: agree_off_def lba_fields_def nth_patch)
  moreover have "lbas_ok D BlkSz ?G5"
    using B(2) len layout_lbas [of BlkSz D] unfolding lbas_ok_def backup_lba_def B(1) [symmetric]
    by (simp add: rd64_patch_same rd64_patch_other)
  ultimately show ?thesis by blast
qed

text \<open>The number of partitions, and the entry of the last one.\<close>

declare Patch_count.simps [simp del]

lemma entry_offset: "t \<le> 128 \<Longrightarrow> unat (word_of_nat t * PARTITION_ENTRY_SIZE :: u32) = t * 128"
  by (simp add: PARTITION_ENTRY_SIZE_def unat_word_ariths unsigned_of_nat take_bit_eq_mod)

lemma Patch_count_cases:
  assumes "base + unat Cnt * 128 \<le> length G" "unat Cnt \<le> 128" "t \<le> unat Cnt"
  shows "\<exists>r. Patch_count G base Cnt t = Some r \<and> t \<le> r \<and> r \<le> unat Cnt"
  using assms
proof (induction G base Cnt t rule: Patch_count.induct)
  case (1 G base Cnt t)
  show ?case
  proof (cases "t < unat Cnt")
    case True
    have o: "unat (word_of_nat t * PARTITION_ENTRY_SIZE :: u32) = t * 128" using True 1(4) by (simp add: entry_offset)
    have "Suc t * 128 \<le> unat Cnt * 128" using True by (intro mult_le_mono1) simp
    then have "base + t * 128 + 16 \<le> length G" using 1(3) by simp
    then obtain x y where xy: "rd64 G (base + t * 128) = Some x" "rd64 G (base + t * 128 + 8) = Some y"
      using rd64_defined [of "base + t * 128" G] rd64_defined [of "base + t * 128 + 8" G] by auto
    show ?thesis
    proof (cases "x = 0 \<and> y = 0")
      case True
      then show ?thesis using xy \<open>t < unat Cnt\<close> by (simp add: Patch_count.simps [of G base Cnt t] o)
    next
      case False
      then have "Patch_count G base Cnt t = Patch_count G base Cnt (Suc t)"
        using xy \<open>t < unat Cnt\<close> by (auto simp: Patch_count.simps [of G base Cnt t] o)
      moreover have "\<exists>r. Patch_count G base Cnt (Suc t) = Some r \<and> Suc t \<le> r \<and> r \<le> unat Cnt"
      proof (cases "x = 0")
        case True
        then show ?thesis using 1(2) [OF \<open>t < unat Cnt\<close>, of x y] xy False 1(3-5) \<open>t < unat Cnt\<close> by (simp add: o)
      next
        case x: False
        then show ?thesis using 1(1) [OF \<open>t < unat Cnt\<close>, of x] xy 1(3-5) \<open>t < unat Cnt\<close> by (simp add: o)
      qed
      ultimately show ?thesis by auto
    qed
  next
    case False
    then have "Patch_count G base Cnt t = Some t" by (subst Patch_count.simps) simp
    then show ?thesis using 1(5) by simp
  qed
qed

text \<open>An image with at least one partition, by the two words the loop looks at.\<close>

definition has_entry :: "bytes \<Rightarrow> nat \<Rightarrow> bool" where
  "has_entry G base \<longleftrightarrow> (\<exists>x y. rd64 G base = Some x \<and> rd64 G (base + 8) = Some y \<and> (x \<noteq> 0 \<or> y \<noteq> 0))"

lemma Patch_count_pos:
  assumes "base + unat Cnt * 128 \<le> length G" "0 < unat Cnt" "unat Cnt \<le> 128" "has_entry G base"
  shows "\<exists>r. Patch_count G base Cnt 0 = Some r \<and> 0 < r \<and> r \<le> 128"
proof -
  have "Patch_count G base Cnt 0 = Patch_count G base Cnt (Suc 0)"
    using assms(2,4) by (auto simp: has_entry_def Patch_count.simps [of G base Cnt 0])
  then show ?thesis using Patch_count_cases [of base Cnt G "Suc 0"] assms by auto
qed

lemma Patch_count_empty:
  assumes "rd64 G base = Some 0" "rd64 G (base + 8) = Some 0"
  shows "Patch_count G base Cnt 0 = Some 0"
  using assms by (simp add: Patch_count.simps)













section \<open>The blocks that are written\<close>






lemma array_size:
  assumes "header_ok E D h"
  shows "(if PartEntrySz h * MaxPtCnt h < MIN_PARTITION_ARRAY_SIZE then MIN_PARTITION_ARRAY_SIZE
          else PartEntrySz h * MaxPtCnt h) = MIN_PARTITION_ARRAY_SIZE"
proof -
  have h: "PartEntrySz h = 128" "unat (MaxPtCnt h) \<le> 128" using assms by (simp_all add: header_ok_def)
  then have "unat (PartEntrySz h * MaxPtCnt h) = 128 * unat (MaxPtCnt h)" by (simp add: unat_word_ariths)
  then have "unat (PartEntrySz h * MaxPtCnt h) \<le> unat MIN_PARTITION_ARRAY_SIZE"
    using h(2) by (simp add: layout_consts)
  then show ?thesis by (auto simp: word_less_nat_alt word_unat_eq_iff not_less)
qed

definition blocks_ok :: "gpt_env \<Rightarrow> bool" where
  "blocks_ok E \<longleftrightarrow> 512 \<le> unat (BlockSize E) \<and> unat (BlockSize E) \<le> 65536"

lemma size_checks:
  assumes "blocks_ok E"
  shows "unat (BlockSize E * 2) = 2 * unat (BlockSize E)"
    "unat (2 * MIN_PARTITION_ARRAY_SIZE + BlockSize E * 3) = 32768 + 3 * unat (BlockSize E)"
  using assms layout_consts(1) by (simp_all add: blocks_ok_def unat_word_ariths)


text \<open>Both headers of the image pass \<open>ParseGptHeader\<close>.\<close>

definition parsed :: "gpt_env \<Rightarrow> u32 \<Rightarrow> gpt_state \<Rightarrow> bool" where
  "parsed E Sz S \<longleftrightarrow>
     (let D = GetPartitionSize (Some (LastBlock E, BlockSize E)); B = unat (BlockSize E)
      in D \<noteq> 0 \<and> 3 * B + 32768 \<le> unat Sz \<and>
         (\<exists>h S1. ParseGptHeader E B D (BlockSize E) S = Some (Some h, S1)) \<and>
         (\<exists>h S1. ParseGptHeader E (secondary B) D (BlockSize E) (S\<lparr>ParseSecondaryGpt := True\<rparr>) = Some (Some h, S1)))"

lemma parsed_WriteGpt:
  assumes st: "StorageHandle E = (EFI_SUCCESS, 1)" and bk: "blocks_ok E" and len: "length (Gpt S) = unat Sz"
    and acc: "parsed E Sz S"
  shows "\<exists>h. header_ok E (GetPartitionSize (Some (LastBlock E, BlockSize E))) h \<and>
    rd32 (Gpt S) (secondary (unat (BlockSize E)) + 80) = Some (MaxPtCnt h) \<and>
    WriteGpt E Sz S = Write_patched E Sz (GetPartitionSize (Some (LastBlock E, BlockSize E)))
      MIN_PARTITION_ARRAY_SIZE h (S\<lparr>ParseSecondaryGpt := True\<rparr>)"
proof -
  define D B where "D = GetPartitionSize (Some (LastBlock E, BlockSize E))" and "B = unat (BlockSize E)"
  let ?T = "S\<lparr>ParseSecondaryGpt := True\<rparr>"
  have B: "512 \<le> B" using bk by (simp add: blocks_ok_def B_def)
  obtain h1 S1 h2 S2 where P1: "ParseGptHeader E B D (BlockSize E) S = Some (Some h1, S1)"
    and P2: "ParseGptHeader E (secondary B) D (BlockSize E) ?T = Some (Some h2, S2)"
    and sz: "D \<noteq> 0" "3 * B + 32768 \<le> unat Sz"
    using acc unfolding parsed_def Let_def D_def [symmetric] B_def [symmetric] by blast
  have H1: "S1 = S" "header_ok E D h1"
    using ParseGptHeader_cases [of B E S D] P1 sz(2) len B by (auto simp: B_def)
  have H2: "S2 = ?T" "header_ok E D h2" "rd32 (Gpt S) (secondary B + 80) = Some (MaxPtCnt h2)"
    using ParseGptHeader_cases [of "secondary B" E ?T D] P2 sz(2) len B by (auto simp: B_def)
  have "\<not> Sz \<le> BlockSize E * 2" "\<not> Sz < 2 * MIN_PARTITION_ARRAY_SIZE + BlockSize E * 3"
    using sz(2) B by (simp_all add: word_le_nat_alt word_less_nat_alt size_checks [OF bk] B_def [symmetric])
  then have "WriteGpt E Sz S = Write_patched E Sz D MIN_PARTITION_ARRAY_SIZE h2 ?T"
    using st sz(1) P1 P2 H1 H2
    by (simp add: WriteGpt_def Write_backup_def array_size [OF H1(2)] Let_def D_def [symmetric] B_def [symmetric]
        layout_consts)
  then show ?thesis using H2 by (auto simp: D_def B_def)
qed


section \<open>Valid headers\<close>






section \<open>A sample image\<close>

definition sample_header :: bytes where
  "sample_header = enc32 GPT_SIGNATURE_2 @ enc32 GPT_SIGNATURE_1 @ enc32 0 @ enc32 92 @ enc32 0 @ enc32 0 @
     enc64 1 @ enc64 0 @ enc64 0 @ enc64 0 @ replicate 16 0 @ enc64 2 @ enc32 4 @ enc32 128 @ enc32 0"

definition sample_mbr :: bytes where
  "sample_mbr = replicate 450 0 @ [0xEE] @ replicate 59 0 @ [0x55, 0xAA]"

definition sample_image :: "bytes \<Rightarrow> bytes" where
  "sample_image guid = sample_mbr @ (sample_header @ replicate 420 0) @ (guid @ replicate 32752 0) @
     sample_header @ replicate 420 0"

definition sample_gpt :: "bytes \<Rightarrow> gpt_state" where
  "sample_gpt guid = \<lparr>Gpt = sample_image guid, ParseSecondaryGpt = False, FlashingGpt = False, Erased = False, Written = []\<rparr>"

definition sample_gpt_env :: "nat \<Rightarrow> gpt_env" where
  "sample_gpt_env n = \<lparr>StorageHandle = (EFI_SUCCESS, n), LastBlock = 1023, BlockSize = 512,
     CalculateCrc32 = (\<lambda>bs. Some 0), EraseBlocks = EFI_SUCCESS, WriteBlocks = (\<lambda>k. EFI_SUCCESS)\<rparr>"

lemma length_sample_header [simp]: "length sample_header = 92"
  by (simp add: sample_header_def)

lemma length_sample_mbr [simp]: "length sample_mbr = 512"
  by (simp add: sample_mbr_def)

lemma length_sample_image: "length guid = 16 \<Longrightarrow> length (sample_image guid) = 34304"
  by (simp add: sample_image_def)

text \<open>Reads of the two headers and of the first entry.\<close>

lemma sample_header_rd:
  "k + n \<le> 92 \<Longrightarrow> length guid = 16 \<Longrightarrow> rd (sample_image guid) (512 + k) n = rd sample_header k n"
  "k + n \<le> 92 \<Longrightarrow> length guid = 16 \<Longrightarrow> rd (sample_image guid) (33792 + k) n = rd sample_header k n"
  by (simp_all add: rd_def sample_image_def)

lemma sample_fields:
  "rd32 sample_header 0 = Some GPT_SIGNATURE_2" "rd32 sample_header 4 = Some GPT_SIGNATURE_1"
  "rd32 sample_header 12 = Some 92" "rd32 sample_header 16 = Some 0" "rd64 sample_header 24 = Some 1"
  "rd64 sample_header 40 = Some 0" "rd64 sample_header 48 = Some 0" "rd32 sample_header 80 = Some 4"
  "rd32 sample_header 84 = Some 128"
  by (simp_all add: sample_header_def rd32_def rd64_def rd_def)

lemma sample_entry_rd:
  "length guid = 16 \<Longrightarrow> rd (sample_image guid) 1024 8 = Some (take 8 guid)"
  "length guid = 16 \<Longrightarrow> rd (sample_image guid) 1032 8 = Some (take 8 (drop 8 guid))"
  by (simp_all add: rd_def sample_image_def)

lemma Parse_crc_accepts:
  assumes "rd32 G base = Some GPT_SIGNATURE_2" "rd32 G (base + 4) = Some GPT_SIGNATURE_1"
    "rd32 G (base + 12) = Some sz" "GPT_HEADER_SIZE \<le> sz" "sz \<le> BlkSz" "base + unat sz \<le> length G"
    "rd32 G (base + 16) = Some c" "\<And>d. CalculateCrc32 E d = Some c"
  shows "Parse_crc E base BlkSz G = Some (Some sz, G)"
proof -
  have len: "base + 92 \<le> length G" using assms(4,6) by (simp add: GPT_HEADER_SIZE_def word_le_nat_alt)
  let ?Z = "patch G (base + 16) (enc32 0)"
  have z: "length ?Z = length G" "patch ?Z (base + 16) (enc32 c) = G"
    using len assms(7) by (simp_all add: patch_back)
  then obtain d where "rd ?Z base (unat sz) = Some d" using rd_defined [of base "unat sz" ?Z] assms(6) by auto
  then show ?thesis
    using assms z len by (simp add: Parse_crc_def put_Some not_less [symmetric])
qed

lemma sample_blocks: "blocks_ok (sample_gpt_env n)" "services_ok (sample_gpt_env n)"
  "BlockSize (sample_gpt_env n) = 512" "GetPartitionSize (Some (LastBlock (sample_gpt_env n), 512)) = 524288"
  by (simp_all add: blocks_ok_def services_ok_def sample_gpt_env_def GetPartitionSize_def)

lemma sample_parse:
  assumes g: "length guid = 16" and b: "base = 512 \<or> base = 33792" and S: "Gpt S = sample_image guid"
  shows "\<exists>h S'. ParseGptHeader (sample_gpt_env n) base 524288 512 S = Some (Some h, S')"
proof -
  have R: "rd (sample_image guid) (base + k) m = rd sample_header k m" if "k + m \<le> 92" for k m
    using b sample_header_rd [OF that g] by auto
  have R32: "rd32 (sample_image guid) (base + k) = rd32 sample_header k" if "k \<le> 88" for k
    using R [of k 4] that by (simp add: rd32_def)
  have R64: "rd64 (sample_image guid) (base + k) = rd64 sample_header k" if "k \<le> 84" for k
    using R [of k 8] that by (simp add: rd64_def)
  have "Parse_crc (sample_gpt_env n) base 512 (sample_image guid) = Some (Some 92, sample_image guid)"
    using b length_sample_image [OF g] R32 [of 0]
    by (intro Parse_crc_accepts [where c = 0])
       (auto simp: R32 sample_fields sample_gpt_env_def GPT_HEADER_SIZE_def)
  then show ?thesis
    by (simp add: ParseGptHeader_def S R32 R64 sample_fields GPT_LBA_def GPT_PART_ENTRY_SIZE_def
        MIN_PARTITION_ARRAY_SIZE_def)
qed

lemma sample_parsed:
  assumes "length guid = 16"
  shows "parsed (sample_gpt_env n) 34304 (sample_gpt guid)"
  using sample_parse [OF assms, of 512 _ n] sample_parse [OF assms, of 33792 _ n]
  by (simp add: parsed_def Let_def sample_blocks sample_gpt_def)

section \<open>Properties\<close>





lemma sample_type: "PartitionGetType 34304 (sample_image guid) = Some (Some PARTITION_TYPE_GPT)"
  by (simp add: PartitionGetType_def PartitionVerifyMbrSignature_def MbrGetPartitionType_def rd_def
      sample_image_def sample_mbr_def)


text \<open>
  An image without partitions is not refused: when the first entry is empty, the offset of the last
  entry is computed from index \<open>0 - 1\<close>, and \<open>PatchGpt\<close> writes almost 4 GiB behind the array, outside the image.
\<close>

theorem WriteGpt_empty_table:
  assumes "StorageHandle E = (EFI_SUCCESS, 1)" "blocks_ok E" "length (Gpt S) = unat Sz" "parsed E Sz S"
    "rd64 (Gpt S) (unat (BlockSize E) + unat (BlockSize E)) = Some 0"
    "rd64 (Gpt S) (unat (BlockSize E) + unat (BlockSize E) + 8) = Some 0"
  shows "WriteGpt E Sz S = None"
proof -
  define B where "B = unat (BlockSize E)"
  let ?D = "GetPartitionSize (Some (LastBlock E, BlockSize E))" and ?T = "S\<lparr>ParseSecondaryGpt := True\<rparr>"
  have B: "512 \<le> B" using assms(2) by (simp add: blocks_ok_def B_def)
  have sz: "3 * B + 32768 \<le> length (Gpt S)" using assms(3,4) by (simp add: parsed_def Let_def B_def)
  obtain h where W: "WriteGpt E Sz S = Write_patched E Sz ?D MIN_PARTITION_ARRAY_SIZE h ?T"
    using parsed_WriteGpt [OF assms(1-4)] by blast
  obtain G where G: "Patch_lbas ?D MIN_PARTITION_ARRAY_SIZE (BlockSize E) (Gpt S) = Some G"
      "agree_off (lba_fields B) (Gpt S) G"
    using Patch_lbas_spec [OF B_def B sz] by blast
  have "rd64 G (B + B) = rd64 (Gpt S) (B + B)" "rd64 G (B + B + 8) = rd64 (Gpt S) (B + B + 8)"
    using B by (auto intro!: agree_off_rd64 [OF G(2)] simp: lba_fields_def)
  then have c: "Patch_count G (B + B) (MaxPtCnt h) 0 = Some 0"
    using assms(5,6) by (intro Patch_count_empty) (simp_all add: B_def)
  have off: "unat ((word_of_nat 0 - 1) * PARTITION_ENTRY_SIZE + 40 :: u32) = 4294967208"
    by (simp add: PARTITION_ENTRY_SIZE_def)
  have "length G < 2 ^ 32"
    using G(2) assms(3) unsigned_less [of Sz, where ?'a = nat] by (simp add: agree_off_def)
  then have "Patch_last ?D MIN_PARTITION_ARRAY_SIZE (MaxPtCnt h) (BlockSize E) G = None"
    using B unfolding Patch_last_def Let_def B_def [symmetric] c bind.bind_lunit off by (simp add: put_def)
  then show ?thesis using G(1) by (simp add: W Write_patched_def PatchGpt_def)
qed

theorem WriteGpt_empty_table_witness:
  "WriteGpt (sample_gpt_env 1) 34304 (sample_gpt (replicate 16 0)) = None"
proof -
  let ?E = "sample_gpt_env 1" and ?S = "sample_gpt (replicate 16 0)"
  have g: "length (replicate 16 (0 :: u8)) = 16" by simp
  have st: "StorageHandle ?E = (EFI_SUCCESS, 1)" by (simp add: sample_gpt_env_def)
  have len: "length (Gpt ?S) = unat (34304 :: u32)" by (simp add: sample_gpt_def length_sample_image)
  have e: "rd64 (Gpt ?S) (unat (BlockSize ?E) + unat (BlockSize ?E)) = Some 0"
    "rd64 (Gpt ?S) (unat (BlockSize ?E) + unat (BlockSize ?E) + 8) = Some 0"
    by (simp_all add: sample_blocks sample_gpt_def rd64_def sample_entry_rd dec64_def dec32_def)
  show ?thesis by (rule WriteGpt_empty_table [OF st sample_blocks(1) len sample_parsed [OF g] e])
qed

text \<open>
  When the search for the device succeeds but does not find exactly one handle, for example for a LUN that
  does not exist, \<open>UpdatePartitionTable\<close> reports success although it has written nothing.
\<close>

theorem UpdatePartitionTable_no_device:
  assumes "fst (StorageHandle E) = EFI_SUCCESS" "snd (StorageHandle E) \<noteq> 1"
    "PartitionGetType Sz (Gpt S) = Some (Some PARTITION_TYPE_GPT)"
  shows "UpdatePartitionTable E Sz S = Some (EFI_SUCCESS, S\<lparr>FlashingGpt := True\<rparr>)"
  using assms by (simp add: UpdatePartitionTable_def WriteGpt_def)

theorem UpdatePartitionTable_no_device_witness:
  "UpdatePartitionTable (sample_gpt_env 0) 34304 (sample_gpt (replicate 16 7)) =
     Some (EFI_SUCCESS, (sample_gpt (replicate 16 7))\<lparr>FlashingGpt := True\<rparr>) \<and>
   Written ((sample_gpt (replicate 16 7))\<lparr>FlashingGpt := True\<rparr>) = []"
proof -
  have "fst (StorageHandle (sample_gpt_env 0)) = EFI_SUCCESS" "snd (StorageHandle (sample_gpt_env 0)) \<noteq> 1"
    by (simp_all add: sample_gpt_env_def)
  moreover have "PartitionGetType 34304 (Gpt (sample_gpt (replicate 16 7))) = Some (Some PARTITION_TYPE_GPT)"
    using sample_type by (simp add: sample_gpt_def)
  ultimately show ?thesis using UpdatePartitionTable_no_device [of "sample_gpt_env 0" 34304 "sample_gpt (replicate 16 7)"]
    by (simp add: sample_gpt_def)
qed

end
