(* ===== verification/Mem_Type_Info.thy ===== *)
theory Mem_Type_Info
  imports Cert_Db
begin

text \<open>
  The check of the \<open>MemoryTypeInformation\<close> variable (\<^verbatim>\<open>MemoryTypeInfoSecVarCheckLib.c\<close>): a handler that the
  variable driver calls before every \<open>SetVariable\<close>. A value it lets through sizes the memory map of the next boot,
  so a wrong one can make the device unusable. The name and GUID of the variable, the number of memory types and the
  page limit come from headers and settings outside the repository and are the environment.
\<close>

record mti_env =
  EFI_MEMORY_TYPE_INFORMATION_VARIABLE_NAME :: name16
  gEfiMemoryTypeInformationGuid :: bytes
  EfiMaxMemoryType :: u32
  PcdMaxMemoryTypeInfoPages :: u32

definition INFO_COUNT :: nat where
  "INFO_COUNT = 10"

text \<open>An entry is two 32-bit words, its type and its number of pages.\<close>

definition entry_type :: "bytes \<Rightarrow> nat \<Rightarrow> u32 option" where
  "entry_type Data Index = rd32 Data (8 * Index)"

definition entry_pages :: "bytes \<Rightarrow> nat \<Rightarrow> u32 option" where
  "entry_pages Data Index = rd32 Data (8 * Index + 4)"

text \<open>The inner loop looks for the type in the entries behind, \<open>n\<close> of which are left.\<close>

fun Same_type :: "bytes \<Rightarrow> u32 \<Rightarrow> nat \<Rightarrow> nat \<Rightarrow> bool option" where
  "Same_type Data Type Index2 0 = Some False"
| "Same_type Data Type Index2 (Suc n) =
     do { t \<leftarrow> entry_type Data Index2;
          if Type = t then Some True else Same_type Data Type (Suc Index2) n }"

text \<open>The outer loop; \<open>Some None\<close> is \<open>EFI_SECURITY_VIOLATION\<close>.\<close>

fun Check_types :: "mti_env \<Rightarrow> bytes \<Rightarrow> nat \<Rightarrow> nat \<Rightarrow> u64 \<Rightarrow> u64 option option" where
  "Check_types E Data Index 0 TotalPages = Some (Some TotalPages)"
| "Check_types E Data Index (Suc n) TotalPages =
     do { Type \<leftarrow> entry_type Data Index;
          if Type > EfiMaxMemoryType E then Some None
          else do {
            same \<leftarrow> Same_type Data Type (Suc Index) (INFO_COUNT - Suc Index);
            if same then Some None
            else do {
              pages \<leftarrow> entry_pages Data Index;
              if no_wrap TotalPages (ucast pages)
              then Check_types E Data (Suc Index) n (TotalPages + ucast pages)
              else Some None } } }"

definition MemoryTypeInfoVarCheckHandler ::
  "mti_env \<Rightarrow> name16 \<Rightarrow> bytes \<Rightarrow> u32 \<Rightarrow> u64 \<Rightarrow> bytes \<Rightarrow> efi_status option" where
  "MemoryTypeInfoVarCheckHandler E VariableName VendorGuid Attributes DataSize Data =
     (if VariableName \<noteq> EFI_MEMORY_TYPE_INFORMATION_VARIABLE_NAME E \<or> VendorGuid \<noteq> gEfiMemoryTypeInformationGuid E
      then Some EFI_SUCCESS
      else if \<not> has_attr Attributes EFI_VARIABLE_APPEND_WRITE \<and> DataSize = 0 \<or> Attributes = 0 then Some EFI_SUCCESS
      else if DataSize \<noteq> word_of_nat (8 * INFO_COUNT) then Some EFI_SECURITY_VIOLATION
      else do {
        last \<leftarrow> entry_type Data (INFO_COUNT - 1);
        if last \<noteq> EfiMaxMemoryType E then Some EFI_SECURITY_VIOLATION
        else do {
          r \<leftarrow> Check_types E Data 0 (INFO_COUNT - 1) 0;
          case r of
            None \<Rightarrow> Some EFI_SECURITY_VIOLATION
          | Some TotalPages \<Rightarrow>
              if TotalPages > ucast (PcdMaxMemoryTypeInfoPages E) then Some EFI_SECURITY_VIOLATION
              else Some EFI_SUCCESS } })"

section \<open>What the handler accepts\<close>

definition type_at :: "bytes \<Rightarrow> nat \<Rightarrow> u32" where
  "type_at Data i = the (entry_type Data i)"

definition pages_at :: "bytes \<Rightarrow> nat \<Rightarrow> u32" where
  "pages_at Data i = the (entry_pages Data i)"

definition good_info :: "mti_env \<Rightarrow> bytes \<Rightarrow> bool" where
  "good_info E Data \<longleftrightarrow>
     (let types = map (type_at Data) [0 ..< INFO_COUNT]
      in distinct types \<and> last types = EfiMaxMemoryType E \<and> (\<forall>t \<in> set types. t \<le> EfiMaxMemoryType E) \<and>
         (\<Sum>i < INFO_COUNT - 1. unat (pages_at Data i)) \<le> unat (PcdMaxMemoryTypeInfoPages E))"

lemma entry_reads:
  assumes "8 * INFO_COUNT \<le> length Data" "i < INFO_COUNT"
  shows "entry_type Data i = Some (type_at Data i)" "entry_pages Data i = Some (pages_at Data i)"
  using assms by (auto simp: entry_type_def entry_pages_def type_at_def pages_at_def rd32_def rd_def)

lemma range_split: "i \<le> k \<and> k < i + Suc n \<longleftrightarrow> k = i \<or> Suc i \<le> k \<and> k < Suc i + n" for i k n :: nat
  by auto

lemma ex_range_split:
  "(\<exists>j. k \<le> j \<and> j < k + Suc n \<and> Q j) \<longleftrightarrow> Q k \<or> (\<exists>j. Suc k \<le> j \<and> j < Suc k + n \<and> Q j)" for k n :: nat
  by (simp only: conj_assoc [symmetric] range_split) blast

lemma all_range_split:
  "(\<forall>j. k \<le> j \<and> j < k + Suc n \<longrightarrow> Q j) \<longleftrightarrow> Q k \<and> (\<forall>j. Suc k \<le> j \<and> j < Suc k + n \<longrightarrow> Q j)" for k n :: nat
  by (simp only: range_split) blast

lemma Same_type_iff:
  assumes "8 * INFO_COUNT \<le> length Data" "k + n \<le> INFO_COUNT"
  shows "Same_type Data t k n = Some (\<exists>j. k \<le> j \<and> j < k + n \<and> type_at Data j = t)"
  using assms(2)
proof (induction n arbitrary: k)
  case (Suc n)
  have "entry_type Data k = Some (type_at Data k)" using entry_reads [OF assms(1)] Suc.prems by simp
  moreover have "(\<exists>j. k \<le> j \<and> j < k + Suc n \<and> type_at Data j = t) \<longleftrightarrow>
      type_at Data k = t \<or> (\<exists>j. Suc k \<le> j \<and> j < Suc k + n \<and> type_at Data j = t)"
    by (rule ex_range_split)
  ultimately show ?case using Suc by auto
qed simp

text \<open>The sum of at most ten 32-bit numbers does not reach the overflow check.\<close>

lemma Check_types_iff:
  assumes len: "8 * INFO_COUNT \<le> length Data" and "i + n \<le> INFO_COUNT" "unat acc + n * 2 ^ 32 < 2 ^ 64"
  shows "Check_types E Data i n acc = Some
    (if \<forall>k. i \<le> k \<and> k < i + n \<longrightarrow> type_at Data k \<le> EfiMaxMemoryType E \<and>
          (\<forall>j. k < j \<and> j < INFO_COUNT \<longrightarrow> type_at Data j \<noteq> type_at Data k)
     then Some (acc + word_of_nat (\<Sum>k = i ..< i + n. unat (pages_at Data k))) else None)"
  using assms(2,3)
proof (induction n arbitrary: i acc)
  case (Suc n)
  let ?good = "\<lambda>k. type_at Data k \<le> EfiMaxMemoryType E \<and> (\<forall>j. k < j \<and> j < INFO_COUNT \<longrightarrow> type_at Data j \<noteq> type_at Data k)"
  have R: "entry_type Data i = Some (type_at Data i)" "entry_pages Data i = Some (pages_at Data i)"
    using entry_reads [OF len] Suc.prems(1) by simp_all
  have S: "Same_type Data (type_at Data i) (Suc i) (INFO_COUNT - Suc i) =
      Some (\<exists>j. i < j \<and> j < INFO_COUNT \<and> type_at Data j = type_at Data i)"
    using Same_type_iff [OF len, of "Suc i" "INFO_COUNT - Suc i"] Suc.prems(1) by (simp add: Suc_le_eq)
  let ?p = "pages_at Data i"
  have p: "unat (ucast ?p :: u64) = unat ?p" "unat ?p < 2 ^ 32"
    using unsigned_less [of ?p, where ?'a = nat] by (simp_all add: unsigned_ucast_eq take_bit_nat_eq_self)
  have nw: "no_wrap acc (ucast ?p)" using p Suc.prems(2) by (simp add: no_wrap_iff)
  then have t: "unat (acc + ucast ?p) = unat acc + unat ?p" by (simp add: unat_end p(1))
  have step: "Check_types E Data i (Suc n) acc =
      (if ?good i then Check_types E Data (Suc i) n (acc + ucast ?p) else Some None)"
    using R S nw by (auto simp: not_less)
  have IH: "Check_types E Data (Suc i) n (acc + ucast ?p) = Some
      (if \<forall>k. Suc i \<le> k \<and> k < Suc i + n \<longrightarrow> ?good k
       then Some (acc + ucast ?p + word_of_nat (\<Sum>k = Suc i ..< Suc i + n. unat (pages_at Data k))) else None)"
    by (rule Suc.IH) (use Suc.prems p t in simp_all)
  have split: "(\<forall>k. i \<le> k \<and> k < i + Suc n \<longrightarrow> ?good k) \<longleftrightarrow> ?good i \<and> (\<forall>k. Suc i \<le> k \<and> k < Suc i + n \<longrightarrow> ?good k)"
    by (rule all_range_split)
  have "(\<Sum>k = i ..< i + Suc n. unat (pages_at Data k)) = unat ?p + (\<Sum>k = Suc i ..< Suc i + n. unat (pages_at Data k))"
    by (simp add: sum.atLeast_Suc_lessThan)
  then have sum: "acc + ucast ?p + word_of_nat (\<Sum>k = Suc i ..< Suc i + n. unat (pages_at Data k)) =
      acc + word_of_nat (\<Sum>k = i ..< i + Suc n. unat (pages_at Data k))"
    by simp
  show ?case unfolding step split IH sum by simp
qed simp

lemma distinct_upto:
  "distinct (map f [0 ..< Suc n]) \<longleftrightarrow> (\<forall>k < n. \<forall>j. k < j \<and> j < Suc n \<longrightarrow> f j \<noteq> f k)"
proof
  assume d: "distinct (map f [0 ..< Suc n])"
  show "\<forall>k < n. \<forall>j. k < j \<and> j < Suc n \<longrightarrow> f j \<noteq> f k"
    using nth_eq_iff_index_eq [OF d] by (auto simp del: upt_Suc)
next
  assume A: "\<forall>k < n. \<forall>j. k < j \<and> j < Suc n \<longrightarrow> f j \<noteq> f k"
  have "f i \<noteq> f j" if "i < Suc n" "j < Suc n" "i \<noteq> j" for i j
    using A that by (cases "i < j") (metis less_Suc_eq nat_neq_iff not_less_eq)+
  then show "distinct (map f [0 ..< Suc n])" by (auto simp: distinct_map inj_on_def simp del: upt_Suc) blast
qed

lemma good_info_iff:
  "good_info E Data \<longleftrightarrow> type_at Data 9 = EfiMaxMemoryType E \<and>
     (\<forall>k < 9. type_at Data k \<le> EfiMaxMemoryType E \<and> (\<forall>j. k < j \<and> j < 10 \<longrightarrow> type_at Data j \<noteq> type_at Data k)) \<and>
     (\<Sum>i < 9. unat (pages_at Data i)) \<le> unat (PcdMaxMemoryTypeInfoPages E)"
proof -
  have "distinct (map (type_at Data) [0 ..< 10]) \<longleftrightarrow>
      (\<forall>k < 9. \<forall>j. k < j \<and> j < 10 \<longrightarrow> type_at Data j \<noteq> type_at Data k)"
    using distinct_upto [of "type_at Data" 9] by simp
  moreover have "last (map (type_at Data) [0 ..< 10]) = type_at Data 9"
    by (simp add: last_map last_upt)
  moreover have "k < 10 \<longleftrightarrow> k = 9 \<or> k < 9" for k :: nat by auto
  then have "(\<forall>t \<in> set (map (type_at Data) [0 ..< 10]). t \<le> M) \<longleftrightarrow> type_at Data 9 \<le> M \<and> (\<forall>k < 9. type_at Data k \<le> M)" for M
    by auto
  ultimately show ?thesis unfolding good_info_def Let_def INFO_COUNT_def by auto
qed

lemma page_sum_less: "(\<Sum>i < 9. unat (pages_at Data i)) < 2 ^ 36"
proof -
  have "(\<Sum>i < 9. unat (pages_at Data i)) \<le> (\<Sum>i < (9 :: nat). 2 ^ 32)"
    using unsigned_less [of "pages_at Data _", where ?'a = nat] by (intro sum_mono) (simp add: less_imp_le)
  then show ?thesis by simp
qed

text \<open>
  C26: The handler decides every write of \<open>MemoryTypeInformation\<close>. With a buffer as long as its size argument it never
  reads past the buffer; it lets a write through exactly when the write is of another variable, or a deletion, or
  ten entries whose types are pairwise different and at most \<open>EfiMaxMemoryType\<close>, the last being that type, and whose
  pages together are within the limit (the total is the true sum: it cannot wrap in 64 bits).
\<close>

theorem MemoryTypeInfoVarCheckHandler_exact:
  assumes "length Data = unat DataSize"
  shows "MemoryTypeInfoVarCheckHandler E VariableName VendorGuid Attributes DataSize Data = Some
    (if VariableName \<noteq> EFI_MEMORY_TYPE_INFORMATION_VARIABLE_NAME E \<or> VendorGuid \<noteq> gEfiMemoryTypeInformationGuid E \<or>
        (DataSize = 0 \<and> \<not> has_attr Attributes EFI_VARIABLE_APPEND_WRITE) \<or> Attributes = 0 \<or>
        (DataSize = 80 \<and> good_info E Data)
     then EFI_SUCCESS else EFI_SECURITY_VIOLATION)"
proof (cases "DataSize = 80")
  case True
  have len: "8 * INFO_COUNT \<le> length Data" using assms True by (simp add: INFO_COUNT_def)
  have last: "entry_type Data (INFO_COUNT - 1) = Some (type_at Data 9)"
    using entry_reads(1) [OF len, of 9] by (simp add: INFO_COUNT_def)
  let ?S = "\<Sum>i < 9. unat (pages_at Data i)"
  define ok where "ok \<longleftrightarrow>
    (\<forall>k < 9. type_at Data k \<le> EfiMaxMemoryType E \<and> (\<forall>j. k < j \<and> j < 10 \<longrightarrow> type_at Data j \<noteq> type_at Data k))"
  have C: "Check_types E Data 0 (INFO_COUNT - 1) 0 = Some (if ok then Some (word_of_nat ?S) else None)"
    using Check_types_iff [OF len, of 0 9 0 E] by (simp add: ok_def INFO_COUNT_def lessThan_atLeast0 del: of_nat_sum)
  have "unat (word_of_nat ?S :: u64) = ?S"
    using page_sum_less [of Data] by (simp add: unat_of_nat del: of_nat_sum)
  then have "(word_of_nat ?S :: u64) > ucast (PcdMaxMemoryTypeInfoPages E) \<longleftrightarrow> \<not> ?S \<le> unat (PcdMaxMemoryTypeInfoPages E)"
    using unsigned_less [of "PcdMaxMemoryTypeInfoPages E", where ?'a = nat]
    by (simp add: word_less_nat_alt unsigned_ucast_eq take_bit_nat_eq_self not_le del: of_nat_sum)
  with True last C show ?thesis
    unfolding MemoryTypeInfoVarCheckHandler_def good_info_iff ok_def [symmetric] by (simp add: INFO_COUNT_def del: of_nat_sum)
next
  case False
  then show ?thesis by (auto simp: MemoryTypeInfoVarCheckHandler_def INFO_COUNT_def)
qed

theorem MemoryTypeInfoVarCheckHandler_exact_witness:
  "MemoryTypeInfoVarCheckHandler
     \<lparr> EFI_MEMORY_TYPE_INFORMATION_VARIABLE_NAME = [77], gEfiMemoryTypeInformationGuid = [1],
       EfiMaxMemoryType = 16, PcdMaxMemoryTypeInfoPages = 100 \<rparr> [77] [1] 3 80
     (concat (map (\<lambda>t. [t, 0, 0, 0, 10, 0, 0, 0]) [1, 2, 3, 4, 5, 6, 7, 8, 9, 16])) = Some EFI_SUCCESS"
  (is "MemoryTypeInfoVarCheckHandler ?E _ _ _ _ ?D = _")
proof -
  have "length ?D = unat (80 :: u64)" by simp
  moreover have "map (type_at ?D) [0 ..< 10] = [1, 2, 3, 4, 5, 6, 7, 8, 9, 16]"
    by (simp add: upt_conv_Cons type_at_def entry_type_def rd32_def rd_def dec32_def)
  moreover have "sum_list (map (\<lambda>i. unat (pages_at ?D i)) [0 ..< 9]) = 90"
    by (simp add: upt_conv_Cons pages_at_def entry_pages_def rd32_def rd_def dec32_def)
  ultimately have "good_info ?E ?D"
    unfolding good_info_def Let_def INFO_COUNT_def by (simp add: interv_sum_list_conv_sum_set_nat lessThan_atLeast0)
  with \<open>length ?D = _\<close> show ?thesis using MemoryTypeInfoVarCheckHandler_exact [of ?D 80 ?E "[77]" "[1]" 3] by simp
qed

end
