(* ===== verification/Block_Write.thy ===== *)
theory Block_Write
  imports Gpt_Image
begin

text \<open>
  Writing to a partition (\<^verbatim>\<open>BootLib/LinuxLoaderLib.c\<close>): \<open>WriteBlockToPartition\<close> splits a buffer into writes of whole
  blocks and merges a last, partial block with what is on the device. The block device is the environment
  \<open>blk_env\<close>; every request the code makes of it is kept in a log, also one that fails.
\<close>

section \<open>Device and log\<close>

datatype blk_op = WriteOp u64 bytes | EraseOp

type_synonym dev_log = "(nat \<times> blk_op) list"

text \<open>
  \<open>EraseProtocol\<close> is the result of the search for the erase protocol, with its granularity; \<open>BlkPoolOk\<close> says that
  memory can be allocated. The results of reads and writes may depend on everything asked before.
\<close>

record blk_env =
  DevId :: nat
  MediaBlockSize :: u32
  MediaLastBlock :: u64
  EraseProtocol :: "efi_status \<times> u32"
  EraseResult :: efi_status
  BlkPoolOk :: bool
  BlkWrite :: "dev_log \<Rightarrow> u64 \<Rightarrow> bytes \<Rightarrow> efi_status"
  BlkRead :: "dev_log \<Rightarrow> u64 \<Rightarrow> nat \<Rightarrow> efi_status \<times> bytes"

definition MAX_WRITE_SIZE :: u64 where "MAX_WRITE_SIZE = 1024 * 1024"

text \<open>\<open>ROUND_TO_PAGE\<close> with a 64-bit first and a 32-bit second operand; \<open>ADD_OF\<close> gives 0 when the sum reaches 32 bits.\<close>

definition ROUND_TO_PAGE :: "u64 \<Rightarrow> u32 \<Rightarrow> u64" where
  "ROUND_TO_PAGE x y = (if ucast (0xFFFFFFFF - y) > x then x + ucast y else 0) AND ucast (NOT y)"

section \<open>Writing\<close>

text \<open>
  The loop over the whole blocks. \<open>LeftSize\<close> is the number of bytes left; a write unit of no bytes would never end, and
  a block size of zero has no quotient.
\<close>

function Write_loop ::
  "blk_env \<Rightarrow> u64 \<Rightarrow> u32 \<Rightarrow> bytes \<Rightarrow> u64 \<Rightarrow> nat \<Rightarrow> dev_log \<Rightarrow> (efi_status \<times> u64 \<times> dev_log) option" where
  "Write_loop E WriteUnitSize DivMsgBufSize Img Offset LeftSize log =
     (if LeftSize = 0 then Some (EFI_SUCCESS, Offset, log)
      else
        (let WriteSize = (if LeftSize > unat WriteUnitSize then unat (ucast WriteUnitSize :: u32) else LeftSize)
         in if WriteSize = 0 \<or> MediaBlockSize E = 0 then None
            else do {
              data \<leftarrow> rd Img (unat DivMsgBufSize - LeftSize) WriteSize;
              let log' = log @ [(DevId E, WriteOp Offset data)];
              if BlkWrite E log Offset data \<noteq> EFI_SUCCESS then Some (BlkWrite E log Offset data, Offset, log')
              else Write_loop E WriteUnitSize DivMsgBufSize Img
                     (Offset + word_of_nat (WriteSize div unat (MediaBlockSize E))) (LeftSize - WriteSize) log' }))"
  by pat_completeness auto

termination
  by (relation "measure (\<lambda>(E, u, d, I, ofs, l, log). l)") (auto split: if_splits)

declare Write_loop.simps [simp del]

text \<open>The last, partial block. Copying more than the block buffer holds has no defined outcome.\<close>

definition Write_tail ::
  "blk_env \<Rightarrow> u32 \<Rightarrow> u64 \<Rightarrow> u32 \<Rightarrow> bytes \<Rightarrow> u64 \<Rightarrow> dev_log \<Rightarrow> (efi_status \<times> dev_log) option" where
  "Write_tail E WriteBlockSize Size DivMsgBufSize Img Offset log =
     (if \<not> BlkPoolOk E then Some (EFI_OUT_OF_RESOURCES, log)
      else
        (case BlkRead E log Offset (unat WriteBlockSize) of
           (Status, ImageBuffer) \<Rightarrow>
             if Status \<noteq> EFI_SUCCESS then Some (Status, log)
             else do {
               rest \<leftarrow> rd Img (unat DivMsgBufSize) (unat (Size - ucast DivMsgBufSize));
               ImageBuffer \<leftarrow> put 0 rest ImageBuffer;
               Some (BlkWrite E log Offset ImageBuffer, log @ [(DevId E, WriteOp Offset ImageBuffer)]) }))"

definition Write_blocks ::
  "blk_env \<Rightarrow> u32 \<Rightarrow> bool \<Rightarrow> u64 \<Rightarrow> u64 \<Rightarrow> bytes \<Rightarrow> dev_log \<Rightarrow> (efi_status \<times> dev_log) option" where
  "Write_blocks E WriteBlockSize SplitNeeded Offset Size Img log =
     (if WriteBlockSize = 0 then None
      else
        (let DivMsgBufSize = ucast (Size div ucast WriteBlockSize * ucast WriteBlockSize) :: u32;
             WriteUnitSize = (if SplitNeeded then ROUND_TO_PAGE MAX_WRITE_SIZE (WriteBlockSize - 1)
                              else ucast DivMsgBufSize)
         in do {
           (Status, Offset, log) \<leftarrow> Write_loop E WriteUnitSize DivMsgBufSize Img Offset (unat DivMsgBufSize) log;
           if Status \<noteq> EFI_SUCCESS then Some (Status, log)
           else if Size - ucast DivMsgBufSize > 0
                then Write_tail E WriteBlockSize Size DivMsgBufSize Img Offset log
                else Some (EFI_SUCCESS, log) }))"

text \<open>A null pointer is \<open>None\<close>; \<open>Handle\<close> says that the handle is not null. On NAND the unit of a write is the erase granularity.\<close>

definition WriteBlockToPartition ::
  "blk_env option \<Rightarrow> bool \<Rightarrow> bool \<Rightarrow> bool \<Rightarrow> u64 \<Rightarrow> u64 \<Rightarrow> bytes option \<Rightarrow> dev_log \<Rightarrow> (efi_status \<times> dev_log) option" where
  "WriteBlockToPartition BlockIo Handle RootIsNand SplitNeeded Offset Size Img log =
     (case (BlockIo, Img) of
        (Some E, Some I) \<Rightarrow>
          if RootIsNand then
            if \<not> Handle then Some (EFI_INVALID_PARAMETER, log)
            else
            (case EraseProtocol E of
               (Status, EraseLengthGranularity) \<Rightarrow>
                 if Status \<noteq> EFI_SUCCESS then Some (Status, log)
                 else Write_blocks E EraseLengthGranularity SplitNeeded Offset Size I log)
          else Write_blocks E (MediaBlockSize E) SplitNeeded Offset Size I log
      | _ \<Rightarrow> Some (EFI_INVALID_PARAMETER, log))"

definition EraseWholePartition :: "blk_env \<Rightarrow> dev_log \<Rightarrow> efi_status \<times> dev_log" where
  "EraseWholePartition E log =
     (if GetPartitionSize (Some (MediaLastBlock E, MediaBlockSize E)) = 0 then (EFI_BAD_BUFFER_SIZE, log)
      else if fst (EraseProtocol E) \<noteq> EFI_SUCCESS then (fst (EraseProtocol E), log)
      else (EraseResult E, log @ [(DevId E, EraseOp)]))"

section \<open>What the writes do to a device\<close>

text \<open>
  \<open>paint bs ws d\<close> is the content of a device with blocks of \<open>bs\<close> bytes after the writes \<open>ws\<close>;
  \<open>as_ops\<close> is how those writes appear in the log.
\<close>

fun paint :: "nat \<Rightarrow> (u64 \<times> bytes) list \<Rightarrow> bytes \<Rightarrow> bytes" where
  "paint bs [] d = d"
| "paint bs ((lba, data) # ws) d = paint bs ws (patch d (unat lba * bs) data)"

definition as_ops :: "nat \<Rightarrow> (u64 \<times> bytes) list \<Rightarrow> dev_log" where
  "as_ops i ws = map (\<lambda>(lba, data). (i, WriteOp lba data)) ws"

text \<open>A write that stays on a device of \<open>n\<close> bytes.\<close>

definition inside :: "nat \<Rightarrow> nat \<Rightarrow> u64 \<times> bytes \<Rightarrow> bool" where
  "inside bs n w \<longleftrightarrow> unat (fst w) * bs + length (snd w) \<le> n"

lemma paint_append: "paint bs (xs @ ys) d = paint bs ys (paint bs xs d)"
  by (induction xs arbitrary: d) auto

lemma as_ops_simps [simp]:
  "as_ops i [] = []" "as_ops i (w # ws) = (i, WriteOp (fst w) (snd w)) # as_ops i ws"
  "as_ops i (xs @ ys) = as_ops i xs @ as_ops i ys"
  by (auto simp: as_ops_def split: prod.splits)

lemma length_paint:
  "(\<And>w. w \<in> set ws \<Longrightarrow> inside bs (length d) w) \<Longrightarrow> length (paint bs ws d) = length d"
proof (induction ws arbitrary: d)
  case (Cons w ws)
  obtain l x where w: "w = (l, x)" by (cases w)
  have "unat l * bs + length x \<le> length d" using Cons.prems [of w] by (simp add: w inside_def)
  then show ?case using Cons.IH [of "patch d (unat l * bs) x"] Cons.prems by (simp add: w)
qed simp

lemma patch_patch:
  assumes "off + length a + length b \<le> length d"
  shows "patch (patch d off a) (off + length a) b = patch d off (a @ b)"
  using assms by (simp add: patch_def ac_simps)

lemma patch_Nil [simp]: "patch d off [] = d"
  by (simp add: patch_def)

section \<open>The writes of whole blocks\<close>

text \<open>
  \<open>covers bs off data ws\<close>: the writes \<open>ws\<close> stay in the blocks of \<open>data\<close> put at byte \<open>off\<close>; \<open>puts\<close>: together they
  have the effect of writing \<open>data\<close> there.
\<close>

definition covers :: "nat \<Rightarrow> nat \<Rightarrow> nat \<Rightarrow> (u64 \<times> bytes) list \<Rightarrow> bool" where
  "covers bs off n ws \<longleftrightarrow> (\<forall>w \<in> set ws. off \<le> unat (fst w) * bs \<and> inside bs (off + n) w)"

definition puts :: "nat \<Rightarrow> nat \<Rightarrow> bytes \<Rightarrow> (u64 \<times> bytes) list \<Rightarrow> bool" where
  "puts bs off data ws \<longleftrightarrow> (\<forall>d. off + length data \<le> length d \<longrightarrow> paint bs ws d = patch d off data)"

text \<open>A device that takes every write.\<close>

definition writes_ok :: "blk_env \<Rightarrow> bool" where
  "writes_ok E \<longleftrightarrow> (\<forall>log lba data. BlkWrite E log lba data = EFI_SUCCESS)"

lemma covers_simps:
  "covers bs off n []"
  "covers bs off n (w # ws) \<longleftrightarrow> off \<le> unat (fst w) * bs \<and> inside bs (off + n) w \<and> covers bs off n ws"
  by (simp_all add: covers_def)

lemma covers_mono: "covers bs off n ws \<Longrightarrow> off' \<le> off \<Longrightarrow> off + n \<le> off' + n' \<Longrightarrow> covers bs off' n' ws"
  by (fastforce simp: covers_def inside_def)

lemma puts_Nil: "puts bs off [] []"
  by (simp add: puts_def)

lemma puts_Cons:
  assumes "puts bs (off + length a) b ws" "unat lba * bs = off"
  shows "puts bs off (a @ b) ((lba, a) # ws)"
  unfolding puts_def
proof (intro allI impI)
  fix d :: bytes assume d: "off + length (a @ b) \<le> length d"
  then have "paint bs ws (patch d off a) = patch (patch d off a) (off + length a) b"
    using assms(1) by (simp add: puts_def)
  then show "paint bs ((lba, a) # ws) d = patch d off (a @ b)"
    using assms(2) d patch_patch [of off a b d] by simp
qed

lemma take_split: "n \<le> m \<Longrightarrow> take m xs = take n xs @ take (m - n) (drop n xs)"
  by (metis append_take_drop_id drop_take min.absorb1 take_take)

lemma Write_loop_writes:
  assumes "unat (MediaBlockSize E) = bs" "0 < bs" "0 < unat Unit" "unat Unit < 2 ^ 32" "bs dvd unat Unit \<or> L \<le> unat Unit"
    and "bs dvd L" "L \<le> unat Div" "unat Div \<le> length Img" "unat Offset + L div bs < 2 ^ 64"
  shows "\<exists>st ofs ws. Write_loop E Unit Div Img Offset L log = Some (st, ofs, log @ as_ops (DevId E) ws) \<and>
    covers bs (unat Offset * bs) L ws \<and>
    (st = EFI_SUCCESS \<longrightarrow> unat ofs = unat Offset + L div bs \<and>
       puts bs (unat Offset * bs) (take L (drop (unat Div - L) Img)) ws) \<and>
    (writes_ok E \<longrightarrow> st = EFI_SUCCESS)"
  using assms(5-)
proof (induction L arbitrary: Offset log rule: less_induct)
  case (less L)
  show ?case
  proof (cases "L = 0")
    case True
    then show ?thesis
      by (intro exI [of _ EFI_SUCCESS] exI [of _ Offset] exI [of _ "[]"]) (simp add: Write_loop.simps covers_simps puts_Nil)
  next
    case False
    define n where "n = (if L > unat Unit then unat (ucast Unit :: u32) else L)"
    have n: "n = (if L > unat Unit then unat Unit else L)"
      using assms(4) by (simp add: n_def unsigned_ucast_eq take_bit_nat_eq_self)
    have nL: "0 < n" "n \<le> L" "bs dvd n" "bs dvd unat Unit \<or> L - n \<le> unat Unit"
      using False assms(3) less.prems(1,2) by (auto simp: n split: if_splits)
    define data where "data = take n (drop (unat Div - L) Img)"
    have rd: "rd Img (unat Div - L) n = Some data"
      using less.prems(3,4) nL by (simp add: rd_def data_def)
    have len: "length data = n" using less.prems(3,4) nL by (simp add: data_def)
    let ?w = "(Offset, data)" and ?o = "Offset + word_of_nat (n div bs)"
    have o1: "unat ?o = unat Offset + n div bs"
    proof -
      have "n div bs \<le> L div bs" using nL(2) by (rule div_le_mono)
      then show ?thesis using less.prems(5) by (simp add: unat_word_ariths unat_of_nat)
    qed
    have step: "Write_loop E Unit Div Img Offset L log =
        (if BlkWrite E log Offset data \<noteq> EFI_SUCCESS
         then Some (BlkWrite E log Offset data, Offset, log @ as_ops (DevId E) [?w])
         else Write_loop E Unit Div Img ?o (L - n) (log @ as_ops (DevId E) [?w]))"
      using False nL(1) assms(1,2) rd unfolding n_def
      by (subst Write_loop.simps) (auto simp: Let_def word_unat_eq_iff)
    have w: "unat Offset * bs \<le> unat (fst ?w) * bs" "inside bs (unat Offset * bs + L) ?w"
      using len nL(2) by (simp_all add: inside_def)
    have ob: "unat ?o * bs = unat Offset * bs + n" using o1 nL(3) by (simp add: distrib_right)
    show ?thesis
    proof (cases "BlkWrite E log Offset data = EFI_SUCCESS")
      case False
      then show ?thesis using step w
        by (intro exI [of _ "BlkWrite E log Offset data"] exI [of _ Offset] exI [of _ "[?w]"])
           (auto simp: covers_simps writes_ok_def)
    next
      case True
      have dvd: "bs dvd L - n" using less.prems(2) nL by (simp add: dvd_diff_nat)
      have sum: "unat ?o + (L - n) div bs = unat Offset + L div bs"
      proof -
        have "n div bs + (L - n) div bs = (n + (L - n)) div bs" using nL(3) by (simp add: div_plus_div_distrib_dvd_left)
        then show ?thesis using o1 nL(2) by simp
      qed
      let ?log = "log @ as_ops (DevId E) [?w]"
      have "\<exists>st ofs ws. Write_loop E Unit Div Img ?o (L - n) ?log = Some (st, ofs, ?log @ as_ops (DevId E) ws) \<and>
          covers bs (unat ?o * bs) (L - n) ws \<and>
          (st = EFI_SUCCESS \<longrightarrow> unat ofs = unat ?o + (L - n) div bs \<and>
             puts bs (unat ?o * bs) (take (L - n) (drop (unat Div - (L - n)) Img)) ws) \<and>
          (writes_ok E \<longrightarrow> st = EFI_SUCCESS)"
        by (rule less.IH) (use less.prems nL dvd sum in linarith | use less.prems nL dvd sum in simp)+
      then obtain st ofs ws where
        r: "Write_loop E Unit Div Img ?o (L - n) ?log = Some (st, ofs, ?log @ as_ops (DevId E) ws)"
        and c: "covers bs (unat ?o * bs) (L - n) ws"
        and s: "st = EFI_SUCCESS \<longrightarrow> unat ofs = unat ?o + (L - n) div bs \<and>
             puts bs (unat ?o * bs) (take (L - n) (drop (unat Div - (L - n)) Img)) ws"
        and ok: "writes_ok E \<longrightarrow> st = EFI_SUCCESS"
        by (elim exE conjE) blast
      have cov: "covers bs (unat Offset * bs) L (?w # ws)"
        using covers_mono [OF c, of "unat Offset * bs" L] w ob nL(2) by (simp add: covers_simps)
      have "take L (drop (unat Div - L) Img) = data @ take (L - n) (drop (unat Div - (L - n)) Img)"
        using take_split [OF nL(2), of "drop (unat Div - L) Img"] nL(2) less.prems(3)
        by (simp add: data_def add.commute)
      then have "puts bs (unat Offset * bs) (take L (drop (unat Div - L) Img)) (?w # ws)" if "st = EFI_SUCCESS"
        using puts_Cons [of bs "unat Offset * bs" data _ ws Offset] s that ob len by simp
      then show ?thesis using step True r s sum cov ok
        by (intro exI [of _ st] exI [of _ ofs] exI [of _ "?w # ws"]) auto
    qed
  qed
qed

section \<open>A whole buffer\<close>

text \<open>The block size of a device is a power of two, at most a megabyte; then the write unit is a megabyte.\<close>

definition block_size :: "u32 \<Rightarrow> bool" where
  "block_size bsw \<longleftrightarrow> (\<exists>k \<le> 20. bsw = 2 ^ k)"

lemma unat_block_size:
  assumes "block_size bsw"
  shows "0 < unat bsw" "unat bsw dvd 2 ^ 20" "unat bsw dvd 2 ^ 32"
proof -
  obtain k where "k \<le> 20" "bsw = 2 ^ k" using assms by (auto simp: block_size_def)
  moreover have "unat (word_of_nat (2 ^ k) :: u32) = 2 ^ k"
    using calculation(1) by (simp only: unsigned_of_nat) (simp add: take_bit_nat_eq_self)
  ultimately have "unat bsw = 2 ^ k" "k \<le> 20" by simp_all
  then show "0 < unat bsw" "unat bsw dvd 2 ^ 20" "unat bsw dvd 2 ^ 32" using le_imp_power_dvd [of k 20 "2 :: nat"] le_imp_power_dvd [of k 32 "2 :: nat"] by simp_all
qed

lemma write_unit:
  assumes "block_size bsw"
  shows "ROUND_TO_PAGE MAX_WRITE_SIZE (bsw - 1) = 0x100000"
proof -
  have "\<forall>k \<le> 20. ROUND_TO_PAGE MAX_WRITE_SIZE (2 ^ k - 1) = 0x100000"
    by code_simp
  then show ?thesis using assms by (auto simp: block_size_def)
qed

text \<open>The number of bytes in whole blocks, as the code computes it in 32 bits.\<close>

definition whole :: "u64 \<Rightarrow> u32 \<Rightarrow> u32" where
  "whole Size bsw = ucast (Size div ucast bsw * ucast bsw)"

lemma unat_whole:
  assumes "0 < unat bsw"
  shows "unat (whole Size bsw) = unat Size div unat bsw * unat bsw mod 2 ^ 32"
proof -
  have "unat (ucast bsw :: u64) = unat bsw"
    using unsigned_less [of bsw, where ?'a = nat] by (simp add: unsigned_ucast_eq take_bit_nat_eq_self)
  moreover have "unat Size div unat bsw * unat bsw < 2 ^ 64"
    using unsigned_less [of Size, where ?'a = nat] div_times_less_eq_dividend [of "unat Size" "unat bsw"]
    by (simp del: div_times_less_eq_dividend)
  moreover have "unat Size div unat bsw < 2 ^ 64"
    using unsigned_less [of Size, where ?'a = nat] by (simp add: less_le_trans [OF le_less_trans [OF div_le_dividend]])
  ultimately show ?thesis
    by (simp add: whole_def unsigned_ucast_eq take_bit_eq_mod unat_word_ariths unat_div)
qed

text \<open>\<open>Write_blocks\<close> is the loop, then the tail unless the size is a multiple of the block size.\<close>

lemma Write_blocks_loop:
  assumes bsw: "block_size bsw" "MediaBlockSize E = bsw" and fit: "unat (whole Size bsw) \<le> length Img"
    and off: "unat Offset + unat Size div unat bsw < 2 ^ 64"
  shows "\<exists>st ofs ws. covers (unat bsw) (unat Offset * unat bsw) (unat (whole Size bsw)) ws \<and>
    (st = EFI_SUCCESS \<longrightarrow> unat ofs = unat Offset + unat (whole Size bsw) div unat bsw \<and>
       puts (unat bsw) (unat Offset * unat bsw) (take (unat (whole Size bsw)) Img) ws) \<and>
    (writes_ok E \<longrightarrow> st = EFI_SUCCESS) \<and>
    Write_blocks E bsw SplitNeeded Offset Size Img log =
      (if st \<noteq> EFI_SUCCESS \<or> Size - ucast (whole Size bsw) = 0 then Some (st, log @ as_ops (DevId E) ws)
       else Write_tail E bsw Size (whole Size bsw) Img ofs (log @ as_ops (DevId E) ws))"
proof -
  let ?D = "whole Size bsw" and ?bs = "unat bsw"
  let ?U = "if SplitNeeded then ROUND_TO_PAGE MAX_WRITE_SIZE (bsw - 1) else ucast ?D :: u64"
  note bs = unat_block_size [OF bsw(1)]
  have D: "unat ?D = unat Size div ?bs * ?bs mod 2 ^ 32" by (rule unat_whole [OF bs(1)])
  have U: "unat ?U = (if SplitNeeded then 2 ^ 20 else unat ?D)"
    using unsigned_less [of ?D, where ?'a = nat]
    by (simp add: write_unit [OF bsw(1)] unsigned_ucast_eq take_bit_nat_eq_self)
  have dvd: "?bs dvd unat ?D" using bs(3) by (simp add: D dvd_mod)
  have "unat ?D div ?bs \<le> unat Size div ?bs" unfolding D by (metis div_le_mono div_mult_self_is_m bs(1) mod_less_eq_dividend)
  then have ofs: "unat Offset + unat ?D div ?bs < 2 ^ 64" using off by linarith
  have b0: "bsw \<noteq> 0" using bs(1) by auto
  show ?thesis
  proof (cases "unat ?D = 0")
    case True
    then have "?D = 0" by (simp add: word_unat_eq_iff)
    then show ?thesis using b0
      by (intro exI [of _ EFI_SUCCESS] exI [of _ Offset] exI [of _ "[]"])
         (auto simp: Write_blocks_def Let_def whole_def [symmetric] Write_loop.simps covers_simps puts_Nil word_gt_0)
  next
    case False
    have "\<exists>st ofs ws. Write_loop E ?U ?D Img Offset (unat ?D) log = Some (st, ofs, log @ as_ops (DevId E) ws) \<and>
      covers ?bs (unat Offset * ?bs) (unat ?D) ws \<and>
      (st = EFI_SUCCESS \<longrightarrow> unat ofs = unat Offset + unat ?D div ?bs \<and>
         puts ?bs (unat Offset * ?bs) (take (unat ?D) (drop (unat ?D - unat ?D) Img)) ws) \<and>
      (writes_ok E \<longrightarrow> st = EFI_SUCCESS)"
    proof (rule Write_loop_writes)
      show "unat (MediaBlockSize E) = ?bs" using bsw(2) by simp
      show "0 < unat ?U" "unat ?U < 2 ^ 32" "?bs dvd unat ?U \<or> unat ?D \<le> unat ?U"
        unfolding U using False bs(2) unsigned_less [of ?D, where ?'a = nat] by auto
    qed (use bs dvd fit ofs in simp_all)
    then obtain st ofs ws where
      r: "Write_loop E ?U ?D Img Offset (unat ?D) log = Some (st, ofs, log @ as_ops (DevId E) ws)"
      and c: "covers ?bs (unat Offset * ?bs) (unat ?D) ws"
      and s: "st = EFI_SUCCESS \<longrightarrow> unat ofs = unat Offset + unat ?D div ?bs \<and>
         puts ?bs (unat Offset * ?bs) (take (unat ?D) Img) ws"
      and ok: "writes_ok E \<longrightarrow> st = EFI_SUCCESS" by auto
    have "Write_blocks E bsw SplitNeeded Offset Size Img log =
      (if st \<noteq> EFI_SUCCESS then Some (st, log @ as_ops (DevId E) ws)
       else if Size - ucast ?D > 0 then Write_tail E bsw Size ?D Img ofs (log @ as_ops (DevId E) ws)
       else Some (EFI_SUCCESS, log @ as_ops (DevId E) ws))"
      using b0 r by (simp add: Write_blocks_def Let_def whole_def [symmetric])
    then show ?thesis using c s ok
      by (intro exI [of _ st] exI [of _ ofs] exI [of _ ws]) (auto simp: word_gt_0)
  qed
qed

lemma Write_blocks_aligned:
  assumes bsw: "block_size bsw" "MediaBlockSize E = bsw" and sz: "unat bsw dvd unat Size" "unat Size < 2 ^ 32"
    and fit: "unat Size \<le> length Img" and off: "unat Offset + unat Size div unat bsw < 2 ^ 64"
  shows "\<exists>st ws. Write_blocks E bsw SplitNeeded Offset Size Img log = Some (st, log @ as_ops (DevId E) ws) \<and>
    covers (unat bsw) (unat Offset * unat bsw) (unat Size) ws \<and>
    (st = EFI_SUCCESS \<longrightarrow> puts (unat bsw) (unat Offset * unat bsw) (take (unat Size) Img) ws) \<and>
    (writes_ok E \<longrightarrow> st = EFI_SUCCESS)"
proof -
  have D: "unat (whole Size bsw) = unat Size"
    using sz unat_whole [OF unat_block_size(1) [OF bsw(1)], of Size] by simp
  then have "ucast (whole Size bsw) = Size"
    using sz(2) by (simp add: word_unat_eq_iff unsigned_ucast_eq take_bit_nat_eq_self)
  then show ?thesis
    using Write_blocks_loop [OF bsw, of Size Img Offset SplitNeeded log] D fit off
    by (elim meta_impE) (simp_all, blast)
qed

text \<open>A device with content \<open>d\<close> at the time of the log \<open>log\<close>: reads give what is there after the writes since.\<close>

definition serves :: "blk_env \<Rightarrow> bytes \<Rightarrow> dev_log \<Rightarrow> bool" where
  "serves E d log \<longleftrightarrow> (\<forall>ws lba n. BlkRead E (log @ as_ops (DevId E) ws) lba n =
     (EFI_SUCCESS, take n (drop (unat lba * unat (MediaBlockSize E)) (paint (unat (MediaBlockSize E)) ws d))))"

lemma patch_merge:
  assumes "off + n \<le> length d" "length r \<le> n"
  shows "patch d off (patch (take n (drop off d)) 0 r) = patch d off r"
proof -
  have "drop (length r) (take n (drop off d)) @ drop (off + n) d = drop (off + length r) d"
    using append_take_drop_id [of "n - length r" "drop (off + length r) d"] assms
    by (simp add: drop_take add.commute)
  then show ?thesis using assms by (auto simp: patch_def min_def add.commute)
qed

lemma Write_tail_exact:
  assumes bsw: "block_size bsw" "MediaBlockSize E = bsw" and env: "writes_ok E" "BlkPoolOk E" "serves E d log"
    and D: "unat (whole Size bsw) = unat Size div unat bsw * unat bsw" and fit: "unat Size \<le> length Img"
    and puts: "puts (unat bsw) (unat Offset * unat bsw) (take (unat (whole Size bsw)) Img) ws"
    and ofs: "unat ofs = unat Offset + unat Size div unat bsw"
    and room: "(unat ofs + 1) * unat bsw \<le> length d"
  shows "\<exists>w. Write_tail E bsw Size (whole Size bsw) Img ofs (log @ as_ops (DevId E) ws) =
      Some (EFI_SUCCESS, log @ as_ops (DevId E) (ws @ [w])) \<and> inside (unat bsw) (length d) w \<and>
    paint (unat bsw) (ws @ [w]) d = patch d (unat Offset * unat bsw) (take (unat Size) Img)"
proof -
  let ?bs = "unat bsw" and ?D = "unat (whole Size bsw)" and ?o = "unat Offset * unat bsw"
  define d1 where "d1 = patch d ?o (take ?D Img)"
  define rest where "rest = take (unat Size - ?D) (drop ?D Img)"
  define buf where "buf = patch (take ?bs (drop (unat ofs * ?bs) d1)) 0 rest"
  have DS: "?D \<le> unat Size" "unat Size - ?D < ?bs"
    using unat_block_size(1) [OF bsw(1)] by (simp_all add: D minus_div_mult_eq_mod)
  have ob: "unat ofs * ?bs = ?o + ?D" by (simp add: ofs D distrib_right)
  have lenD: "length (take ?D Img) = ?D" using fit DS by simp
  have len1: "length d1 = length d" using room ob lenD unfolding d1_def by (intro length_patch) (simp add: distrib_right)
  have p1: "paint ?bs ws d = d1" using puts room ob lenD by (simp add: puts_def d1_def distrib_right)
  have rd: "BlkRead E (log @ as_ops (DevId E) ws) ofs ?bs = (EFI_SUCCESS, take ?bs (drop (unat ofs * ?bs) d1))"
    using env(3) by (simp add: serves_def bsw(2) p1)
  have sub: "unat (Size - ucast (whole Size bsw)) = unat Size - ?D"
    using DS(1) by (simp add: unat_sub word_le_nat_alt unsigned_ucast_eq take_bit_nat_eq_self
        less_trans [OF unsigned_less [of "whole Size bsw", where ?'a = nat]])
  have rest: "rd Img ?D (unat (Size - ucast (whole Size bsw))) = Some rest" "length rest = unat Size - ?D"
    using fit DS by (simp_all add: sub rd_def rest_def)
  have room1: "unat ofs * ?bs + ?bs \<le> length d1" using room len1 by (simp add: distrib_right)
  have put: "put 0 rest (take ?bs (drop (unat ofs * ?bs) d1)) = Some buf"
    using rest(2) DS room1 unfolding buf_def by (intro put_Some) simp
  have lenb: "length buf = ?bs" using rest(2) DS room1 unfolding buf_def by (subst length_patch) simp_all
  have "patch d1 (unat ofs * ?bs) buf = patch d1 (?o + ?D) rest"
    unfolding buf_def ob [symmetric] using room1 rest(2) DS by (intro patch_merge) simp_all
  also have "\<dots> = patch d ?o (take ?D Img @ rest)"
    unfolding d1_def using patch_patch [of ?o "take ?D Img" rest d] room ob lenD rest(2) DS by (simp add: distrib_right)
  also have "take ?D Img @ rest = take (unat Size) Img" using take_split [OF DS(1), of Img] by (simp add: rest_def)
  finally have eff: "paint ?bs (ws @ [(ofs, buf)]) d = patch d ?o (take (unat Size) Img)"
    by (simp add: paint_append p1)
  have "Write_tail E bsw Size (whole Size bsw) Img ofs (log @ as_ops (DevId E) ws) =
      Some (EFI_SUCCESS, log @ as_ops (DevId E) (ws @ [(ofs, buf)]))"
    using env(1,2) rd rest(1) put by (simp add: Write_tail_def writes_ok_def)
  moreover have "inside ?bs (length d) (ofs, buf)" using room1 lenb len1 by (simp add: inside_def)
  ultimately show ?thesis using eff by blast
qed

section \<open>Properties\<close>

lemma div_up: "0 < b \<Longrightarrow> a mod b \<noteq> 0 \<Longrightarrow> (a + b - 1) div b = a div b + 1" for a b :: nat
proof -
  assume b: "0 < b" "a mod b \<noteq> 0"
  have "a = a mod b + a div b * b" by simp
  then have "a + b - 1 = a mod b - 1 + (a div b * b + b)" using b by linarith
  then have "a + b - 1 = a mod b - 1 + (a div b + 1) * b" by simp
  moreover have "(a mod b - 1) div b = 0" using b by (simp add: less_imp_diff_less)
  moreover have "(a mod b - 1 + (a div b + 1) * b) div b = a div b + 1 + (a mod b - 1) div b"
    using b(1) by (intro div_mult_self1) simp
  ultimately show ?thesis by (simp only: add.right_neutral)
qed

lemma mod_plus_le: "m \<le> x \<Longrightarrow> 0 < m \<Longrightarrow> x mod m + m \<le> x" for x m :: nat
proof -
  assume "m \<le> x" "0 < m"
  then have "1 \<le> x div m" by (simp add: Suc_le_eq div_greater_zero_iff)
  then have "m \<le> x div m * m" by simp
  then show ?thesis using div_mult_mod_eq [of x m] by linarith
qed

lemma Write_exact:
  assumes "block_size (MediaBlockSize E)" "writes_ok E" "BlkPoolOk E" "serves E d log"
    and "unat Size < 2 ^ 32" "unat Size \<le> length Img" "length d < 2 ^ 64"
    and "(unat Offset + (unat Size + unat (MediaBlockSize E) - 1) div unat (MediaBlockSize E)) * unat (MediaBlockSize E)
           \<le> length d"
  shows "\<exists>ws. WriteBlockToPartition (Some E) Handle False SplitNeeded Offset Size (Some Img) log =
      Some (EFI_SUCCESS, log @ as_ops (DevId E) ws) \<and>
    (\<forall>w \<in> set ws. inside (unat (MediaBlockSize E)) (length d) w) \<and>
    paint (unat (MediaBlockSize E)) ws d = patch d (unat Offset * unat (MediaBlockSize E)) (take (unat Size) Img)"
proof -
  define bsw where "bsw = MediaBlockSize E"
  let ?bs = "unat bsw" and ?D = "whole Size bsw"
  note bs = unat_block_size [OF assms(1), folded bsw_def]
  have D: "unat ?D = unat Size div ?bs * ?bs"
    using unat_whole [OF bs(1), of Size] assms(5) le_less_trans [OF div_times_less_eq_dividend, of "unat Size"] by simp
  have DS: "unat ?D \<le> unat Size" by (simp add: D)
  have room: "unat Offset * ?bs + unat ?D \<le> length d"
  proof -
    have "unat Size div ?bs \<le> (unat Size + ?bs - 1) div ?bs" using bs(1) by (intro div_le_mono) simp
    then have "(unat Offset + unat Size div ?bs) * ?bs \<le> length d"
      using assms(8) [folded bsw_def] by (meson add_le_mono le_refl le_trans mult_le_mono)
    then show ?thesis by (simp add: D distrib_right)
  qed
  have "unat Offset + unat Size div ?bs \<le> (unat Offset + unat Size div ?bs) * ?bs" using bs(1) by simp
  then have off: "unat Offset + unat Size div ?bs < 2 ^ 64" using room assms(7) by (simp add: D distrib_right)
  obtain st ofs ws where cov: "covers ?bs (unat Offset * ?bs) (unat ?D) ws"
    and s: "st = EFI_SUCCESS \<longrightarrow> unat ofs = unat Offset + unat ?D div ?bs \<and>
       puts ?bs (unat Offset * ?bs) (take (unat ?D) Img) ws"
    and ok: "writes_ok E \<longrightarrow> st = EFI_SUCCESS"
    and eq: "Write_blocks E bsw SplitNeeded Offset Size Img log =
      (if st \<noteq> EFI_SUCCESS \<or> Size - ucast ?D = 0 then Some (st, log @ as_ops (DevId E) ws)
       else Write_tail E bsw Size ?D Img ofs (log @ as_ops (DevId E) ws))"
    using Write_blocks_loop [OF assms(1) [folded bsw_def] bsw_def [symmetric], of Size Img Offset SplitNeeded log]
      DS assms(6) off by auto
  have st: "st = EFI_SUCCESS" using ok assms(2) by simp
  have W: "WriteBlockToPartition (Some E) Handle False SplitNeeded Offset Size (Some Img) log = Write_blocks E bsw SplitNeeded Offset Size Img log"
    by (simp add: WriteBlockToPartition_def bsw_def)
  have in1: "\<forall>w \<in> set ws. inside ?bs (length d) w" using cov room by (fastforce simp: covers_def inside_def)
  show ?thesis
  proof (cases "Size - ucast ?D = 0")
    case True
    then have "unat Size = unat ?D" using unat_ucast32 [of ?D] by simp
    then show ?thesis using eq True st s in1 W room assms(6) unfolding bsw_def [symmetric]
      by (intro exI [of _ ws]) (simp add: puts_def)
  next
    case False
    then have "unat Size \<noteq> unat ?D" by (metis unat_ucast32 word_unat_eq_iff right_minus_eq)
    then have "unat Size mod ?bs \<noteq> 0" using minus_mod_eq_div_mult [of "unat Size" ?bs] by (auto simp: D)
    then have up: "(unat Size + ?bs - 1) div ?bs = unat Size div ?bs + 1"
      by (rule div_up [OF bs(1)])
    have ofs: "unat ofs = unat Offset + unat Size div ?bs" using s st D bs(1) by simp
    have "\<exists>w. Write_tail E bsw Size ?D Img ofs (log @ as_ops (DevId E) ws) =
        Some (EFI_SUCCESS, log @ as_ops (DevId E) (ws @ [w])) \<and> inside ?bs (length d) w \<and>
      paint ?bs (ws @ [w]) d = patch d (unat Offset * ?bs) (take (unat Size) Img)"
    proof (rule Write_tail_exact)
      show "(unat ofs + 1) * ?bs \<le> length d" using assms(8) [folded bsw_def] up ofs by simp
    qed (use assms s st D ofs in \<open>simp_all add: bsw_def\<close>)
    then obtain w where w: "Write_tail E bsw Size ?D Img ofs (log @ as_ops (DevId E) ws) =
        Some (EFI_SUCCESS, log @ as_ops (DevId E) (ws @ [w]))" "inside ?bs (length d) w"
      "paint ?bs (ws @ [w]) d = patch d (unat Offset * ?bs) (take (unat Size) Img)" by blast
    show ?thesis using eq False st in1 W w unfolding bsw_def [symmetric] by (intro exI [of _ "ws @ [w]"]) simp
  qed
qed

text \<open>
  C27: Writing a buffer of less than 4 GB to a partition on eMMC or UFS has exactly the effect of replacing those bytes.
  When the device takes the writes and its blocks are on the device, the code returns success, every write it made is
  inside the device, and the content is the old one with the buffer at block \<open>Offset\<close>, also when the size is not a
  multiple of the block size or the write is split into pieces.
\<close>

theorem WriteBlockToPartition_exact:
  assumes "block_size (MediaBlockSize E)" "writes_ok E" "BlkPoolOk E" "serves E d log"
    and "unat Size < 2 ^ 32" "unat Size \<le> length Img" "length d < 2 ^ 64"
    and "(unat Offset + (unat Size + unat (MediaBlockSize E) - 1) div unat (MediaBlockSize E)) * unat (MediaBlockSize E)
           \<le> length d"
  shows "\<exists>ws. WriteBlockToPartition (Some E) Handle False SplitNeeded Offset Size (Some Img) log =
      Some (EFI_SUCCESS, log @ as_ops (DevId E) ws) \<and>
    (\<forall>w \<in> set ws. inside (unat (MediaBlockSize E)) (length d) w) \<and>
    paint (unat (MediaBlockSize E)) ws d = patch d (unat Offset * unat (MediaBlockSize E)) (take (unat Size) Img)"
  by (rule Write_exact [OF assms])

theorem WriteBlockToPartition_exact_witness:
  "\<exists>ws. WriteBlockToPartition
      (Some \<lparr> DevId = 0, MediaBlockSize = 4, MediaLastBlock = 3, EraseProtocol = (EFI_SUCCESS, 4), EraseResult = EFI_SUCCESS,
         BlkPoolOk = True, BlkWrite = \<lambda>log lba x. EFI_SUCCESS,
         BlkRead = \<lambda>log lba n. (EFI_SUCCESS, take n (drop (unat lba * 4)
           (paint 4 (map (\<lambda>(i, op). case op of WriteOp l x \<Rightarrow> (l, x) | EraseOp \<Rightarrow> (0, [])) log) [0, 0, 0, 0, 0, 0, 0, 9]))) \<rparr>)
      True False True 0 7 (Some [1, 2, 3, 4, 5, 6, 7]) [] = Some (EFI_SUCCESS, as_ops 0 ws) \<and>
    paint 4 ws [0, 0, 0, 0, 0, 0, 0, 9] = [1, 2, 3, 4, 5, 6, 7, 9]"
  (is "\<exists>ws. WriteBlockToPartition (Some ?E) _ _ _ _ _ (Some ?I) _ = _ \<and> _")
proof -
  let ?d = "[0, 0, 0, 0, 0, 0, 0, 9] :: bytes"
  have m: "MediaBlockSize ?E = 4" by simp
  have "block_size (MediaBlockSize ?E)" unfolding m block_size_def by (rule exI [of _ 2]) simp
  moreover have "writes_ok ?E" "BlkPoolOk ?E" by (simp_all add: writes_ok_def)
  moreover have "map (\<lambda>(i, op). case op of WriteOp l x \<Rightarrow> (l, x) | EraseOp \<Rightarrow> (0, [])) (as_ops 0 ws) = ws" for ws
    by (induction ws) auto
  then have "serves ?E ?d []" by (simp add: serves_def)
  ultimately have "\<exists>ws. WriteBlockToPartition (Some ?E) True False True 0 7 (Some ?I) [] = Some (EFI_SUCCESS, [] @ as_ops (DevId ?E) ws) \<and>
      (\<forall>w \<in> set ws. inside (unat (MediaBlockSize ?E)) (length ?d) w) \<and>
      paint (unat (MediaBlockSize ?E)) ws ?d = patch ?d (unat (0 :: u64) * unat (MediaBlockSize ?E)) (take (unat (7 :: u64)) ?I)"
    by (intro WriteBlockToPartition_exact) simp_all
  then show ?thesis by (auto simp: patch_def)
qed

text \<open>
  From 4 GB on, the number of whole bytes is cut to 32 bits and \<open>WriteBlockToPartition\<close> copies the rest of the
  buffer, more than 4 GB, into a buffer of one block: the write has no defined outcome.
\<close>

theorem WriteBlockToPartition_large:
  assumes "block_size (MediaBlockSize E)" "writes_ok E" "BlkPoolOk E"
    and "\<And>log lba n. fst (BlkRead E log lba n) = EFI_SUCCESS \<and> length (snd (BlkRead E log lba n)) = n"
    and "2 ^ 32 \<le> unat Size" "unat Size \<le> length Img" "unat Offset + unat Size < 2 ^ 64"
  shows "WriteBlockToPartition (Some E) Handle False SplitNeeded Offset Size (Some Img) log = None"
proof -
  define bsw where "bsw = MediaBlockSize E"
  let ?bs = "unat bsw" and ?D = "whole Size bsw"
  note bs = unat_block_size [OF assms(1), folded bsw_def]
  have D: "unat ?D < 2 ^ 32" using unsigned_less [of ?D, where ?'a = nat] by simp
  have small: "?bs \<le> 2 ^ 20" using bs(2) by (rule dvd_imp_le) simp
  have big: "unat (Size - ucast ?D) = unat Size - unat ?D"
    using assms(5) D by (simp add: unat_sub word_le_nat_alt unat_ucast32)
  have gap: "?bs < unat Size - unat ?D"
  proof -
    have "unat Size div ?bs * ?bs mod 2 ^ 32 + 2 ^ 32 \<le> unat Size div ?bs * ?bs"
    proof -
      have "2 ^ 32 div ?bs * ?bs = 2 ^ 32" using bs(3) by simp
      then have "2 ^ 32 \<le> unat Size div ?bs * ?bs"
        using assms(5) by (metis div_le_mono mult_le_mono1)
      then show ?thesis by (rule mod_plus_le) simp
    qed
    also have "\<dots> \<le> unat Size" by simp
    finally show ?thesis using small by (simp add: unat_whole [OF bs(1)])
  qed
  have "unat Offset + unat Size div ?bs < 2 ^ 64"
    using assms(7) div_le_dividend [of "unat Size" ?bs] by linarith
  then obtain st ofs ws where ok: "writes_ok E \<longrightarrow> st = EFI_SUCCESS"
    and eq: "Write_blocks E bsw SplitNeeded Offset Size Img log =
      (if st \<noteq> EFI_SUCCESS \<or> Size - ucast ?D = 0 then Some (st, log @ as_ops (DevId E) ws)
       else Write_tail E bsw Size ?D Img ofs (log @ as_ops (DevId E) ws))"
    using Write_blocks_loop [OF assms(1) [folded bsw_def] bsw_def [symmetric], of Size Img Offset SplitNeeded log]
      D assms(5,6) by auto
  have "Size - ucast ?D \<noteq> 0" using big gap by auto
  moreover have "Write_tail E bsw Size ?D Img ofs (log @ as_ops (DevId E) ws) = None"
    using assms(3,4) gap big by (auto simp: Write_tail_def rd_def put_def case_prod_unfold bind_eq_None_conv)
  ultimately show ?thesis using eq ok assms(2) by (simp add: WriteBlockToPartition_def bsw_def)
qed

theorem WriteBlockToPartition_large_witness:
  "\<exists>E :: blk_env. WriteBlockToPartition (Some E) True False False 0 0x100000000 (Some (replicate (2 ^ 32) 0)) [] = None"
proof -
  define E where "E = \<lparr> DevId = 0, MediaBlockSize = 2 ^ 12, MediaLastBlock = 0x200000, EraseProtocol = (EFI_SUCCESS, 1),
    EraseResult = EFI_SUCCESS, BlkPoolOk = True, BlkWrite = \<lambda>log lba x. EFI_SUCCESS,
    BlkRead = \<lambda>log lba n. (EFI_SUCCESS, replicate n 0) \<rparr>"
  have "block_size (MediaBlockSize E)"
    unfolding block_size_def E_def by (rule exI [of _ 12]) (simp only: blk_env.simps, simp)
  then have "WriteBlockToPartition (Some E) True False False 0 0x100000000 (Some (replicate (2 ^ 32) 0)) [] = None"
    by (rule WriteBlockToPartition_large) (simp_all only: length_replicate, simp_all add: E_def writes_ok_def)
  then show ?thesis by blast
qed

end
