(* ===== verification/Block_Handles.thy ===== *)
theory Block_Handles
  imports Block_Write Ab_Slots
begin

text \<open>
  Finding block devices (\<^verbatim>\<open>BootLib/LinuxLoaderLib.c\<close>): \<open>GetBlkIOHandles\<close> walks the handles the firmware knows and
  keeps those that satisfy a set of selection bits; \<open>WriteToPartition\<close> and \<open>LoadImageFromPartition\<close> are its simplest users.
  A handle is a record of what its protocols say. The device path is the list of its nodes before the end node.
\<close>

section \<open>Data\<close>

record dp_node =
  NodeType :: u8
  NodeSubType :: u8
  NodeLength :: u16
  NodeGuid :: bytes
  MBRType :: u8

definition end_node :: dp_node where
  "end_node = \<lparr> NodeType = 0x7F, NodeSubType = 0xFF, NodeLength = 4, NodeGuid = [], MBRType = 0 \<rparr>"

text \<open>A volume: opening it, asking for the size of its information, reading it, and its label.\<close>

record volume =
  OpenVolume :: efi_status
  InfoSize :: efi_status
  InfoPool :: bool
  InfoRead :: efi_status
  VolumeLabel :: name16

record blk_handle =
  BlkIoStatus :: efi_status
  BlkIo :: blk_env
  RemovableMedia :: bool
  DevicePath :: "dp_node list option"
  HasInterface :: "bytes \<Rightarrow> bool"
  PartiTypeGuid :: "bytes option"
  FileSystem :: "volume option"
  PartRecord :: "name16 option"

record PartiSelectFilter =
  RootDeviceType :: "bytes option"
  PartitionType :: "bytes option"
  VolumeName :: "string option"
  PartitionLabel :: "name16 option"

text \<open>What \<open>LocateHandleBuffer\<close> returns for the two protocols.\<close>

record handle_db =
  FsHandles :: "efi_status \<times> blk_handle list"
  BlkHandles :: "efi_status \<times> blk_handle list"

definition BLK_IO_SEL_MEDIA_TYPE_REMOVABLE :: u32 where "BLK_IO_SEL_MEDIA_TYPE_REMOVABLE = 0x0001"
definition BLK_IO_SEL_MEDIA_TYPE_NON_REMOVABLE :: u32 where "BLK_IO_SEL_MEDIA_TYPE_NON_REMOVABLE = 0x0002"
definition BLK_IO_SEL_PARTITIONED_GPT :: u32 where "BLK_IO_SEL_PARTITIONED_GPT = 0x0004"
definition BLK_IO_SEL_PARTITIONED_MBR :: u32 where "BLK_IO_SEL_PARTITIONED_MBR = 0x0008"
definition BLK_IO_SEL_MATCH_PARTITION_TYPE_GUID :: u32 where "BLK_IO_SEL_MATCH_PARTITION_TYPE_GUID = 0x0010"
definition BLK_IO_SEL_SELECT_MOUNTED_FILESYSTEM :: u32 where "BLK_IO_SEL_SELECT_MOUNTED_FILESYSTEM = 0x0020"
definition BLK_IO_SEL_SELECT_BY_VOLUME_NAME :: u32 where "BLK_IO_SEL_SELECT_BY_VOLUME_NAME = 0x0040"
definition BLK_IO_SEL_SELECT_ROOT_DEVICE_ONLY :: u32 where "BLK_IO_SEL_SELECT_ROOT_DEVICE_ONLY = 0x0080"
definition BLK_IO_SEL_MATCH_ROOT_DEVICE :: u32 where "BLK_IO_SEL_MATCH_ROOT_DEVICE = 0x0100"
definition BLK_IO_SEL_MATCH_PARTITION_LABEL :: u32 where "BLK_IO_SEL_MATCH_PARTITION_LABEL = 0x0200"

lemmas sel_defs =
  BLK_IO_SEL_MEDIA_TYPE_REMOVABLE_def BLK_IO_SEL_MEDIA_TYPE_NON_REMOVABLE_def BLK_IO_SEL_PARTITIONED_GPT_def
  BLK_IO_SEL_PARTITIONED_MBR_def BLK_IO_SEL_MATCH_PARTITION_TYPE_GUID_def BLK_IO_SEL_SELECT_MOUNTED_FILESYSTEM_def
  BLK_IO_SEL_SELECT_BY_VOLUME_NAME_def BLK_IO_SEL_SELECT_ROOT_DEVICE_ONLY_def BLK_IO_SEL_MATCH_ROOT_DEVICE_def
  BLK_IO_SEL_MATCH_PARTITION_LABEL_def

definition sel :: "u32 \<Rightarrow> u32 \<Rightarrow> bool" where
  "sel A f \<longleftrightarrow> A AND f \<noteq> 0"

definition FILTERS_NEEDING_DEVICEPATH :: u32 where
  "FILTERS_NEEDING_DEVICEPATH =
     BLK_IO_SEL_PARTITIONED_MBR OR BLK_IO_SEL_PARTITIONED_GPT OR BLK_IO_SEL_MATCH_PARTITION_TYPE_GUID OR
     BLK_IO_SEL_SELECT_ROOT_DEVICE_ONLY OR BLK_IO_SEL_MATCH_ROOT_DEVICE"

section \<open>Criteria\<close>

definition upper16 :: "u16 \<Rightarrow> u16" where
  "upper16 c = (if 97 \<le> c \<and> c \<le> 122 then c - 32 else c)"

text \<open>
  The comparison of a volume label, \<open>Some True\<close> when it matches. A label shorter than the array ends at its NUL. Reading the
  information into memory that could not be allocated has no defined outcome.
\<close>

definition CompareVolumeLabel :: "volume \<Rightarrow> string \<Rightarrow> bool option" where
  "CompareVolumeLabel v ReqVolumeName =
     (if OpenVolume v \<noteq> EFI_SUCCESS then Some False
      else if InfoSize v \<noteq> EFI_BUFFER_TOO_SMALL then Some False
      else if \<not> InfoPool v then None
      else if InfoRead v \<noteq> EFI_SUCCESS then Some False
      else Some (StrnCmp_eq (map upper16 (take 15 (VolumeLabel v)) @ drop 15 (VolumeLabel v))
                            (map upper16 (wide (take 15 ReqVolumeName))) 16))"

text \<open>A criterion gives the status to return, or whether the handle satisfies it.\<close>

definition Match_root :: "u32 \<Rightarrow> PartiSelectFilter option \<Rightarrow> dp_node list \<Rightarrow> efi_status + bool" where
  "Match_root A FilterData path =
     (if sel A (BLK_IO_SEL_SELECT_ROOT_DEVICE_ONLY OR BLK_IO_SEL_MATCH_ROOT_DEVICE) then
        (case FilterData of
           None \<Rightarrow> Inl EFI_INVALID_PARAMETER
         | Some F \<Rightarrow>
             let Root = hd (path @ [end_node])
             in Inr (NodeType Root = 0x01 \<and> NodeSubType Root = 0x04 \<and> NodeLength Root = 20 \<and>
                     (case RootDeviceType F of None \<Rightarrow> True | Some g \<Rightarrow> NodeGuid Root = g)))
      else Inr True)"

definition Match_type :: "u32 \<Rightarrow> PartiSelectFilter option \<Rightarrow> blk_handle \<Rightarrow> efi_status + bool" where
  "Match_type A FilterData h =
     (if sel A BLK_IO_SEL_MATCH_PARTITION_TYPE_GUID then
        (case Option.bind FilterData PartitionType of
           None \<Rightarrow> Inl EFI_INVALID_PARAMETER
         | Some g \<Rightarrow> Inr (HasInterface h g \<or> PartiTypeGuid h = Some g))
      else Inr True)"

text \<open>\<open>Match_partition\<close> and \<open>Match_path\<close> give \<open>None\<close> for a handle to pass over and else the partition node to report.\<close>

definition Match_partition ::
  "u32 \<Rightarrow> PartiSelectFilter option \<Rightarrow> blk_handle \<Rightarrow> dp_node \<Rightarrow> efi_status + dp_node option option" where
  "Match_partition A FilterData h Partition =
     (if NodeType Partition = 0x04 \<and> NodeSubType Partition = 0x01 \<and> NodeLength Partition = 42 then
        if \<not> sel A BLK_IO_SEL_PARTITIONED_GPT \<and> MBRType Partition = 0x02 then Inr None
        else if \<not> sel A BLK_IO_SEL_PARTITIONED_MBR \<and> MBRType Partition = 0x01 then Inr None
        else bindE (Match_type A FilterData h) (\<lambda>ok. Inr (if ok then Some (Some Partition) else None))
      else if sel A BLK_IO_SEL_MATCH_PARTITION_TYPE_GUID then Inr None
      else Inr (Some None))"

definition Match_path :: "u32 \<Rightarrow> PartiSelectFilter option \<Rightarrow> blk_handle \<Rightarrow> efi_status + dp_node option option" where
  "Match_path A FilterData h =
     (if \<not> sel A FILTERS_NEEDING_DEVICEPATH then Inr (Some None)
      else
        (case DevicePath h of
           None \<Rightarrow> Inr None
         | Some path \<Rightarrow>
             bindE (Match_root A FilterData path) (\<lambda>ok.
               if \<not> ok then Inr None
               else if sel A BLK_IO_SEL_SELECT_ROOT_DEVICE_ONLY \<and> length path > 1 then Inr None
               else Match_partition A FilterData h (last (end_node # path)))))"

definition Match_fs :: "u32 \<Rightarrow> PartiSelectFilter option \<Rightarrow> blk_handle \<Rightarrow> (efi_status + bool) option" where
  "Match_fs A FilterData h =
     (if \<not> sel A BLK_IO_SEL_SELECT_MOUNTED_FILESYSTEM then Some (Inr True)
      else
        (case FileSystem h of
           None \<Rightarrow> Some (Inr False)
         | Some Fs \<Rightarrow>
             if \<not> sel A BLK_IO_SEL_SELECT_BY_VOLUME_NAME then Some (Inr True)
             else
               (case Option.bind FilterData VolumeName of
                  None \<Rightarrow> Some (Inl EFI_INVALID_PARAMETER)
                | Some n \<Rightarrow> do { ok \<leftarrow> CompareVolumeLabel Fs n; Some (Inr ok) })))"

text \<open>\<open>StrnCmp\<close> up to the longer of the two lengths is equality. A null pointer for the label is read.\<close>

definition Match_label :: "u32 \<Rightarrow> PartiSelectFilter option \<Rightarrow> blk_handle \<Rightarrow> bool option" where
  "Match_label A FilterData h =
     (if \<not> sel A BLK_IO_SEL_MATCH_PARTITION_LABEL then Some True
      else
        (case PartRecord h of
           None \<Rightarrow> Some False
         | Some name \<Rightarrow>
             do { Label \<leftarrow> Option.bind FilterData PartitionLabel;
                  n \<leftarrow> StrLen name;
                  Some (StrnCmp_eq name Label (max n (length Label))) }))"

definition Match_media :: "u32 \<Rightarrow> blk_handle \<Rightarrow> bool" where
  "Match_media A h =
     (if RemovableMedia h then sel A BLK_IO_SEL_MEDIA_TYPE_REMOVABLE else sel A BLK_IO_SEL_MEDIA_TYPE_NON_REMOVABLE)"

text \<open>One handle: the status to return, or the partition node to report if the handle is selected.\<close>

definition Match_handle ::
  "u32 \<Rightarrow> PartiSelectFilter option \<Rightarrow> blk_handle \<Rightarrow> (efi_status + dp_node option option) option" where
  "Match_handle A FilterData h =
     (if BlkIoStatus h = EFI_UNSUPPORTED then Some (Inr None)
      else if BlkIoStatus h \<noteq> EFI_SUCCESS then Some (Inl (BlkIoStatus h))
      else if \<not> Match_media A h then Some (Inr None)
      else
        (case Match_path A FilterData h of
           Inl st \<Rightarrow> Some (Inl st)
         | Inr None \<Rightarrow> Some (Inr None)
         | Inr (Some PartitionOut) \<Rightarrow>
             do { fs \<leftarrow> Match_fs A FilterData h;
                  case fs of
                    Inl st \<Rightarrow> Some (Inl st)
                  | Inr ok \<Rightarrow>
                      if \<not> ok then Some (Inr None)
                      else do { ok \<leftarrow> Match_label A FilterData h;
                                Some (Inr (if ok then Some PartitionOut else None)) } }))"

section \<open>The search\<close>

type_synonym handle_info = "blk_handle \<times> dp_node option"

text \<open>The array of the caller has \<open>Max\<close> elements; the code compares the count only after it has stored an element.\<close>

fun Select_loop ::
  "u32 \<Rightarrow> PartiSelectFilter option \<Rightarrow> nat \<Rightarrow> blk_handle list \<Rightarrow> handle_info list \<Rightarrow> (efi_status + handle_info list) option" where
  "Select_loop A FilterData Cap [] acc = Some (Inr acc)"
| "Select_loop A FilterData Cap (h # hs) acc =
     do { r \<leftarrow> Match_handle A FilterData h;
          case r of
            Inl st \<Rightarrow> Some (Inl st)
          | Inr None \<Rightarrow> Select_loop A FilterData Cap hs acc
          | Inr (Some PartitionOut) \<Rightarrow>
              if length acc \<ge> Cap then None
              else if length acc + 1 \<ge> Cap then Some (Inr (acc @ [(h, PartitionOut)]))
              else Select_loop A FilterData Cap hs (acc @ [(h, PartitionOut)]) }"

definition Default_attrib :: "u32 \<Rightarrow> u32" where
  "Default_attrib A =
     (let A = (if \<not> sel A (BLK_IO_SEL_MEDIA_TYPE_REMOVABLE OR BLK_IO_SEL_MEDIA_TYPE_NON_REMOVABLE)
               then A OR (BLK_IO_SEL_MEDIA_TYPE_REMOVABLE OR BLK_IO_SEL_MEDIA_TYPE_NON_REMOVABLE) else A)
      in if \<not> sel (BLK_IO_SEL_PARTITIONED_GPT OR BLK_IO_SEL_PARTITIONED_MBR) A
         then A OR (BLK_IO_SEL_PARTITIONED_GPT OR BLK_IO_SEL_PARTITIONED_MBR) else A)"

definition GetBlkIOHandles ::
  "handle_db \<Rightarrow> u32 \<Rightarrow> PartiSelectFilter option \<Rightarrow> nat \<Rightarrow> (efi_status \<times> handle_info list) option" where
  "GetBlkIOHandles DB SelectionAttrib FilterData Cap =
     (let A = Default_attrib SelectionAttrib
      in case (if sel A (BLK_IO_SEL_SELECT_MOUNTED_FILESYSTEM OR BLK_IO_SEL_SELECT_BY_VOLUME_NAME)
               then FsHandles DB else BlkHandles DB) of
           (Status, Handles) \<Rightarrow>
             if Status \<noteq> EFI_SUCCESS then Some (Status, [])
             else do { r \<leftarrow> Select_loop A FilterData Cap Handles [];
                       case r of Inl st \<Rightarrow> Some (st, []) | Inr hs \<Rightarrow> Some (EFI_SUCCESS, hs) })"

section \<open>Users\<close>

text \<open>The checks all users make of the result for one handle.\<close>

definition One_handle :: "(efi_status \<times> handle_info list) option \<Rightarrow> (efi_status + blk_handle) option" where
  "One_handle r =
     do { (Status, hs) \<leftarrow> r;
          if Status \<noteq> EFI_SUCCESS then Some (Inl Status)
          else if length hs = 0 then Some (Inl EFI_NO_MEDIA)
          else if length hs \<noteq> 1 then Some (Inl EFI_LOAD_ERROR)
          else Some (Inr (fst (hd hs))) }"

definition type_filter :: "bytes \<Rightarrow> PartiSelectFilter" where
  "type_filter Ptype = \<lparr> RootDeviceType = None, PartitionType = Some Ptype, VolumeName = None, PartitionLabel = None \<rparr>"

definition Type_handle :: "handle_db \<Rightarrow> bytes \<Rightarrow> (efi_status + blk_handle) option" where
  "Type_handle DB Ptype =
     One_handle (GetBlkIOHandles DB
       (BLK_IO_SEL_PARTITIONED_GPT OR BLK_IO_SEL_MEDIA_TYPE_NON_REMOVABLE OR BLK_IO_SEL_MATCH_PARTITION_TYPE_GUID)
       (Some (type_filter Ptype)) 1)"

definition WriteToPartition ::
  "handle_db \<Rightarrow> bool \<Rightarrow> bool \<Rightarrow> bytes \<Rightarrow> bytes option \<Rightarrow> u32 \<Rightarrow> dev_log \<Rightarrow> (efi_status \<times> dev_log) option" where
  "WriteToPartition DB RootIsNand SplitNeeded Ptype Msg MsgSize log =
     (case Msg of
        None \<Rightarrow> Some (EFI_INVALID_PARAMETER, log)
      | Some M \<Rightarrow>
          do { r \<leftarrow> Type_handle DB Ptype;
               case r of
                 Inl st \<Rightarrow> Some (st, log)
               | Inr h \<Rightarrow> WriteBlockToPartition (Some (BlkIo h)) True RootIsNand SplitNeeded 0 (ucast MsgSize) (Some M) log })"

text \<open>\<open>BufferSize\<close> is the size of the buffer; a read of more bytes is outside it. The result has the bytes read.\<close>

definition LoadImageFromPartition ::
  "handle_db \<Rightarrow> nat \<Rightarrow> u32 \<Rightarrow> name16 \<Rightarrow> dev_log \<Rightarrow> (efi_status \<times> bytes) option" where
  "LoadImageFromPartition DB BufferSize ImageSize Pname log =
     do { r \<leftarrow> One_handle (GetBlkIOHandles DB
            (BLK_IO_SEL_PARTITIONED_MBR OR BLK_IO_SEL_PARTITIONED_GPT OR BLK_IO_SEL_MEDIA_TYPE_NON_REMOVABLE OR
             BLK_IO_SEL_MATCH_PARTITION_LABEL)
            (Some \<lparr> RootDeviceType = None, PartitionType = None, VolumeName = None, PartitionLabel = Some Pname \<rparr>) 1);
          case r of
            Inl st \<Rightarrow> Some (st, [])
          | Inr h \<Rightarrow>
              let n = unat (ROUND_TO_PAGE (ucast ImageSize) (MediaBlockSize (BlkIo h) - 1))
              in if n > BufferSize then None else Some (BlkRead (BlkIo h) log 0 n) }"

section \<open>Properties\<close>

text \<open>\<open>decided\<close> says that the criteria can be evaluated on a handle, \<open>chosen\<close> that it satisfies them.\<close>

definition chosen :: "u32 \<Rightarrow> PartiSelectFilter option \<Rightarrow> blk_handle \<Rightarrow> bool" where
  "chosen A F h \<longleftrightarrow> (\<exists>p. Match_handle A F h = Some (Inr (Some p)))"

definition decided :: "u32 \<Rightarrow> PartiSelectFilter option \<Rightarrow> blk_handle \<Rightarrow> bool" where
  "decided A F h \<longleftrightarrow> (\<exists>r. Match_handle A F h = Some (Inr r))"

text \<open>The search returns, in order, the first handles that satisfy the criteria, as many as the array holds.\<close>

lemma Select_loop_exact:
  assumes "\<forall>h \<in> set hs. decided A F h" "length acc < Cap"
  shows "\<exists>ps. Select_loop A F Cap hs acc = Some (Inr (acc @ ps)) \<and>
    map fst ps = take (Cap - length acc) (filter (chosen A F) hs)"
  using assms
proof (induction hs arbitrary: acc)
  case (Cons h hs)
  obtain r where r: "Match_handle A F h = Some (Inr r)" using Cons.prems(1) by (auto simp: decided_def)
  show ?case
  proof (cases r)
    case None
    then show ?thesis using r Cons by (auto simp: chosen_def)
  next
    case (Some p)
    have c: "chosen A F h" using r Some by (auto simp: chosen_def)
    show ?thesis
    proof (cases "length acc + 1 \<ge> Cap")
      case True
      then have "Cap - length acc = 1" using Cons.prems(2) by simp
      then show ?thesis using r Some c True Cons.prems(2) by simp
    next
      case False
      then obtain ps where ps: "Select_loop A F Cap hs (acc @ [(h, p)]) = Some (Inr ((acc @ [(h, p)]) @ ps))"
          "map fst ps = take (Cap - (length acc + 1)) (filter (chosen A F) hs)"
        using Cons.IH [of "acc @ [(h, p)]"] Cons.prems(1) by auto
      have "Select_loop A F Cap (h # hs) acc = Some (Inr (acc @ (h, p) # ps))" using r Some False ps(1) by simp
      moreover have "map fst ((h, p) # ps) = take (Cap - length acc) (filter (chosen A F) (h # hs))"
        using c False ps(2) by (simp add: take_Cons' Suc_diff_le)
      ultimately show ?thesis by blast
    qed
  qed
qed simp

text \<open>A partition of the given type on a medium that stays in place: what the users above look for.\<close>

definition hard_drive :: "dp_node \<Rightarrow> bool" where
  "hard_drive p \<longleftrightarrow> NodeType p = 0x04 \<and> NodeSubType p = 0x01 \<and> NodeLength p = 42"

definition has_type :: "bytes \<Rightarrow> blk_handle \<Rightarrow> bool" where
  "has_type g h \<longleftrightarrow> BlkIoStatus h = EFI_SUCCESS \<and> \<not> RemovableMedia h \<and>
     (\<exists>path. DevicePath h = Some path \<and> path \<noteq> [] \<and> hard_drive (last path) \<and> MBRType (last path) \<noteq> 0x01) \<and>
     (HasInterface h g \<or> PartiTypeGuid h = Some g)"

definition has_label :: "name16 \<Rightarrow> blk_handle \<Rightarrow> bool" where
  "has_label n h \<longleftrightarrow> BlkIoStatus h = EFI_SUCCESS \<and> \<not> RemovableMedia h \<and> DevicePath h \<noteq> None \<and> PartRecord h = Some n"

text \<open>Handles whose block protocol is there or not supported, with labels that end inside their array.\<close>

definition usable :: "blk_handle \<Rightarrow> bool" where
  "usable h \<longleftrightarrow> BlkIoStatus h \<in> {EFI_SUCCESS, EFI_UNSUPPORTED} \<and> (\<forall>n. PartRecord h = Some n \<longrightarrow> length n < NAME_SIZE)"

abbreviation type_attrib :: u32 where
  "type_attrib \<equiv> BLK_IO_SEL_PARTITIONED_GPT OR BLK_IO_SEL_MEDIA_TYPE_NON_REMOVABLE OR BLK_IO_SEL_MATCH_PARTITION_TYPE_GUID"

abbreviation label_attrib :: u32 where
  "label_attrib \<equiv> BLK_IO_SEL_PARTITIONED_MBR OR BLK_IO_SEL_PARTITIONED_GPT OR BLK_IO_SEL_MEDIA_TYPE_NON_REMOVABLE OR
     BLK_IO_SEL_MATCH_PARTITION_LABEL"

abbreviation label_filter :: "name16 \<Rightarrow> PartiSelectFilter" where
  "label_filter n \<equiv> \<lparr> RootDeviceType = None, PartitionType = None, VolumeName = None, PartitionLabel = Some n \<rparr>"

lemma Default_type: "Default_attrib type_attrib = type_attrib" "Default_attrib label_attrib = label_attrib"
  by (simp_all add: Default_attrib_def sel_def sel_defs)

lemma end_node_no_drive: "\<not> hard_drive end_node"
  by (simp add: hard_drive_def end_node_def)

lemma Match_handle_type:
  assumes "usable h"
  shows "\<exists>p. Match_handle type_attrib (Some (type_filter g)) h = Some (Inr (if has_type g h then Some p else None))"
proof -
  have "Match_media type_attrib h \<longleftrightarrow> \<not> RemovableMedia h"
    by (simp add: Match_media_def sel_def sel_defs)
  moreover have "\<exists>p. Match_path type_attrib (Some (type_filter g)) h = Inr (if (\<exists>path. DevicePath h = Some path \<and> path \<noteq> [] \<and>
       hard_drive (last path) \<and> MBRType (last path) \<noteq> 0x01) \<and> (HasInterface h g \<or> PartiTypeGuid h = Some g) then Some p else None)"
    using end_node_no_drive
    by (cases "DevicePath h")
      (auto simp: Match_path_def Match_root_def Match_partition_def Match_type_def sel_def sel_defs
         FILTERS_NEEDING_DEVICEPATH_def type_filter_def hard_drive_def split: if_splits)
  moreover have "Match_fs type_attrib (Some (type_filter g)) h = Some (Inr True)" "Match_label type_attrib (Some (type_filter g)) h = Some True"
    by (simp_all add: Match_fs_def Match_label_def sel_def sel_defs)
  ultimately show ?thesis using assms
    by (auto simp: Match_handle_def has_type_def usable_def split: if_splits)
qed

lemma Match_handle_label:
  assumes "usable h"
  shows "\<exists>p. Match_handle label_attrib (Some (label_filter n)) h = Some (Inr (if has_label n h then Some p else None))"
proof -
  have "Match_media label_attrib h \<longleftrightarrow> \<not> RemovableMedia h"
    by (simp add: Match_media_def sel_def sel_defs)
  moreover have "\<exists>p. Match_path label_attrib (Some (label_filter n)) h = Inr (if DevicePath h \<noteq> None then Some p else None)"
    by (cases "DevicePath h")
      (auto simp: Match_path_def Match_root_def Match_partition_def Match_type_def sel_def sel_defs FILTERS_NEEDING_DEVICEPATH_def)
  moreover have "Match_fs label_attrib (Some (label_filter n)) h = Some (Inr True)"
    by (simp add: Match_fs_def sel_def sel_defs)
  moreover have "Match_label label_attrib (Some (label_filter n)) h = Some (PartRecord h = Some n)"
  proof (cases "PartRecord h")
    case (Some m)
    then have "length m < NAME_SIZE" using assms by (simp add: usable_def)
    then show ?thesis using Some by (auto simp: Match_label_def sel_def sel_defs StrLen_def StrnCmp_eq_def max_def)
  qed (simp add: Match_label_def sel_def sel_defs)
  ultimately show ?thesis using assms
    by (auto simp: Match_handle_def has_label_def usable_def split: if_splits)
qed

text \<open>With room for one handle the search returns the first match, if there is one, and the case of several is never seen.\<close>

lemma One_handle_first:
  assumes "BlkHandles DB = (EFI_SUCCESS, hs)" "Default_attrib A = A"
    and "\<not> sel A (BLK_IO_SEL_SELECT_MOUNTED_FILESYSTEM OR BLK_IO_SEL_SELECT_BY_VOLUME_NAME)"
    and m: "\<forall>h \<in> set hs. \<exists>p. Match_handle A F h = Some (Inr (if P h then Some p else None))"
  shows "One_handle (GetBlkIOHandles DB A F 1) =
    Some (case List.find P hs of None \<Rightarrow> Inl EFI_NO_MEDIA | Some h \<Rightarrow> Inr h)"
proof -
  have d: "\<forall>h \<in> set hs. decided A F h" and c: "\<forall>h \<in> set hs. chosen A F h = P h"
    using m by (auto simp: decided_def chosen_def split: if_splits)
  obtain ps where ps: "Select_loop A F 1 hs [] = Some (Inr ps)" "map fst ps = take 1 (filter (chosen A F) hs)"
    using Select_loop_exact [OF d, of "[]" 1] by auto
  have G: "GetBlkIOHandles DB A F 1 = Some (EFI_SUCCESS, ps)"
    using assms(1-3) ps(1) by (simp add: GetBlkIOHandles_def)
  have "filter (chosen A F) hs = filter P hs" using c by (auto cong: filter_cong)
  then have t: "map fst ps = take 1 (filter P hs)" using ps(2) by simp
  have find: "List.find P hs = (case filter P hs of [] \<Rightarrow> None | h # _ \<Rightarrow> Some h)"
    by (induction hs) auto
  show ?thesis
  proof (cases "filter P hs")
    case Nil
    then show ?thesis using t find by (simp add: One_handle_def G [simplified])
  next
    case (Cons h hs')
    then have "map fst ps = [h]" using t by simp
    then have "length ps = 1" "fst (hd ps) = h" by (auto simp: map_eq_Cons_conv)
    then show ?thesis using find Cons by (auto simp: One_handle_def G [simplified])
  qed
qed

lemma Type_handle_first:
  assumes "BlkHandles DB = (EFI_SUCCESS, hs)" "\<forall>h \<in> set hs. usable h"
  shows "Type_handle DB g = Some (case List.find (has_type g) hs of None \<Rightarrow> Inl EFI_NO_MEDIA | Some h \<Rightarrow> Inr h)"
  unfolding Type_handle_def
  by (rule One_handle_first [OF assms(1) Default_type(1)]) (use assms(2) Match_handle_type in \<open>auto simp: sel_def sel_defs\<close>)

text \<open>
  C30: \<open>WriteToPartition\<close> writes to the first partition that has the wanted type and lies on a medium that is not removable,
  and reports \<open>EFI_NO_MEDIA\<close> when there is none. Further partitions of the same type are never noticed: the search
  has room for one handle, so the check for several partitions cannot fire. The search never stores outside its array.
\<close>

theorem WriteToPartition_first:
  assumes "BlkHandles DB = (EFI_SUCCESS, hs)" "\<forall>h \<in> set hs. usable h"
  shows "WriteToPartition DB RootIsNand SplitNeeded g (Some M) MsgSize log =
    (case List.find (has_type g) hs of
       None \<Rightarrow> Some (EFI_NO_MEDIA, log)
     | Some h \<Rightarrow> WriteBlockToPartition (Some (BlkIo h)) True RootIsNand SplitNeeded 0 (ucast MsgSize) (Some M) log)"
  by (simp add: WriteToPartition_def Type_handle_first [OF assms] split: option.split)

lemma LoadImageFromPartition_first:
  assumes "BlkHandles DB = (EFI_SUCCESS, hs)" "\<forall>h \<in> set hs. usable h"
  shows "LoadImageFromPartition DB BufferSize ImageSize Pname log =
    (case List.find (has_label Pname) hs of
       None \<Rightarrow> Some (EFI_NO_MEDIA, [])
     | Some h \<Rightarrow>
         let n = unat (ROUND_TO_PAGE (ucast ImageSize) (MediaBlockSize (BlkIo h) - 1))
         in if n > BufferSize then None else Some (BlkRead (BlkIo h) log 0 n))"
proof -
  have "One_handle (GetBlkIOHandles DB label_attrib (Some (label_filter Pname)) 1) =
    Some (case List.find (has_label Pname) hs of None \<Rightarrow> Inl EFI_NO_MEDIA | Some h \<Rightarrow> Inr h)"
    by (rule One_handle_first [OF assms(1) Default_type(2)]) (use assms(2) Match_handle_label in \<open>auto simp: sel_def sel_defs\<close>)
  then show ?thesis by (simp add: LoadImageFromPartition_def split: option.split)
qed

definition sample_handle :: "nat \<Rightarrow> bytes \<Rightarrow> blk_handle" where
  "sample_handle i g =
     \<lparr> BlkIoStatus = EFI_SUCCESS,
       BlkIo = \<lparr> DevId = i, MediaBlockSize = 4, MediaLastBlock = 3, EraseProtocol = (EFI_SUCCESS, 4), EraseResult = EFI_SUCCESS,
         BlkPoolOk = True, BlkWrite = \<lambda>log lba x. EFI_SUCCESS, BlkRead = \<lambda>log lba n. (EFI_SUCCESS, replicate n 0) \<rparr>,
       RemovableMedia = False,
       DevicePath = Some [\<lparr> NodeType = 4, NodeSubType = 1, NodeLength = 42, NodeGuid = [], MBRType = 2 \<rparr>],
       HasInterface = \<lambda>g. False, PartiTypeGuid = Some g, FileSystem = None, PartRecord = None \<rparr>"

theorem WriteToPartition_first_witness:
  "WriteToPartition \<lparr> FsHandles = (EFI_SUCCESS, []), BlkHandles = (EFI_SUCCESS, [sample_handle 0 [7], sample_handle 1 [9], sample_handle 2 [9]]) \<rparr>
     False False [9] (Some [1, 2, 3, 4]) 4 [] = Some (EFI_SUCCESS, [(1, WriteOp 0 [1, 2, 3, 4])])"
  using WriteToPartition_first [of "\<lparr> FsHandles = (EFI_SUCCESS, []), BlkHandles = (EFI_SUCCESS, [sample_handle 0 [7], sample_handle 1 [9], sample_handle 2 [9]]) \<rparr>"
      "[sample_handle 0 [7], sample_handle 1 [9], sample_handle 2 [9]]" False False "[9]" "[1, 2, 3, 4]" 4 "[]"]
  by (simp add: sample_handle_def usable_def has_type_def hard_drive_def WriteBlockToPartition_def Write_blocks_def
      Write_loop.simps rd_def)

section \<open>The root device\<close>

text \<open>
  \<open>GetDeviceHandleInfo\<close> (\<^verbatim>\<open>BootLib/Board.c\<close>) asks for the handles of a root device. A success with no handle is
  returned as a success.
\<close>

definition guid_bytes :: "u32 \<Rightarrow> u16 \<Rightarrow> u16 \<Rightarrow> bytes \<Rightarrow> bytes" where
  "guid_bytes a b c d = enc32 a @ enc16 b @ enc16 c @ d"

definition root_guid :: "MemCardType \<Rightarrow> bytes option" where
  "root_guid t =
     (case t of
        UFS \<Rightarrow> Some (guid_bytes 0x860845c1 0xbe09 0x4355 [0x8b, 0xc1, 0x30, 0xd6, 0x4f, 0xf8, 0xe6, 0x3a])
      | EMMC \<Rightarrow> Some (guid_bytes 0xb615f1f5 0x5088 0x43cd [0x80, 0x9c, 0xa1, 0x6e, 0x52, 0x48, 0x7d, 0x00])
      | NAND \<Rightarrow> Some (guid_bytes 0x03ef84a9 0x60ce 0x4371 [0x97, 0xcf, 0x04, 0x84, 0x5a, 0x86, 0x5b, 0x79])
      | UNKNOWN \<Rightarrow> None)"

definition HANDLE_MAX_INFO_LIST :: nat where "HANDLE_MAX_INFO_LIST = 128"
definition BOOT_IMG_MAX_PAGE_SIZE :: u32 where "BOOT_IMG_MAX_PAGE_SIZE = 4096"

definition GetDeviceHandleInfo :: "handle_db \<Rightarrow> nat \<Rightarrow> MemCardType \<Rightarrow> (efi_status \<times> handle_info list) option" where
  "GetDeviceHandleInfo DB MaxHandles t =
     (case root_guid t of
        None \<Rightarrow> Some (EFI_INVALID_PARAMETER, [])
      | Some g \<Rightarrow>
          GetBlkIOHandles DB BLK_IO_SEL_MATCH_ROOT_DEVICE
            (Some \<lparr> RootDeviceType = Some g, PartitionType = None, VolumeName = None, PartitionLabel = None \<rparr>) MaxHandles)"

fun Compatible_loop :: "handle_db \<Rightarrow> MemCardType list \<Rightarrow> MemCardType option" where
  "Compatible_loop DB [] = Some UNKNOWN"
| "Compatible_loop DB (t # ts) =
     do { (Status, hs) \<leftarrow> GetDeviceHandleInfo DB HANDLE_MAX_INFO_LIST t;
          if Status = EFI_SUCCESS then Some t else Compatible_loop DB ts }"

definition GetCompatibleRootDeviceType :: "handle_db \<Rightarrow> MemCardType option" where
  "GetCompatibleRootDeviceType DB = Compatible_loop DB [EMMC, UFS, NAND]"

text \<open>
  \<open>Card\<close> is the search for the card protocol, the status of \<open>GetCardInfo\<close> and the four bytes of \<open>card_type\<close>;
  \<open>t\<close> is the value of the static variable \<open>Type\<close>, and the result its new one.
\<close>

definition RootDeviceType_update :: "handle_db \<Rightarrow> efi_status \<times> efi_status \<times> string \<Rightarrow> MemCardType \<Rightarrow> MemCardType option" where
  "RootDeviceType_update DB Card t =
     (case Card of (Located, Info, card_type) \<Rightarrow>
        if t \<noteq> UNKNOWN then Some t
        else if EFI_ERROR Located \<or> EFI_ERROR Info then Some UNKNOWN
        else if take 3 card_type = ''UFS'' then Some UFS
        else if take 4 card_type = ''EMMC'' then Some EMMC
        else if take 4 card_type = ''NAND'' then Some NAND
        else GetCompatibleRootDeviceType DB)"

text \<open>The first element of the list is read also when no handle was stored.\<close>

definition GetPageSize :: "handle_db \<Rightarrow> MemCardType \<Rightarrow> u32 option" where
  "GetPageSize DB t =
     do { (Status, hs) \<leftarrow> GetDeviceHandleInfo DB HANDLE_MAX_INFO_LIST t;
          if Status \<noteq> EFI_SUCCESS then Some BOOT_IMG_MAX_PAGE_SIZE
          else case hs of [] \<Rightarrow> None | (h, p) # _ \<Rightarrow> Some (MediaBlockSize (BlkIo h)) }"

definition on_root :: "bytes \<Rightarrow> blk_handle \<Rightarrow> bool" where
  "on_root g h \<longleftrightarrow> BlkIoStatus h = EFI_SUCCESS \<and>
     (\<exists>n ns. DevicePath h = Some (n # ns) \<and> NodeType n = 1 \<and> NodeSubType n = 4 \<and> NodeLength n = 20 \<and> NodeGuid n = g)"

abbreviation root_attrib :: u32 where
  "root_attrib \<equiv> BLK_IO_SEL_MATCH_ROOT_DEVICE OR BLK_IO_SEL_MEDIA_TYPE_REMOVABLE OR BLK_IO_SEL_MEDIA_TYPE_NON_REMOVABLE OR
     BLK_IO_SEL_PARTITIONED_GPT OR BLK_IO_SEL_PARTITIONED_MBR"

lemma Match_handle_root:
  assumes "usable h"
  shows "\<exists>p. Match_handle root_attrib (Some \<lparr> RootDeviceType = Some g, PartitionType = None, VolumeName = None, PartitionLabel = None \<rparr>) h =
    Some (Inr (if on_root g h then Some p else None))"
proof -
  let ?F = "Some \<lparr> RootDeviceType = Some g, PartitionType = None, VolumeName = None, PartitionLabel = None \<rparr>"
  have "Match_media root_attrib h" by (simp add: Match_media_def sel_def sel_defs)
  moreover have "\<exists>p. Match_path root_attrib ?F h = Inr (if \<exists>n ns. DevicePath h = Some (n # ns) \<and> NodeType n = 1 \<and>
      NodeSubType n = 4 \<and> NodeLength n = 20 \<and> NodeGuid n = g then Some p else None)"
  proof (cases "DevicePath h")
    case (Some path)
    then show ?thesis
      by (cases path)
        (auto simp: Match_path_def Match_root_def Match_partition_def Match_type_def sel_def sel_defs
           FILTERS_NEEDING_DEVICEPATH_def end_node_def split: if_splits)
  qed (simp add: Match_path_def sel_def sel_defs FILTERS_NEEDING_DEVICEPATH_def)
  moreover have "Match_fs root_attrib ?F h = Some (Inr True)" "Match_label root_attrib ?F h = Some True"
    by (simp_all add: Match_fs_def Match_label_def sel_def sel_defs)
  ultimately show ?thesis using assms by (auto simp: Match_handle_def on_root_def usable_def split: if_splits)
qed

lemma Root_handles:
  assumes "BlkHandles DB = (EFI_SUCCESS, hs)" "\<forall>h \<in> set hs. usable h" "0 < Cap" "root_guid t = Some g"
  shows "\<exists>ps. GetDeviceHandleInfo DB Cap t = Some (EFI_SUCCESS, ps) \<and> map fst ps = take Cap (filter (on_root g) hs)"
proof -
  let ?F = "Some \<lparr> RootDeviceType = Some g, PartitionType = None, VolumeName = None, PartitionLabel = None \<rparr>"
  have d: "Default_attrib BLK_IO_SEL_MATCH_ROOT_DEVICE = root_attrib"
    by (simp add: Default_attrib_def sel_def sel_defs)
  have m: "decided root_attrib ?F h" "chosen root_attrib ?F h = on_root g h" if "h \<in> set hs" for h
    using Match_handle_root [of h g] that assms(2) by (auto simp: decided_def chosen_def split: if_splits)
  obtain ps where ps: "Select_loop root_attrib ?F Cap hs [] = Some (Inr ps)" "map fst ps = take Cap (filter (chosen root_attrib ?F) hs)"
    using Select_loop_exact [of hs root_attrib ?F "[]" Cap] m(1) assms(3) by auto
  have "filter (chosen root_attrib ?F) hs = filter (on_root g) hs" using m(2) by (auto cong: filter_cong)
  moreover have "\<not> sel root_attrib (BLK_IO_SEL_SELECT_MOUNTED_FILESYSTEM OR BLK_IO_SEL_SELECT_BY_VOLUME_NAME)"
    by (simp add: sel_def sel_defs)
  ultimately show ?thesis using assms(1,4) ps by (simp add: GetDeviceHandleInfo_def GetBlkIOHandles_def d)
qed

lemma GetPageSize_exact:
  assumes "BlkHandles DB = (EFI_SUCCESS, hs)" "\<forall>h \<in> set hs. usable h" "root_guid t = Some g"
  shows "GetPageSize DB t = map_option (\<lambda>h. MediaBlockSize (BlkIo h)) (List.find (on_root g) hs)"
proof -
  obtain ps where ps: "GetDeviceHandleInfo DB HANDLE_MAX_INFO_LIST t = Some (EFI_SUCCESS, ps)"
      "map fst ps = take HANDLE_MAX_INFO_LIST (filter (on_root g) hs)"
    using Root_handles [OF assms(1,2) _ assms(3), of HANDLE_MAX_INFO_LIST] by (auto simp: HANDLE_MAX_INFO_LIST_def)
  have find: "List.find (on_root g) hs = (case filter (on_root g) hs of [] \<Rightarrow> None | h # _ \<Rightarrow> Some h)"
    by (induction hs) auto
  show ?thesis using ps find
    by (auto simp: GetPageSize_def HANDLE_MAX_INFO_LIST_def map_eq_Cons_conv split: list.splits)
qed

text \<open>
  The fallback that guesses the type of the root device always answers eMMC: a search that finds no handle is a success, so the
  first type tried is returned whatever devices there are, and with no eMMC device the page size is then
  read through an array element that was never written.
\<close>

theorem RootDeviceType_fallback:
  assumes "BlkHandles DB = (EFI_SUCCESS, hs)" "\<forall>h \<in> set hs. usable h"
    and "take 3 card_type \<noteq> ''UFS''" "take 4 card_type \<noteq> ''NAND''"
  shows "RootDeviceType_update DB (EFI_SUCCESS, EFI_SUCCESS, card_type) UNKNOWN = Some EMMC \<and>
    ((\<forall>h \<in> set hs. \<not> on_root (the (root_guid EMMC)) h) \<longrightarrow> GetPageSize DB EMMC = None)"
proof -
  obtain g where g: "root_guid EMMC = Some g" by (simp add: root_guid_def)
  have "GetCompatibleRootDeviceType DB = Some EMMC"
    using Root_handles [OF assms(1,2) _ g, of HANDLE_MAX_INFO_LIST]
    by (auto simp: GetCompatibleRootDeviceType_def HANDLE_MAX_INFO_LIST_def)
  then show ?thesis
    using assms(3,4) g by (auto simp: RootDeviceType_update_def GetPageSize_exact [OF assms(1,2) g] find_None_iff)
qed

theorem RootDeviceType_fallback_witness:
  "RootDeviceType_update \<lparr> FsHandles = (EFI_SUCCESS, []), BlkHandles = (EFI_SUCCESS, [sample_handle 0 [7]]) \<rparr>
     (EFI_SUCCESS, EFI_SUCCESS, ''SDC'') UNKNOWN = Some EMMC \<and>
   GetPageSize \<lparr> FsHandles = (EFI_SUCCESS, []), BlkHandles = (EFI_SUCCESS, [sample_handle 0 [7]]) \<rparr> EMMC = None"
  using RootDeviceType_fallback [of "\<lparr> FsHandles = (EFI_SUCCESS, []), BlkHandles = (EFI_SUCCESS, [sample_handle 0 [7]]) \<rparr>"
      "[sample_handle 0 [7]]" "''SDC''"]
  by (simp add: sample_handle_def usable_def on_root_def)

end
