(* ===== verification/Misc_Partition.thy ===== *)
theory Misc_Partition
  imports Block_Handles
begin

text \<open>
  The misc partition (\<^verbatim>\<open>BootLib/Recovery.c\<close>): the message by which the system and the loader ask for a boot into recovery, the
  command of the factory mode and the merge status of a snapshot update. Messages are byte buffers with the
  layout of the C structures; a pool buffer has the length that was allocated.
\<close>

section \<open>Data\<close>

text \<open>
  The environment: the handles, the type of the root device, the result of \<open>GetNandMiscPartiGuid\<close> and two build or board options.
\<close>

record misc_env =
  MiscDb :: handle_db
  MiscCard :: MemCardType
  NandMiscGuid :: "efi_status \<times> bytes"
  MiscSplit :: bool
  IsDynamicPartitionSupport :: bool

definition gEfiMiscPartitionGuid :: bytes where
  "gEfiMiscPartitionGuid = guid_bytes 0x82ACC91F 0x357C 0x4A68 [0x9C, 0x8F, 0x68, 0x9E, 0x1B, 0x1A, 0x23, 0xA1]"

definition RECOVERY_BOOT_RECOVERY :: string where "RECOVERY_BOOT_RECOVERY = ''boot-recovery''"
definition RECOVERY_BOOT_FASTBOOT :: string where "RECOVERY_BOOT_FASTBOOT = ''boot-fastboot''"

text \<open>\<open>struct RecoveryMessage\<close>: a command and a status of 32 characters each and 1024 characters for the recovery.\<close>

definition COMMAND_SIZE :: nat where "COMMAND_SIZE = 32"
definition RECOVERY_OFFSET :: nat where "RECOVERY_OFFSET = 64"
definition RECOVERY_SIZE :: nat where "RECOVERY_SIZE = 1024"
definition RecoveryMessage_size :: nat where "RecoveryMessage_size = 1088"

definition MISC_VIRTUAL_AB_MESSAGE_VERSION :: u8 where "MISC_VIRTUAL_AB_MESSAGE_VERSION = 2"
definition MISC_VIRTUAL_AB_MAGIC_HEADER :: u32 where "MISC_VIRTUAL_AB_MAGIC_HEADER = 0x56740AB0"
definition MISC_VIRTUALAB_OFFSET :: u32 where "MISC_VIRTUALAB_OFFSET = 32 * 1024"

text \<open>
  \<open>AsciiStrnCpyS\<close> to the array of \<open>n\<close> characters at an offset of a buffer; a string that does not fit with its NUL leaves the
  array alone.
\<close>

definition AsciiStrnCpyS :: "bytes \<Rightarrow> nat \<Rightarrow> nat \<Rightarrow> string \<Rightarrow> (efi_status \<times> bytes) option" where
  "AsciiStrnCpyS buf off n s =
     (if n \<le> length s then Some (EFI_BUFFER_TOO_SMALL, buf)
      else do { buf \<leftarrow> put off (ascii s @ [0]) buf; Some (EFI_SUCCESS, buf) })"

section \<open>Reading\<close>

definition MiscGuid :: "misc_env \<Rightarrow> efi_status + bytes" where
  "MiscGuid E =
     (if MiscCard E = NAND then
        (case NandMiscGuid E of (Status, g) \<Rightarrow> if Status \<noteq> EFI_SUCCESS then Inl Status else Inr g)
      else Inr gEfiMiscPartitionGuid)"

text \<open>
  The second component is the pointer the caller passed: the buffer, or null. An offset that is no multiple of the block
  size leaves the empty buffer behind.
\<close>

definition ReadFromPartitionOffset ::
  "misc_env \<Rightarrow> bytes \<Rightarrow> u32 \<Rightarrow> u32 \<Rightarrow> dev_log \<Rightarrow> (efi_status \<times> bytes option) option" where
  "ReadFromPartitionOffset E Ptype Size Offset log =
     do { r \<leftarrow> Type_handle (MiscDb E) Ptype;
          case r of
            Inl st \<Rightarrow> Some (st, None)
          | Inr h \<Rightarrow>
              let D = BlkIo h;
                  MsgSize = ROUND_TO_PAGE (ucast Size) (MediaBlockSize D - 1);
                  PSize = GetPartitionSize (Some (MediaLastBlock D, MediaBlockSize D))
              in if MsgSize > PSize \<or> PSize = 0 then Some (EFI_OUT_OF_RESOURCES, None)
                 else if \<not> BlkPoolOk D then Some (EFI_OUT_OF_RESOURCES, None)
                 else if MediaBlockSize D = 0 then None
                 else if Offset mod MediaBlockSize D \<noteq> 0 then Some (EFI_INVALID_PARAMETER, Some (replicate (unat MsgSize) 0))
                 else
                   (case BlkRead D log (ucast (Offset div MediaBlockSize D)) (unat MsgSize) of
                      (Status, Msg) \<Rightarrow> if Status \<noteq> EFI_SUCCESS then Some (Status, None) else Some (Status, Some Msg)) }"

definition ReadFromPartition :: "misc_env \<Rightarrow> bytes \<Rightarrow> u32 \<Rightarrow> dev_log \<Rightarrow> (efi_status \<times> bytes option) option" where
  "ReadFromPartition E Ptype Size log = ReadFromPartitionOffset E Ptype Size 0 log"

section \<open>Recovery messages\<close>

text \<open>The two pages at the start of the partition, and the offset of the message in them.\<close>

definition Recovery_pages :: "misc_env \<Rightarrow> dev_log \<Rightarrow> (efi_status + bytes \<times> bytes \<times> nat) option" where
  "Recovery_pages E log =
     (case MiscGuid E of
        Inl st \<Rightarrow> Some (Inl st)
      | Inr Ptype \<Rightarrow>
          do { PageSize \<leftarrow> GetPageSize (MiscDb E) (MiscCard E);
               (Status, Msg) \<leftarrow> ReadFromPartition E Ptype (PageSize * 2) log;
               if Status \<noteq> EFI_SUCCESS then Some (Inl Status)
               else case Msg of
                      None \<Rightarrow> Some (Inl EFI_INVALID_PARAMETER)
                    | Some Data \<Rightarrow> Some (Inr (Ptype, Data, if MiscCard E = NAND then unat PageSize else 0)) })"

definition WriteRecoveryMessage :: "misc_env \<Rightarrow> string \<Rightarrow> dev_log \<Rightarrow> (efi_status \<times> dev_log) option" where
  "WriteRecoveryMessage E Command log =
     do { r \<leftarrow> Recovery_pages E log;
          case r of
            Inl st \<Rightarrow> Some (st, log)
          | Inr (Ptype, Data, p) \<Rightarrow>
              do { (Status, Data) \<leftarrow> AsciiStrnCpyS Data p COMMAND_SIZE Command;
                   if Status \<noteq> EFI_SUCCESS then Some (Status, log)
                   else WriteToPartition (MiscDb E) (MiscCard E = NAND) (MiscSplit E) Ptype (Some (drop p Data))
                          (word_of_nat RecoveryMessage_size) log } }"

text \<open>The second component says that \<open>BootIntoRecovery\<close> was set.\<close>

definition RecoveryInit :: "misc_env \<Rightarrow> dev_log \<Rightarrow> (efi_status \<times> bool) option" where
  "RecoveryInit E log =
     do { r \<leftarrow> Recovery_pages E log;
          case r of
            Inl st \<Rightarrow> Some (st, False)
          | Inr (Ptype, Data, p) \<Rightarrow>
              do { Data \<leftarrow> put (p + COMMAND_SIZE - 1) [0] Data;
                   command \<leftarrow> rd Data p COMMAND_SIZE;
                   Some (EFI_SUCCESS,
                         take 13 command = ascii RECOVERY_BOOT_RECOVERY \<or>
                         IsDynamicPartitionSupport E \<and> take 13 command = ascii RECOVERY_BOOT_FASTBOOT) } }"

section \<open>Factory mode\<close>

text \<open>
  \<open>FfbmString\<close> is an array of \<open>Sz\<close> characters. The result of the copies is not looked at, so a string that does not fit leaves
  the array as it was.
\<close>

definition copy_string :: "bytes \<Rightarrow> bytes \<Rightarrow> bytes" where
  "copy_string FfbmString s = (if length FfbmString \<le> length s then FfbmString else patch FfbmString 0 (s @ [0]))"

definition GetFfbmCommand :: "misc_env \<Rightarrow> bytes \<Rightarrow> u32 \<Rightarrow> dev_log \<Rightarrow> (efi_status \<times> bytes) option" where
  "GetFfbmCommand E FfbmString Sz log =
     (case MiscGuid E of
        Inl st \<Rightarrow> Some (st, FfbmString)
      | Inr Ptype \<Rightarrow>
          do { (Status, Msg) \<leftarrow> ReadFromPartition E Ptype Sz log;
               if Status \<noteq> EFI_SUCCESS then Some (Status, FfbmString)
               else do {
                 FfbmData \<leftarrow> Msg;
                 FfbmData \<leftarrow> put (unat (Sz - 1)) [0] FfbmData;
                 let s = takeWhile (\<lambda>b. b \<noteq> 0) FfbmData;
                 if take 4 s = ascii ''qmmi'' \<or> take 7 s = ascii ''ffbm-02''
                 then Some (EFI_SUCCESS, copy_string FfbmString (ascii ''qmmi''))
                 else if take 5 s = ascii ''ffbm-'' then Some (EFI_SUCCESS, copy_string FfbmString s)
                 else Some (EFI_NOT_FOUND, FfbmString) } })"

section \<open>Merge status\<close>

text \<open>\<open>VirtualAbMsg\<close> is the static pointer, null at first.\<close>

definition GetSnapshotMergeStatus :: "misc_env \<Rightarrow> bytes option \<Rightarrow> dev_log \<Rightarrow> (u8 \<times> bytes option) option" where
  "GetSnapshotMergeStatus E VirtualAbMsg log =
     (case VirtualAbMsg of
        Some m \<Rightarrow> do { s \<leftarrow> rd m 5 1; Some (hd s, VirtualAbMsg) }
      | None \<Rightarrow>
          if MiscCard E = NAND then Some (0, None)
          else do {
            PageSize \<leftarrow> GetPageSize (MiscDb E) (MiscCard E);
            (Status, Msg) \<leftarrow> ReadFromPartitionOffset E gEfiMiscPartitionGuid PageSize MISC_VIRTUALAB_OFFSET log;
            if Status \<noteq> EFI_SUCCESS then Some (0, Msg)
            else do {
              m \<leftarrow> Msg;
              Magic \<leftarrow> rd32 m 1;
              Version \<leftarrow> rd m 0 1;
              if Magic \<noteq> MISC_VIRTUAL_AB_MAGIC_HEADER \<or> hd Version \<noteq> MISC_VIRTUAL_AB_MESSAGE_VERSION then Some (0, None)
              else do { s \<leftarrow> rd m 5 1; Some (hd s, Some m) } } })"

definition WriteVirtualABMessage :: "misc_env \<Rightarrow> bytes \<Rightarrow> dev_log \<Rightarrow> (efi_status \<times> dev_log) option" where
  "WriteVirtualABMessage E Msg log =
     (if MiscCard E = NAND then Some (EFI_UNSUPPORTED, log)
      else do {
        PageSize \<leftarrow> GetPageSize (MiscDb E) (MiscCard E);
        r \<leftarrow> Type_handle (MiscDb E) gEfiMiscPartitionGuid;
        case r of
          Inl st \<Rightarrow> Some (st, log)
        | Inr h \<Rightarrow>
            if MediaBlockSize (BlkIo h) = 0 then None
            else WriteBlockToPartition (Some (BlkIo h)) True False (MiscSplit E)
                   (ucast (MISC_VIRTUALAB_OFFSET div MediaBlockSize (BlkIo h))) (ucast PageSize) (Some Msg) log })"

definition SetSnapshotMergeStatus ::
  "misc_env \<Rightarrow> u8 \<Rightarrow> bytes option \<Rightarrow> dev_log \<Rightarrow> (efi_status \<times> bytes option \<times> dev_log) option" where
  "SetSnapshotMergeStatus E MergeStatus VirtualAbMsg log =
     (case VirtualAbMsg of
        None \<Rightarrow> Some (EFI_NOT_FOUND, None, log)
      | Some m \<Rightarrow>
          do { OldMergeStatus \<leftarrow> rd m 5 1;
               m' \<leftarrow> put 5 [MergeStatus] m;
               (Status, log) \<leftarrow> WriteVirtualABMessage E m' log;
               if Status \<noteq> EFI_SUCCESS
               then do { m' \<leftarrow> put 5 OldMergeStatus m'; Some (Status, Some m', log) }
               else Some (Status, Some m', log) })"

section \<open>Properties\<close>

lemma length_ascii [simp]: "length (ascii s) = length s"
  by (simp add: ascii_def)

lemma ascii_append: "ascii (s @ t) = ascii s @ ascii t"
  by (simp add: ascii_def)

lemma take_ascii: "take n (ascii s) = ascii (take n s)"
  by (simp add: ascii_def take_map)

lemma ord8_less: "ord8 c < 256"
  by (simp add: ord8_def)

lemma ascii_char_inj: "(word_of_nat (ord8 c) :: u8) = word_of_nat (ord8 c') \<longleftrightarrow> c = c'"
proof -
  have "unat (word_of_nat (ord8 c) :: u8) = ord8 c" for c
    using ord8_less [of c] by (simp add: unsigned_of_nat take_bit_nat_eq_self)
  then have "(word_of_nat (ord8 c) :: u8) = word_of_nat (ord8 c') \<longleftrightarrow> ord8 c = ord8 c'" by (simp add: word_unat_eq_iff)
  then show ?thesis by (simp add: ord8_def)
qed

lemma ascii_inj [simp]: "ascii s = ascii t \<longleftrightarrow> s = t"
proof -
  have "inj (\<lambda>c. word_of_nat (ord8 c) :: u8)" by (rule injI) (simp add: ascii_char_inj)
  then show ?thesis by (simp add: ascii_def)
qed

lemma serves_append:
  "serves D d log \<Longrightarrow> serves D (paint (unat (MediaBlockSize D)) ws d) (log @ as_ops (DevId D) ws)"
proof -
  assume s: "serves D d log"
  have "BlkRead D ((log @ as_ops (DevId D) ws) @ as_ops (DevId D) ws') lba n =
      (EFI_SUCCESS, take n (drop (unat lba * unat (MediaBlockSize D))
         (paint (unat (MediaBlockSize D)) ws' (paint (unat (MediaBlockSize D)) ws d))))" for ws' lba n
    using s [unfolded serves_def, rule_format, of "ws @ ws'" lba n] by (simp add: as_ops_def paint_append)
  then show ?thesis by (simp add: serves_def)
qed

text \<open>
  The misc partition \<open>g\<close> is on the device \<open>D\<close> with content \<open>d\<close>, and its block size is the page size of the root device.
\<close>

definition misc_on :: "misc_env \<Rightarrow> bytes \<Rightarrow> blk_env \<Rightarrow> bytes \<Rightarrow> dev_log \<Rightarrow> bool" where
  "misc_on E g D d log \<longleftrightarrow>
     MiscGuid E = Inr g \<and> (\<exists>h. Type_handle (MiscDb E) g = Some (Inr h) \<and> BlkIo h = D) \<and>
     GetPageSize (MiscDb E) (MiscCard E) = Some (MediaBlockSize D) \<and>
     block_size (MediaBlockSize D) \<and> writes_ok D \<and> BlkPoolOk D \<and> serves D d log \<and>
     length d = (unat (MediaLastBlock D) + 1) * unat (MediaBlockSize D) \<and> length d < 2 ^ 64 \<and>
     2 * unat (MediaBlockSize D) \<le> length d"

lemma misc_on_size:
  assumes "misc_on E g D d log"
  shows "2 * unat (MediaBlockSize D) \<le> length d" "length d < 2 ^ 64"
    "length d = (unat (MediaLastBlock D) + 1) * unat (MediaBlockSize D)"
  using assms unfolding misc_on_def by blast+

lemma misc_on_after:
  assumes "misc_on E g D d log" "length (paint (unat (MediaBlockSize D)) ws d) = length d"
  shows "misc_on E g D (paint (unat (MediaBlockSize D)) ws d) (log @ as_ops (DevId D) ws)"
  using assms(1) serves_append [of D d log ws] unfolding misc_on_def assms(2) by blast

lemma two_pages:
  assumes "block_size P"
  shows "unat (ROUND_TO_PAGE (ucast (P * 2)) (P - 1)) = 2 * unat P"
proof -
  have "\<forall>k \<le> 20. ROUND_TO_PAGE (ucast ((2 :: u32) ^ k * 2)) (2 ^ k - 1) = ucast ((2 :: u32) ^ k) * 2"
    by code_simp
  then have "ROUND_TO_PAGE (ucast (P * 2)) (P - 1) = ucast P * 2" using assms by (auto simp: block_size_def)
  moreover have "unat (ucast P * 2 :: u64) = unat P * 2"
    using unsigned_less [of P, where ?'a = nat] by (simp add: unat_word_ariths unat_ucast32)
  ultimately show ?thesis by simp
qed

lemma Recovery_pages_exact:
  assumes "misc_on E g D d log"
  shows "Recovery_pages E log =
    Some (Inr (g, take (2 * unat (MediaBlockSize D)) d, if MiscCard E = NAND then unat (MediaBlockSize D) else 0))"
proof -
  obtain h where h: "Type_handle (MiscDb E) g = Some (Inr h)" "BlkIo h = D" using assms by (auto simp: misc_on_def)
  let ?bs = "MediaBlockSize D"
  have bs: "block_size ?bs" using assms by (simp add: misc_on_def)
  have nz: "?bs \<noteq> 0" using unat_block_size(1) [OF bs] by auto
  have PS: "unat (GetPartitionSize (Some (MediaLastBlock D, ?bs))) = length d"
    using misc_on_size(2) [OF assms] unfolding GetPartitionSize_exact misc_on_size(3) [OF assms] by simp
  have "\<not> ROUND_TO_PAGE (ucast (?bs * 2)) (?bs - 1) > GetPartitionSize (Some (MediaLastBlock D, ?bs))"
    using misc_on_size(1) [OF assms] by (simp add: word_less_nat_alt two_pages [OF bs] PS)
  moreover have "GetPartitionSize (Some (MediaLastBlock D, ?bs)) \<noteq> 0"
    using PS misc_on_size(1) [OF assms] unat_block_size(1) [OF bs] by auto
  moreover have "BlkRead D log 0 (2 * unat ?bs) = (EFI_SUCCESS, take (2 * unat ?bs) d)"
    using assms [unfolded misc_on_def serves_def] by (metis append_Nil2 as_ops_simps(1) drop0 mult_zero_left paint.simps(1) unsigned_0)
  ultimately have "ReadFromPartition E g (?bs * 2) log = Some (EFI_SUCCESS, Some (take (2 * unat ?bs) d))"
    using assms h nz by (simp add: ReadFromPartition_def ReadFromPartitionOffset_def Let_def two_pages [OF bs] misc_on_def)
  then show ?thesis using assms by (simp add: Recovery_pages_def misc_on_def)
qed

text \<open>Whether a command asks for a boot into recovery.\<close>

definition asks_recovery :: "misc_env \<Rightarrow> string \<Rightarrow> bool" where
  "asks_recovery E cmd \<longleftrightarrow> take 13 cmd = RECOVERY_BOOT_RECOVERY \<or>
     IsDynamicPartitionSupport E \<and> take 13 cmd = RECOVERY_BOOT_FASTBOOT"

lemma command_match:
  assumes "length s = 13" "NUL \<notin> set s"
  shows "take 13 (ascii cmd @ 0 # r) = ascii s \<longleftrightarrow> take 13 cmd = s"
proof (cases "length cmd < 13")
  case True
  have "take 13 cmd \<noteq> s" using True assms(1) by auto
  moreover have "take 13 (ascii cmd @ 0 # r) \<noteq> ascii s"
  proof
    assume "take 13 (ascii cmd @ 0 # r) = ascii s"
    then have "ascii s ! length cmd = take 13 (ascii cmd @ 0 # r) ! length cmd" by simp
    also have "\<dots> = 0" using True by (simp add: nth_append)
    finally have "word_of_nat (ord8 (s ! length cmd)) = (word_of_nat (ord8 NUL) :: u8)"
      using True assms(1) by (simp add: ascii_def ord8_def)
    then have "s ! length cmd = NUL" by (simp add: ascii_char_inj)
    then show False using True assms by (metis nth_mem)
  qed
  ultimately show ?thesis by simp
next
  case False
  then show ?thesis by (simp add: take_ascii)
qed

lemma RecoveryInit_command:
  assumes "Recovery_pages E log = Some (Inr (g, B, p))" "p + 32 \<le> length B"
  shows "RecoveryInit E log = Some (EFI_SUCCESS, take 13 (drop p B) = ascii RECOVERY_BOOT_RECOVERY \<or>
    IsDynamicPartitionSupport E \<and> take 13 (drop p B) = ascii RECOVERY_BOOT_FASTBOOT)"
proof -
  have "put (31 + p) [0] B = Some (patch B (31 + p) [0])" using assms(2) by (intro put_Some) simp
  moreover have "rd (patch B (31 + p) [0]) p 32 = Some (take 31 (drop p B) @ [0])"
    using assms(2) by (auto simp: rd_def patch_def drop_take min_def)
  moreover have "take 13 (take 31 (drop p B) @ [0]) = take 13 (drop p B)" using assms(2) by simp
  ultimately show ?thesis using assms(1) by (simp add: RecoveryInit_def COMMAND_SIZE_def)
qed

lemma RecoveryInit_exact:
  assumes "misc_on E g D d log" "MiscCard E \<noteq> NAND" "32 \<le> 2 * unat (MediaBlockSize D)" "take (length cmd + 1) d = ascii cmd @ [0]"
  shows "RecoveryInit E log = Some (EFI_SUCCESS, asks_recovery E cmd)"
proof -
  let ?B = "take (2 * unat (MediaBlockSize D)) d"
  have "d = ascii cmd @ 0 # drop (length cmd + 1) d"
    using append_take_drop_id [of "length cmd + 1" d] assms(4) by (simp only: append_assoc append_Cons append_Nil)
  then obtain r where d: "d = ascii cmd @ 0 # r" by blast
  have "take 13 ?B = take 13 (ascii cmd @ 0 # r)" using assms(3) unfolding d [symmetric] by simp
  then show ?thesis
    using RecoveryInit_command [of E log g ?B 0] Recovery_pages_exact [OF assms(1)] assms(2,3) misc_on_size(1) [OF assms(1)]
      command_match [of RECOVERY_BOOT_RECOVERY cmd r] command_match [of RECOVERY_BOOT_FASTBOOT cmd r]
    by (simp add: asks_recovery_def RECOVERY_BOOT_RECOVERY_def RECOVERY_BOOT_FASTBOOT_def)
qed

lemma patch_prefix:
  assumes "length c \<le> k" "k \<le> n" "n \<le> length d"
  shows "patch d 0 (take k (patch (take n d) 0 c)) = patch d 0 c"
proof -
  have "take (k - length c) (drop (length c) d) @ drop k d = drop (length c) d"
    using append_take_drop_id [of "k - length c" "drop (length c) d"] assms by simp
  then show ?thesis using assms by (simp add: patch_def drop_take min_def)
qed

lemma WriteRecoveryMessage_write:
  assumes "misc_on E g D d log" "length cmd < 32" "p + 32 \<le> 2 * unat (MediaBlockSize D)"
    and "p = (if MiscCard E = NAND then unat (MediaBlockSize D) else 0)"
  shows "WriteRecoveryMessage E cmd log =
    WriteBlockToPartition (Some D) True (MiscCard E = NAND) (MiscSplit E) 0 1088
      (Some (drop p (patch (take (2 * unat (MediaBlockSize D)) d) p (ascii cmd @ [0])))) log"
proof -
  obtain h where h: "Type_handle (MiscDb E) g = Some (Inr h)" "BlkIo h = D" using assms(1) by (auto simp: misc_on_def)
  let ?D = "take (2 * unat (MediaBlockSize D)) d"
  have "put p (ascii cmd @ [0]) ?D = Some (patch ?D p (ascii cmd @ [0]))"
    using assms(2,3) misc_on_size(1) [OF assms(1)] by (intro put_Some) simp
  then have "AsciiStrnCpyS ?D p COMMAND_SIZE cmd = Some (EFI_SUCCESS, patch ?D p (ascii cmd @ [0]))"
    using assms(2) by (simp add: AsciiStrnCpyS_def COMMAND_SIZE_def)
  then show ?thesis
    using h assms(4) Recovery_pages_exact [OF assms(1)]
    by (simp add: WriteRecoveryMessage_def WriteToPartition_def RecoveryMessage_size_def)
qed

text \<open>
  C31: On eMMC and UFS with pages of at least 1024 bytes, writing a recovery command replaces exactly the command string at
  the start of the misc partition, keeps every other byte, and \<open>RecoveryInit\<close> then reads the same command back: it boots into
  recovery exactly when the command asks for it.
\<close>

theorem WriteRecoveryMessage_roundtrip:
  assumes "misc_on E g D d log" "MiscCard E \<noteq> NAND" "length cmd < 32" "1088 \<le> 2 * unat (MediaBlockSize D)"
  shows "\<exists>ws. WriteRecoveryMessage E cmd log = Some (EFI_SUCCESS, log @ as_ops (DevId D) ws) \<and>
    paint (unat (MediaBlockSize D)) ws d = patch d 0 (ascii cmd @ [0]) \<and>
    RecoveryInit E (log @ as_ops (DevId D) ws) = Some (EFI_SUCCESS, asks_recovery E cmd)"
proof -
  let ?bs = "unat (MediaBlockSize D)" and ?c = "ascii cmd @ [0]"
  let ?m = "patch (take (2 * ?bs) d) 0 ?c"
  note len = misc_on_size [OF assms(1)]
  have lm: "length ?m = 2 * ?bs" using assms(3,4) len(1) by (subst length_patch) simp_all
  have "(1088 + ?bs - 1) div ?bs < 3" using assms(4) by (intro div_less_iff_less_mult [THEN iffD2]) linarith+
  then have "(1088 + ?bs - 1) div ?bs * ?bs \<le> 2 * ?bs" by (intro mult_le_mono1) simp
  then have "(1088 + ?bs - 1) div ?bs * ?bs \<le> length d" using len(1) by (rule le_trans)
  then have room: "(unat (0 :: u64) + (unat (1088 :: u64) + ?bs - 1) div ?bs) * ?bs \<le> length d" by simp
  have ok: "block_size (MediaBlockSize D)" "writes_ok D" "BlkPoolOk D" "serves D d log"
    using assms(1) by (simp_all add: misc_on_def)
  obtain ws where ws: "WriteBlockToPartition (Some D) True False (MiscSplit E) 0 1088 (Some ?m) log = Some (EFI_SUCCESS, log @ as_ops (DevId D) ws)"
      "paint ?bs ws d = patch d (unat (0 :: u64) * ?bs) (take (unat (1088 :: u64)) ?m)"
    using Write_exact [OF ok, of 1088 ?m 0 True "MiscSplit E"] lm assms(4) len(2) room by auto
  have eff: "paint ?bs ws d = patch d 0 ?c"
    using ws(2) patch_prefix [of ?c 1088 "2 * ?bs" d] assms(3,4) len(1) by simp
  then have "length (paint ?bs ws d) = length d" using assms(3,4) len(1) by simp
  then have on: "misc_on E g D (paint ?bs ws d) (log @ as_ops (DevId D) ws)" by (rule misc_on_after [OF assms(1)])
  have pre: "take (length cmd + 1) (paint ?bs ws d) = ascii cmd @ [0]" by (simp add: eff patch_def)
  have "RecoveryInit E (log @ as_ops (DevId D) ws) = Some (EFI_SUCCESS, asks_recovery E cmd)"
    by (rule RecoveryInit_exact [OF on assms(2) _ pre]) (use assms(4) in simp)
  then show ?thesis
    using ws(1) eff WriteRecoveryMessage_write [OF assms(1,3), of 0] assms(2,4) by auto
qed

text \<open>
  With pages of 512 bytes, the block size of an eMMC device, the two pages read are shorter than the message: the write of
  the message back to the partition reads past the end of the buffer.
\<close>

theorem WriteRecoveryMessage_small_pages:
  assumes "misc_on E g D d log" "MiscCard E \<noteq> NAND" "length cmd < 32" "MediaBlockSize D = 512"
  shows "WriteRecoveryMessage E cmd log = None"
proof -
  let ?m = "patch (take 1024 d) 0 (ascii cmd @ [0])"
  note len = misc_on_size [OF assms(1), unfolded assms(4)]
  have lm: "length ?m = 1024" using assms(3) len(1) by (subst length_patch) simp_all
  have ok: "block_size (MediaBlockSize D)" "writes_ok D" "BlkPoolOk D" "serves D d log"
    using assms(1) by (simp_all add: misc_on_def)
  have W: "whole 1088 512 = 1024" by (simp add: whole_def)
  have "\<exists>ofs ws. Write_blocks D 512 (MiscSplit E) 0 1088 ?m log = Write_tail D 512 1088 1024 ?m ofs (log @ as_ops (DevId D) ws)"
    using Write_blocks_loop [OF ok(1), of D 1088 ?m 0 "MiscSplit E" log] assms(4) lm W ok(2) by auto
  then obtain ofs ws where eq: "Write_blocks D 512 (MiscSplit E) 0 1088 ?m log =
      Write_tail D 512 1088 1024 ?m ofs (log @ as_ops (DevId D) ws)" by blast
  have "BlkRead D (log @ as_ops (DevId D) ws) ofs 512 = (EFI_SUCCESS, snd (BlkRead D (log @ as_ops (DevId D) ws) ofs 512))"
    using ok(4) by (simp add: serves_def)
  then have "Write_tail D 512 1088 1024 ?m ofs (log @ as_ops (DevId D) ws) = None"
    using ok(3) lm by (cases "BlkRead D (log @ as_ops (DevId D) ws) ofs 512") (simp add: Write_tail_def rd_def)
  then have "Write_blocks D 512 (MiscSplit E) 0 1088 ?m log = None" using eq by simp
  then show ?thesis
    using WriteRecoveryMessage_write [OF assms(1,3), of 0] assms(2,4) by (simp add: WriteBlockToPartition_def)
qed

text \<open>
  C32: On NAND the round trip fails. The message is read from the second page, as the comment says, but written to the start
  of the partition: whatever command is written, \<open>RecoveryInit\<close> behaves as before, and the first bytes of the first page, where the A/B
  attributes of the slots are kept, are overwritten by the command.
\<close>

theorem WriteRecoveryMessage_nand:
  assumes "misc_on E g D d log" "MiscCard E = NAND" "length cmd < 32" "1088 \<le> unat (MediaBlockSize D)"
    and "EraseProtocol D = (EFI_SUCCESS, G)" "1088 < unat G" "unat G \<le> length d"
  shows "\<exists>ws. WriteRecoveryMessage E cmd log = Some (EFI_SUCCESS, log @ as_ops (DevId D) ws) \<and>
    RecoveryInit E (log @ as_ops (DevId D) ws) = RecoveryInit E log \<and>
    take (length cmd) (paint (unat (MediaBlockSize D)) ws d) = ascii cmd"
proof -
  let ?bs = "unat (MediaBlockSize D)" and ?c = "ascii cmd @ [0]"
  define m where "m = drop ?bs (patch (take (2 * ?bs) d) ?bs ?c)"
  define buf where "buf = patch (take (unat G) d) 0 (take 1088 m)"
  note len = misc_on_size [OF assms(1)]
  have m: "m = patch (take ?bs (drop ?bs d)) 0 ?c" "length m = ?bs"
    using len(1) assms(3,4) by (simp_all add: m_def patch_def drop_take add.commute)
  have lb: "length buf = unat G" using m(2) assms(4,6,7) unfolding buf_def by (subst length_patch) simp_all
  have ok: "writes_ok D" "BlkPoolOk D" "serves D d log" using assms(1) by (simp_all add: misc_on_def)
  have rd0: "BlkRead D log 0 (unat G) = (EFI_SUCCESS, take (unat G) d)"
    using ok(3) [unfolded serves_def, rule_format, of "[]" 0 "unat G"] by simp
  have "(1088 :: u64) < ucast G" using assms(6) by (simp add: word_less_nat_alt unat_ucast32)
  then have "(1088 :: u64) div ucast G = 0" by (simp add: div_word_less)
  moreover have "G \<noteq> 0" using assms(6) by auto
  moreover have "rd m 0 1088 = Some (take 1088 m)" using m(2) assms(4) by (simp add: rd_def)
  moreover have "put 0 (take 1088 m) (take (unat G) d) = Some buf"
    unfolding buf_def using m(2) assms(4,6,7) by (intro put_Some) simp
  ultimately have "Write_blocks D G (MiscSplit E) 0 1088 m log = Some (EFI_SUCCESS, log @ as_ops (DevId D) [(0, buf)])"
    using rd0 ok(1,2) by (simp add: Write_blocks_def Write_tail_def Write_loop.simps writes_ok_def as_ops_def)
  then have w: "WriteRecoveryMessage E cmd log = Some (EFI_SUCCESS, log @ as_ops (DevId D) [(0, buf)])"
    using WriteRecoveryMessage_write [OF assms(1,3), of ?bs] assms(2,4,5) by (simp add: WriteBlockToPartition_def m_def)
  have eff: "paint ?bs [(0, buf)] d = patch d 0 (take 1088 m)"
    using patch_merge [of 0 "unat G" d "take 1088 m"] m(2) assms(4,6,7) by (simp add: buf_def)
  then have "length (paint ?bs [(0, buf)] d) = length d" using m(2) assms(4) len(1) by simp
  then have on: "misc_on E g D (paint ?bs [(0, buf)] d) (log @ as_ops (DevId D) [(0, buf)])" by (rule misc_on_after [OF assms(1)])
  have "RecoveryInit E (log @ as_ops (DevId D) [(0, buf)]) = RecoveryInit E log"
    using RecoveryInit_command [OF Recovery_pages_exact [OF on]] RecoveryInit_command [OF Recovery_pages_exact [OF assms(1)]]
      assms(2,4) len(1) m(2) unfolding eff by (simp add: patch_def drop_take)
  moreover have "take (length cmd) (paint ?bs [(0, buf)] d) = ascii cmd"
    using eff m assms(3,4) by (simp add: patch_def)
  ultimately show ?thesis using w by blast
qed

section \<open>Examples\<close>

text \<open>A device that keeps its content in memory, of two blocks, with the misc partition of a board on it.\<close>

definition log_writes :: "dev_log \<Rightarrow> (u64 \<times> bytes) list" where
  "log_writes log = map (\<lambda>(i, op). case op of WriteOp l x \<Rightarrow> (l, x) | EraseOp \<Rightarrow> (0, [])) log"

lemma log_writes_as_ops [simp]: "log_writes (as_ops i ws) = ws"
  by (induction ws) (auto simp: log_writes_def as_ops_def)

definition mem_dev :: "u32 \<Rightarrow> bytes \<Rightarrow> blk_env" where
  "mem_dev bs d =
     \<lparr> DevId = 0, MediaBlockSize = bs, MediaLastBlock = 1, EraseProtocol = (EFI_SUCCESS, 2048), EraseResult = EFI_SUCCESS,
       BlkPoolOk = True, BlkWrite = \<lambda>log lba x. EFI_SUCCESS,
       BlkRead = \<lambda>log lba n. (EFI_SUCCESS, take n (drop (unat lba * unat bs) (paint (unat bs) (log_writes log) d))) \<rparr>"

definition misc_board :: "MemCardType \<Rightarrow> u32 \<Rightarrow> misc_env" where
  "misc_board t bs =
     \<lparr> MiscDb = \<lparr> FsHandles = (EFI_SUCCESS, []),
         BlkHandles = (EFI_SUCCESS, [(sample_handle 0 gEfiMiscPartitionGuid)
           \<lparr> BlkIo := mem_dev bs (replicate (2 * unat bs) 0),
             DevicePath := Some [\<lparr> NodeType = 1, NodeSubType = 4, NodeLength = 20, NodeGuid = the (root_guid t), MBRType = 0 \<rparr>,
                                 \<lparr> NodeType = 4, NodeSubType = 1, NodeLength = 42, NodeGuid = [], MBRType = 2 \<rparr>] \<rparr>]) \<rparr>,
       MiscCard = t, NandMiscGuid = (EFI_SUCCESS, gEfiMiscPartitionGuid), MiscSplit = False, IsDynamicPartitionSupport = False \<rparr>"

lemma misc_board_on:
  assumes "block_size bs" "root_guid t = Some r"
  shows "misc_on (misc_board t bs) gEfiMiscPartitionGuid (mem_dev bs (replicate (2 * unat bs) 0)) (replicate (2 * unat bs) 0) []"
proof -
  define h where "h = hd (snd (BlkHandles (MiscDb (misc_board t bs))))"
  have hs: "BlkHandles (MiscDb (misc_board t bs)) = (EFI_SUCCESS, [h])" by (simp add: h_def misc_board_def)
  have h: "usable h" "has_type gEfiMiscPartitionGuid h" "on_root r h" "BlkIo h = mem_dev bs (replicate (2 * unat bs) 0)"
    using assms(2) by (simp_all add: h_def misc_board_def sample_handle_def usable_def has_type_def hard_drive_def on_root_def)
  then have us: "\<forall>h \<in> set [h]. usable h" by simp
  have "MiscGuid (misc_board t bs) = Inr gEfiMiscPartitionGuid" by (simp add: MiscGuid_def misc_board_def)
  moreover have "Type_handle (MiscDb (misc_board t bs)) gEfiMiscPartitionGuid = Some (Inr h)"
    using h(2) by (simp add: Type_handle_first [OF hs us])
  moreover have "MiscCard (misc_board t bs) = t" by (simp add: misc_board_def)
  then have "GetPageSize (MiscDb (misc_board t bs)) (MiscCard (misc_board t bs)) = Some bs"
    using h(3,4) assms(2) by (simp add: GetPageSize_exact [OF hs us, of t r] mem_dev_def)
  moreover have "serves (mem_dev bs (replicate (2 * unat bs) 0)) (replicate (2 * unat bs) 0) []"
    by (simp add: serves_def mem_dev_def)
  moreover have "2 * unat bs < 2 ^ 64" using unsigned_less [of bs, where ?'a = nat] by simp
  ultimately show ?thesis using assms(1) h(4) by (auto simp: misc_on_def mem_dev_def writes_ok_def)
qed

lemma block_size_1024: "block_size 1024" "block_size 512" "block_size 2048"
  unfolding block_size_def by (rule exI [of _ 10], simp) (rule exI [of _ 9], simp, rule exI [of _ 11], simp)

theorem WriteRecoveryMessage_roundtrip_witness:
  "\<exists>ws. WriteRecoveryMessage (misc_board UFS 1024) ''boot-recovery'' [] = Some (EFI_SUCCESS, as_ops 0 ws) \<and>
    RecoveryInit (misc_board UFS 1024) (as_ops 0 ws) = Some (EFI_SUCCESS, True)"
  using WriteRecoveryMessage_roundtrip [OF misc_board_on [OF block_size_1024(1), of UFS "the (root_guid UFS)"], of "''boot-recovery''"]
  by (auto simp: root_guid_def misc_board_def mem_dev_def asks_recovery_def RECOVERY_BOOT_RECOVERY_def)

theorem WriteRecoveryMessage_small_pages_witness:
  "WriteRecoveryMessage (misc_board EMMC 512) ''boot-recovery'' [] = None"
  using WriteRecoveryMessage_small_pages [OF misc_board_on [OF block_size_1024(2), of EMMC "the (root_guid EMMC)"], of "''boot-recovery''"]
  by (simp add: root_guid_def misc_board_def mem_dev_def)

theorem WriteRecoveryMessage_nand_witness:
  "\<exists>ws. WriteRecoveryMessage (misc_board NAND 2048) ''boot-recovery'' [] = Some (EFI_SUCCESS, as_ops 0 ws) \<and>
    RecoveryInit (misc_board NAND 2048) (as_ops 0 ws) = RecoveryInit (misc_board NAND 2048) []"
proof -
  have "EraseProtocol (mem_dev 2048 (replicate (2 * unat (2048 :: u32)) 0)) = (EFI_SUCCESS, 2048)" by (simp add: mem_dev_def)
  then show ?thesis
    using WriteRecoveryMessage_nand [OF misc_board_on [OF block_size_1024(3), of NAND "the (root_guid NAND)"], of "''boot-recovery''" 2048]
    by (auto simp: root_guid_def misc_board_def mem_dev_def)
qed

end
