(* ===== verification/Device_Info.thy ===== *)
theory Device_Info
  imports Misc_Partition
begin

text \<open>
  The device state of the Android loader (\<^verbatim>\<open>BootLib/DeviceInfo.c\<close>): the lock flags, version strings, the key of the user, the
  rollback indices and the display command line, in one static structure. The calls that would load and store it are
  commented out in the source, so the model has no storage for it: \<open>power_on\<close> is the state after every reset.
\<close>

section \<open>Data\<close>

record DeviceInfo =
  magic :: bytes
  is_unlocked :: bool
  is_unlock_critical :: bool
  is_charger_screen_enabled :: bool
  bootloader_version :: bytes
  radio_version :: bytes
  verity_mode :: bool
  user_public_key_length :: u32
  user_public_key :: bytes
  rollback_index :: "u64 list"
  Display_Cmdline :: bytes

record dev_state =
  DevInfo :: DeviceInfo
  FirstReadDevInfo :: bool

datatype unlock_type = UNLOCK | UNLOCK_CRITICAL | OtherUnlockType

definition DEVICE_MAGIC :: bytes where "DEVICE_MAGIC = ascii ''ANDROID-BOOT!''"
definition DEVICE_MAGIC_SIZE :: nat where "DEVICE_MAGIC_SIZE = 13"
definition MAX_VERSION_LEN :: nat where "MAX_VERSION_LEN = 64"
definition MAX_VB_PARTITIONS :: nat where "MAX_VB_PARTITIONS = 32"
definition MAX_USER_KEY_SIZE :: nat where "MAX_USER_KEY_SIZE = 2048"
definition MAX_DISPLAY_CMDLINE_LEN :: nat where "MAX_DISPLAY_CMDLINE_LEN = 128"

lemmas size_defs = DEVICE_MAGIC_SIZE_def MAX_VERSION_LEN_def MAX_VB_PARTITIONS_def MAX_USER_KEY_SIZE_def MAX_DISPLAY_CMDLINE_LEN_def

definition zero_info :: DeviceInfo where
  "zero_info =
     \<lparr> magic = replicate DEVICE_MAGIC_SIZE 0, is_unlocked = False, is_unlock_critical = False, is_charger_screen_enabled = False,
       bootloader_version = replicate MAX_VERSION_LEN 0, radio_version = replicate MAX_VERSION_LEN 0, verity_mode = False,
       user_public_key_length = 0, user_public_key = replicate MAX_USER_KEY_SIZE 0,
       rollback_index = replicate MAX_VB_PARTITIONS 0, Display_Cmdline = replicate MAX_DISPLAY_CMDLINE_LEN 0 \<rparr>"

text \<open>Static variables before any code ran.\<close>

definition power_on :: dev_state where
  "power_on = \<lparr> DevInfo = zero_info, FirstReadDevInfo = True \<rparr>"

section \<open>Initialisation\<close>

definition IsSecureBootEnabled :: bool where "IsSecureBootEnabled = False"

definition First_read :: "DeviceInfo \<Rightarrow> DeviceInfo" where
  "First_read D =
     D\<lparr> magic := patch (magic D) 0 DEVICE_MAGIC, is_unlocked := True, is_unlock_critical := True, is_charger_screen_enabled := False,
        bootloader_version := patch (bootloader_version D) 0 (ascii ''1.0.0.0''),
        radio_version := patch (radio_version D) 0 (ascii ''1.0.0.0''),
        verity_mode := False, user_public_key_length := 0 \<rparr>"

definition Reset_info :: DeviceInfo where
  "Reset_info =
     zero_info\<lparr> magic := DEVICE_MAGIC, is_unlocked := \<not> IsSecureBootEnabled, is_unlock_critical := \<not> IsSecureBootEnabled,
                is_charger_screen_enabled := False, verity_mode := True \<rparr>"

definition DeviceInfoInit :: "dev_state \<Rightarrow> efi_status \<times> dev_state" where
  "DeviceInfoInit S =
     (let S = (if FirstReadDevInfo S then S\<lparr>DevInfo := First_read (DevInfo S), FirstReadDevInfo := False\<rparr> else S)
      in (EFI_SUCCESS, if magic (DevInfo S) \<noteq> DEVICE_MAGIC then S\<lparr>DevInfo := Reset_info\<rparr> else S))"

section \<open>Flags and strings\<close>

definition EnableChargingScreen :: "bool \<Rightarrow> dev_state \<Rightarrow> efi_status \<times> dev_state" where
  "EnableChargingScreen IsEnabled S =
     (EFI_SUCCESS, if is_charger_screen_enabled (DevInfo S) \<noteq> IsEnabled
                   then S\<lparr>DevInfo := (DevInfo S)\<lparr>is_charger_screen_enabled := IsEnabled\<rparr>\<rparr> else S)"

definition EnableEnforcingMode :: "bool \<Rightarrow> dev_state \<Rightarrow> efi_status \<times> dev_state" where
  "EnableEnforcingMode IsEnabled S =
     (EFI_SUCCESS, if verity_mode (DevInfo S) \<noteq> IsEnabled
                   then S\<lparr>DevInfo := (DevInfo S)\<lparr>verity_mode := IsEnabled\<rparr>\<rparr> else S)"

definition StoreDisplayCmdLine :: "bytes \<Rightarrow> u32 \<Rightarrow> dev_state \<Rightarrow> (efi_status \<times> dev_state) option" where
  "StoreDisplayCmdLine CmdLine CmdLineLen S =
     (if unat CmdLineLen > MAX_DISPLAY_CMDLINE_LEN then Some (EFI_OUT_OF_RESOURCES, S)
      else do { c \<leftarrow> rd CmdLine 0 (unat CmdLineLen);
                d \<leftarrow> put 0 c (replicate MAX_DISPLAY_CMDLINE_LEN 0);
                Some (EFI_SUCCESS, S\<lparr>DevInfo := (DevInfo S)\<lparr>Display_Cmdline := d\<rparr>\<rparr>) })"

definition ReadDisplayCmdLine :: "dev_state \<Rightarrow> efi_status \<times> bytes \<times> u32" where
  "ReadDisplayCmdLine S = (EFI_SUCCESS, Display_Cmdline (DevInfo S), word_of_nat MAX_DISPLAY_CMDLINE_LEN)"

text \<open>
  A version array as a string, cut to the buffer of the caller; an array with no NUL is read past its end.
\<close>

definition print_version :: "bytes \<Rightarrow> u32 \<Rightarrow> bytes option" where
  "print_version v Len =
     (if 0 \<notin> set v then None else Some (take (unat Len - 1) (takeWhile (\<lambda>b. b \<noteq> 0) v)))"

definition GetBootloaderVersion :: "dev_state \<Rightarrow> u32 \<Rightarrow> bytes option" where
  "GetBootloaderVersion S Len = print_version (bootloader_version (DevInfo S)) Len"

definition GetRadioVersion :: "dev_state \<Rightarrow> u32 \<Rightarrow> bytes option" where
  "GetRadioVersion S Len = print_version (radio_version (DevInfo S)) Len"

text \<open>The copy and the concatenation leave the array alone when the string does not fit; their result is not looked at.\<close>

definition str_cpy :: "nat \<Rightarrow> string \<Rightarrow> bytes \<Rightarrow> bytes" where
  "str_cpy DestMax s v = (if DestMax \<le> length s then v else patch v 0 (ascii s @ [0]))"

definition str_cat :: "nat \<Rightarrow> string \<Rightarrow> bytes \<Rightarrow> bytes" where
  "str_cat DestMax s v =
     (let DestLen = length (takeWhile (\<lambda>b. b \<noteq> 0) v)
      in if DestMax - DestLen \<le> length s then v else patch v DestLen (ascii s @ [0]))"

definition set_version :: "string \<Rightarrow> string \<Rightarrow> bytes \<Rightarrow> bytes" where
  "set_version Product ImgVersion v =
     str_cat MAX_VERSION_LEN ImgVersion (str_cat MAX_VERSION_LEN ''-'' (str_cpy MAX_VERSION_LEN Product v))"

definition UpdateDevInfo :: "string \<Rightarrow> name16 \<Rightarrow> string \<Rightarrow> dev_state \<Rightarrow> efi_status \<times> dev_state" where
  "UpdateDevInfo Product Pname ImgVersion S =
     (EFI_SUCCESS,
      if Pname = wide ''bootloader''
      then S\<lparr>DevInfo := (DevInfo S)\<lparr>bootloader_version := set_version Product ImgVersion (bootloader_version (DevInfo S))\<rparr>\<rparr>
      else S\<lparr>DevInfo := (DevInfo S)\<lparr>radio_version := set_version Product ImgVersion (radio_version (DevInfo S))\<rparr>\<rparr>)"

section \<open>Rollback indices and user key\<close>

text \<open>An access to an element outside an array has no defined outcome.\<close>

definition elem :: "nat \<Rightarrow> 'a list \<Rightarrow> 'a option" where
  "elem i xs = (if i < length xs then Some (xs ! i) else None)"

definition set_elem :: "nat \<Rightarrow> 'a \<Rightarrow> 'a list \<Rightarrow> 'a list option" where
  "set_elem i x xs = (if i < length xs then Some (xs[i := x]) else None)"

definition ReadRollbackIndex :: "u32 \<Rightarrow> dev_state \<Rightarrow> (efi_status + u64) option" where
  "ReadRollbackIndex Loc S =
     (if FirstReadDevInfo S then Some (Inl EFI_NOT_STARTED)
      else if unat Loc \<ge> MAX_VB_PARTITIONS then Some (Inl EFI_INVALID_PARAMETER)
      else map_option Inr (elem (unat Loc) (rollback_index (DevInfo S))))"

definition WriteRollbackIndex :: "u32 \<Rightarrow> u64 \<Rightarrow> dev_state \<Rightarrow> (efi_status \<times> dev_state) option" where
  "WriteRollbackIndex Loc RollbackIndex S =
     (if FirstReadDevInfo S then Some (EFI_NOT_STARTED, S)
      else if unat Loc \<ge> MAX_VB_PARTITIONS then Some (EFI_INVALID_PARAMETER, S)
      else do { r \<leftarrow> set_elem (unat Loc) RollbackIndex (rollback_index (DevInfo S));
                Some (EFI_SUCCESS, S\<lparr>DevInfo := (DevInfo S)\<lparr>rollback_index := r\<rparr>\<rparr>) })"

definition StoreUserKey :: "bytes \<Rightarrow> u32 \<Rightarrow> dev_state \<Rightarrow> (efi_status \<times> dev_state) option" where
  "StoreUserKey UserKey UserKeySize S =
     (if FirstReadDevInfo S then Some (EFI_NOT_STARTED, S)
      else if unat UserKeySize > MAX_USER_KEY_SIZE then Some (EFI_OUT_OF_RESOURCES, S)
      else do { k \<leftarrow> rd UserKey 0 (unat UserKeySize);
                key \<leftarrow> put 0 k (user_public_key (DevInfo S));
                Some (EFI_SUCCESS, S\<lparr>DevInfo := (DevInfo S)\<lparr>user_public_key := key, user_public_key_length := UserKeySize\<rparr>\<rparr>) })"

definition EraseUserKey :: "dev_state \<Rightarrow> efi_status \<times> dev_state" where
  "EraseUserKey S =
     (if FirstReadDevInfo S then (EFI_NOT_STARTED, S)
      else (EFI_SUCCESS, S\<lparr>DevInfo := (DevInfo S)\<lparr>user_public_key := replicate MAX_USER_KEY_SIZE 0, user_public_key_length := 0\<rparr>\<rparr>))"

definition GetUserKey :: "dev_state \<Rightarrow> efi_status + bytes \<times> u32" where
  "GetUserKey S =
     (if FirstReadDevInfo S then Inl EFI_NOT_STARTED
      else Inr (user_public_key (DevInfo S), user_public_key_length (DevInfo S)))"

section \<open>Locking\<close>

definition SetUnlockValue :: "bool \<Rightarrow> dev_state \<Rightarrow> efi_status \<times> dev_state" where
  "SetUnlockValue State S =
     (EFI_SUCCESS, if is_unlocked (DevInfo S) \<noteq> State then S\<lparr>DevInfo := (DevInfo S)\<lparr>is_unlocked := State\<rparr>\<rparr> else S)"

definition SetUnlockCriticalValue :: "bool \<Rightarrow> dev_state \<Rightarrow> efi_status \<times> dev_state" where
  "SetUnlockCriticalValue State S =
     (EFI_SUCCESS, if is_unlock_critical (DevInfo S) \<noteq> State
                   then S\<lparr>DevInfo := (DevInfo S)\<lparr>is_unlock_critical := State\<rparr>\<rparr> else S)"

text \<open>The environment of verified boot: build options and the results of its protocol.\<close>

record vb_env =
  VerifiedBootEnbled :: bool
  AvbIsLE :: bool
  VbLocate :: efi_status
  VbReset :: efi_status

definition ResetDeviceState :: "vb_env \<Rightarrow> efi_status" where
  "ResetDeviceState V =
     (if \<not> VerifiedBootEnbled V \<or> AvbIsLE V then EFI_SUCCESS
      else if VbLocate V \<noteq> EFI_SUCCESS then VbLocate V
      else VbReset V)"

definition RECOVERY_WIPE_DATA :: string where
  "RECOVERY_WIPE_DATA = ''recovery'' @ [CHR 0x0A] @ ''--wipe_data'' @ [CHR 0x0A] @ ''--reason=MasterClearConfirm'' @ [CHR 0x0A] @
     ''--locale=en_US'' @ [CHR 0x0A]"

definition Set_flag :: "unlock_type \<Rightarrow> bool \<Rightarrow> dev_state \<Rightarrow> efi_status \<times> dev_state" where
  "Set_flag t State S =
     (case t of
        UNLOCK \<Rightarrow> SetUnlockValue State S
      | UNLOCK_CRITICAL \<Rightarrow> SetUnlockCriticalValue State S
      | OtherUnlockType \<Rightarrow> (EFI_UNSUPPORTED, S))"

definition SetDeviceUnlockValue ::
  "misc_env \<Rightarrow> vb_env \<Rightarrow> unlock_type \<Rightarrow> bool \<Rightarrow> dev_state \<Rightarrow> dev_log \<Rightarrow> (efi_status \<times> dev_state \<times> dev_log) option" where
  "SetDeviceUnlockValue E V t State S log =
     (case Set_flag t State S of (Status, S) \<Rightarrow>
        if Status \<noteq> EFI_SUCCESS then Some (Status, S, log)
        else if ResetDeviceState V \<noteq> EFI_SUCCESS then Some (ResetDeviceState V, snd (Set_flag t (\<not> State) S), log)
        else do {
          (Status, Msg) \<leftarrow> AsciiStrnCpyS (replicate RecoveryMessage_size 0) RECOVERY_OFFSET RECOVERY_SIZE RECOVERY_WIPE_DATA;
          if Status \<noteq> EFI_SUCCESS then Some (Status, S, log)
          else
            (case MiscGuid E of
               Inl st \<Rightarrow> Some (st, S, log)
             | Inr Ptype \<Rightarrow>
                 do { (Status, log) \<leftarrow> WriteToPartition (MiscDb E) (MiscCard E = NAND) (MiscSplit E) Ptype (Some Msg)
                        (word_of_nat RecoveryMessage_size) log;
                      Some (Status, S, log) }) })"

section \<open>Sizes are kept\<close>

definition wf_version :: "bytes \<Rightarrow> bool" where
  "wf_version v \<longleftrightarrow> length v = 64 \<and> v ! 63 = 0"

definition wf_info :: "DeviceInfo \<Rightarrow> bool" where
  "wf_info D \<longleftrightarrow> length (magic D) = 13 \<and> wf_version (bootloader_version D) \<and> wf_version (radio_version D) \<and>
     unat (user_public_key_length D) \<le> 2048 \<and> length (user_public_key D) = 2048 \<and>
     length (rollback_index D) = 32 \<and> length (Display_Cmdline D) = 128"

text \<open>
  The operations with their arguments, and a reset of the device. A run of operations, in any order and also before the initialisation,
  is a list of them; it is \<open>None\<close> as soon as one of them leaves an array.
\<close>

datatype dev_op =
    OpInit
  | OpCharging bool
  | OpEnforcing bool
  | OpDisplay bytes u32
  | OpVersion string name16 string
  | OpRollback u32 u64
  | OpKey bytes u32
  | OpNoKey
  | OpUnlock misc_env vb_env unlock_type bool dev_log
  | OpReset

fun dev_run :: "dev_op \<Rightarrow> dev_state \<Rightarrow> dev_state option" where
  "dev_run OpInit S = Some (snd (DeviceInfoInit S))"
| "dev_run (OpCharging b) S = Some (snd (EnableChargingScreen b S))"
| "dev_run (OpEnforcing b) S = Some (snd (EnableEnforcingMode b S))"
| "dev_run (OpDisplay c n) S = map_option snd (StoreDisplayCmdLine c n S)"
| "dev_run (OpVersion p n v) S = Some (snd (UpdateDevInfo p n v S))"
| "dev_run (OpRollback l r) S = map_option snd (WriteRollbackIndex l r S)"
| "dev_run (OpKey k n) S = map_option snd (StoreUserKey k n S)"
| "dev_run OpNoKey S = Some (snd (EraseUserKey S))"
| "dev_run (OpUnlock E V t b log) S = map_option (\<lambda>(st, S, log). S) (SetDeviceUnlockValue E V t b S log)"
| "dev_run OpReset S = Some power_on"

fun dev_runs :: "dev_op list \<Rightarrow> dev_state \<Rightarrow> dev_state option" where
  "dev_runs [] S = Some S"
| "dev_runs (x # xs) S = Option.bind (dev_run x S) (dev_runs xs)"

text \<open>
  What a caller has to respect: a buffer has at least the bytes that it is said to have, and the write of a message to the misc
  partition itself has a defined outcome.
\<close>

fun op_ok :: "dev_op \<Rightarrow> bool" where
  "op_ok (OpDisplay c n) = (unat n \<le> length c)"
| "op_ok (OpKey k n) = (unat n \<le> length k)"
| "op_ok (OpUnlock E V t b log) =
     (\<forall>g Msg. length Msg = RecoveryMessage_size \<longrightarrow>
        WriteToPartition (MiscDb E) (MiscCard E = NAND) (MiscSplit E) g (Some Msg) (word_of_nat RecoveryMessage_size) log \<noteq> None)"
| "op_ok _ = True"

lemma wf_version_patch:
  "wf_version v \<Longrightarrow> off + length s < 64 \<Longrightarrow> wf_version (patch v off (ascii s @ [0]))"
  by (cases "off + length s = 63") (auto simp: wf_version_def patch_def nth_append)

lemma wf_str_cpy: "wf_version v \<Longrightarrow> wf_version (str_cpy MAX_VERSION_LEN s v)"
  by (simp add: str_cpy_def MAX_VERSION_LEN_def wf_version_patch)

lemma wf_str_cat: "wf_version v \<Longrightarrow> wf_version (str_cat MAX_VERSION_LEN s v)"
proof -
  assume wf: "wf_version v"
  then have "length (takeWhile (\<lambda>b. b \<noteq> 0) v) \<le> 64" using length_takeWhile_le [of "\<lambda>b. b \<noteq> 0" v] by (simp add: wf_version_def)
  then show ?thesis using wf by (auto simp: str_cat_def MAX_VERSION_LEN_def Let_def intro!: wf_version_patch)
qed

lemma wf_set_version: "wf_version v \<Longrightarrow> wf_version (set_version p s v)"
  by (simp add: set_version_def wf_str_cpy wf_str_cat)

lemma wf_First_read: "wf_info D \<Longrightarrow> wf_info (First_read D)"
  by (auto simp: wf_info_def First_read_def wf_version_def DEVICE_MAGIC_def patch_def nth_append)

lemma wf_zero: "wf_info zero_info" "wf_info Reset_info"
  by (simp_all add: wf_info_def zero_info_def Reset_info_def wf_version_def size_defs DEVICE_MAGIC_def)

lemma wf_flags [simp]:
  "wf_info (D\<lparr>is_unlocked := b\<rparr>) = wf_info D" "wf_info (D\<lparr>is_unlock_critical := b\<rparr>) = wf_info D"
  "wf_info (D\<lparr>is_charger_screen_enabled := b\<rparr>) = wf_info D" "wf_info (D\<lparr>verity_mode := b\<rparr>) = wf_info D"
  by (simp_all add: wf_info_def)

lemma wf_Set_flag [simp]: "wf_info (DevInfo (snd (Set_flag t b S))) = wf_info (DevInfo S)"
  by (cases t) (simp_all add: Set_flag_def SetUnlockValue_def SetUnlockCriticalValue_def)

text \<open>What \<open>SetDeviceUnlockValue\<close> leaves of the state is one or two updates of a flag.\<close>

lemma SetDeviceUnlockValue_state:
  assumes "SetDeviceUnlockValue E V t b S log = Some (st, S', log')"
  shows "S' = snd (Set_flag t b S) \<or> S' = snd (Set_flag t (\<not> b) (snd (Set_flag t b S)))"
  using assms
  by (cases "Set_flag t b S")
    (auto simp: SetDeviceUnlockValue_def option_inversion case_option_eq_Some split: if_splits sum.splits)

lemma StoreDisplayCmdLine_ok:
  "unat n \<le> length c \<Longrightarrow> wf_info (DevInfo S) \<Longrightarrow> \<exists>st S'. StoreDisplayCmdLine c n S = Some (st, S') \<and> wf_info (DevInfo S')"
  by (auto simp: StoreDisplayCmdLine_def wf_info_def put_def rd_def size_defs patch_def)

lemma StoreUserKey_ok:
  "unat n \<le> length k \<Longrightarrow> wf_info (DevInfo S) \<Longrightarrow> \<exists>st S'. StoreUserKey k n S = Some (st, S') \<and> wf_info (DevInfo S')"
  by (auto simp: StoreUserKey_def wf_info_def put_def rd_def size_defs patch_def)

lemma WriteRollbackIndex_ok:
  "wf_info (DevInfo S) \<Longrightarrow> \<exists>st S'. WriteRollbackIndex l r S = Some (st, S') \<and> wf_info (DevInfo S')"
  by (auto simp: WriteRollbackIndex_def wf_info_def set_elem_def size_defs)

section \<open>Locking and wiping\<close>

definition flag_of :: "unlock_type \<Rightarrow> dev_state \<Rightarrow> bool" where
  "flag_of t S = (if t = UNLOCK then is_unlocked (DevInfo S) else is_unlock_critical (DevInfo S))"

definition with_flag :: "unlock_type \<Rightarrow> bool \<Rightarrow> dev_state \<Rightarrow> dev_state" where
  "with_flag t b S =
     S\<lparr>DevInfo := (if t = UNLOCK then (DevInfo S)\<lparr>is_unlocked := b\<rparr> else (DevInfo S)\<lparr>is_unlock_critical := b\<rparr>)\<rparr>"

lemma Set_flag_exact: "t \<noteq> OtherUnlockType \<Longrightarrow> Set_flag t b S = (EFI_SUCCESS, with_flag t b S)"
  by (cases t) (auto simp: Set_flag_def SetUnlockValue_def SetUnlockCriticalValue_def with_flag_def)

lemma with_flag_twice [simp]: "with_flag t b (with_flag t c S) = with_flag t b S"
  by (simp add: with_flag_def)

text \<open>The message that makes the recovery wipe the user data.\<close>

definition wipe_message :: bytes where
  "wipe_message = replicate 64 0 @ ascii RECOVERY_WIPE_DATA @ replicate (1024 - length RECOVERY_WIPE_DATA) 0"

lemma length_wipe: "length RECOVERY_WIPE_DATA = 64" "length wipe_message = 1088"
  by (simp_all add: wipe_message_def RECOVERY_WIPE_DATA_def)

lemma wipe_copied:
  "AsciiStrnCpyS (replicate RecoveryMessage_size 0) RECOVERY_OFFSET RECOVERY_SIZE RECOVERY_WIPE_DATA = Some (EFI_SUCCESS, wipe_message)"
proof -
  let ?c = "ascii RECOVERY_WIPE_DATA @ [0]"
  have "put 64 ?c (replicate 1088 0) = Some (patch (replicate 1088 0) 64 ?c)"
    by (rule put_Some) (simp add: length_wipe)
  moreover have "0 # replicate 959 (0 :: u8) = replicate 960 0" using replicate_Suc [of 959 "0 :: u8"] by simp
  then have "patch (replicate 1088 0) 64 ?c = wipe_message"
    by (simp add: patch_def wipe_message_def length_wipe)
  ultimately show ?thesis
    by (simp add: AsciiStrnCpyS_def RecoveryMessage_size_def RECOVERY_OFFSET_def RECOVERY_SIZE_def length_wipe)
qed

lemma SetDeviceUnlockValue_ok:
  assumes "op_ok (OpUnlock E V t b log)"
  shows "\<exists>r. SetDeviceUnlockValue E V t b S log = Some r"
proof -
  have w: "\<exists>y. WriteToPartition (MiscDb E) (MiscCard E = NAND) (MiscSplit E) g (Some wipe_message) (word_of_nat RecoveryMessage_size) log = Some y" for g
    using assms by (simp add: length_wipe RecoveryMessage_size_def)
  obtain st S' where F: "Set_flag t b S = (st, S')" by (cases "Set_flag t b S")
  show ?thesis
  proof (cases "MiscGuid E")
    case (Inr g)
    with w [of g] show ?thesis by (auto simp: SetDeviceUnlockValue_def F wipe_copied)
  qed (simp add: SetDeviceUnlockValue_def F wipe_copied)
qed

text \<open>Progress and preservation: an operation called as it should be has an outcome and keeps the sizes.\<close>

lemma dev_run_wf:
  assumes "op_ok x" "wf_info (DevInfo S)"
  shows "\<exists>S'. dev_run x S = Some S' \<and> wf_info (DevInfo S')"
proof (cases x)
  case (OpDisplay c n)
  then show ?thesis using StoreDisplayCmdLine_ok [OF _ assms(2), of n c] assms(1) by force
next
  case (OpKey k n)
  then show ?thesis using StoreUserKey_ok [OF _ assms(2), of n k] assms(1) by force
next
  case (OpRollback l r)
  then show ?thesis using WriteRollbackIndex_ok [OF assms(2), of l r] by force
next
  case (OpUnlock E V t b log)
  then obtain st S' log' where "SetDeviceUnlockValue E V t b S log = Some (st, S', log')"
    using SetDeviceUnlockValue_ok assms(1) by (metis prod_cases3)
  moreover from SetDeviceUnlockValue_state [OF this] have "wf_info (DevInfo S')" using assms(2) by auto
  ultimately show ?thesis using OpUnlock by simp
next
  case (OpVersion p n v)
  then show ?thesis using assms(2) by (auto simp: UpdateDevInfo_def wf_info_def wf_set_version)
next
  case OpNoKey
  then show ?thesis using assms(2) by (auto simp: EraseUserKey_def wf_info_def size_defs)
qed (use assms in \<open>auto simp: DeviceInfoInit_def wf_First_read wf_zero EnableChargingScreen_def EnableEnforcingMode_def Let_def power_on_def\<close>)

lemma dev_runs_wf:
  "\<forall>x \<in> set xs. op_ok x \<Longrightarrow> wf_info (DevInfo S) \<Longrightarrow> \<exists>S'. dev_runs xs S = Some S' \<and> wf_info (DevInfo S')"
proof (induction xs arbitrary: S)
  case (Cons x xs)
  obtain S1 where "dev_run x S = Some S1" "wf_info (DevInfo S1)" using dev_run_wf [of x S] Cons.prems by auto
  then show ?case using Cons by simp
qed simp

text \<open>
  C33: No run of operations leaves an array of the device state: from power-on, every sequence of operations and resets has an
  outcome, whatever lengths, indices and strings the callers give, as long as a buffer has the length it is said to have. In the
  state it ends in, the arrays have their sizes, the stored key length is within the key array, the version arrays end with a NUL, and
  reading a version or a rollback index stays inside its array.
\<close>

theorem dev_state_wf:
  assumes "\<forall>x \<in> set ops. op_ok x"
  shows "\<exists>S. dev_runs ops power_on = Some S \<and> wf_info (DevInfo S) \<and>
    GetBootloaderVersion S Len \<noteq> None \<and> GetRadioVersion S Len \<noteq> None \<and> ReadRollbackIndex Loc S \<noteq> None"
proof -
  obtain S where S: "dev_runs ops power_on = Some S" "wf_info (DevInfo S)"
    using dev_runs_wf [OF assms, of power_on] by (auto simp: power_on_def wf_zero)
  have "0 \<in> set v" if "wf_version v" for v
    using that nth_mem [of 63 v] by (simp add: wf_version_def)
  then show ?thesis using S
    by (simp add: GetBootloaderVersion_def GetRadioVersion_def print_version_def ReadRollbackIndex_def elem_def wf_info_def size_defs)
qed

theorem dev_state_wf_witness:
  "\<exists>S. dev_runs [OpInit, OpKey (replicate 4096 1) 4096, OpKey [1, 2] 2, OpRollback 40 7, OpRollback 4 7] power_on = Some S \<and>
     wf_info (DevInfo S) \<and> ReadRollbackIndex 4 S \<noteq> None"
  using dev_state_wf [of "[OpInit, OpKey (replicate 4096 1) 4096, OpKey [1, 2] 2, OpRollback 40 7, OpRollback 4 7]" 64 4] by auto

lemma SetDeviceUnlockValue_write:
  assumes "t \<noteq> OtherUnlockType" "ResetDeviceState V = EFI_SUCCESS" "MiscGuid E = Inr g"
  shows "SetDeviceUnlockValue E V t State S log =
    do { (Status, log) \<leftarrow> WriteToPartition (MiscDb E) (MiscCard E = NAND) (MiscSplit E) g (Some wipe_message) 1088 log;
         Some (Status, with_flag t State S, log) }"
  using assms by (simp add: SetDeviceUnlockValue_def Set_flag_exact wipe_copied) (simp add: RecoveryMessage_size_def)

text \<open>
  C34: Locking or unlocking on eMMC or UFS, when the secure world accepts it, changes exactly the asked flag and asks for a wipe: the
  misc partition then starts with the message that makes the recovery erase the user data, and keeps every other byte.
\<close>

theorem SetDeviceUnlockValue_wipes:
  assumes "misc_on E g D d log" "MiscCard E \<noteq> NAND" "1088 + unat (MediaBlockSize D) \<le> length d"
    and "t \<noteq> OtherUnlockType" "ResetDeviceState V = EFI_SUCCESS"
  shows "\<exists>ws. SetDeviceUnlockValue E V t State S log = Some (EFI_SUCCESS, with_flag t State S, log @ as_ops (DevId D) ws) \<and>
    paint (unat (MediaBlockSize D)) ws d = patch d 0 wipe_message"
proof -
  let ?bs = "unat (MediaBlockSize D)"
  note len = misc_on_size [OF assms(1)]
  have "(1088 + ?bs - 1) div ?bs * ?bs \<le> 1088 + ?bs - 1" by (rule div_times_less_eq_dividend)
  then have "(1088 + ?bs - 1) div ?bs * ?bs \<le> length d" using assms(3) by linarith
  then have room: "(unat (0 :: u64) + (unat (1088 :: u64) + ?bs - 1) div ?bs) * ?bs \<le> length d" by simp
  have ok: "block_size (MediaBlockSize D)" "writes_ok D" "BlkPoolOk D" "serves D d log" "MiscGuid E = Inr g"
    using assms(1) by (simp_all add: misc_on_def)
  obtain h where h: "Type_handle (MiscDb E) g = Some (Inr h)" "BlkIo h = D" using assms(1) by (auto simp: misc_on_def)
  obtain ws where ws: "WriteBlockToPartition (Some D) True False (MiscSplit E) 0 1088 (Some wipe_message) log =
      Some (EFI_SUCCESS, log @ as_ops (DevId D) ws)"
      "paint ?bs ws d = patch d (unat (0 :: u64) * ?bs) (take (unat (1088 :: u64)) wipe_message)"
    using Write_exact [OF ok(1-4), of 1088 wipe_message 0 True "MiscSplit E"] len(2) room by (auto simp: length_wipe)
  have "paint ?bs ws d = patch d 0 wipe_message" using ws(2) by (simp add: length_wipe)
  moreover have "WriteToPartition (MiscDb E) (MiscCard E = NAND) (MiscSplit E) g (Some wipe_message) 1088 log =
      Some (EFI_SUCCESS, log @ as_ops (DevId D) ws)"
    using ws(1) h assms(2) by (simp add: WriteToPartition_def)
  ultimately show ?thesis using SetDeviceUnlockValue_write [OF assms(4,5) ok(5)] by (intro exI [of _ ws]) simp
qed

theorem SetDeviceUnlockValue_wipes_witness:
  "\<exists>ws. SetDeviceUnlockValue (misc_board UFS 2048) \<lparr> VerifiedBootEnbled = False, AvbIsLE = False, VbLocate = EFI_SUCCESS, VbReset = EFI_SUCCESS \<rparr>
      UNLOCK True power_on [] = Some (EFI_SUCCESS, with_flag UNLOCK True power_on, as_ops 0 ws)"
  using SetDeviceUnlockValue_wipes [OF misc_board_on [OF block_size_1024(3), of UFS "the (root_guid UFS)"], of UNLOCK
      "\<lparr> VerifiedBootEnbled = False, AvbIsLE = False, VbLocate = EFI_SUCCESS, VbReset = EFI_SUCCESS \<rparr>" True power_on]
  by (auto simp: root_guid_def misc_board_def mem_dev_def ResetDeviceState_def)

text \<open>
  C35: What happens when a step of locking or unlocking fails. When the secure world refuses, nothing is written, and the flag gets the
  opposite of the value asked for, whatever it was before. When there is no misc partition, the operation reports an error
  but the flag keeps the new value: the device is unlocked and its data is not wiped.
\<close>

theorem SetDeviceUnlockValue_errors:
  assumes "t \<noteq> OtherUnlockType"
  shows "(ResetDeviceState V \<noteq> EFI_SUCCESS \<longrightarrow>
      SetDeviceUnlockValue E V t State S log = Some (ResetDeviceState V, with_flag t (\<not> State) S, log)) \<and>
    (ResetDeviceState V = EFI_SUCCESS \<and> MiscGuid E = Inr g \<and> BlkHandles (MiscDb E) = (EFI_SUCCESS, hs) \<and>
       (\<forall>h \<in> set hs. usable h \<and> \<not> has_type g h) \<longrightarrow>
      SetDeviceUnlockValue E V t State S log = Some (EFI_NO_MEDIA, with_flag t State S, log))"
proof (intro conjI impI; (elim conjE)?)
  show "SetDeviceUnlockValue E V t State S log = Some (ResetDeviceState V, with_flag t (\<not> State) S, log)"
    if "ResetDeviceState V \<noteq> EFI_SUCCESS"
    using that assms by (simp add: SetDeviceUnlockValue_def Set_flag_exact)
next
  assume ok: "ResetDeviceState V = EFI_SUCCESS" "MiscGuid E = Inr g" "BlkHandles (MiscDb E) = (EFI_SUCCESS, hs)"
    "\<forall>h \<in> set hs. usable h \<and> \<not> has_type g h"
  have "List.find (has_type g) hs = None" using ok(4) by (simp add: find_None_iff)
  then have "WriteToPartition (MiscDb E) (MiscCard E = NAND) (MiscSplit E) g (Some wipe_message) 1088 log = Some (EFI_NO_MEDIA, log)"
    using ok(4) by (simp add: WriteToPartition_def Type_handle_first [OF ok(3)])
  then show "SetDeviceUnlockValue E V t State S log = Some (EFI_NO_MEDIA, with_flag t State S, log)"
    using SetDeviceUnlockValue_write [OF assms ok(1,2)] by simp
qed

theorem SetDeviceUnlockValue_errors_witness:
  "SetDeviceUnlockValue ((misc_board UFS 2048)\<lparr>MiscDb := \<lparr> FsHandles = (EFI_SUCCESS, []), BlkHandles = (EFI_SUCCESS, []) \<rparr>\<rparr>)
     \<lparr> VerifiedBootEnbled = False, AvbIsLE = False, VbLocate = EFI_SUCCESS, VbReset = EFI_SUCCESS \<rparr> UNLOCK True power_on [] =
     Some (EFI_NO_MEDIA, with_flag UNLOCK True power_on, [])"
  using SetDeviceUnlockValue_errors [of UNLOCK "\<lparr> VerifiedBootEnbled = False, AvbIsLE = False, VbLocate = EFI_SUCCESS, VbReset = EFI_SUCCESS \<rparr>"
      "(misc_board UFS 2048)\<lparr>MiscDb := \<lparr> FsHandles = (EFI_SUCCESS, []), BlkHandles = (EFI_SUCCESS, []) \<rparr>\<rparr>" True power_on "[]"
      gEfiMiscPartitionGuid "[]"]
  by (simp add: ResetDeviceState_def MiscGuid_def misc_board_def)

section \<open>What a rollback index holds\<close>

text \<open>
  The specification of one index: whether the state is initialised and the value. A write counts when the state is
  initialised, and a reset starts again with 0.
\<close>

fun index_spec :: "u32 \<Rightarrow> dev_op \<Rightarrow> bool \<times> u64 \<Rightarrow> bool \<times> u64" where
  "index_spec Loc OpInit (started, v) = (True, v)"
| "index_spec Loc (OpRollback l x) (started, v) = (started, if started \<and> l = Loc then x else v)"
| "index_spec Loc OpReset (started, v) = (False, 0)"
| "index_spec Loc _ (started, v) = (started, v)"

text \<open>The state as the specification sees it; once initialised it keeps its magic, so it is not initialised again.\<close>

definition index_view :: "u32 \<Rightarrow> dev_state \<Rightarrow> bool \<times> u64" where
  "index_view Loc S = (\<not> FirstReadDevInfo S, rollback_index (DevInfo S) ! unat Loc)"

definition magic_ok :: "dev_state \<Rightarrow> bool" where
  "magic_ok S \<longleftrightarrow> length (magic (DevInfo S)) = 13 \<and> (\<not> FirstReadDevInfo S \<longrightarrow> magic (DevInfo S) = DEVICE_MAGIC)"

lemma First_read_simps:
  "rollback_index (First_read D) = rollback_index D" "length (magic D) = 13 \<Longrightarrow> magic (First_read D) = DEVICE_MAGIC"
  by (simp_all add: First_read_def patch_def DEVICE_MAGIC_def)

lemma index_view_flag [simp]: "index_view Loc (snd (Set_flag t b S)) = index_view Loc S" "magic_ok (snd (Set_flag t b S)) = magic_ok S"
  by (cases t; simp add: Set_flag_def SetUnlockValue_def SetUnlockCriticalValue_def index_view_def magic_ok_def)+

lemma DeviceInfoInit_view:
  assumes "magic_ok S"
  shows "index_view Loc (snd (DeviceInfoInit S)) = (True, snd (index_view Loc S))" "magic_ok (snd (DeviceInfoInit S))"
  using assms by (auto simp: DeviceInfoInit_def magic_ok_def index_view_def First_read_simps DEVICE_MAGIC_def Let_def)

lemma dev_run_view:
  assumes "dev_run x S = Some S'" "wf_info (DevInfo S)" "magic_ok S" "unat Loc < 32"
  shows "index_view Loc S' = index_spec Loc x (index_view Loc S) \<and> magic_ok S'"
proof (cases x)
  case OpInit
  then show ?thesis using assms DeviceInfoInit_view [OF assms(3)] by (cases "index_view Loc S") auto
next
  case (OpRollback l r)
  then show ?thesis using assms
    by (auto simp: WriteRollbackIndex_def set_elem_def wf_info_def size_defs index_view_def magic_ok_def nth_list_update word_unat_eq_iff
        split: if_splits)
next
  case (OpUnlock E V t b log)
  then obtain st log' where "SetDeviceUnlockValue E V t b S log = Some (st, S', log')" using assms(1) by auto
  from SetDeviceUnlockValue_state [OF this] show ?thesis using assms(3) OpUnlock by (cases "index_view Loc S") auto
next
  case OpReset
  then show ?thesis using assms(1,4) by (auto simp: index_view_def power_on_def zero_info_def magic_ok_def size_defs)
next
  case (OpDisplay c n)
  then show ?thesis using assms(1,3)
    by (auto simp: StoreDisplayCmdLine_def option_inversion index_view_def magic_ok_def split: if_splits)
next
  case (OpKey k n)
  then show ?thesis using assms(1,3)
    by (auto simp: StoreUserKey_def option_inversion index_view_def magic_ok_def split: if_splits)
qed (use assms(1,3) in \<open>auto simp: EnableChargingScreen_def EnableEnforcingMode_def UpdateDevInfo_def EraseUserKey_def index_view_def magic_ok_def split: if_splits\<close>)

lemma dev_runs_view:
  "dev_runs xs S = Some S' \<Longrightarrow> \<forall>x \<in> set xs. op_ok x \<Longrightarrow> wf_info (DevInfo S) \<Longrightarrow> magic_ok S \<Longrightarrow> unat Loc < 32 \<Longrightarrow>
    index_view Loc S' = fold (index_spec Loc) xs (index_view Loc S)"
proof (induction xs arbitrary: S)
  case (Cons x xs)
  obtain S1 where "dev_run x S = Some S1" "wf_info (DevInfo S1)" using dev_run_wf [of x S] Cons.prems by auto
  then show ?case using Cons.prems dev_run_view [of x S S1 Loc] Cons.IH [of S1] by simp
qed simp

lemma Init_after_reset:
  "dev_runs [OpReset, OpInit] S = Some S' \<Longrightarrow> is_unlocked (DevInfo S') \<and> is_unlock_critical (DevInfo S')"
  by (auto simp: DeviceInfoInit_def power_on_def First_read_simps zero_info_def size_defs Let_def) (auto simp: First_read_def)

lemma dev_runs_append: "dev_runs (xs @ ys) S = Option.bind (dev_runs xs S) (dev_runs ys)"
proof (induction xs arbitrary: S)
  case (Cons x xs)
  then show ?case by (cases "dev_run x S") simp_all
qed simp

text \<open>
  C36: After any run of operations and resets a rollback index reads as the value written to it last since the last reset, or 0 when there
  was none; before the initialisation it is not readable. No other operation changes it. A lock does not survive a reset
  either: whatever ran before, after a reset and the next initialisation the device is unlocked, also its critical partitions.
\<close>

theorem rollback_index_roundtrip:
  assumes "\<forall>x \<in> set ops. op_ok x" "unat Loc < 32" "dev_runs ops power_on = Some S"
  shows "ReadRollbackIndex Loc S =
      Some (case fold (index_spec Loc) ops (False, 0) of (started, v) \<Rightarrow> if started then Inr v else Inl EFI_NOT_STARTED) \<and>
    (\<forall>xs. ops = xs @ [OpReset, OpInit] \<longrightarrow> is_unlocked (DevInfo S) \<and> is_unlock_critical (DevInfo S))"
proof -
  have wf: "wf_info (DevInfo power_on)" "magic_ok power_on" "index_view Loc power_on = (False, 0)"
    using assms(2) by (simp_all add: power_on_def wf_zero magic_ok_def index_view_def) (simp_all add: zero_info_def size_defs)
  have "wf_info (DevInfo S)" using dev_runs_wf [OF assms(1) wf(1)] assms(3) by simp
  then have "ReadRollbackIndex Loc S = Some (case index_view Loc S of (started, v) \<Rightarrow> if started then Inr v else Inl EFI_NOT_STARTED)"
    using assms(2) by (simp add: ReadRollbackIndex_def elem_def wf_info_def size_defs index_view_def)
  moreover have "index_view Loc S = fold (index_spec Loc) ops (False, 0)"
    using dev_runs_view [OF assms(3,1) wf(1,2) assms(2)] by (simp add: wf(3))
  moreover have "is_unlocked (DevInfo S) \<and> is_unlock_critical (DevInfo S)" if "ops = xs @ [OpReset, OpInit]" for xs
  proof -
    have "dev_runs [OpReset, OpInit] power_on = Some S"
      using assms(3) unfolding that dev_runs_append by (cases "dev_runs xs power_on") auto
    then show ?thesis by (rule Init_after_reset)
  qed
  ultimately show ?thesis by simp
qed

theorem rollback_index_roundtrip_witness:
  "Option.bind (dev_runs [OpInit, OpRollback 3 7, OpNoKey, OpRollback 4 9] power_on) (ReadRollbackIndex 3) = Some (Inr 7)"
proof -
  let ?ops = "[OpInit, OpRollback 3 7, OpNoKey, OpRollback 4 9]"
  obtain S where "dev_runs ?ops power_on = Some S" using dev_runs_wf [of ?ops power_on] by (auto simp: power_on_def wf_zero)
  then show ?thesis using rollback_index_roundtrip [of ?ops 3 S] by auto
qed

end
