(* ===== verification/Fastboot_Data.thy ===== *)
theory Fastboot_Data
  imports Device_Info
begin

text \<open>
  The data phase of Fastboot (\<^verbatim>\<open>FastbootLib/FastbootCmds.c\<close>, \<^verbatim>\<open>FastbootLib/FastbootMain.c\<close>): the download buffer with its two
  halves, the state machine that switches between commands and data, and the receive requests given to the USB driver. The
  driver stores what it receives at the address of the request, so a request outside the buffer is the danger; storing outside
  the memory has no value. The code is modelled as it runs with one thread.
\<close>

section \<open>State\<close>

datatype ANDROID_FASTBOOT_STATE = ExpectCmdState | ExpectDataState | FastbootStateMax

text \<open>The target of a receive request: the command buffer, or an offset in the download buffer.\<close>

datatype rx_dst = RxBuffer | DataBuffer nat

record fb_data =
  mState :: ANDROID_FASTBOOT_STATE
  mNumDataBytes :: u64
  mFlashNumDataBytes :: u64
  mBytesReceivedSoFar :: u64
  mUsbDataBuffer :: nat
  mFlashDataBuffer :: nat
  MaxDownLoadSize :: u64
  DataMem :: bytes
  Queue :: "(rx_dst \<times> u64) option"
  IsFlashComplete :: bool
  UsbTimerEvent :: bool
  UsbTimerStarted :: bool
  OkayPending :: nat
  Replies :: "string list"

text \<open>The page size and the results of creating and starting the timer event of a delayed answer.\<close>

record fb_env =
  FbPageSize :: u32
  OkayEvent :: efi_status
  OkayTimer :: efi_status

definition USB_BUFFER_SIZE :: u64 where "USB_BUFFER_SIZE = 1024 * 1024 * 16"
definition MIN_BUFFER_SIZE :: u64 where "MIN_BUFFER_SIZE = 67108864"
definition MAX_BUFFER_SIZE :: u64 where "MAX_BUFFER_SIZE = 1610612736"
definition MAX_RSP_SIZE :: nat where "MAX_RSP_SIZE = 64"
definition MAX_FASTBOOT_COMMAND_SIZE :: nat where "MAX_FASTBOOT_COMMAND_SIZE = 64"

section \<open>Answers\<close>

definition FastbootAck :: "string \<Rightarrow> string \<Rightarrow> 'a fb_data_scheme \<Rightarrow> 'a fb_data_scheme" where
  "FastbootAck code Reason S = S\<lparr>Replies := Replies S @ [take (MAX_RSP_SIZE - 1) (code @ Reason)]\<rparr>"

definition FastbootFail :: "string \<Rightarrow> 'a fb_data_scheme \<Rightarrow> 'a fb_data_scheme" where
  "FastbootFail Reason S = FastbootAck ''FAIL'' Reason S"

definition FastbootInfo :: "string \<Rightarrow> 'a fb_data_scheme \<Rightarrow> 'a fb_data_scheme" where
  "FastbootInfo Info S = FastbootAck ''INFO'' Info S"

definition FastbootOkay :: "string \<Rightarrow> 'a fb_data_scheme \<Rightarrow> 'a fb_data_scheme" where
  "FastbootOkay Info S = FastbootAck ''OKAY'' Info S"

definition StopUsbTimer :: "'a fb_data_scheme \<Rightarrow> 'a fb_data_scheme" where
  "StopUsbTimer S = S\<lparr>UsbTimerEvent := False, UsbTimerStarted := False\<rparr>"

text \<open>A delayed answer is an event that waits; its handler waits on while a flash runs.\<close>

definition FastbootOkayDelay :: "fb_env \<Rightarrow> 'a fb_data_scheme \<Rightarrow> 'a fb_data_scheme" where
  "FastbootOkayDelay E S =
     (if EFI_ERROR (OkayEvent E) then FastbootFail ''Failed to creat event for waiting flash completely'' S
      else if EFI_ERROR (OkayTimer E) then FastbootFail ''Failed to set timer for waiting flash completely'' S
      else S\<lparr>OkayPending := OkayPending S + 1\<rparr>)"

definition FlashCompleteHandler :: "fb_env \<Rightarrow> 'a fb_data_scheme \<Rightarrow> 'a fb_data_scheme" where
  "FlashCompleteHandler E S =
     (if OkayPending S = 0 then S
      else if \<not> IsFlashComplete S then
        if EFI_ERROR (OkayTimer E)
        then FastbootFail ''Failed to set timer for waiting flash completely'' (S\<lparr>OkayPending := OkayPending S - 1\<rparr>)
        else S
      else FastbootOkay '''' (S\<lparr>OkayPending := OkayPending S - 1\<rparr>))"

section \<open>Downloads\<close>

definition GetXfrSize :: "'a fb_data_scheme \<Rightarrow> u64" where
  "GetXfrSize S =
     (let BytesLeft = mNumDataBytes S - mBytesReceivedSoFar S
      in if mState S = ExpectDataState \<and> BytesLeft < USB_BUFFER_SIZE then BytesLeft else USB_BUFFER_SIZE)"

text \<open>
  \<open>AsciiStrHexToUint64\<close> of the base library: blanks and zeros are skipped, an \<open>x\<close> is accepted only behind a zero, the digits end
  at the first other character, and a number that does not fit in 64 bits is the largest one.
\<close>

definition hex_digit :: "char \<Rightarrow> u64 option" where
  "hex_digit c =
     (let n = ord8 c
      in if 48 \<le> n \<and> n \<le> 57 then Some (word_of_nat (n - 48))
         else if 97 \<le> n \<and> n \<le> 102 then Some (word_of_nat (n - 87))
         else if 65 \<le> n \<and> n \<le> 70 then Some (word_of_nat (n - 55))
         else None)"

fun hex_loop :: "string \<Rightarrow> u64 \<Rightarrow> u64" where
  "hex_loop [] acc = acc"
| "hex_loop (c # cs) acc =
     (case hex_digit c of
        None \<Rightarrow> acc
      | Some d \<Rightarrow> if acc > 0x0FFFFFFFFFFFFFFF then - 1 else hex_loop cs (acc * 16 + d))"

definition AsciiStrHexToUint64 :: "string \<Rightarrow> u64" where
  "AsciiStrHexToUint64 s =
     (let s1 = dropWhile (\<lambda>c. c = CHR '' '' \<or> c = CHR 0x09) s;
          s2 = dropWhile (\<lambda>c. c = CHR ''0'') s1
      in if take 1 s2 = ''x'' \<or> take 1 s2 = ''X''
         then if s1 = s2 then 0 else hex_loop (drop 1 s2) 0
         else hex_loop s2 0)"

text \<open>
  The answer to an accepted download has 13 characters: \<open>DATA\<close>, the argument if it fits, and zeros.
\<close>

definition CmdDownload :: "string \<Rightarrow> 'a fb_data_scheme \<Rightarrow> 'a fb_data_scheme" where
  "CmdDownload arg S =
     (let S = S\<lparr>mNumDataBytes := AsciiStrHexToUint64 arg\<rparr>
      in if mNumDataBytes S = 0 then FastbootFail ''Failed to get the number of bytes to download'' S
         else if mNumDataBytes S > MaxDownLoadSize S
         then FastbootFail (''Requested download size is more than max allowed'' @ [CHR 0x0A]) S
         else S\<lparr>mState := ExpectDataState, mBytesReceivedSoFar := 0,
                Replies := Replies S @ [''DATA'' @ (if length arg < 9 then arg else [])]\<rparr>)"

text \<open>
  \<open>Size\<close> bytes were received. \<open>RoundSize\<close> is cut to 32 bits, and the number of bytes cleared is a 64-bit difference.
\<close>

definition Data_finished :: "fb_env \<Rightarrow> 'a fb_data_scheme \<Rightarrow> 'a fb_data_scheme option" where
  "Data_finished E S =
     (let RoundSize = ucast (ucast (ROUND_TO_PAGE (mNumDataBytes S) (FbPageSize E - 1)) :: u32) :: u64
      in do {
        mem \<leftarrow> (if RoundSize < MaxDownLoadSize S
               then put (mUsbDataBuffer S + unat (mNumDataBytes S)) (replicate (unat (RoundSize - mNumDataBytes S)) 0) (DataMem S)
               else Some (DataMem S));
        Some (FastbootOkayDelay E (StopUsbTimer (S\<lparr>DataMem := mem, mState := ExpectCmdState\<rparr>))) })"

definition AcceptData :: "fb_env \<Rightarrow> u64 \<Rightarrow> 'a fb_data_scheme \<Rightarrow> 'a fb_data_scheme option" where
  "AcceptData E Size S =
     (let RemainingBytes = mNumDataBytes S - mBytesReceivedSoFar S;
          Size = (if Size > RemainingBytes then RemainingBytes else Size);
          S = S\<lparr>mBytesReceivedSoFar := mBytesReceivedSoFar S + Size\<rparr>
      in if mBytesReceivedSoFar S = mNumDataBytes S then Data_finished E S
         else Some (S\<lparr>Queue := Some (DataBuffer (mUsbDataBuffer S + unat (mBytesReceivedSoFar S)), GetXfrSize S)\<rparr>))"

definition ExchangeFlashAndUsbDataBuf :: "'a fb_data_scheme \<Rightarrow> 'a fb_data_scheme" where
  "ExchangeFlashAndUsbDataBuf S =
     S\<lparr>mUsbDataBuffer := mFlashDataBuffer S, mFlashDataBuffer := mUsbDataBuffer S, mFlashNumDataBytes := mNumDataBytes S\<rparr>"

text \<open>The end of a transmission queues the next receive request.\<close>

definition ProcessBulkXfrCompleteTx :: "'a fb_data_scheme \<Rightarrow> 'a fb_data_scheme" where
  "ProcessBulkXfrCompleteTx S =
     S\<lparr>Queue := Some (if mState S = ExpectDataState then DataBuffer (mUsbDataBuffer S) else RxBuffer, GetXfrSize S)\<rparr>"

text \<open>The driver stores the bytes at the address of the request, and the code handles them as data.\<close>

definition ReceiveData :: "fb_env \<Rightarrow> bytes \<Rightarrow> 'a fb_data_scheme \<Rightarrow> 'a fb_data_scheme option" where
  "ReceiveData E xs S =
     (case Queue S of
        Some (DataBuffer off, n) \<Rightarrow>
          do { mem \<leftarrow> put off xs (DataMem S);
               AcceptData E (word_of_nat (length xs)) (S\<lparr>DataMem := mem, Queue := None\<rparr>) }
      | _ \<Rightarrow> Some S)"

section \<open>The buffer\<close>

text \<open>
  The largest free region of a memory map, whose entries are a type and a number of pages; 7 is \<open>EfiConventionalMemory\<close>. \<open>Map\<close> is
  what the two calls of \<open>GetMemoryMap\<close> gave: the status and size of the first, whether memory was there, and the second.
\<close>

fun MaxFree_loop :: "(u32 \<times> u64) list \<Rightarrow> u64 \<Rightarrow> u64" where
  "MaxFree_loop [] MaxFree = MaxFree"
| "MaxFree_loop ((t, n) # ds) MaxFree = MaxFree_loop ds (if t = 7 \<and> MaxFree < n then n else MaxFree)"

record map_env =
  MapProbe :: efi_status
  MapSize :: u64
  MapPool :: bool
  MapRead :: efi_status
  MapEntries :: "(u32 \<times> u64) list"

definition GetMaxAllocatableMemory :: "map_env \<Rightarrow> u64" where
  "GetMaxAllocatableMemory M =
     (if MapProbe M \<noteq> EFI_BUFFER_TOO_SMALL then 0
      else if \<not> no_wrap (MapSize M) 4096 then 0
      else if \<not> MapPool M then 0
      else if EFI_ERROR (MapRead M) then 0
      else push_bit 12 (MaxFree_loop (MapEntries M) 0))"

definition EFI_FREE_MEM_DIVISOR :: "u64 \<Rightarrow> u64" where
  "EFI_FREE_MEM_DIVISOR BYTES = BYTES * 3 div 4"

definition LOCAL_ROUND_TO_PAGE :: "u64 \<Rightarrow> u64 \<Rightarrow> u64" where
  "LOCAL_ROUND_TO_PAGE x y = (x + (y - 1)) AND NOT (y - 1)"

text \<open>
  The loop that looks for a size the driver can allocate; \<open>alloc\<close> says for which sizes it can. Every round asks for less.
\<close>

lemma next_size_less:
  assumes "\<not> LOCAL_ROUND_TO_PAGE (EFI_FREE_MEM_DIVISOR n) 4096 < MIN_BUFFER_SIZE"
  shows "unat (LOCAL_ROUND_TO_PAGE (EFI_FREE_MEM_DIVISOR n) 4096) < unat n"
proof -
  let ?d = "unat (EFI_FREE_MEM_DIVISOR n)" and ?r = "unat (LOCAL_ROUND_TO_PAGE (EFI_FREE_MEM_DIVISOR n) 4096)"
  have "unat (n * 3) \<le> unat n * 3" by (simp add: unat_word_ariths)
  then have d: "?d \<le> unat n * 3 div 4" by (simp add: EFI_FREE_MEM_DIVISOR_def unat_div div_le_mono)
  have "?r \<le> unat (EFI_FREE_MEM_DIVISOR n + 4095)"
    unfolding LOCAL_ROUND_TO_PAGE_def by (simp flip: word_le_nat_alt add: word_and_le2)
  also have "\<dots> \<le> ?d + 4095" by (simp add: unat_word_ariths)
  finally have r: "?r \<le> ?d + 4095" .
  have "67108864 \<le> ?r" using assms by (simp add: MIN_BUFFER_SIZE_def word_less_nat_alt)
  then show ?thesis using r d by linarith
qed

function Alloc_loop :: "(u64 \<Rightarrow> bool) \<Rightarrow> u64 \<Rightarrow> efi_status \<times> u64" where
  "Alloc_loop alloc Size =
     (let Size' = LOCAL_ROUND_TO_PAGE (EFI_FREE_MEM_DIVISOR Size) 4096
      in if Size' < MIN_BUFFER_SIZE then (EFI_OUT_OF_RESOURCES, Size')
         else
           (let Size' = (if Size' > MAX_BUFFER_SIZE then MAX_BUFFER_SIZE else Size')
            in if alloc Size' then (EFI_SUCCESS, Size') else Alloc_loop alloc Size'))"
  by pat_completeness auto

termination
proof (relation "measure (\<lambda>(alloc, n). unat n)", goal_cases)
  case (2 alloc n Size' Size'')
  then show ?case using next_size_less [of n] by (auto simp: word_less_nat_alt split: if_splits)
qed simp

declare Alloc_loop.simps [simp del]

text \<open>
  \<open>FastbootCmdsInit\<close> with the part of \<open>FastbootCommandSetup\<close> that sets the buffers: on eMMC and UFS the buffer has two halves, on
  NAND both pointers are the same. \<open>Event\<close> is the status of creating the event for fatal errors. The buffers are cleared first,
  and a null pointer is a buffer with no bytes; after a failure the maximal size keeps the last value it was given.
\<close>

definition FastbootCmdsInit ::
  "efi_status \<Rightarrow> map_env \<Rightarrow> (u64 \<Rightarrow> bool) \<Rightarrow> MemCardType \<Rightarrow> 'a fb_data_scheme \<Rightarrow> efi_status \<times> 'a fb_data_scheme" where
  "FastbootCmdsInit Event M alloc t S =
     (let S = S\<lparr>DataMem := [], mUsbDataBuffer := 0, mFlashDataBuffer := 0\<rparr>
      in if EFI_ERROR Event then (Event, S)
         else if GetMaxAllocatableMemory M = 0 then (EFI_OUT_OF_RESOURCES, S\<lparr>MaxDownLoadSize := 0\<rparr>)
         else
           (case Alloc_loop alloc (GetMaxAllocatableMemory M) of (st, Size) \<Rightarrow>
              if EFI_ERROR st then (st, S\<lparr>MaxDownLoadSize := Size\<rparr>)
              else
                let Half = (if t = NAND then Size else Size div 2)
                in (EFI_SUCCESS,
                    S\<lparr>DataMem := replicate (unat Size) 0, MaxDownLoadSize := Half, mNumDataBytes := Half, mFlashNumDataBytes := Half,
                      mUsbDataBuffer := 0, mFlashDataBuffer := (if t = NAND then 0 else unat Half)\<rparr>)))"

section \<open>Requests stay in the buffer\<close>

definition fb_inv :: "'a fb_data_scheme \<Rightarrow> bool" where
  "fb_inv S \<longleftrightarrow> unat (MaxDownLoadSize S) \<le> 0x30000000 \<and> 2 * unat (MaxDownLoadSize S) \<le> length (DataMem S) \<and>
     (mUsbDataBuffer S = 0 \<and> mFlashDataBuffer S = unat (MaxDownLoadSize S) \<or>
      mUsbDataBuffer S = unat (MaxDownLoadSize S) \<and> mFlashDataBuffer S = 0) \<and>
     (mState S = ExpectDataState \<longrightarrow> mBytesReceivedSoFar S \<le> mNumDataBytes S \<and> mNumDataBytes S \<le> MaxDownLoadSize S) \<and>
     (\<forall>off n. Queue S = Some (DataBuffer off, n) \<longrightarrow> mState S = ExpectDataState \<and>
        mUsbDataBuffer S \<le> off \<and> off + unat n \<le> mUsbDataBuffer S + unat (MaxDownLoadSize S))"

text \<open>The half of the buffer that is being flashed.\<close>

definition flash_half :: "'a fb_data_scheme \<Rightarrow> bytes" where
  "flash_half S = take (unat (MaxDownLoadSize S)) (drop (mFlashDataBuffer S) (DataMem S))"

definition usb_half :: "'a fb_data_scheme \<Rightarrow> bytes" where
  "usb_half S = take (unat (MaxDownLoadSize S)) (drop (mUsbDataBuffer S) (DataMem S))"

lemma usb_patch:
  assumes "fb_inv S" "mUsbDataBuffer S \<le> off" "off + length xs \<le> mUsbDataBuffer S + unat (MaxDownLoadSize S)"
  shows "put off xs (DataMem S) = Some (patch (DataMem S) off xs)"
    "length (patch (DataMem S) off xs) = length (DataMem S)"
    "flash_half (S\<lparr>DataMem := patch (DataMem S) off xs\<rparr>) = flash_half S"
proof -
  let ?M = "unat (MaxDownLoadSize S)"
  have len: "mUsbDataBuffer S + ?M \<le> length (DataMem S)" using assms(1) by (auto simp: fb_inv_def)
  then have fit: "off + length xs \<le> length (DataMem S)" using assms(3) by simp
  show "put off xs (DataMem S) = Some (patch (DataMem S) off xs)" using fit by (rule put_Some)
  show l: "length (patch (DataMem S) off xs) = length (DataMem S)" using fit by simp
  have "take ?M (drop (mFlashDataBuffer S) (patch (DataMem S) off xs)) = take ?M (drop (mFlashDataBuffer S) (DataMem S))"
  proof (rule nth_equalityI)
    fix i assume i: "i < length (take ?M (drop (mFlashDataBuffer S) (patch (DataMem S) off xs)))"
    then have "mFlashDataBuffer S + i < off \<or> off + length xs \<le> mFlashDataBuffer S + i"
      using assms by (auto simp: fb_inv_def)
    then show "take ?M (drop (mFlashDataBuffer S) (patch (DataMem S) off xs)) ! i = take ?M (drop (mFlashDataBuffer S) (DataMem S)) ! i"
      using i fit l by (auto simp: nth_patch)
  qed (use l in simp)
  then show "flash_half (S\<lparr>DataMem := patch (DataMem S) off xs\<rparr>) = flash_half S" by (simp add: flash_half_def)
qed

text \<open>Rounding up to a page, for sizes that leave room below 4 GB.\<close>

lemma and_not_mask32:
  fixes w :: u64
  assumes "unat w < 2 ^ 32"
  shows "unat (w AND ucast (NOT (2 ^ k - 1) :: u32)) = unat w div 2 ^ k * 2 ^ k"
proof -
  have "w AND ucast (NOT (mask k) :: u32) = push_bit k (drop_bit k w)"
  proof (rule bit_eqI)
    fix i assume i: "possible_bit TYPE(64 word) i"
    have hi: "\<not> bit w i" if "32 \<le> i"
    proof -
      have "(2 :: nat) ^ 32 \<le> 2 ^ i" using that by (rule power_increasing) simp
      then have "unat w < 2 ^ i" using assms by linarith
      then have "\<not> bit (unat w) i" by (simp add: bit_iff_odd)
      then show ?thesis by (simp add: bit_unsigned_iff)
    qed
    show "bit (w AND ucast (NOT (mask k) :: u32)) i = bit (push_bit k (drop_bit k w)) i"
      using i hi by (cases "i < 32") (auto simp: bit_simps)
  qed
  moreover have "unat (push_bit k (drop_bit k w)) = unat w div 2 ^ k * 2 ^ k"
  proof -
    have "unat w div 2 ^ k * 2 ^ k < 2 ^ 64"
      using le_less_trans [OF div_times_less_eq_dividend, of "unat w" "2 ^ 64" "2 ^ k"] unsigned_less [of w, where ?'a = nat] by simp
    moreover have "take_bit 64 (unat w) = unat w"
      using unsigned_less [of w, where ?'a = nat] by (simp add: take_bit_nat_eq_self)
    ultimately show ?thesis
      by (simp only: unsigned_push_bit_eq unsigned_drop_bit_eq) (simp add: drop_bit_eq_div push_bit_eq_mult take_bit_nat_eq_self)
  qed
  ultimately show ?thesis by (simp add: mask_eq_exp_minus_1)
qed

lemma round_up:
  assumes "block_size P" "unat n \<le> 0x30000000"
  shows "unat (ucast (ucast (ROUND_TO_PAGE n (P - 1)) :: u32) :: u64) = (unat n + unat P - 1) div unat P * unat P"
proof -
  obtain k where k: "k \<le> 20" "P = 2 ^ k" using assms(1) by (auto simp: block_size_def)
  have "(2 :: nat) ^ k \<le> 2 ^ 20" using k(1) by (rule power_increasing) simp
  then have p20: "(2 :: nat) ^ k \<le> 1048576" by simp
  have "unat (word_of_nat (2 ^ k) :: u32) = 2 ^ k" using k(1) by (simp only: unsigned_of_nat) (simp add: take_bit_nat_eq_self)
  then have uP: "unat P = 2 ^ k" by (simp add: k(2))
  then have uP1: "unat (P - 1) = 2 ^ k - 1" by (subst unat_sub) (simp_all add: word_le_nat_alt)
  have "unat (0xFFFFFFFF - (P - 1)) = 0xFFFFFFFF - (2 ^ k - 1)"
    using uP1 p20 by (subst unat_sub) (simp_all add: word_le_nat_alt)
  then have guard: "n < ucast (0xFFFFFFFF - (P - 1) :: u32)"
    using assms(2) p20 by (simp add: word_less_nat_alt unat_ucast32)
  have w: "unat (n + ucast (P - 1)) = unat n + (2 ^ k - 1)"
    using assms(2) p20 uP1 by (simp add: unat_word_ariths unat_ucast32)
  then have "unat ((n + ucast (P - 1)) AND ucast (NOT (2 ^ k - 1) :: u32)) = unat (n + ucast (P - 1)) div 2 ^ k * 2 ^ k"
    using assms(2) p20 by (intro and_not_mask32) simp
  then have r: "unat (ROUND_TO_PAGE n (P - 1)) = (unat n + (2 ^ k - 1)) div 2 ^ k * 2 ^ k"
    using guard w by (simp add: ROUND_TO_PAGE_def k(2))
  moreover have "(unat n + (2 ^ k - 1)) div 2 ^ k * 2 ^ k \<le> unat n + (2 ^ k - 1)" by (rule div_times_less_eq_dividend)
  then have "(unat n + (2 ^ k - 1)) div 2 ^ k * 2 ^ k < 2 ^ 32" by (rule le_less_trans) (use assms(2) p20 in simp)
  ultimately have "unat (ROUND_TO_PAGE n (P - 1)) < 2 ^ 32" by simp
  then have "unat (ucast (ucast (ROUND_TO_PAGE n (P - 1)) :: u32) :: u64) = unat (ROUND_TO_PAGE n (P - 1))"
    unfolding unat_ucast32 by (simp add: unsigned_ucast_eq take_bit_nat_eq_self)
  then show ?thesis by (simp add: r uP)
qed

lemma round_up_ge: "0 < b \<Longrightarrow> a \<le> (a + b - 1) div b * b" for a b :: nat
proof -
  assume b: "0 < b"
  have "(a + b - 1) mod b < b" using b by simp
  moreover have "(a + b - 1) div b * b + (a + b - 1) mod b = a + b - 1" by simp
  ultimately show ?thesis using b by linarith
qed

section \<open>Steps\<close>

text \<open>
  What can happen to the data phase: a download command, the end of a transmission, the arrival of data that obeys the request, of a
  command, a flash command, which exchanges the halves, and the timer of a delayed answer. Commands run only in the command state.
\<close>

inductive fb_step :: "fb_env \<Rightarrow> 'a fb_data_scheme \<Rightarrow> 'a fb_data_scheme \<Rightarrow> bool" for E where
  Download: "mState S = ExpectCmdState \<Longrightarrow> fb_step E S (CmdDownload arg S)"
| TxDone: "fb_step E S (ProcessBulkXfrCompleteTx S)"
| RxData: "mState S = ExpectDataState \<Longrightarrow> Queue S = Some (DataBuffer off, n) \<Longrightarrow> length xs \<le> unat n \<Longrightarrow>
    ReceiveData E xs S = Some S' \<Longrightarrow> fb_step E S S'"
| RxCmd: "mState S = ExpectCmdState \<Longrightarrow> Queue S = Some (RxBuffer, n) \<Longrightarrow> fb_step E S (S\<lparr>Queue := None\<rparr>)"
| Flash: "mState S = ExpectCmdState \<Longrightarrow> Queue S = None \<Longrightarrow> fb_step E S (ExchangeFlashAndUsbDataBuf S)"
| Tick: "fb_step E S (FlashCompleteHandler E S)"

text \<open>Answers and timers do not touch the data phase.\<close>

definition same_data :: "'a fb_data_scheme \<Rightarrow> 'a fb_data_scheme \<Rightarrow> bool" where
  "same_data S S' \<longleftrightarrow> mState S' = mState S \<and> mNumDataBytes S' = mNumDataBytes S \<and> mBytesReceivedSoFar S' = mBytesReceivedSoFar S \<and>
     mUsbDataBuffer S' = mUsbDataBuffer S \<and> mFlashDataBuffer S' = mFlashDataBuffer S \<and> MaxDownLoadSize S' = MaxDownLoadSize S \<and>
     DataMem S' = DataMem S \<and> Queue S' = Queue S"

lemma same_data_inv: "same_data S S' \<Longrightarrow> fb_inv S \<Longrightarrow> fb_inv S'"
  by (simp add: same_data_def fb_inv_def)

lemma same_data_answers:
  "same_data S (FastbootAck c r S)" "same_data S (FastbootFail r S)" "same_data S (FastbootOkay r S)" "same_data S (FastbootInfo r S)"
  "same_data S (StopUsbTimer S)" "same_data S (FastbootOkayDelay E S)" "same_data S (FlashCompleteHandler E S)"
  by (simp_all add: same_data_def FastbootAck_def FastbootFail_def FastbootOkay_def FastbootInfo_def StopUsbTimer_def
      FastbootOkayDelay_def FlashCompleteHandler_def)

lemma same_data_trans: "same_data S S1 \<Longrightarrow> same_data S1 S2 \<Longrightarrow> same_data S S2"
  by (simp add: same_data_def)

lemma GetXfrSize_le:
  "mState S = ExpectDataState \<Longrightarrow> unat (GetXfrSize S) \<le> unat (mNumDataBytes S - mBytesReceivedSoFar S)"
  by (simp add: GetXfrSize_def Let_def word_less_nat_alt)

text \<open>The data handler on a state of the invariant.\<close>

lemma AcceptData_cases:
  assumes "fb_inv S" "mState S = ExpectDataState" "block_size (FbPageSize E)" "Queue S = None"
    and "n \<le> unat (mNumDataBytes S) - unat (mBytesReceivedSoFar S)"
  shows "\<exists>S'. AcceptData E (word_of_nat n) S = Some S' \<and> fb_inv S' \<and> flash_half S' = flash_half S \<and>
    mUsbDataBuffer S' = mUsbDataBuffer S \<and> mFlashDataBuffer S' = mFlashDataBuffer S \<and> MaxDownLoadSize S' = MaxDownLoadSize S \<and>
    mNumDataBytes S' = mNumDataBytes S \<and> unat (mBytesReceivedSoFar S') = unat (mBytesReceivedSoFar S) + n \<and>
    (if unat (mBytesReceivedSoFar S) + n = unat (mNumDataBytes S)
     then mState S' = ExpectCmdState \<and> Queue S' = None \<and>
       (\<exists>m. DataMem S' = patch (DataMem S) (mUsbDataBuffer S + unat (mNumDataBytes S)) (replicate m 0) \<and>
         unat (mNumDataBytes S) + m \<le> unat (MaxDownLoadSize S))
     else mState S' = ExpectDataState \<and> DataMem S' = DataMem S \<and>
       Queue S' = Some (DataBuffer (mUsbDataBuffer S + unat (mBytesReceivedSoFar S) + n), GetXfrSize S'))"
proof -
  let ?N = "mNumDataBytes S" and ?R = "mBytesReceivedSoFar S" and ?M = "MaxDownLoadSize S"
  have le: "unat ?R \<le> unat ?N" "unat ?N \<le> unat ?M" "unat ?M \<le> 0x30000000"
    using assms(1,2) by (simp_all add: fb_inv_def word_le_nat_alt)
  have left: "unat (?N - ?R) = unat ?N - unat ?R" using le by (simp add: unat_sub word_le_nat_alt)
  have un: "unat (word_of_nat n :: u64) = n" using assms(5) le by (simp add: unsigned_of_nat take_bit_nat_eq_self)
  have size: "(if (word_of_nat n :: u64) > ?N - ?R then ?N - ?R else word_of_nat n) = word_of_nat n"
    using assms(5) un left by (simp add: word_less_nat_alt)
  have sum: "unat (?R + word_of_nat n) = unat ?R + n" using assms(5) un le by (simp add: unat_word_ariths)
  define S1 where "S1 = S\<lparr>mBytesReceivedSoFar := ?R + word_of_nat n\<rparr>"
  show ?thesis
  proof (cases "unat ?R + n = unat ?N")
    case True
    then have eq: "?R + word_of_nat n = ?N" using sum by (simp add: word_unat_eq_iff)
    define Rd where "Rd = (ucast (ucast (ROUND_TO_PAGE ?N (FbPageSize E - 1)) :: u32) :: u64)"
    have Rd: "unat ?N \<le> unat Rd"
      using round_up [OF assms(3), of ?N] le round_up_ge [of "unat (FbPageSize E)" "unat ?N"] unat_block_size(1) [OF assms(3)]
      by (simp add: Rd_def)
    define m where "m = (if Rd < ?M then unat Rd - unat ?N else 0)"
    have m: "unat ?N + m \<le> unat ?M" using Rd le by (auto simp: m_def word_less_nat_alt)
    have sub: "unat (Rd - ?N) = unat Rd - unat ?N" using Rd by (simp add: unat_sub word_le_nat_alt)
    let ?o = "mUsbDataBuffer S + unat ?N" and ?z = "replicate m (0 :: u8)"
    note p = usb_patch [OF assms(1), of ?o ?z, simplified]
    have S1: "mNumDataBytes S1 = ?N" "MaxDownLoadSize S1 = ?M" "mUsbDataBuffer S1 = mUsbDataBuffer S" "DataMem S1 = DataMem S"
      by (simp_all add: S1_def)
    have mem: "(if Rd < ?M then put ?o (replicate (unat (Rd - ?N)) 0) (DataMem S) else Some (DataMem S)) = Some (patch (DataMem S) ?o ?z)"
      using p(1) m sub by (auto simp: m_def)
    define S2 where "S2 = S1\<lparr>DataMem := patch (DataMem S) ?o ?z, mState := ExpectCmdState\<rparr>"
    have A: "AcceptData E (word_of_nat n) S = Some (FastbootOkayDelay E (StopUsbTimer S2))"
    proof -
      have "AcceptData E (word_of_nat n) S = Data_finished E S1"
        using eq by (simp only: AcceptData_def Let_def size S1_def) simp
      also have "\<dots> = Some (FastbootOkayDelay E (StopUsbTimer S2))"
        unfolding Data_finished_def Let_def S1 Rd_def [symmetric] mem by (simp add: S2_def)
      finally show ?thesis .
    qed
    have sd: "same_data S2 (FastbootOkayDelay E (StopUsbTimer S2))"
      by (rule same_data_trans [OF same_data_answers(5,6)])
    have "fb_inv S2" using assms(1,4) p(2) m by (simp add: fb_inv_def S1_def S2_def)
    moreover have "flash_half S2 = flash_half S" using p(3) m by (simp add: flash_half_def S1_def S2_def)
    ultimately show ?thesis
      using A sd same_data_inv [OF sd] m True eq sum assms(4)
      by (auto simp: same_data_def S1_def S2_def flash_half_def)
  next
    case False
    then have "?R + word_of_nat n \<noteq> ?N" using sum by (auto simp: word_unat_eq_iff)
    then have A: "AcceptData E (word_of_nat n) S =
        Some (S1\<lparr>Queue := Some (DataBuffer (mUsbDataBuffer S + (unat ?R + n)), GetXfrSize S1)\<rparr>)"
      by (simp add: AcceptData_def Let_def size S1_def sum)
    have "unat (GetXfrSize S1) \<le> unat ?N - (unat ?R + n)"
      using GetXfrSize_le [of S1] assms(2,5) sum le by (simp add: S1_def unat_sub word_le_nat_alt)
    then have "fb_inv (S1\<lparr>Queue := Some (DataBuffer (mUsbDataBuffer S + (unat ?R + n)), GetXfrSize S1)\<rparr>)"
      using assms(1,2,5) le sum by (auto simp: fb_inv_def S1_def word_le_nat_alt)
    moreover have "GetXfrSize (S1\<lparr>Queue := q\<rparr>) = GetXfrSize S1" for q by (simp add: GetXfrSize_def)
    ultimately show ?thesis using A False assms(2) sum by (auto simp: S1_def flash_half_def add.assoc)
  qed
qed

lemma CmdDownload_inv:
  assumes "fb_inv S" "mState S = ExpectCmdState"
  shows "fb_inv (CmdDownload arg S) \<and> flash_half (CmdDownload arg S) = flash_half S"
  using assms same_data_answers(2)
  by (auto simp: CmdDownload_def Let_def fb_inv_def flash_half_def FastbootFail_def FastbootAck_def not_less)

lemma ReceiveData_step:
  assumes "fb_inv S" "mState S = ExpectDataState" "block_size (FbPageSize E)" "Queue S = Some (DataBuffer off, q)"
    and "length xs \<le> unat q" "length xs \<le> unat (mNumDataBytes S) - unat (mBytesReceivedSoFar S)"
  shows "\<exists>S'. ReceiveData E xs S = Some S' \<and> fb_inv S' \<and> flash_half S' = flash_half S \<and>
    AcceptData E (word_of_nat (length xs)) (S\<lparr>DataMem := patch (DataMem S) off xs, Queue := None\<rparr>) = Some S'"
proof -
  have off: "mUsbDataBuffer S \<le> off" "off + length xs \<le> mUsbDataBuffer S + unat (MaxDownLoadSize S)"
    using assms(1,4,5) by (auto simp: fb_inv_def)
  note p = usb_patch [OF assms(1) off]
  let ?S = "S\<lparr>DataMem := patch (DataMem S) off xs, Queue := None\<rparr>"
  have inv: "fb_inv ?S" using assms(1) p(2) by (simp add: fb_inv_def)
  have "flash_half ?S = flash_half S" using p(3) by (simp add: flash_half_def)
  then show ?thesis
    using AcceptData_cases [OF inv, of E "length xs"] assms p(1) by (auto simp: ReceiveData_def)
qed

text \<open>A request never asks for more than what is missing, so data that obeys it is never too long.\<close>

definition fb_inv_left :: "'a fb_data_scheme \<Rightarrow> bool" where
  "fb_inv_left S \<longleftrightarrow> fb_inv S \<and> (\<forall>off n. Queue S = Some (DataBuffer off, n) \<longrightarrow>
     unat n \<le> unat (mNumDataBytes S) - unat (mBytesReceivedSoFar S))"

lemma fb_step_inv:
  assumes "fb_step E S S'" "fb_inv_left S" "block_size (FbPageSize E)"
  shows "fb_inv_left S'"
  using assms
proof (induction rule: fb_step.induct)
  case (Download S arg)
  then show ?case using CmdDownload_inv [of S arg]
    by (auto simp: fb_inv_left_def fb_inv_def CmdDownload_def Let_def FastbootFail_def FastbootAck_def)
next
  case (TxDone S)
  have "unat (GetXfrSize S) \<le> unat (mNumDataBytes S) - unat (mBytesReceivedSoFar S)" if "mState S = ExpectDataState"
    using GetXfrSize_le [OF that] TxDone.prems that by (simp add: fb_inv_left_def fb_inv_def unat_sub word_le_nat_alt)
  then show ?case using TxDone.prems
    by (auto simp: fb_inv_left_def fb_inv_def ProcessBulkXfrCompleteTx_def word_le_nat_alt split: if_splits)
next
  case (RxData S off n xs S')
  have inv: "fb_inv S" and len: "length xs \<le> unat (mNumDataBytes S) - unat (mBytesReceivedSoFar S)"
    using RxData by (auto simp: fb_inv_left_def)
  let ?S = "S\<lparr>DataMem := patch (DataMem S) off xs, Queue := None\<rparr>"
  have off: "mUsbDataBuffer S \<le> off" "off + length xs \<le> mUsbDataBuffer S + unat (MaxDownLoadSize S)"
    using inv RxData.hyps by (auto simp: fb_inv_def)
  have inv1: "fb_inv ?S" using inv usb_patch(2) [OF inv off] by (simp add: fb_inv_def)
  have A: "AcceptData E (word_of_nat (length xs)) ?S = Some S'"
    using ReceiveData_step [OF inv RxData.hyps(1) RxData.prems(2) RxData.hyps(2,3) len] RxData.hyps(4) by auto
  then have F: "fb_inv S'" "Queue S' = Some (DataBuffer o', q) \<longrightarrow> mState S' = ExpectDataState \<and> q = GetXfrSize S'" for o' q
    using AcceptData_cases [OF inv1, of E "length xs"] RxData.hyps(1) RxData.prems(2) len by (auto split: if_splits)
  show ?case using F GetXfrSize_le [of S']
    by (auto simp: fb_inv_left_def fb_inv_def unat_sub word_le_nat_alt)
next
  case (Tick S)
  then show ?case using same_data_answers(7) [of S E] same_data_inv [of S "FlashCompleteHandler E S"]
    by (auto simp: fb_inv_left_def same_data_def)
qed (auto simp: fb_inv_left_def fb_inv_def ExchangeFlashAndUsbDataBuf_def)

text \<open>
  C37: Whatever a host sends, in any order, every request given to the USB driver lies inside the half of the download buffer that is
  not being flashed: data that obeys the request is stored without leaving the memory, and the image
  in the other half stays as it is.
\<close>

theorem download_in_bounds:
  assumes "(fb_step E)\<^sup>*\<^sup>* S0 S" "fb_inv_left S0" "block_size (FbPageSize E)"
    and "mState S = ExpectDataState" "Queue S = Some (DataBuffer off, n)" "length xs \<le> unat n"
  shows "mUsbDataBuffer S \<le> off \<and> off + unat n \<le> mUsbDataBuffer S + unat (MaxDownLoadSize S) \<and>
    (\<exists>S'. ReceiveData E xs S = Some S' \<and> flash_half S' = flash_half S)"
proof -
  have inv: "fb_inv_left S"
    using assms(1,2) by (induction rule: rtranclp_induct) (auto intro: fb_step_inv [OF _ _ assms(3)])
  then have "length xs \<le> unat (mNumDataBytes S) - unat (mBytesReceivedSoFar S)" using assms(5,6) by (auto simp: fb_inv_left_def)
  then show ?thesis
    using inv ReceiveData_step [OF _ assms(4,3,5,6)] assms(5) by (auto simp: fb_inv_left_def fb_inv_def)
qed

section \<open>Downloads are exact\<close>

fun Receive_all :: "fb_env \<Rightarrow> bytes list \<Rightarrow> 'a fb_data_scheme \<Rightarrow> 'a fb_data_scheme option" where
  "Receive_all E [] S = Some S"
| "Receive_all E (xs # xss) S = do { S \<leftarrow> ReceiveData E xs S; Receive_all E xss S }"

text \<open>A download in progress, after the bytes \<open>ps\<close>.\<close>

definition receiving :: "'a fb_data_scheme \<Rightarrow> bytes \<Rightarrow> bool" where
  "receiving S ps \<longleftrightarrow> fb_inv S \<and> mState S = ExpectDataState \<and> unat (mBytesReceivedSoFar S) = length ps \<and>
     take (length ps) (drop (mUsbDataBuffer S) (DataMem S)) = ps \<and>
     Queue S = Some (DataBuffer (mUsbDataBuffer S + length ps), GetXfrSize S)"

text \<open>The end of a download with the bytes \<open>ps\<close> that began in \<open>S0\<close>.\<close>

definition received :: "'a fb_data_scheme \<Rightarrow> bytes \<Rightarrow> 'a fb_data_scheme \<Rightarrow> bool" where
  "received S0 ps S \<longleftrightarrow> fb_inv S \<and> mState S = ExpectCmdState \<and> mUsbDataBuffer S = mUsbDataBuffer S0 \<and>
     mFlashDataBuffer S = mFlashDataBuffer S0 \<and> MaxDownLoadSize S = MaxDownLoadSize S0 \<and> mNumDataBytes S = mNumDataBytes S0 \<and>
     flash_half S = flash_half S0 \<and> take (length ps) (drop (mUsbDataBuffer S) (DataMem S)) = ps"

lemma take_drop_patch:
  assumes "off = u + length ps" "off + length xs \<le> length d" "take (length ps) (drop u d) = ps"
  shows "take (length (ps @ xs)) (drop u (patch d off xs)) = ps @ xs"
  using assms by (simp add: patch_def drop_take take_add)

lemma receive_step:
  assumes "receiving S ps" "block_size (FbPageSize E)" "xs \<noteq> []" "length xs \<le> 0x1000000"
    and "length ps + length xs \<le> unat (mNumDataBytes S)"
  shows "\<exists>S'. ReceiveData E xs S = Some S' \<and>
    (if length ps + length xs = unat (mNumDataBytes S) then received S (ps @ xs) S'
     else receiving S' (ps @ xs) \<and> mUsbDataBuffer S' = mUsbDataBuffer S \<and> mFlashDataBuffer S' = mFlashDataBuffer S \<and>
       MaxDownLoadSize S' = MaxDownLoadSize S \<and> mNumDataBytes S' = mNumDataBytes S \<and> flash_half S' = flash_half S)"
proof -
  let ?u = "mUsbDataBuffer S" and ?o = "mUsbDataBuffer S + length ps"
  have r: "fb_inv S" "mState S = ExpectDataState" "unat (mBytesReceivedSoFar S) = length ps"
    "take (length ps) (drop ?u (DataMem S)) = ps" "Queue S = Some (DataBuffer ?o, GetXfrSize S)"
    using assms(1) by (simp_all add: receiving_def)
  have N: "unat (mNumDataBytes S) \<le> unat (MaxDownLoadSize S)" "?u + unat (MaxDownLoadSize S) \<le> length (DataMem S)"
    using r(1,2) by (auto simp: fb_inv_def word_le_nat_alt)
  have left: "unat (mNumDataBytes S - mBytesReceivedSoFar S) = unat (mNumDataBytes S) - length ps"
    using r(3) assms(5) by (subst unat_sub) (simp_all add: word_le_nat_alt)
  have q: "length xs \<le> unat (GetXfrSize S)"
    using assms(4,5) left by (auto simp: GetXfrSize_def Let_def USB_BUFFER_SIZE_def)
  have len: "length xs \<le> unat (mNumDataBytes S) - unat (mBytesReceivedSoFar S)" using r(3) assms(5) by simp
  obtain S' where S': "ReceiveData E xs S = Some S'"
    "AcceptData E (word_of_nat (length xs)) (S\<lparr>DataMem := patch (DataMem S) ?o xs, Queue := None\<rparr>) = Some S'"
    using ReceiveData_step [OF r(1,2) assms(2) r(5) q len] by blast
  let ?S = "S\<lparr>DataMem := patch (DataMem S) ?o xs, Queue := None\<rparr>"
  have fit: "?o + length xs \<le> ?u + unat (MaxDownLoadSize S)" using assms(5) N by simp
  note p = usb_patch [OF r(1) _ fit, simplified]
  have inv: "fb_inv ?S" using r(1) p(2) by (simp add: fb_inv_def)
  have pre: "take (length (ps @ xs)) (drop ?u (patch (DataMem S) ?o xs)) = ps @ xs"
    using fit N r(4) by (intro take_drop_patch) auto
  have F: "flash_half ?S = flash_half S" using p(3) by (simp add: flash_half_def)
  note C = AcceptData_cases [OF inv, of E "length xs", simplified, OF r(2) assms(2) len, unfolded r(3)]
  have keep: "take (length (ps @ xs)) (drop ?u (patch d (?u + unat (mNumDataBytes S)) (replicate m 0))) = take (length (ps @ xs)) (drop ?u d)"
    if "unat (mNumDataBytes S) + m \<le> unat (MaxDownLoadSize S)" "length d = length (DataMem S)" for d :: bytes and m
    using that N assms(5) by (simp add: patch_def drop_take)
  show ?thesis
  proof (cases "length ps + length xs = unat (mNumDataBytes S)")
    case True
    then have "received S (ps @ xs) S'"
      using C S'(2) F pre keep p(2) assms(5) unfolding received_def by (auto split: if_splits)
    then show ?thesis using S'(1) True by simp
  next
    case False
    then have "receiving S' (ps @ xs)" using C S'(2) pre assms(5) r(3) unfolding receiving_def by (auto simp: add.assoc)
    then show ?thesis using S'(1) False C S'(2) F assms(5) by auto
  qed
qed

lemma receive_all:
  assumes "receiving S ps" "block_size (FbPageSize E)" "\<forall>xs \<in> set xss. xs \<noteq> [] \<and> length xs \<le> 0x1000000"
    and "length ps + length (concat xss) = unat (mNumDataBytes S)" "xss \<noteq> []"
  shows "\<exists>S'. Receive_all E xss S = Some S' \<and> received S (ps @ concat xss) S'"
  using assms
proof (induction xss arbitrary: S ps)
  case (Cons xs xss)
  obtain S1 where S1: "ReceiveData E xs S = Some S1"
    "if length ps + length xs = unat (mNumDataBytes S) then received S (ps @ xs) S1
     else receiving S1 (ps @ xs) \<and> mUsbDataBuffer S1 = mUsbDataBuffer S \<and> mFlashDataBuffer S1 = mFlashDataBuffer S \<and>
       MaxDownLoadSize S1 = MaxDownLoadSize S \<and> mNumDataBytes S1 = mNumDataBytes S \<and> flash_half S1 = flash_half S"
    using receive_step [OF Cons.prems(1,2), of xs] Cons.prems(3,4) by auto
  show ?case
  proof (cases "xss = []")
    case True
    then show ?thesis using S1 Cons.prems(4) by auto
  next
    case False
    then have "concat xss \<noteq> []" using Cons.prems(3) by (cases xss) auto
    then have "0 < length (concat xss)" by (simp only: length_greater_0_conv not_False_eq_True)
    then have "length ps + length xs \<noteq> unat (mNumDataBytes S)"
      using Cons.prems(4) unfolding concat.simps length_append by linarith
    then have r: "receiving S1 (ps @ xs)" and e: "mUsbDataBuffer S1 = mUsbDataBuffer S" "mFlashDataBuffer S1 = mFlashDataBuffer S"
        "MaxDownLoadSize S1 = MaxDownLoadSize S" "mNumDataBytes S1 = mNumDataBytes S" "flash_half S1 = flash_half S"
      using S1(2) by auto
    obtain S' where "Receive_all E xss S1 = Some S'" "received S1 ((ps @ xs) @ concat xss) S'"
      using Cons.IH [OF r Cons.prems(2)] Cons.prems(3,4) False e by auto
    then show ?thesis using S1(1) e by (auto simp: received_def)
  qed
qed simp

lemma download_received:
  assumes "fb_inv S" "mState S = ExpectCmdState" "block_size (FbPageSize E)"
    and "AsciiStrHexToUint64 arg = n" "0 < n" "n \<le> MaxDownLoadSize S"
    and "\<forall>xs \<in> set xss. xs \<noteq> [] \<and> length xs \<le> 0x1000000" "length (concat xss) = unat n"
  shows "\<exists>S'. Receive_all E xss (ProcessBulkXfrCompleteTx (CmdDownload arg S)) = Some S' \<and>
    received (S\<lparr>mNumDataBytes := n\<rparr>) (concat xss) S'"
proof -
  define S1 where "S1 = ProcessBulkXfrCompleteTx (CmdDownload arg S)"
  have n: "n \<noteq> 0" "\<not> n > MaxDownLoadSize S" using assms(5,6) by auto
  have D: "CmdDownload arg S = S\<lparr>mNumDataBytes := n, mState := ExpectDataState, mBytesReceivedSoFar := 0,
      Replies := Replies S @ [''DATA'' @ (if length arg < 9 then arg else [])]\<rparr>"
    using n by (simp add: CmdDownload_def assms(4) Let_def)
  have e: "mUsbDataBuffer S1 = mUsbDataBuffer S" "mFlashDataBuffer S1 = mFlashDataBuffer S" "MaxDownLoadSize S1 = MaxDownLoadSize S"
      "mNumDataBytes S1 = n" "DataMem S1 = DataMem S"
    by (simp_all add: S1_def ProcessBulkXfrCompleteTx_def D)
  have "unat (GetXfrSize (CmdDownload arg S)) \<le> unat n" using GetXfrSize_le [of "CmdDownload arg S"] by (simp add: D)
  then have "fb_inv S1" using assms(1,6) unfolding S1_def ProcessBulkXfrCompleteTx_def
    by (auto simp: fb_inv_def D word_le_nat_alt)
  then have "receiving S1 []" by (simp add: receiving_def S1_def ProcessBulkXfrCompleteTx_def D GetXfrSize_def)
  moreover have "xss \<noteq> []" using assms(5,8) by (auto simp: word_gt_0 unat_eq_0)
  ultimately obtain S' where "Receive_all E xss S1 = Some S'" "received S1 (concat xss) S'"
    using receive_all [of S1 "[]" E xss] assms(3,7,8) e(4) by auto
  then show ?thesis using e unfolding S1_def [symmetric] by (auto simp: received_def flash_half_def)
qed

text \<open>
  A download is exact. When the announced size is accepted and the host sends that many bytes, in packets of any sizes up to 16 MB, then
  the code ends in the command state with the bytes at the start of its half, the other half unchanged, and after the
  exchange of the next flash command the image to flash is exactly these bytes.
\<close>

theorem download_exact:
  assumes "fb_inv S" "mState S = ExpectCmdState" "block_size (FbPageSize E)"
    and "AsciiStrHexToUint64 arg = n" "0 < n" "n \<le> MaxDownLoadSize S"
    and "\<forall>xs \<in> set xss. xs \<noteq> [] \<and> length xs \<le> 0x1000000" "length (concat xss) = unat n"
  shows "\<exists>S'. Receive_all E xss (ProcessBulkXfrCompleteTx (CmdDownload arg S)) = Some S' \<and> mState S' = ExpectCmdState \<and>
    flash_half S' = flash_half S \<and>
    mFlashNumDataBytes (ExchangeFlashAndUsbDataBuf S') = n \<and>
    take (unat n) (flash_half (ExchangeFlashAndUsbDataBuf S')) = concat xss"
proof -
  obtain S' where S': "Receive_all E xss (ProcessBulkXfrCompleteTx (CmdDownload arg S)) = Some S'"
    "received (S\<lparr>mNumDataBytes := n\<rparr>) (concat xss) S'"
    using download_received [OF assms] by blast
  have len: "length (concat xss) \<le> unat (MaxDownLoadSize S)" using assms(6,8) by (simp add: word_le_nat_alt)
  have half: "flash_half (ExchangeFlashAndUsbDataBuf S') = take (unat (MaxDownLoadSize S)) (drop (mUsbDataBuffer S') (DataMem S'))"
    using S'(2) by (simp add: flash_half_def ExchangeFlashAndUsbDataBuf_def received_def)
  have "take (unat n) (drop (mUsbDataBuffer S') (DataMem S')) = concat xss"
    using S'(2) [unfolded received_def] assms(8) by metis
  then have "take (unat n) (flash_half (ExchangeFlashAndUsbDataBuf S')) = concat xss"
    using len assms(8) unfolding half by (simp add: min_def)
  then show ?thesis using S' by (auto simp: received_def flash_half_def ExchangeFlashAndUsbDataBuf_def)
qed

lemma Alloc_loop_sound:
  "Alloc_loop alloc n = (EFI_SUCCESS, s) \<Longrightarrow> alloc s \<and> MIN_BUFFER_SIZE \<le> s \<and> s \<le> MAX_BUFFER_SIZE"
proof (induction alloc n rule: Alloc_loop.induct)
  case (1 alloc n)
  show ?case
    using 1(2) 1(1) [OF refl _ refl]
    by (subst (asm) Alloc_loop.simps)
      (auto simp: Let_def not_less MIN_BUFFER_SIZE_def MAX_BUFFER_SIZE_def split: if_splits)
qed

text \<open>
  C38: The start of Fastboot ends, with an error and no buffer or with a buffer: its size is one the driver granted, half of it is
  between 32 and 768 MB, the memory is clear, and the two halves that downloads and flashing use are disjoint.
\<close>

theorem FastbootCmdsInit_buffer:
  assumes "mState S = ExpectCmdState" "Queue S = None" "t \<noteq> NAND"
    and "FastbootCmdsInit Event M alloc t S = (st, S')"
  shows "(EFI_ERROR st \<longrightarrow> DataMem S' = []) \<and>
    (\<not> EFI_ERROR st \<longrightarrow> fb_inv_left S' \<and> alloc (word_of_nat (length (DataMem S'))) \<and> set (DataMem S') \<subseteq> {0} \<and>
       0x2000000 \<le> unat (MaxDownLoadSize S') \<and> unat (MaxDownLoadSize S') \<le> 0x30000000)"
proof (cases "fst (Alloc_loop alloc (GetMaxAllocatableMemory M)) = EFI_SUCCESS")
  case True
  then obtain s where A: "Alloc_loop alloc (GetMaxAllocatableMemory M) = (EFI_SUCCESS, s)" by (metis prod.collapse)
  have s: "alloc s" "0x4000000 \<le> unat s" "unat s \<le> 0x60000000"
    using Alloc_loop_sound [OF A] by (simp_all add: MIN_BUFFER_SIZE_def MAX_BUFFER_SIZE_def word_le_nat_alt)
  have "unat (s div 2) = unat s div 2" by (simp add: unat_div)
  then show ?thesis
    using assms s A by (auto simp: FastbootCmdsInit_def Let_def fb_inv_left_def fb_inv_def split: if_splits)
qed (use assms in \<open>auto simp: FastbootCmdsInit_def Let_def EFI_ERROR_def split: if_splits prod.splits\<close>)

section \<open>Sample runs\<close>

definition fb_sample :: fb_data where
  "fb_sample = \<lparr>mState = ExpectCmdState, mNumDataBytes = 8, mFlashNumDataBytes = 8, mBytesReceivedSoFar = 0,
     mUsbDataBuffer = 0, mFlashDataBuffer = 8, MaxDownLoadSize = 8, DataMem = replicate 16 7, Queue = None,
     IsFlashComplete = True, UsbTimerEvent = False, UsbTimerStarted = False, OkayPending = 0, Replies = []\<rparr>"

definition fb_sample_env :: fb_env where
  "fb_sample_env = \<lparr>FbPageSize = 512, OkayEvent = EFI_SUCCESS, OkayTimer = EFI_SUCCESS\<rparr>"

definition map_sample :: map_env where
  "map_sample = \<lparr>MapProbe = EFI_BUFFER_TOO_SMALL, MapSize = 96, MapPool = True, MapRead = EFI_SUCCESS,
     MapEntries = [(7, 16), (7, 0x8000), (4, 0x10000)]\<rparr>"

lemma fb_sample_inv: "fb_inv_left fb_sample" "mState fb_sample = ExpectCmdState" "Queue fb_sample = None"
  by (simp_all add: fb_inv_left_def fb_inv_def fb_sample_def)

lemma fb_sample_block: "block_size (FbPageSize fb_sample_env)"
  by (simp add: fb_sample_env_def block_size_def exI [of _ 9])

lemma fb_sample_hex: "AsciiStrHexToUint64 ''05'' = 5"
  by code_simp

lemma fb_sample_download:
  "mState (CmdDownload ''05'' fb_sample) = ExpectDataState"
  "ProcessBulkXfrCompleteTx (CmdDownload ''05'' fb_sample) = (CmdDownload ''05'' fb_sample)\<lparr>Queue := Some (DataBuffer 0, 5)\<rparr>"
  by (simp_all add: CmdDownload_def fb_sample_hex fb_sample_def ProcessBulkXfrCompleteTx_def GetXfrSize_def USB_BUFFER_SIZE_def)

lemma fb_sample_steps: "(fb_step fb_sample_env)\<^sup>*\<^sup>* fb_sample (ProcessBulkXfrCompleteTx (CmdDownload ''05'' fb_sample))"
  by (rule rtranclp_trans [OF r_into_rtranclp r_into_rtranclp]) (rule fb_step.Download fb_step.TxDone fb_sample_inv)+

theorem download_in_bounds_witness:
  "\<exists>S'. ReceiveData fb_sample_env [1, 2] (ProcessBulkXfrCompleteTx (CmdDownload ''05'' fb_sample)) = Some S' \<and>
     flash_half S' = replicate 8 7"
proof -
  have "flash_half (ProcessBulkXfrCompleteTx (CmdDownload ''05'' fb_sample)) = replicate 8 7"
    by (simp add: flash_half_def ProcessBulkXfrCompleteTx_def CmdDownload_def fb_sample_hex fb_sample_def)
  then show ?thesis
    using download_in_bounds [OF fb_sample_steps fb_sample_inv(1) fb_sample_block, of 0 5 "[1, 2]"] fb_sample_download by simp
qed

theorem download_exact_witness:
  "\<exists>S'. Receive_all fb_sample_env [[1, 2], [3, 4, 5]] (ProcessBulkXfrCompleteTx (CmdDownload ''05'' fb_sample)) = Some S' \<and>
     take 5 (flash_half (ExchangeFlashAndUsbDataBuf S')) = [1, 2, 3, 4, 5]"
  using download_exact [OF _ fb_sample_inv(2) fb_sample_block fb_sample_hex, of "[[1, 2], [3, 4, 5]]"] fb_sample_inv(1)
  by (auto simp: fb_inv_left_def fb_sample_def)

lemma map_sample_free: "GetMaxAllocatableMemory map_sample = 0x8000000"
  by code_simp

lemma map_sample_alloc: "Alloc_loop (\<lambda>n. n < 0x5000000) 0x8000000 = (EFI_SUCCESS, 0x4800000)"
  by (subst Alloc_loop.simps, simp add: LOCAL_ROUND_TO_PAGE_def EFI_FREE_MEM_DIVISOR_def MIN_BUFFER_SIZE_def MAX_BUFFER_SIZE_def Let_def)
    (subst Alloc_loop.simps, simp add: LOCAL_ROUND_TO_PAGE_def EFI_FREE_MEM_DIVISOR_def MIN_BUFFER_SIZE_def MAX_BUFFER_SIZE_def Let_def)

theorem FastbootCmdsInit_buffer_witness:
  "\<exists>S. FastbootCmdsInit EFI_SUCCESS map_sample (\<lambda>n. n < 0x5000000) EMMC fb_sample = (EFI_SUCCESS, S) \<and> fb_inv_left S \<and>
     set (DataMem S) \<subseteq> {0} \<and> MaxDownLoadSize S = 0x2400000"
proof -
  obtain S where S: "FastbootCmdsInit EFI_SUCCESS map_sample (\<lambda>n. n < 0x5000000) EMMC fb_sample = (EFI_SUCCESS, S)"
      "MaxDownLoadSize S = 0x2400000"
    by (simp add: FastbootCmdsInit_def map_sample_free map_sample_alloc Let_def)
  show ?thesis using FastbootCmdsInit_buffer [OF fb_sample_inv(2,3) _ S(1)] S by auto
qed

end
