(* ===== verification/Sparse_Image.thy ===== *)
theory Sparse_Image
  imports Block_Write
begin

text \<open>
  Flashing a sparse image (\<^verbatim>\<open>FastbootLib/FastbootCmds.c\<close>, \<open>HandleSparseImgFlash\<close> and the chunk handlers): the image
  in the download buffer is a header and a sequence of chunks, each with raw blocks, one word to fill blocks with, or blocks to
  leave alone. The code keeps a pointer into the buffer as a 64-bit address, and so does the model: the buffer starts
  at \<open>Base\<close>, and reading outside it has no value.
\<close>

section \<open>Data\<close>

record sparse_header =
  file_hdr_sz :: u16
  chunk_hdr_sz :: u16
  blk_sz :: u32
  total_blks :: u32
  total_chunks :: u32

record chunk_header =
  chunk_type :: u16
  chunk_sz :: u32
  total_sz :: u32

definition SPARSE_HEADER_MAGIC :: u32 where "SPARSE_HEADER_MAGIC = 0xED26FF3A"
definition CHUNK_TYPE_RAW :: u16 where "CHUNK_TYPE_RAW = 0xCAC1"
definition CHUNK_TYPE_FILL :: u16 where "CHUNK_TYPE_FILL = 0xCAC2"
definition CHUNK_TYPE_DONT_CARE :: u16 where "CHUNK_TYPE_DONT_CARE = 0xCAC3"
definition CHUNK_TYPE_CRC :: u16 where "CHUNK_TYPE_CRC = 0xCAC4"

definition read_sparse_header :: "bytes \<Rightarrow> sparse_header option" where
  "read_sparse_header b =
     do { fh \<leftarrow> rd16 b 8; ch \<leftarrow> rd16 b 10; bl \<leftarrow> rd32 b 12; tb \<leftarrow> rd32 b 16; tc \<leftarrow> rd32 b 20;
          Some \<lparr> file_hdr_sz = fh, chunk_hdr_sz = ch, blk_sz = bl, total_blks = tb, total_chunks = tc \<rparr> }"

definition read_chunk_header :: "bytes \<Rightarrow> chunk_header option" where
  "read_chunk_header b =
     do { t \<leftarrow> rd16 b 0; c \<leftarrow> rd32 b 4; s \<leftarrow> rd32 b 8;
          Some \<lparr> chunk_type = t, chunk_sz = c, total_sz = s \<rparr> }"

text \<open>
  \<open>SparseImgParam\<close>, in two parts: \<open>sparse_ctx\<close> holds what the chunks do not change, with the buffer and the device, and
  \<open>sparse_st\<close> what they change, with the pointer \<open>Img\<close> into the buffer.
\<close>

record sparse_ctx =
  Base :: u64
  Buf :: bytes
  Dev :: blk_env
  Nand :: bool
  Split :: bool
  ImageEnd :: u64
  BlockCountFactor :: u64
  PartitionSize :: u64
  Hdr :: sparse_header

record sparse_st =
  Img :: u64
  TotalBlocks :: u32
  WrittenBlockCount :: u64
  Ops :: dev_log

text \<open>The bytes from an address on.\<close>

definition mem_from :: "sparse_ctx \<Rightarrow> u64 \<Rightarrow> bytes option" where
  "mem_from C a =
     (if unat (Base C) \<le> unat a \<and> unat a \<le> unat (Base C) + length (Buf C)
      then Some (drop (unat a - unat (Base C)) (Buf C)) else None)"

section \<open>Chunks\<close>

definition WriteToDisk :: "sparse_ctx \<Rightarrow> bytes \<Rightarrow> u64 \<Rightarrow> u64 \<Rightarrow> dev_log \<Rightarrow> (efi_status \<times> dev_log) option" where
  "WriteToDisk C data Size offset log =
     WriteBlockToPartition (Some (Dev C)) True (Nand C) (Split C) offset Size (Some data) log"

definition BlocksBytes :: "sparse_ctx \<Rightarrow> sparse_st \<Rightarrow> u64" where
  "BlocksBytes C S = ucast (TotalBlocks S) * ucast (blk_sz (Hdr C))"

definition Raw_write :: "sparse_ctx \<Rightarrow> chunk_header \<Rightarrow> u64 \<Rightarrow> bytes \<Rightarrow> sparse_st \<Rightarrow> (efi_status \<times> sparse_st) option" where
  "Raw_write C ch ChunkDataSz data S =
     (let wbc = ucast (TotalBlocks S) * BlockCountFactor C
      in do {
        (Status, log) \<leftarrow> WriteToDisk C data ChunkDataSz wbc (Ops S);
        let S = S\<lparr>WrittenBlockCount := wbc, Ops := log\<rparr>;
        if EFI_ERROR Status then Some (Status, S)
        else if TotalBlocks S > 0xFFFFFFFF - chunk_sz ch then Some (EFI_INVALID_PARAMETER, S)
        else Some (EFI_SUCCESS, S\<lparr>TotalBlocks := TotalBlocks S + chunk_sz ch, Img := Img S + ChunkDataSz\<rparr>) })"

definition HandleChunkTypeRaw ::
  "sparse_ctx \<Rightarrow> chunk_header \<Rightarrow> u64 \<Rightarrow> sparse_st \<Rightarrow> (efi_status \<times> sparse_st) option" where
  "HandleChunkTypeRaw C ch ChunkDataSz S =
     (if Img S = 0 then Some (EFI_INVALID_PARAMETER, S)
      else if ucast (total_sz ch) \<noteq> ucast (chunk_hdr_sz (Hdr C)) + ChunkDataSz then Some (EFI_INVALID_PARAMETER, S)
      else if \<not> no_wrap (Img S) ChunkDataSz then Some (EFI_INVALID_PARAMETER, S)
      else if ImageEnd C < Img S + ChunkDataSz then Some (EFI_INVALID_PARAMETER, S)
      else do { data \<leftarrow> mem_from C (Img S); Raw_write C ch ChunkDataSz data S })"

definition fill_buf :: "u32 \<Rightarrow> u32 \<Rightarrow> bytes" where
  "fill_buf blk FillVal =
     concat (replicate (unat blk div 4) (enc32 FillVal)) @ replicate (unat blk mod 4) 0"

fun Fill_loop :: "sparse_ctx \<Rightarrow> bytes \<Rightarrow> nat \<Rightarrow> sparse_st \<Rightarrow> (efi_status \<times> sparse_st) option" where
  "Fill_loop C FillBuf 0 S = Some (EFI_SUCCESS, S)"
| "Fill_loop C FillBuf (Suc n) S =
     (if BlocksBytes C S + ucast (blk_sz (Hdr C)) > PartitionSize C then Some (EFI_VOLUME_FULL, S)
      else
        (let wbc = ucast (TotalBlocks S) * BlockCountFactor C
         in do {
           (Status, log) \<leftarrow> WriteToDisk C FillBuf (ucast (blk_sz (Hdr C))) wbc (Ops S);
           let S = S\<lparr>WrittenBlockCount := wbc, Ops := log\<rparr>;
           if EFI_ERROR Status then Some (Status, S)
           else Fill_loop C FillBuf n (S\<lparr>TotalBlocks := TotalBlocks S + 1\<rparr>) }))"

definition HandleChunkTypeFill ::
  "sparse_ctx \<Rightarrow> chunk_header \<Rightarrow> sparse_st \<Rightarrow> (efi_status \<times> sparse_st) option" where
  "HandleChunkTypeFill C ch S =
     (if Img S = 0 then Some (EFI_INVALID_PARAMETER, S)
      else if (ucast (total_sz ch) :: u64) \<noteq> ucast (chunk_hdr_sz (Hdr C)) + 4 then Some (EFI_INVALID_PARAMETER, S)
      else if \<not> BlkPoolOk (Dev C) then Some (EFI_OUT_OF_RESOURCES, S)
      else if \<not> no_wrap (Img S) 4 then Some (EFI_INVALID_PARAMETER, S)
      else if ImageEnd C < Img S + 4 then Some (EFI_INVALID_PARAMETER, S)
      else do {
        data \<leftarrow> mem_from C (Img S);
        FillVal \<leftarrow> rd32 data 0;
        Fill_loop C (fill_buf (blk_sz (Hdr C)) FillVal) (unat (chunk_sz ch)) (S\<lparr>Img := Img S + 4\<rparr>) })"

definition ValidateChunkDataAndFlash ::
  "sparse_ctx \<Rightarrow> chunk_header \<Rightarrow> u64 \<Rightarrow> sparse_st \<Rightarrow> (efi_status \<times> sparse_st) option" where
  "ValidateChunkDataAndFlash C ch ChunkDataSz S =
     (if Img S = 0 then Some (EFI_INVALID_PARAMETER, S)
      else if chunk_type ch = CHUNK_TYPE_RAW then HandleChunkTypeRaw C ch ChunkDataSz S
      else if chunk_type ch = CHUNK_TYPE_FILL then HandleChunkTypeFill C ch S
      else if chunk_type ch = CHUNK_TYPE_DONT_CARE then
        (if TotalBlocks S > 0xFFFFFFFF - chunk_sz ch then Some (EFI_INVALID_PARAMETER, S)
         else Some (EFI_SUCCESS, S\<lparr>TotalBlocks := TotalBlocks S + chunk_sz ch\<rparr>))
      else if chunk_type ch = CHUNK_TYPE_CRC then
        (if total_sz ch \<noteq> ucast (chunk_hdr_sz (Hdr C)) then Some (EFI_INVALID_PARAMETER, S)
         else if TotalBlocks S > 0xFFFFFFFF - chunk_sz ch then Some (EFI_INVALID_PARAMETER, S)
         else
           (let S = S\<lparr>TotalBlocks := TotalBlocks S + chunk_sz ch\<rparr>
            in if \<not> no_wrap (Img S) ChunkDataSz then Some (EFI_INVALID_PARAMETER, S)
               else
                 (let S = S\<lparr>Img := Img S + ucast (ucast ChunkDataSz :: u32)\<rparr>
                  in Some (if ImageEnd C < Img S then EFI_INVALID_PARAMETER else EFI_SUCCESS, S))))
      else Some (EFI_INVALID_PARAMETER, S))"

fun Chunk_loop :: "sparse_ctx \<Rightarrow> nat \<Rightarrow> sparse_st \<Rightarrow> (efi_status \<times> sparse_st) option" where
  "Chunk_loop C 0 S = Some (EFI_SUCCESS, S)"
| "Chunk_loop C (Suc n) S =
     (if BlocksBytes C S \<ge> PartitionSize C then Some (EFI_VOLUME_FULL, S)
      else if \<not> no_wrap (Img S) 12 then Some (EFI_INVALID_PARAMETER, S)
      else
        (let S' = S\<lparr>Img := Img S + 12\<rparr>
         in if ImageEnd C < Img S' then Some (EFI_BAD_BUFFER_SIZE, S')
            else do {
              data \<leftarrow> mem_from C (Img S);
              ch \<leftarrow> read_chunk_header data;
              if chunk_hdr_sz (Hdr C) \<noteq> 12 then Some (EFI_INVALID_PARAMETER, S')
              else
                (let ChunkDataSz = ucast (blk_sz (Hdr C)) * ucast (chunk_sz ch)
                 in if BlocksBytes C S' + ChunkDataSz > PartitionSize C then Some (EFI_VOLUME_FULL, S')
                    else do {
                      (Status, S') \<leftarrow> ValidateChunkDataAndFlash C ch ChunkDataSz S';
                      if EFI_ERROR Status then Some (Status, S') else Chunk_loop C n S' }) }))"

section \<open>The image\<close>

definition Sparse_chunks ::
  "blk_env \<Rightarrow> bool \<Rightarrow> bool \<Rightarrow> u64 \<Rightarrow> bytes \<Rightarrow> u64 \<Rightarrow> u64 \<Rightarrow> sparse_header \<Rightarrow> dev_log \<Rightarrow> (efi_status \<times> dev_log) option" where
  "Sparse_chunks E nand split ImageAddr Buffer sz PSize h log =
     (let C = \<lparr> Base = ImageAddr, Buf = Buffer, Dev = E, Nand = nand, Split = split, ImageEnd = ImageAddr + sz,
                BlockCountFactor = ucast (blk_sz h div MediaBlockSize E), PartitionSize = PSize, Hdr = h \<rparr>;
          S = \<lparr> Img = ImageAddr + 28, TotalBlocks = 0, WrittenBlockCount = 0, Ops = log \<rparr>
      in do { (Status, S) \<leftarrow> Chunk_loop C (unat (total_chunks h)) S;
              if EFI_ERROR Status then Some (Status, Ops S)
              else if TotalBlocks S \<noteq> total_blks h then Some (EFI_VOLUME_CORRUPTED, Ops S)
              else Some (EFI_SUCCESS, Ops S) })"

text \<open>\<open>Info\<close> is what \<open>PartitionGetInfo\<close> found: a status, and a block device and a handle that may be null.\<close>

definition HandleSparseImgFlash ::
  "efi_status \<times> blk_env option \<times> bool \<Rightarrow> bool \<Rightarrow> bool \<Rightarrow> u64 \<Rightarrow> bytes \<Rightarrow> u64 \<Rightarrow> dev_log \<Rightarrow>
     (efi_status \<times> dev_log) option" where
  "HandleSparseImgFlash Info nand split ImageAddr Buffer sz log =
     (if \<not> no_wrap ImageAddr sz then Some (EFI_INVALID_PARAMETER, log)
      else
        (case Info of (Status, BlockIo, Handle) \<Rightarrow>
           if Status \<noteq> EFI_SUCCESS then Some (Status, log)
           else
             (case BlockIo of
                None \<Rightarrow> Some (EFI_VOLUME_CORRUPTED, log)
              | Some E \<Rightarrow>
                  if \<not> Handle then Some (EFI_VOLUME_CORRUPTED, log)
                  else
                    (let PSize = GetPartitionSize (Some (MediaLastBlock E, MediaBlockSize E))
                     in if PSize = 0 then Some (EFI_BAD_BUFFER_SIZE, log)
                        else if sz < 28 then Some (EFI_INVALID_PARAMETER, log)
                        else do {
                          h \<leftarrow> read_sparse_header Buffer;
                          if ucast (total_blks h) * ucast (blk_sz h) > PSize then Some (EFI_VOLUME_FULL, log)
                          else if file_hdr_sz h \<noteq> 28 then Some (EFI_BAD_BUFFER_SIZE, log)
                          else if blk_sz h = 0 then Some (EFI_INVALID_PARAMETER, log)
                          else if MediaBlockSize E = 0 then None
                          else if blk_sz h mod MediaBlockSize E \<noteq> 0 then Some (EFI_INVALID_PARAMETER, log)
                          else Sparse_chunks E nand split ImageAddr Buffer sz PSize h log }))))"

section \<open>Every access is in bounds\<close>

abbreviation dev_bs :: "sparse_ctx \<Rightarrow> nat" where
  "dev_bs C \<equiv> unat (MediaBlockSize (Dev C))"

text \<open>The context of a flash to eMMC or UFS, with the image inside the buffer, and the pointer inside the image.\<close>

definition ctx_ok :: "sparse_ctx \<Rightarrow> bool" where
  "ctx_ok C \<longleftrightarrow> \<not> Nand C \<and> block_size (MediaBlockSize (Dev C)) \<and>
     unat (Base C) \<le> unat (ImageEnd C) \<and> unat (ImageEnd C) \<le> unat (Base C) + length (Buf C) \<and>
     BlockCountFactor C = ucast (blk_sz (Hdr C) div MediaBlockSize (Dev C)) \<and>
     dev_bs C dvd unat (blk_sz (Hdr C)) \<and> 0 < unat (blk_sz (Hdr C))"

definition st_ok :: "sparse_ctx \<Rightarrow> sparse_st \<Rightarrow> bool" where
  "st_ok C S \<longleftrightarrow> unat (Base C) \<le> unat (Img S) \<and> unat (Img S) \<le> unat (ImageEnd C)"

definition wrote :: "sparse_ctx \<Rightarrow> sparse_st \<Rightarrow> sparse_st \<Rightarrow> bool" where
  "wrote C S S' \<longleftrightarrow> (\<exists>ws. Ops S' = Ops S @ as_ops (DevId (Dev C)) ws \<and>
     (\<forall>w \<in> set ws. inside (dev_bs C) (unat (PartitionSize C)) w))"

definition safe :: "sparse_ctx \<Rightarrow> sparse_st \<Rightarrow> (efi_status \<times> sparse_st) option \<Rightarrow> bool" where
  "safe C S r \<longleftrightarrow> (\<exists>st S'. r = Some (st, S') \<and> wrote C S S' \<and> (st = EFI_SUCCESS \<longrightarrow> st_ok C S'))"

lemma wrote_same: "Ops S' = Ops S \<Longrightarrow> wrote C S S'"
  unfolding wrote_def by (rule exI [of _ "[]"]) simp

lemma wrote_trans: "wrote C S S1 \<Longrightarrow> wrote C S1 S2 \<Longrightarrow> wrote C S S2"
proof -
  assume a: "wrote C S S1" "wrote C S1 S2"
  obtain xs where xs: "Ops S1 = Ops S @ as_ops (DevId (Dev C)) xs" "\<forall>w \<in> set xs. inside (dev_bs C) (unat (PartitionSize C)) w"
    using a(1) unfolding wrote_def by blast
  obtain ys where ys: "Ops S2 = Ops S1 @ as_ops (DevId (Dev C)) ys" "\<forall>w \<in> set ys. inside (dev_bs C) (unat (PartitionSize C)) w"
    using a(2) unfolding wrote_def by blast
  show ?thesis unfolding wrote_def using xs ys by (intro exI [of _ "xs @ ys"]) auto
qed

lemma safe_trans: "wrote C S S' \<Longrightarrow> safe C S' r \<Longrightarrow> safe C S r"
  unfolding safe_def using wrote_trans by blast

lemma safe_error: "st \<noteq> EFI_SUCCESS \<Longrightarrow> Ops S' = Ops S \<Longrightarrow> safe C S (Some (st, S'))"
  by (auto simp: safe_def wrote_same)

lemma safe_bind:
  assumes "safe C S r" "\<And>S'. wrote C S S' \<Longrightarrow> st_ok C S' \<Longrightarrow> safe C S' (f S')"
  shows "safe C S (do { (st, S') \<leftarrow> r; if EFI_ERROR st then Some (st, S') else f S' })"
proof -
  obtain st S' where r: "r = Some (st, S')" "wrote C S S'" "st = EFI_SUCCESS \<longrightarrow> st_ok C S'"
    using assms(1) by (auto simp: safe_def)
  show ?thesis
  proof (cases "st = EFI_SUCCESS")
    case True
    then obtain st2 S2 where "f S' = Some (st2, S2)" "wrote C S' S2" "st2 = EFI_SUCCESS \<longrightarrow> st_ok C S2"
      using assms(2) [OF r(2)] r(3) unfolding safe_def by blast
    then show ?thesis using r True wrote_trans [of C S S' S2] by (auto simp: safe_def)
  qed (use r in \<open>simp add: safe_def EFI_ERROR_def\<close>)
qed

text \<open>Products of two 32-bit numbers fit in 64 bits.\<close>

lemma prod32_less: "unat (a :: u32) * unat (b :: u32) + 2 ^ 33 \<le> 2 ^ 64 + 1"
proof -
  have "unat a \<le> 2 ^ 32 - 1" "unat b \<le> 2 ^ 32 - 1"
    using unsigned_less [of a, where ?'a = nat] unsigned_less [of b, where ?'a = nat] by simp_all
  then have "unat a * unat b \<le> (2 ^ 32 - 1) * (2 ^ 32 - 1)" by (rule mult_le_mono)
  then show ?thesis by simp
qed

lemma unat_prod32: "unat (ucast (a :: u32) * ucast (b :: u32) :: u64) = unat a * unat b"
  using prod32_less [of a b] by (simp add: unat_word_ariths unat_ucast32)

lemma BlocksBytes_exact: "unat (BlocksBytes C S) = unat (TotalBlocks S) * unat (blk_sz (Hdr C))"
  by (simp add: BlocksBytes_def unat_prod32)

text \<open>The block on the device where the next chunk goes.\<close>

lemma block_count:
  assumes "ctx_ok C"
  shows "unat (ucast (t :: u32) * BlockCountFactor C) * dev_bs C = unat t * unat (blk_sz (Hdr C))"
proof -
  have "unat (ucast t * BlockCountFactor C) = unat t * (unat (blk_sz (Hdr C)) div dev_bs C)"
    using assms unat_prod32 [of t "blk_sz (Hdr C) div MediaBlockSize (Dev C)"] by (simp add: ctx_ok_def unat_div)
  then show ?thesis using assms by (simp add: ctx_ok_def)
qed

lemma mem_from_ok: "ctx_ok C \<Longrightarrow> st_ok C S \<Longrightarrow> mem_from C (Img S) = Some (drop (unat (Img S) - unat (Base C)) (Buf C))"
  by (simp add: mem_from_def ctx_ok_def st_ok_def)

text \<open>A write of whole blocks at the current position, inside the partition.\<close>

lemma WriteToDisk_blocks:
  fixes t :: u32
  assumes C: "ctx_ok C" and sz: "dev_bs C dvd unat Size" "unat Size < 2 ^ 32" "unat Size \<le> length data"
    and room: "unat t * unat (blk_sz (Hdr C)) + unat Size \<le> unat (PartitionSize C)"
  shows "\<exists>st ws. WriteToDisk C data Size (ucast t * BlockCountFactor C) log = Some (st, log @ as_ops (DevId (Dev C)) ws) \<and>
    (\<forall>w \<in> set ws. inside (dev_bs C) (unat (PartitionSize C)) w) \<and>
    (st = EFI_SUCCESS \<longrightarrow> puts (dev_bs C) (unat t * unat (blk_sz (Hdr C))) (take (unat Size) data) ws) \<and>
    (writes_ok (Dev C) \<longrightarrow> st = EFI_SUCCESS)"
proof -
  let ?o = "ucast t * BlockCountFactor C"
  have bs: "block_size (MediaBlockSize (Dev C))" using C by (simp add: ctx_ok_def)
  note bs0 = unat_block_size(1) [OF bs]
  have "(unat ?o + unat Size div dev_bs C) * dev_bs C = unat t * unat (blk_sz (Hdr C)) + unat Size"
    using sz(1) by (simp add: distrib_right block_count [OF C])
  then have "(unat ?o + unat Size div dev_bs C) * dev_bs C < 2 ^ 64"
    using room unsigned_less [of "PartitionSize C", where ?'a = nat] by simp
  moreover have "unat ?o + unat Size div dev_bs C \<le> (unat ?o + unat Size div dev_bs C) * dev_bs C" using bs0 by simp
  ultimately have off: "unat ?o + unat Size div dev_bs C < 2 ^ 64" by linarith
  obtain st ws where r: "Write_blocks (Dev C) (MediaBlockSize (Dev C)) (Split C) ?o Size data log = Some (st, log @ as_ops (DevId (Dev C)) ws)"
    "covers (dev_bs C) (unat ?o * dev_bs C) (unat Size) ws"
    "st = EFI_SUCCESS \<longrightarrow> puts (dev_bs C) (unat ?o * dev_bs C) (take (unat Size) data) ws"
    "writes_ok (Dev C) \<longrightarrow> st = EFI_SUCCESS"
    using Write_blocks_aligned [OF bs refl sz off, of "Split C" log] by blast
  moreover have "\<forall>w \<in> set ws. inside (dev_bs C) (unat (PartitionSize C)) w"
    using r(2) room by (fastforce simp: covers_def inside_def block_count [OF C])
  ultimately show ?thesis
    using C by (intro exI [of _ st] exI [of _ ws]) (simp add: WriteToDisk_def WriteBlockToPartition_def ctx_ok_def block_count [OF C])
qed

definition chunk_bytes :: "sparse_ctx \<Rightarrow> chunk_header \<Rightarrow> u64" where
  "chunk_bytes C ch = ucast (blk_sz (Hdr C)) * ucast (chunk_sz ch)"

lemma unat_chunk_bytes: "unat (chunk_bytes C ch) = unat (blk_sz (Hdr C)) * unat (chunk_sz ch)"
  by (simp add: chunk_bytes_def unat_prod32)

lemma chunk_bytes_bound: "unat (chunk_bytes C ch) + 2 ^ 33 \<le> 2 ^ 64 + 1"
  unfolding unat_chunk_bytes by (rule prod32_less)

text \<open>A raw chunk that passes the size check has less than 4 GB, so the check against the partition cannot wrap.\<close>

lemma raw_chunk_size:
  assumes "ucast (total_sz ch) = (12 :: u64) + chunk_bytes C ch"
  shows "unat (chunk_bytes C ch) < 2 ^ 32"
    "BlocksBytes C S + chunk_bytes C ch \<le> PartitionSize C \<Longrightarrow>
       unat (TotalBlocks S) * unat (blk_sz (Hdr C)) + unat (chunk_bytes C ch) \<le> unat (PartitionSize C)"
proof -
  have "unat (ucast (total_sz ch) :: u64) = unat ((12 :: u64) + chunk_bytes C ch)" using assms by simp
  then have "unat (total_sz ch) = 12 + unat (chunk_bytes C ch)"
    using chunk_bytes_bound [of C ch] by (simp add: unat_ucast32 unat_word_ariths)
  then show lt: "unat (chunk_bytes C ch) < 2 ^ 32"
    using unsigned_less [of "total_sz ch", where ?'a = nat] by simp
  assume le: "BlocksBytes C S + chunk_bytes C ch \<le> PartitionSize C"
  have "unat (BlocksBytes C S) + unat (chunk_bytes C ch) < 2 ^ 64"
    using lt prod32_less [of "TotalBlocks S" "blk_sz (Hdr C)"] by (simp add: BlocksBytes_exact)
  then show "unat (TotalBlocks S) * unat (blk_sz (Hdr C)) + unat (chunk_bytes C ch) \<le> unat (PartitionSize C)"
    using le by (simp add: word_le_nat_alt unat_word_ariths BlocksBytes_exact)
qed

lemma advance_le:
  assumes "no_wrap (Img S) n" "\<not> ImageEnd C < Img S + n"
  shows "unat (Img S) + unat n \<le> unat (ImageEnd C)"
  using assms(2) unat_end [OF assms(1)] by (simp add: not_less word_le_nat_alt)

lemma advance_ok:
  assumes "no_wrap (Img S) n" "\<not> ImageEnd C < Img S + n" "st_ok C S" "Img S' = Img S + n"
  shows "st_ok C S'"
  using advance_le [OF assms(1,2)] assms(3,4) unat_end [OF assms(1)] by (simp add: st_ok_def)

lemma HandleChunkTypeRaw_safe:
  assumes C: "ctx_ok C" and S: "st_ok C S" and h: "chunk_hdr_sz (Hdr C) = 12"
    and fit: "BlocksBytes C S + chunk_bytes C ch \<le> PartitionSize C"
  shows "safe C S (HandleChunkTypeRaw C ch (chunk_bytes C ch) S)"
proof -
  let ?n = "chunk_bytes C ch" and ?o = "ucast (TotalBlocks S) * BlockCountFactor C"
  let ?d = "drop (unat (Img S) - unat (Base C)) (Buf C)"
  show ?thesis
  proof (cases "Img S \<noteq> 0 \<and> ucast (total_sz ch) = (12 :: u64) + ?n \<and> no_wrap (Img S) ?n \<and> \<not> ImageEnd C < Img S + ?n")
    case False
    then have "HandleChunkTypeRaw C ch ?n S = Some (EFI_INVALID_PARAMETER, S)"
      using h by (auto simp: HandleChunkTypeRaw_def)
    then show ?thesis by (simp add: safe_error)
  next
    case True
    then have "HandleChunkTypeRaw C ch ?n S = Raw_write C ch ?n ?d S"
      using h by (simp add: HandleChunkTypeRaw_def mem_from_ok [OF C S])
    with True have 2: "ucast (total_sz ch) = (12 :: u64) + ?n" "no_wrap (Img S) ?n" "\<not> ImageEnd C < Img S + ?n"
      "HandleChunkTypeRaw C ch ?n S = Raw_write C ch ?n ?d S" by simp_all
    note n = raw_chunk_size(1) [OF 2(1)] raw_chunk_size(2) [OF 2(1) fit]
    have "dev_bs C dvd unat ?n" using C by (simp add: ctx_ok_def unat_chunk_bytes)
    moreover have "unat ?n \<le> length ?d" using advance_le [OF 2(2,3)] C S by (auto simp: ctx_ok_def st_ok_def)
    ultimately obtain st ws where "WriteToDisk C ?d ?n ?o (Ops S) = Some (st, Ops S @ as_ops (DevId (Dev C)) ws)"
      "\<forall>w \<in> set ws. inside (dev_bs C) (unat (PartitionSize C)) w"
      using WriteToDisk_blocks [OF C _ n(1) _ n(2), of ?d "Ops S"] by blast
    then show ?thesis unfolding 2(4) Raw_write_def safe_def wrote_def
      using advance_ok [OF 2(2,3) S] by (auto simp: Let_def EFI_ERROR_def)
  qed
qed

lemma length_fill_buf [simp]: "length (fill_buf blk v) = unat blk"
  by (simp add: fill_buf_def length_concat sum_list_replicate)

lemma Fill_loop_safe:
  assumes C: "ctx_ok C" and len: "length FillBuf = unat (blk_sz (Hdr C))"
  shows "st_ok C S \<Longrightarrow> safe C S (Fill_loop C FillBuf n S)"
proof (induction n arbitrary: S)
  case 0
  then show ?case by (auto simp: safe_def wrote_same)
next
  case (Suc n)
  let ?b = "blk_sz (Hdr C)" and ?o = "ucast (TotalBlocks S) * BlockCountFactor C :: u64"
  show ?case
  proof (cases "BlocksBytes C S + ucast ?b > PartitionSize C")
    case True
    then show ?thesis by (simp add: safe_error)
  next
    case False
    have b: "unat (ucast ?b :: u64) = unat ?b" "unat ?b < 2 ^ 32"
      using unsigned_less [of ?b, where ?'a = nat] by (simp_all add: unat_ucast32)
    have "unat (BlocksBytes C S + ucast ?b) = unat (TotalBlocks S) * unat ?b + unat ?b"
      using prod32_less [of "TotalBlocks S" ?b] b by (simp add: unat_word_ariths BlocksBytes_exact)
    then have room: "unat (TotalBlocks S) * unat ?b + unat (ucast ?b :: u64) \<le> unat (PartitionSize C)"
      using False b by (simp add: not_less word_le_nat_alt)
    obtain st ws where w: "WriteToDisk C FillBuf (ucast ?b) ?o (Ops S) = Some (st, Ops S @ as_ops (DevId (Dev C)) ws)"
      "\<forall>w \<in> set ws. inside (dev_bs C) (unat (PartitionSize C)) w"
      using WriteToDisk_blocks [OF C _ _ _ room, of FillBuf "Ops S"] b len C by (auto simp: ctx_ok_def)
    let ?S = "S\<lparr>WrittenBlockCount := ?o, Ops := Ops S @ as_ops (DevId (Dev C)) ws, TotalBlocks := TotalBlocks S + 1\<rparr>"
    have "safe C ?S (Fill_loop C FillBuf n ?S)" by (rule Suc.IH) (use Suc.prems in \<open>simp add: st_ok_def\<close>)
    moreover have "wrote C S ?S" using w(2) by (auto simp: wrote_def)
    ultimately have ok: "safe C S (Fill_loop C FillBuf n ?S)" by (rule safe_trans [rotated])
    have err: "safe C S (Some (st, S\<lparr>WrittenBlockCount := ?o, Ops := Ops S @ as_ops (DevId (Dev C)) ws\<rparr>))" if "st \<noteq> EFI_SUCCESS"
      using w(2) that by (auto simp: safe_def wrote_def)
    show ?thesis using False w(1) ok err by (simp add: EFI_ERROR_def Let_def)
  qed
qed

lemma HandleChunkTypeFill_safe:
  assumes C: "ctx_ok C" and S: "st_ok C S"
  shows "safe C S (HandleChunkTypeFill C ch S)"
proof (cases "no_wrap (Img S) 4 \<and> \<not> ImageEnd C < Img S + 4")
  case True
  let ?d = "drop (unat (Img S) - unat (Base C)) (Buf C)" and ?S = "S\<lparr>Img := Img S + 4\<rparr>"
  have "4 \<le> length ?d" using advance_le [of S 4 C] True C S by (auto simp: ctx_ok_def st_ok_def)
  then obtain v where v: "rd32 ?d 0 = Some v" using rd32_defined [of 0 ?d] by auto
  have "st_ok C ?S" using True by (intro advance_ok [of S 4 C, OF _ _ S]) simp_all
  then have "safe C ?S (Fill_loop C (fill_buf (blk_sz (Hdr C)) v) (unat (chunk_sz ch)) ?S)"
    by (intro Fill_loop_safe [OF C]) simp_all
  then have "safe C S (Fill_loop C (fill_buf (blk_sz (Hdr C)) v) (unat (chunk_sz ch)) ?S)"
    by (rule safe_trans [rotated]) (simp add: wrote_same)
  then show ?thesis using v by (simp add: HandleChunkTypeFill_def safe_error mem_from_ok [OF C S] del: Fill_loop.simps)
next
  case False
  then show ?thesis by (auto simp: HandleChunkTypeFill_def safe_error)
qed

lemma ValidateChunkDataAndFlash_safe:
  assumes C: "ctx_ok C" and S: "st_ok C S" and h: "chunk_hdr_sz (Hdr C) = 12"
    and fit: "BlocksBytes C S + chunk_bytes C ch \<le> PartitionSize C"
  shows "safe C S (ValidateChunkDataAndFlash C ch (chunk_bytes C ch) S)"
proof -
  let ?n = "chunk_bytes C ch" and ?m = "ucast (ucast (chunk_bytes C ch) :: u32) :: u64"
  have crc: "st_ok C S'" if "no_wrap (Img S) ?n" "\<not> ImageEnd C < Img S + ?m" "Img S' = Img S + ?m" for S'
  proof (rule advance_ok [OF _ that(2) S that(3)])
    have "unat ?m \<le> unat ?n" by (simp add: unat_ucast32 unsigned_ucast_eq unsigned_take_bit_eq take_bit_nat_less_eq_self)
    then show "no_wrap (Img S) ?m" using that(1) by (simp add: no_wrap_iff)
  qed
  have skip: "st_ok C (S\<lparr>TotalBlocks := t\<rparr>)" for t using S by (simp add: st_ok_def)
  show ?thesis
    using HandleChunkTypeRaw_safe [OF assms] HandleChunkTypeFill_safe [OF C S, of ch] crc
    by (auto simp: ValidateChunkDataAndFlash_def Let_def safe_error skip safe_def [of C S "Some _"] wrote_same)
qed

lemma read_chunk_header_defined: "12 \<le> length b \<Longrightarrow> \<exists>ch. read_chunk_header b = Some ch"
  by (auto simp: read_chunk_header_def rd16_def rd32_def rd_def)

lemma Chunk_loop_safe:
  assumes C: "ctx_ok C"
  shows "st_ok C S \<Longrightarrow> safe C S (Chunk_loop C n S)"
proof (induction n arbitrary: S)
  case 0
  then show ?case by (auto simp: safe_def wrote_same)
next
  case (Suc n)
  let ?S = "S\<lparr>Img := Img S + 12\<rparr>" and ?d = "drop (unat (Img S) - unat (Base C)) (Buf C)"
  show ?case
  proof (cases "no_wrap (Img S) 12 \<and> \<not> ImageEnd C < Img S + 12")
    case True
    have "12 \<le> length ?d" using advance_le [of S 12 C] True C Suc.prems by (auto simp: ctx_ok_def st_ok_def)
    then obtain ch where ch: "read_chunk_header ?d = Some ch" using read_chunk_header_defined by blast
    have S': "st_ok C ?S" using True by (intro advance_ok [of S 12 C, OF _ _ Suc.prems]) simp_all
    have B: "BlocksBytes C ?S = BlocksBytes C S" by (simp add: BlocksBytes_def)
    show ?thesis
    proof (cases "BlocksBytes C S \<ge> PartitionSize C \<or> chunk_hdr_sz (Hdr C) \<noteq> 12 \<or> BlocksBytes C S + chunk_bytes C ch > PartitionSize C")
      case True
      then show ?thesis using \<open>no_wrap _ _ \<and> _\<close> ch
        by (auto simp: mem_from_ok [OF C Suc.prems] Let_def chunk_bytes_def [symmetric] B safe_error)
    next
      case False
      have "safe C ?S (ValidateChunkDataAndFlash C ch (chunk_bytes C ch) ?S)"
        by (rule ValidateChunkDataAndFlash_safe [OF C S']) (use False B in \<open>simp_all add: not_less\<close>)
      then have "safe C ?S (do { (st, S') \<leftarrow> ValidateChunkDataAndFlash C ch (chunk_bytes C ch) ?S;
          if EFI_ERROR st then Some (st, S') else Chunk_loop C n S' })"
        by (rule safe_bind) (rule Suc.IH)
      then have "safe C S (do { (st, S') \<leftarrow> ValidateChunkDataAndFlash C ch (chunk_bytes C ch) ?S;
          if EFI_ERROR st then Some (st, S') else Chunk_loop C n S' })"
        by (rule safe_trans [rotated]) (simp add: wrote_same)
      then show ?thesis using False True ch
        by (simp add: mem_from_ok [OF C Suc.prems] Let_def chunk_bytes_def [symmetric] B)
    qed
  next
    case False
    then show ?thesis by (auto simp: safe_error Let_def)
  qed
qed

text \<open>
  C28: Flashing a sparse image to eMMC or UFS is memory safe, whatever the host sent: with a buffer that holds the \<open>sz\<close> bytes of the
  image the code returns, so it never reads past the image and never copies past a block, and every request it makes is a
  write to the named partition that ends inside it. This covers images with a bad magic, sizes that wrap, chunks of unknown
  type and images that end early.
\<close>

theorem HandleSparseImgFlash_safe:
  assumes "block_size (MediaBlockSize E)" "unat sz \<le> length Buffer"
  shows "\<exists>st ws. HandleSparseImgFlash (EFI_SUCCESS, Some E, Handle) False split ImageAddr Buffer sz log =
      Some (st, log @ as_ops (DevId E) ws) \<and>
    (\<forall>w \<in> set ws. inside (unat (MediaBlockSize E)) (unat (GetPartitionSize (Some (MediaLastBlock E, MediaBlockSize E)))) w)"
    (is "?safe (HandleSparseImgFlash _ _ _ _ _ _ _)")
proof -
  have err: "?safe (Some (st, log))" for st
    by (rule exI [of _ st], rule exI [of _ "[]"]) simp
  let ?P = "GetPartitionSize (Some (MediaLastBlock E, MediaBlockSize E))"
  show ?thesis
  proof (cases "no_wrap ImageAddr sz \<and> \<not> sz < 28")
    case False
    then show ?thesis using err by (auto simp: HandleSparseImgFlash_def Let_def)
  next
    case True
    then have len: "28 \<le> length Buffer" "unat (ImageAddr + sz) = unat ImageAddr + unat sz" "28 \<le> unat sz"
      using assms(2) unat_end by (auto simp: word_less_nat_alt)
    then obtain h where h: "read_sparse_header Buffer = Some h"
      by (auto simp: read_sparse_header_def rd16_def rd32_def rd_def)
    have "?safe (Sparse_chunks E False split ImageAddr Buffer sz ?P h log)"
      if b: "blk_sz h \<noteq> 0" "blk_sz h mod MediaBlockSize E = 0"
    proof -
      let ?C = "\<lparr> Base = ImageAddr, Buf = Buffer, Dev = E, Nand = False, Split = split, ImageEnd = ImageAddr + sz,
         BlockCountFactor = ucast (blk_sz h div MediaBlockSize E), PartitionSize = ?P, Hdr = h \<rparr>"
      let ?S = "\<lparr> Img = ImageAddr + 28, TotalBlocks = 0, WrittenBlockCount = 0, Ops = log \<rparr>"
      have "unat (blk_sz h) mod unat (MediaBlockSize E) = 0"
        using b(2) unat_mod [of "blk_sz h" "MediaBlockSize E"] by simp
      then have C: "ctx_ok ?C"
        using assms len b(1) by (auto simp: ctx_ok_def dvd_eq_mod_eq_0 unat_gt_0)
      have "no_wrap ImageAddr 28" using True len(3) by (simp add: no_wrap_iff)
      then have "st_ok ?C ?S" using len by (simp add: st_ok_def unat_end)
      then have "safe ?C ?S (Chunk_loop ?C (unat (total_chunks h)) ?S)" by (rule Chunk_loop_safe [OF C])
      then show ?thesis by (auto simp: safe_def wrote_def Sparse_chunks_def Let_def)
    qed
    then show ?thesis using True h err unat_block_size(1) [OF assms(1)]
      by (auto simp: HandleSparseImgFlash_def Let_def)
  qed
qed

section \<open>What an image means\<close>

text \<open>
  The format, from the encoding side: a chunk has raw blocks, a word and a number of blocks to fill, or a number of blocks to
  leave. \<open>encode_chunk\<close> and \<open>sparse_image\<close> write it down as \<^verbatim>\<open>SparseFormat.h\<close> says, and \<open>expand\<close> is what it does to the
  content of a partition.
\<close>

datatype chunk = Raw bytes | Fill u32 nat | Skip nat

fun chunk_blocks :: "nat \<Rightarrow> chunk \<Rightarrow> nat" where
  "chunk_blocks blk (Raw data) = length data div blk"
| "chunk_blocks blk (Fill v n) = n"
| "chunk_blocks blk (Skip n) = n"

definition chunk_head :: "u16 \<Rightarrow> nat \<Rightarrow> nat \<Rightarrow> bytes" where
  "chunk_head t n tot = enc16 t @ enc16 0 @ enc32 (word_of_nat n) @ enc32 (word_of_nat tot)"

fun encode_chunk :: "nat \<Rightarrow> chunk \<Rightarrow> bytes" where
  "encode_chunk blk (Raw data) = chunk_head CHUNK_TYPE_RAW (length data div blk) (12 + length data) @ data"
| "encode_chunk blk (Fill v n) = chunk_head CHUNK_TYPE_FILL n 16 @ enc32 v"
| "encode_chunk blk (Skip n) = chunk_head CHUNK_TYPE_DONT_CARE n 12"

definition blocks :: "nat \<Rightarrow> chunk list \<Rightarrow> nat" where
  "blocks blk cs = sum_list (map (chunk_blocks blk) cs)"

definition sparse_image :: "u32 \<Rightarrow> chunk list \<Rightarrow> bytes" where
  "sparse_image blk cs =
     enc32 SPARSE_HEADER_MAGIC @ enc16 1 @ enc16 0 @ enc16 28 @ enc16 12 @ enc32 blk @
     enc32 (word_of_nat (blocks (unat blk) cs)) @ enc32 (word_of_nat (length cs)) @ enc32 0 @
     concat (map (encode_chunk (unat blk)) cs)"

fun apply_chunk :: "u32 \<Rightarrow> nat \<Rightarrow> chunk \<Rightarrow> bytes \<Rightarrow> bytes" where
  "apply_chunk blk pos (Raw data) d = patch d (pos * unat blk) data"
| "apply_chunk blk pos (Fill v n) d = patch d (pos * unat blk) (concat (replicate n (fill_buf blk v)))"
| "apply_chunk blk pos (Skip n) d = d"

fun expand :: "u32 \<Rightarrow> nat \<Rightarrow> chunk list \<Rightarrow> bytes \<Rightarrow> bytes" where
  "expand blk pos [] d = d"
| "expand blk pos (c # cs) d = expand blk (pos + chunk_blocks (unat blk) c) cs (apply_chunk blk pos c d)"

text \<open>A chunk that the format can express: it has a block at least, and its sizes fit their fields.\<close>

fun wf_chunk :: "nat \<Rightarrow> chunk \<Rightarrow> bool" where
  "wf_chunk blk (Raw data) \<longleftrightarrow> blk dvd length data \<and> data \<noteq> [] \<and> 12 + length data < 2 ^ 32"
| "wf_chunk blk (Fill v n) \<longleftrightarrow> 0 < n \<and> n < 2 ^ 32"
| "wf_chunk blk (Skip n) \<longleftrightarrow> 0 < n \<and> n < 2 ^ 32"

section \<open>Flashing does what the image means\<close>

lemma length_chunk_head [simp]: "length (chunk_head t n tot) = 12"
  by (simp add: chunk_head_def)

lemma read_chunk_head:
  "read_chunk_header (chunk_head t n tot @ rest) =
     Some \<lparr> chunk_type = t, chunk_sz = word_of_nat n, total_sz = word_of_nat tot \<rparr>"
proof -
  have "rd16 (chunk_head t n tot @ rest) 0 = Some t"
    using rd16_mid [of 0 "[]" t "enc16 0 @ enc32 (word_of_nat n) @ enc32 (word_of_nat tot) @ rest"]
    by (simp add: chunk_head_def)
  moreover have "rd32 (chunk_head t n tot @ rest) 4 = Some (word_of_nat n)"
    using rd32_mid [of 4 "enc16 t @ enc16 0" "word_of_nat n" "enc32 (word_of_nat tot) @ rest"]
    by (simp add: chunk_head_def)
  moreover have "rd32 (chunk_head t n tot @ rest) 8 = Some (word_of_nat tot)"
    using rd32_mid [of 8 "enc16 t @ enc16 0 @ enc32 (word_of_nat n)" "word_of_nat tot" rest]
    by (simp add: chunk_head_def)
  ultimately show ?thesis by (simp add: read_chunk_header_def)
qed

text \<open>
  \<open>went C S S' k d d'\<close>: from \<open>S\<close> to \<open>S'\<close> the code advanced by \<open>k\<close> blocks with writes that turn the content \<open>d\<close> into \<open>d'\<close>.
\<close>

definition went :: "sparse_ctx \<Rightarrow> sparse_st \<Rightarrow> sparse_st \<Rightarrow> nat \<Rightarrow> bytes \<Rightarrow> bytes \<Rightarrow> bool" where
  "went C S S' k d d' \<longleftrightarrow>
     unat (TotalBlocks S') = unat (TotalBlocks S) + k \<and> length d' = length d \<and>
     (\<exists>ws. Ops S' = Ops S @ as_ops (DevId (Dev C)) ws \<and> paint (dev_bs C) ws d = d')"

lemma went_trans: "went C S S1 j d d1 \<Longrightarrow> went C S1 S2 k d1 d2 \<Longrightarrow> went C S S2 (j + k) d d2"
proof -
  assume a: "went C S S1 j d d1" "went C S1 S2 k d1 d2"
  obtain xs where xs: "Ops S1 = Ops S @ as_ops (DevId (Dev C)) xs" "paint (dev_bs C) xs d = d1"
    using a(1) unfolding went_def by blast
  obtain ys where ys: "Ops S2 = Ops S1 @ as_ops (DevId (Dev C)) ys" "paint (dev_bs C) ys d1 = d2"
    using a(2) unfolding went_def by blast
  show ?thesis using a xs ys unfolding went_def by (auto intro!: exI [of _ "xs @ ys"] simp: paint_append)
qed

lemma went_same: "TotalBlocks S' = TotalBlocks S \<Longrightarrow> Ops S' = Ops S \<Longrightarrow> went C S S' 0 d d"
  unfolding went_def by (auto intro!: exI [of _ "[]"])

text \<open>The image has the bytes \<open>xs\<close> at the pointer.\<close>

definition ahead :: "sparse_ctx \<Rightarrow> sparse_st \<Rightarrow> bytes \<Rightarrow> bool" where
  "ahead C S xs \<longleftrightarrow> st_ok C S \<and> unat (Img S) + length xs \<le> unat (ImageEnd C) \<and>
     (\<exists>rest. drop (unat (Img S) - unat (Base C)) (Buf C) = xs @ rest)"

lemma ahead_step:
  assumes "ahead C S (xs @ ys)" "unat n = length xs" "Img S' = Img S + n"
  shows "ahead C S' ys" "no_wrap (Img S) n" "\<not> ImageEnd C < Img S + n" "unat (Img S + n) = unat (Img S) + length xs"
proof -
  have a: "unat (Base C) \<le> unat (Img S)" "unat (Img S) + length xs + length ys \<le> unat (ImageEnd C)"
    using assms(1) by (auto simp: ahead_def st_ok_def)
  obtain rest where r: "drop (unat (Img S) - unat (Base C)) (Buf C) = xs @ ys @ rest"
    using assms(1) by (auto simp: ahead_def)
  show nw: "no_wrap (Img S) n"
    using a(2) assms(2) unsigned_less [of "ImageEnd C", where ?'a = nat] by (simp add: no_wrap_iff)
  show i: "unat (Img S + n) = unat (Img S) + length xs" using unat_end [OF nw] assms(2) by simp
  show "\<not> ImageEnd C < Img S + n" using i a(2) by (simp add: not_less word_le_nat_alt)
  have "drop (unat (Img S') - unat (Base C)) (Buf C) = drop (length xs) (drop (unat (Img S) - unat (Base C)) (Buf C))"
    using a(1) i assms(3) by (simp add: add.commute)
  also have "\<dots> = ys @ rest" by (simp add: r)
  finally show "ahead C S' ys" using a i assms(3) by (auto simp: ahead_def st_ok_def)
qed

lemma ahead_mem:
  assumes "ctx_ok C" "ahead C S xs"
  shows "\<exists>rest. mem_from C (Img S) = Some (xs @ rest)"
  using assms mem_from_ok [of C S] by (auto simp: ahead_def)

text \<open>A device that takes writes, with at least the blocks of the partition.\<close>

definition dev_ok :: "sparse_ctx \<Rightarrow> bytes \<Rightarrow> bool" where
  "dev_ok C d \<longleftrightarrow> ctx_ok C \<and> chunk_hdr_sz (Hdr C) = 12 \<and> writes_ok (Dev C) \<and> BlkPoolOk (Dev C) \<and>
     unat (PartitionSize C) \<le> length d"

lemma WriteToDisk_exact:
  fixes t :: u32
  assumes C: "dev_ok C d" and sz: "dev_bs C dvd unat Size" "unat Size < 2 ^ 32" "unat Size \<le> length data"
    and room: "unat t * unat (blk_sz (Hdr C)) + unat Size \<le> unat (PartitionSize C)"
  shows "\<exists>ws. WriteToDisk C data Size (ucast t * BlockCountFactor C) log = Some (EFI_SUCCESS, log @ as_ops (DevId (Dev C)) ws) \<and>
    paint (dev_bs C) ws d = patch d (unat t * unat (blk_sz (Hdr C))) (take (unat Size) data)"
proof -
  obtain ws where w: "WriteToDisk C data Size (ucast t * BlockCountFactor C) log = Some (EFI_SUCCESS, log @ as_ops (DevId (Dev C)) ws)"
    "puts (dev_bs C) (unat t * unat (blk_sz (Hdr C))) (take (unat Size) data) ws"
    using WriteToDisk_blocks [OF _ sz room, of log] C unfolding dev_ok_def by blast
  then show ?thesis using room sz(3) C by (auto simp: puts_def dev_ok_def)
qed

lemma unat_add32: "unat (a :: u32) + unat b < 2 ^ 32 \<Longrightarrow> unat (a + b) = unat a + unat b"
  by (simp add: unat_word_ariths)

lemma max32_minus: "unat (a :: u32) + unat b < 2 ^ 32 \<Longrightarrow> \<not> a > 0xFFFFFFFF - b"
proof -
  assume a: "unat a + unat b < 2 ^ 32"
  have "unat (0xFFFFFFFF - b) = 0xFFFFFFFF - unat b"
    using unsigned_less [of b, where ?'a = nat] by (subst unat_sub) (simp_all add: word_le_nat_alt)
  then show ?thesis using a by (simp add: word_less_nat_alt not_less)
qed

lemma Fill_loop_exact:
  assumes C: "dev_ok C d0"
  shows "dev_ok C d \<Longrightarrow> unat (TotalBlocks S) + n < 2 ^ 32 \<Longrightarrow>
      (unat (TotalBlocks S) + n) * unat (blk_sz (Hdr C)) \<le> unat (PartitionSize C) \<Longrightarrow>
    \<exists>S'. Fill_loop C (fill_buf (blk_sz (Hdr C)) v) n S = Some (EFI_SUCCESS, S') \<and> Img S' = Img S \<and>
      went C S S' n d (patch d (unat (TotalBlocks S) * unat (blk_sz (Hdr C))) (concat (replicate n (fill_buf (blk_sz (Hdr C)) v))))"
proof (induction n arbitrary: S d)
  case 0
  then show ?case by (auto intro: went_same)
next
  case (Suc n)
  let ?b = "blk_sz (Hdr C)" and ?t = "TotalBlocks S"
  let ?F = "fill_buf ?b v" and ?o = "ucast ?t * BlockCountFactor C :: u64"
  have b: "unat (ucast ?b :: u64) = unat ?b" "unat ?b < 2 ^ 32"
    using unsigned_less [of ?b, where ?'a = nat] by (simp_all add: unat_ucast32)
  have room: "unat ?t * unat ?b + unat (ucast ?b :: u64) \<le> unat (PartitionSize C)"
    using Suc.prems(3) b(1) by (simp add: add_mult_distrib)
  have "unat (BlocksBytes C S + ucast ?b) = unat ?t * unat ?b + unat ?b"
    using prod32_less [of ?t ?b] b by (simp add: unat_word_ariths BlocksBytes_exact)
  then have fit: "\<not> BlocksBytes C S + ucast ?b > PartitionSize C" using room b by (simp add: not_less word_le_nat_alt)
  obtain ws where w: "WriteToDisk C ?F (ucast ?b) ?o (Ops S) = Some (EFI_SUCCESS, Ops S @ as_ops (DevId (Dev C)) ws)"
    "paint (dev_bs C) ws d = patch d (unat ?t * unat ?b) ?F"
    using WriteToDisk_exact [OF Suc.prems(1) _ _ _ room, of ?F "Ops S"] b Suc.prems(1) by (auto simp: dev_ok_def ctx_ok_def)
  let ?d = "patch d (unat ?t * unat ?b) ?F"
  let ?S = "S\<lparr>WrittenBlockCount := ?o, Ops := Ops S @ as_ops (DevId (Dev C)) ws, TotalBlocks := ?t + 1\<rparr>"
  have t1: "unat (?t + 1) = unat ?t + 1" using unat_add32 [of ?t 1] Suc.prems(2) by simp
  have len: "length ?d = length d" using room b(1) Suc.prems(1) by (intro length_patch) (simp add: dev_ok_def)
  have "went C S ?S 1 d ?d" unfolding went_def using t1 len w(2) by auto
  moreover have "dev_ok C ?d" using Suc.prems(1) len by (simp add: dev_ok_def)
  then obtain S' where S': "Fill_loop C ?F n ?S = Some (EFI_SUCCESS, S')" "Img S' = Img S"
    "went C ?S S' n ?d (patch ?d (unat (?t + 1) * unat ?b) (concat (replicate n ?F)))"
    using Suc.IH [of ?d ?S] Suc.prems(2,3) t1 by auto
  ultimately have "went C S S' (Suc n) d (patch ?d (unat (?t + 1) * unat ?b) (concat (replicate n ?F)))"
    using went_trans by fastforce
  moreover have "patch ?d (unat (?t + 1) * unat ?b) (concat (replicate n ?F)) = patch d (unat ?t * unat ?b) (?F @ concat (replicate n ?F))"
    using patch_patch [of "unat ?t * unat ?b" ?F "concat (replicate n ?F)" d] t1 Suc.prems(1,3)
    by (simp add: dev_ok_def length_concat sum_list_replicate algebra_simps)
  ultimately show ?case using fit w(1) S' by (auto simp: Let_def)
qed

text \<open>One chunk.\<close>

lemma Chunk_loop_head:
  assumes C: "dev_ok C d" and a: "ahead C S (chunk_head t k tot @ xs)"
    and pos: "0 < k" "unat (TotalBlocks S) + k < 2 ^ 32"
    and room: "(unat (TotalBlocks S) + k) * unat (blk_sz (Hdr C)) \<le> unat (PartitionSize C)"
  shows "\<exists>S1. Img S1 \<noteq> 0 \<and> ahead C S1 xs \<and> TotalBlocks S1 = TotalBlocks S \<and> Ops S1 = Ops S \<and>
    Chunk_loop C (Suc n) S =
      do { (Status, S') \<leftarrow> ValidateChunkDataAndFlash C
             \<lparr> chunk_type = t, chunk_sz = word_of_nat k, total_sz = word_of_nat tot \<rparr>
             (ucast (blk_sz (Hdr C)) * ucast (word_of_nat k :: u32)) S1;
           if EFI_ERROR Status then Some (Status, S') else Chunk_loop C n S' }"
proof -
  let ?b = "blk_sz (Hdr C)" and ?S = "S\<lparr>Img := Img S + 12\<rparr>" and ?k = "word_of_nat k :: u32"
  have cx: "ctx_ok C" "0 < unat ?b" using C by (auto simp: dev_ok_def ctx_ok_def)
  have k: "unat ?k = k" using pos(2) by (simp add: unat_of_nat)
  note st = ahead_step [OF a, of 12 ?S, simplified]
  obtain rest where m: "mem_from C (Img S) = Some (chunk_head t k tot @ xs @ rest)" using ahead_mem [OF cx(1) a] by auto
  have "0 < k * unat ?b" using pos(1) cx(2) by simp
  then have "unat (BlocksBytes C S) < unat (PartitionSize C)"
    using room unfolding BlocksBytes_exact add_mult_distrib by linarith
  then have lt: "\<not> BlocksBytes C S \<ge> PartitionSize C" by (simp add: word_le_nat_alt)
  have cb: "unat (ucast ?b * ucast ?k :: u64) = unat ?b * k" using unat_prod32 [of ?b ?k] k by simp
  have sum: "unat (BlocksBytes C S) + unat ?b * k = (unat (TotalBlocks S) + k) * unat ?b"
    by (simp add: BlocksBytes_exact algebra_simps)
  then have "no_wrap (BlocksBytes C S) (ucast ?b * ucast ?k)"
    using room unsigned_less [of "PartitionSize C", where ?'a = nat] by (simp add: no_wrap_iff cb)
  then have "unat (BlocksBytes C S + ucast ?b * ucast ?k) = (unat (TotalBlocks S) + k) * unat ?b"
    using sum cb by (simp add: unat_end)
  then have fit: "\<not> BlocksBytes C ?S + ucast ?b * ucast ?k > PartitionSize C"
    using room by (simp add: word_less_nat_alt not_less BlocksBytes_def)
  have "Img ?S \<noteq> 0" using st(4) by (auto simp: word_unat_eq_iff)
  then show ?thesis using st lt fit m read_chunk_head [of t k tot "xs @ rest"] C
    by (intro exI [of _ ?S]) (simp add: Let_def dev_ok_def)
qed

text \<open>
  \<open>next_ok\<close>: a well-formed chunk is next in the image and fits the partition. \<open>done_ok\<close>: the loop goes on behind it, with its
  effect on the device.
\<close>

definition next_ok :: "sparse_ctx \<Rightarrow> sparse_st \<Rightarrow> chunk \<Rightarrow> bytes \<Rightarrow> bytes \<Rightarrow> bool" where
  "next_ok C S c xs d \<longleftrightarrow> dev_ok C d \<and> wf_chunk (unat (blk_sz (Hdr C))) c \<and>
     ahead C S (encode_chunk (unat (blk_sz (Hdr C))) c @ xs) \<and>
     unat (TotalBlocks S) + chunk_blocks (unat (blk_sz (Hdr C))) c < 2 ^ 32 \<and>
     (unat (TotalBlocks S) + chunk_blocks (unat (blk_sz (Hdr C))) c) * unat (blk_sz (Hdr C)) \<le> unat (PartitionSize C)"

definition done_ok :: "sparse_ctx \<Rightarrow> nat \<Rightarrow> sparse_st \<Rightarrow> chunk \<Rightarrow> bytes \<Rightarrow> bytes \<Rightarrow> bool" where
  "done_ok C n S c xs d \<longleftrightarrow> (\<exists>S'. Chunk_loop C (Suc n) S = Chunk_loop C n S' \<and> ahead C S' xs \<and>
     went C S S' (chunk_blocks (unat (blk_sz (Hdr C))) c) d (apply_chunk (blk_sz (Hdr C)) (unat (TotalBlocks S)) c d))"

lemma skip_step:
  assumes "next_ok C S (Skip k) xs d"
  shows "done_ok C n S (Skip k) xs d"
proof -
  define c where "c = Skip k"
  then have Skip: "c = Skip k" by simp
  have C: "dev_ok C d" and wf: "wf_chunk (unat (blk_sz (Hdr C))) c"
    and a: "ahead C S (encode_chunk (unat (blk_sz (Hdr C))) c @ xs)"
    and tb: "unat (TotalBlocks S) + chunk_blocks (unat (blk_sz (Hdr C))) c < 2 ^ 32"
    and room: "(unat (TotalBlocks S) + chunk_blocks (unat (blk_sz (Hdr C))) c) * unat (blk_sz (Hdr C)) \<le> unat (PartitionSize C)"
    using assms unfolding c_def [symmetric] next_ok_def by simp_all
  have pos: "0 < k" "k < 2 ^ 32" using wf Skip by simp_all
  obtain S1 where S1: "Img S1 \<noteq> 0" "ahead C S1 xs" "TotalBlocks S1 = TotalBlocks S" "Ops S1 = Ops S"
    "Chunk_loop C (Suc n) S = do { (Status, S') \<leftarrow> ValidateChunkDataAndFlash C
         \<lparr> chunk_type = CHUNK_TYPE_DONT_CARE, chunk_sz = word_of_nat k, total_sz = word_of_nat 12 \<rparr>
         (ucast (blk_sz (Hdr C)) * ucast (word_of_nat k :: u32)) S1;
       if EFI_ERROR Status then Some (Status, S') else Chunk_loop C n S' }"
    using Chunk_loop_head [OF C, of S CHUNK_TYPE_DONT_CARE k 12 xs n] a tb room pos Skip by auto
  let ?S = "S1\<lparr>TotalBlocks := TotalBlocks S1 + word_of_nat k\<rparr>"
  have k: "unat (word_of_nat k :: u32) = k" using pos(2) by (simp add: unat_of_nat)
  have "Chunk_loop C (Suc n) S = Chunk_loop C n ?S"
    using S1 k tb Skip max32_minus [of "TotalBlocks S1" "word_of_nat k"]
    by (simp add: ValidateChunkDataAndFlash_def CHUNK_TYPE_RAW_def CHUNK_TYPE_FILL_def CHUNK_TYPE_DONT_CARE_def del: Chunk_loop.simps)
  moreover have "went C S ?S k d d" unfolding went_def
    using unat_add32 [of "TotalBlocks S1" "word_of_nat k"] k tb Skip S1 by (auto intro!: exI [of _ "[]"])
  moreover have "ahead C ?S xs" using S1(2) by (simp add: ahead_def st_ok_def)
  ultimately show ?thesis unfolding done_ok_def using Skip by auto
qed

lemma fill_step:
  assumes "next_ok C S (Fill v k) xs d"
  shows "done_ok C n S (Fill v k) xs d"
proof -
  define c where "c = Fill v k"
  then have Fill: "c = Fill v k" by simp
  have C: "dev_ok C d" and wf: "wf_chunk (unat (blk_sz (Hdr C))) c"
    and a: "ahead C S (encode_chunk (unat (blk_sz (Hdr C))) c @ xs)"
    and tb: "unat (TotalBlocks S) + chunk_blocks (unat (blk_sz (Hdr C))) c < 2 ^ 32"
    and room: "(unat (TotalBlocks S) + chunk_blocks (unat (blk_sz (Hdr C))) c) * unat (blk_sz (Hdr C)) \<le> unat (PartitionSize C)"
    using assms unfolding c_def [symmetric] next_ok_def by simp_all
  have pos: "0 < k" "k < 2 ^ 32" using wf Fill by simp_all
  let ?ch = "\<lparr> chunk_type = CHUNK_TYPE_FILL, chunk_sz = word_of_nat k, total_sz = word_of_nat 16 \<rparr>"
  have k: "unat (word_of_nat k :: u32) = k" using pos(2) by (simp add: unat_of_nat)
  obtain S1 where S1: "Img S1 \<noteq> 0" "ahead C S1 (enc32 v @ xs)" "TotalBlocks S1 = TotalBlocks S" "Ops S1 = Ops S"
    "Chunk_loop C (Suc n) S = do { (Status, S') \<leftarrow> ValidateChunkDataAndFlash C ?ch
         (ucast (blk_sz (Hdr C)) * ucast (word_of_nat k :: u32)) S1;
       if EFI_ERROR Status then Some (Status, S') else Chunk_loop C n S' }"
    using Chunk_loop_head [OF C, of S CHUNK_TYPE_FILL k 16 "enc32 v @ xs" n] a tb room pos Fill by auto
  let ?S = "S1\<lparr>Img := Img S1 + 4\<rparr>"
  note st = ahead_step [OF S1(2), of 4 ?S, simplified]
  obtain rest where m: "mem_from C (Img S1) = Some (enc32 v @ xs @ rest)" using ahead_mem [OF _ S1(2)] C by (auto simp: dev_ok_def)
  have v: "rd32 (enc32 v @ xs @ rest) 0 = Some v" using rd32_mid [of 0 "[]" v] by simp
  obtain S' where S': "Fill_loop C (fill_buf (blk_sz (Hdr C)) v) k ?S = Some (EFI_SUCCESS, S')" "Img S' = Img ?S"
    "went C ?S S' k d (patch d (unat (TotalBlocks ?S) * unat (blk_sz (Hdr C))) (concat (replicate k (fill_buf (blk_sz (Hdr C)) v))))"
    using Fill_loop_exact [OF C C, of ?S k v] tb room S1(3) Fill by auto
  have "ValidateChunkDataAndFlash C ?ch (ucast (blk_sz (Hdr C)) * ucast (word_of_nat k :: u32)) S1 = Some (EFI_SUCCESS, S')"
    using S1(1) st(2,3) m v C S'(1) k
    by (simp add: ValidateChunkDataAndFlash_def CHUNK_TYPE_RAW_def CHUNK_TYPE_FILL_def HandleChunkTypeFill_def dev_ok_def)
  then have "Chunk_loop C (Suc n) S = Chunk_loop C n S'" using S1(5) by (simp del: Chunk_loop.simps)
  moreover have "went C S S' k d (apply_chunk (blk_sz (Hdr C)) (unat (TotalBlocks S)) c d)"
    using S'(3) S1(3,4) Fill by (simp add: went_def)
  moreover have "ahead C S' xs" using st(1) S'(2) by (simp add: ahead_def st_ok_def)
  ultimately show ?thesis unfolding done_ok_def using Fill by auto
qed

lemma raw_step:
  assumes "next_ok C S (Raw data) xs d"
  shows "done_ok C n S (Raw data) xs d"
proof -
  define c where "c = Raw data"
  then have Raw: "c = Raw data" by simp
  have C: "dev_ok C d" and wf: "wf_chunk (unat (blk_sz (Hdr C))) c"
    and a: "ahead C S (encode_chunk (unat (blk_sz (Hdr C))) c @ xs)"
    and tb: "unat (TotalBlocks S) + chunk_blocks (unat (blk_sz (Hdr C))) c < 2 ^ 32"
    and room: "(unat (TotalBlocks S) + chunk_blocks (unat (blk_sz (Hdr C))) c) * unat (blk_sz (Hdr C)) \<le> unat (PartitionSize C)"
    using assms unfolding c_def [symmetric] next_ok_def by simp_all
  let ?b = "blk_sz (Hdr C)"
  define k where "k = length data div unat ?b"
  have b: "0 < unat ?b" "ctx_ok C" using C by (auto simp: dev_ok_def ctx_ok_def)
  have len: "length data = unat ?b * k" "0 < k" "12 + length data < 2 ^ 32"
    using wf Raw b(1) by (auto simp: k_def div_greater_zero_iff dest: dvd_imp_le)
  have k: "unat (word_of_nat k :: u32) = k" using tb Raw by (simp add: unat_of_nat k_def)
  let ?ch = "\<lparr> chunk_type = CHUNK_TYPE_RAW, chunk_sz = word_of_nat k, total_sz = word_of_nat (12 + length data) \<rparr>"
  let ?n = "ucast ?b * ucast (word_of_nat k :: u32) :: u64"
  have n: "unat ?n = length data" using unat_prod32 [of ?b "word_of_nat k"] k len(1) by simp
  obtain S1 where S1: "Img S1 \<noteq> 0" "ahead C S1 (data @ xs)" "TotalBlocks S1 = TotalBlocks S" "Ops S1 = Ops S"
    "Chunk_loop C (Suc n) S = do { (Status, S') \<leftarrow> ValidateChunkDataAndFlash C ?ch ?n S1;
       if EFI_ERROR Status then Some (Status, S') else Chunk_loop C n S' }"
    using Chunk_loop_head [OF C, of S CHUNK_TYPE_RAW k "12 + length data" "data @ xs" n] a tb room len(2) Raw
    by (auto simp: k_def [symmetric])
  obtain rest where m: "mem_from C (Img S1) = Some (data @ xs @ rest)" using ahead_mem [OF b(2) S1(2)] by auto
  let ?o = "ucast (TotalBlocks S1) * BlockCountFactor C :: u64"
  have "(unat (TotalBlocks S) + k) * unat ?b \<le> unat (PartitionSize C)" using room Raw by (simp add: k_def)
  then have fit: "unat (TotalBlocks S1) * unat ?b + length data \<le> unat (PartitionSize C)"
    using len(1) S1(3) by (simp add: algebra_simps)
  then have "unat (TotalBlocks S1) * unat ?b + unat ?n \<le> unat (PartitionSize C)" unfolding n .
  moreover have "dev_bs C dvd unat ?n" "unat ?n < 2 ^ 32" using n len b(2) by (simp_all add: ctx_ok_def)
  ultimately obtain ws where w: "WriteToDisk C (data @ xs @ rest) ?n ?o (Ops S1) = Some (EFI_SUCCESS, Ops S1 @ as_ops (DevId (Dev C)) ws)"
    "paint (dev_bs C) ws d = patch d (unat (TotalBlocks S1) * unat ?b) data"
    using WriteToDisk_exact [OF C, of ?n "data @ xs @ rest" "TotalBlocks S1" "Ops S1"] n by auto
  let ?S = "S1\<lparr>WrittenBlockCount := ?o, Ops := Ops S1 @ as_ops (DevId (Dev C)) ws,
    TotalBlocks := TotalBlocks S1 + word_of_nat k, Img := Img S1 + ?n\<rparr>"
  note st = ahead_step [OF S1(2), of ?n ?S, simplified n, simplified]
  have ts: "(ucast (word_of_nat (12 + length data) :: u32) :: u64) = 12 + ?n"
    using len(3) n by (simp add: word_unat_eq_iff unat_ucast32 unat_of_nat unat_word_ariths del: of_nat_add)
  have "ValidateChunkDataAndFlash C ?ch ?n S1 = Some (EFI_SUCCESS, ?S)"
    using S1(1) st(2,3) m w(1) C ts max32_minus [of "TotalBlocks S1" "word_of_nat k"] k tb Raw S1(3)
    by (simp add: ValidateChunkDataAndFlash_def HandleChunkTypeRaw_def Raw_write_def Let_def dev_ok_def k_def [symmetric] del: of_nat_add)
  then have "Chunk_loop C (Suc n) S = Chunk_loop C n ?S" using S1(5) by (simp del: Chunk_loop.simps)
  moreover have "length (patch d (unat (TotalBlocks S1) * unat ?b) data) = length d"
    using C fit by (intro length_patch) (simp add: dev_ok_def)
  then have "went C S ?S k d (apply_chunk ?b (unat (TotalBlocks S)) c d)" unfolding went_def
    using unat_add32 [of "TotalBlocks S1" "word_of_nat k"] k tb Raw S1(3,4) w(2) by (auto simp: k_def [symmetric])
  ultimately show ?thesis unfolding done_ok_def using Raw st(1) by (auto simp: k_def)
qed

lemma chunk_step: "next_ok C S c xs d \<Longrightarrow> done_ok C n S c xs d"
  by (cases c) (simp_all add: raw_step fill_step skip_step)

lemma Chunk_loop_exact:
  assumes "\<forall>c \<in> set cs. wf_chunk (unat (blk_sz (Hdr C))) c"
    "dev_ok C d" "ahead C S (concat (map (encode_chunk (unat (blk_sz (Hdr C)))) cs))"
    "unat (TotalBlocks S) + blocks (unat (blk_sz (Hdr C))) cs < 2 ^ 32"
    "(unat (TotalBlocks S) + blocks (unat (blk_sz (Hdr C))) cs) * unat (blk_sz (Hdr C)) \<le> unat (PartitionSize C)"
  shows "\<exists>S'. Chunk_loop C (length cs) S = Some (EFI_SUCCESS, S') \<and>
    went C S S' (blocks (unat (blk_sz (Hdr C))) cs) d (expand (blk_sz (Hdr C)) (unat (TotalBlocks S)) cs d)"
  using assms
proof (induction cs arbitrary: S d)
  case Nil
  then show ?case by (auto simp: blocks_def intro: went_same)
next
  case (Cons c cs)
  let ?b = "blk_sz (Hdr C)"
  let ?k = "chunk_blocks (unat ?b) c" and ?xs = "concat (map (encode_chunk (unat ?b)) cs)"
  have B: "blocks (unat ?b) (c # cs) = ?k + blocks (unat ?b) cs" by (simp add: blocks_def)
  have "unat (TotalBlocks S) + ?k \<le> unat (TotalBlocks S) + blocks (unat ?b) (c # cs)" using B by simp
  then have "(unat (TotalBlocks S) + ?k) * unat ?b \<le> unat (PartitionSize C)"
    using Cons.prems(5) by (meson le_trans mult_le_mono1)
  then have "next_ok C S c ?xs d" using Cons.prems B by (simp add: next_ok_def)
  then obtain S1 where S1: "Chunk_loop C (Suc (length cs)) S = Chunk_loop C (length cs) S1" "ahead C S1 ?xs"
    "went C S S1 ?k d (apply_chunk ?b (unat (TotalBlocks S)) c d)"
    using chunk_step [of C S c ?xs d "length cs"] by (auto simp: done_ok_def)
  have t: "unat (TotalBlocks S1) = unat (TotalBlocks S) + ?k" "length (apply_chunk ?b (unat (TotalBlocks S)) c d) = length d"
    using S1(3) by (simp_all add: went_def)
  have "dev_ok C (apply_chunk ?b (unat (TotalBlocks S)) c d)" using Cons.prems(2) t(2) by (simp add: dev_ok_def)
  then obtain S' where "Chunk_loop C (length cs) S1 = Some (EFI_SUCCESS, S')"
    "went C S1 S' (blocks (unat ?b) cs) (apply_chunk ?b (unat (TotalBlocks S)) c d)
       (expand ?b (unat (TotalBlocks S1)) cs (apply_chunk ?b (unat (TotalBlocks S)) c d))"
    using Cons.IH [of "apply_chunk ?b (unat (TotalBlocks S)) c d" S1] Cons.prems S1(2) t(1) B by (auto simp: add.assoc)
  then show ?case using S1(1) went_trans [OF S1(3)] t(1) B by (auto simp del: Chunk_loop.simps)
qed

lemma read_sparse_image:
  "read_sparse_header (sparse_image blk cs @ rest) =
     Some \<lparr> file_hdr_sz = 28, chunk_hdr_sz = 12, blk_sz = blk, total_blks = word_of_nat (blocks (unat blk) cs),
            total_chunks = word_of_nat (length cs) \<rparr>"
proof -
  let ?x = "concat (map (encode_chunk (unat blk)) cs) @ rest"
  let ?M = "enc32 SPARSE_HEADER_MAGIC @ enc16 1 @ enc16 0"
  let ?tb = "enc32 (word_of_nat (blocks (unat blk) cs))" and ?tc = "enc32 (word_of_nat (length cs))"
  have "rd16 (sparse_image blk cs @ rest) 8 = Some 28"
    using rd16_mid [of 8 ?M 28 "enc16 12 @ enc32 blk @ ?tb @ ?tc @ enc32 0 @ ?x"] by (simp add: sparse_image_def)
  moreover have "rd16 (sparse_image blk cs @ rest) 10 = Some 12"
    using rd16_mid [of 10 "?M @ enc16 28" 12 "enc32 blk @ ?tb @ ?tc @ enc32 0 @ ?x"] by (simp add: sparse_image_def)
  moreover have "rd32 (sparse_image blk cs @ rest) 12 = Some blk"
    using rd32_mid [of 12 "?M @ enc16 28 @ enc16 12" blk "?tb @ ?tc @ enc32 0 @ ?x"] by (simp add: sparse_image_def)
  moreover have "rd32 (sparse_image blk cs @ rest) 16 = Some (word_of_nat (blocks (unat blk) cs))"
    using rd32_mid [of 16 "?M @ enc16 28 @ enc16 12 @ enc32 blk" _ "?tc @ enc32 0 @ ?x"] by (simp add: sparse_image_def)
  moreover have "rd32 (sparse_image blk cs @ rest) 20 = Some (word_of_nat (length cs))"
    using rd32_mid [of 20 "?M @ enc16 28 @ enc16 12 @ enc32 blk @ ?tb" _ "enc32 0 @ ?x"] by (simp add: sparse_image_def)
  ultimately show ?thesis by (simp add: read_sparse_header_def)
qed

lemma chunk_blocks_pos: "0 < blk \<Longrightarrow> wf_chunk blk c \<Longrightarrow> 0 < chunk_blocks blk c"
  by (cases c) (auto simp: div_greater_zero_iff dest: dvd_imp_le)

lemma length_le_blocks: "0 < blk \<Longrightarrow> \<forall>c \<in> set cs. wf_chunk blk c \<Longrightarrow> length cs \<le> blocks blk cs"
proof (induction cs)
  case (Cons c cs)
  then have "0 < chunk_blocks blk c" by (simp add: chunk_blocks_pos)
  then show ?case using Cons by (simp add: blocks_def)
qed (simp add: blocks_def)

lemma length_sparse_image: "length (sparse_image blk cs) = 28 + length (concat (map (encode_chunk (unat blk)) cs))"
  by (simp add: sparse_image_def)

text \<open>
  C29: Flashing is the inverse of encoding. For every sparse image built from chunks that fit the partition, and a device that
  takes the writes, the code returns success and the content of the partition becomes what the chunks say: raw blocks
  and filled blocks in their places, all other bytes as before.
\<close>

theorem HandleSparseImgFlash_expands:
  assumes "block_size (MediaBlockSize E)" "writes_ok E" "BlkPoolOk E"
    and d: "length d = unat (GetPartitionSize (Some (MediaLastBlock E, MediaBlockSize E)))" "d \<noteq> []"
    and blk: "unat (MediaBlockSize E) dvd unat blk" "0 < unat blk"
    and cs: "\<forall>c \<in> set cs. wf_chunk (unat blk) c" "blocks (unat blk) cs * unat blk \<le> length d" "blocks (unat blk) cs < 2 ^ 32"
    and img: "unat sz = length (sparse_image blk cs)" "unat ImageAddr + unat sz < 2 ^ 64"
  shows "\<exists>ws. HandleSparseImgFlash (EFI_SUCCESS, Some E, True) False split ImageAddr (sparse_image blk cs @ rest) sz log =
      Some (EFI_SUCCESS, log @ as_ops (DevId E) ws) \<and>
    paint (unat (MediaBlockSize E)) ws d = expand blk 0 cs d"
proof -
  let ?P = "GetPartitionSize (Some (MediaLastBlock E, MediaBlockSize E))" and ?B = "sparse_image blk cs @ rest"
  let ?h = "\<lparr> file_hdr_sz = 28, chunk_hdr_sz = 12, blk_sz = blk, total_blks = word_of_nat (blocks (unat blk) cs),
    total_chunks = word_of_nat (length cs) \<rparr>"
  let ?C = "\<lparr> Base = ImageAddr, Buf = ?B, Dev = E, Nand = False, Split = split, ImageEnd = ImageAddr + sz,
    BlockCountFactor = ucast (blk div MediaBlockSize E), PartitionSize = ?P, Hdr = ?h \<rparr>"
  let ?S = "\<lparr> Img = ImageAddr + 28, TotalBlocks = 0, WrittenBlockCount = 0, Ops = log \<rparr>"
  have nw: "no_wrap ImageAddr sz" "no_wrap ImageAddr 28" "28 \<le> unat sz" using img by (simp_all add: no_wrap_iff length_sparse_image)
  have C: "dev_ok ?C d"
    using assms(1-3) d blk img nw unat_end [OF nw(1)] by (simp add: dev_ok_def ctx_ok_def unat_gt_0)
  have A: "ahead ?C ?S (concat (map (encode_chunk (unat blk)) cs))"
    using img nw unat_end [OF nw(1)] unat_end [OF nw(2)]
    by (auto simp: ahead_def st_ok_def sparse_image_def)
  have n: "unat (word_of_nat (length cs) :: u32) = length cs" "unat (word_of_nat (blocks (unat blk) cs) :: u32) = blocks (unat blk) cs"
    using length_le_blocks [OF blk(2) cs(1)] cs(3) by (simp_all add: unat_of_nat)
  have "\<exists>S'. Chunk_loop ?C (length cs) ?S = Some (EFI_SUCCESS, S') \<and>
      went ?C ?S S' (blocks (unat (blk_sz (Hdr ?C))) cs) d (expand (blk_sz (Hdr ?C)) (unat (TotalBlocks ?S)) cs d)"
    by (rule Chunk_loop_exact) (use cs C A d in simp_all)
  then obtain S' where S': "Chunk_loop ?C (length cs) ?S = Some (EFI_SUCCESS, S')"
    "went ?C ?S S' (blocks (unat blk) cs) d (expand blk 0 cs d)" by auto
  then obtain ws where ws: "Ops S' = log @ as_ops (DevId E) ws" "paint (unat (MediaBlockSize E)) ws d = expand blk 0 cs d"
    "TotalBlocks S' = word_of_nat (blocks (unat blk) cs)"
    using n(2) by (auto simp: went_def word_unat_eq_iff)
  have "Sparse_chunks E False split ImageAddr ?B sz ?P ?h log = Some (EFI_SUCCESS, log @ as_ops (DevId E) ws)"
    using S'(1) ws n(1) by (simp add: Sparse_chunks_def Let_def)
  moreover have "\<not> sz < 28" "?P \<noteq> 0" "blk \<noteq> 0" "MediaBlockSize E \<noteq> 0"
    using nw(3) d blk(2) unat_block_size(1) [OF assms(1)] by (auto simp: word_less_nat_alt)
  moreover have "blk mod MediaBlockSize E = 0" using blk(1) by (simp add: word_unat_eq_iff unat_mod)
  moreover have "\<not> ucast (word_of_nat (blocks (unat blk) cs) :: u32) * ucast blk > ?P"
    using cs(2) d(1) n(2) unat_prod32 [of "word_of_nat (blocks (unat blk) cs)" blk] by (simp add: word_less_nat_alt not_less)
  ultimately show ?thesis using nw(1) ws(2) read_sparse_image [of blk cs rest]
    by (intro exI [of _ ws]) (simp add: HandleSparseImgFlash_def Let_def)
qed

section \<open>Witnesses\<close>

text \<open>A device of four blocks with four bytes each.\<close>

definition sample_dev :: blk_env where
  "sample_dev = \<lparr> DevId = 7, MediaBlockSize = 4, MediaLastBlock = 3, EraseProtocol = (EFI_SUCCESS, 4), EraseResult = EFI_SUCCESS,
     BlkPoolOk = True, BlkWrite = \<lambda>log lba x. EFI_SUCCESS, BlkRead = \<lambda>log lba n. (EFI_SUCCESS, replicate n 0) \<rparr>"

lemma sample_dev_simps [simp]:
  "DevId sample_dev = 7" "MediaBlockSize sample_dev = 4" "MediaLastBlock sample_dev = 3" "BlkPoolOk sample_dev"
  "block_size 4" "writes_ok sample_dev" "GetPartitionSize (Some (3, 4)) = 16"
  by (simp_all add: sample_dev_def writes_ok_def GetPartitionSize_def block_size_def exI [of _ 2])

theorem HandleSparseImgFlash_safe_witness:
  "\<exists>st ws. HandleSparseImgFlash (EFI_SUCCESS, Some sample_dev, True) False True 0x1000 (replicate 40 0xCA) 40 [] =
      Some (st, as_ops 7 ws) \<and> (\<forall>w \<in> set ws. inside 4 16 w)"
  using HandleSparseImgFlash_safe [of sample_dev 40 "replicate 40 0xCA" True True "0x1000" "[]"] by simp

theorem HandleSparseImgFlash_expands_witness:
  "\<exists>ws. HandleSparseImgFlash (EFI_SUCCESS, Some sample_dev, True) False False 0x1000
      (sparse_image 4 [Raw [1, 2, 3, 4], Skip 1, Fill 0x07060504 2] @ [9, 9]) 72 [] = Some (EFI_SUCCESS, as_ops 7 ws) \<and>
    paint 4 ws [0xFF, 0xFF, 0xFF, 0xFF, 0xFF, 0xFF, 0xFF, 0xFF, 0xFF, 0xFF, 0xFF, 0xFF, 0xFF, 0xFF, 0xFF, 0xFF] = [1, 2, 3, 4, 0xFF, 0xFF, 0xFF, 0xFF, 4, 5, 6, 7, 4, 5, 6, 7]"
proof -
  let ?d = "[0xFF, 0xFF, 0xFF, 0xFF, 0xFF, 0xFF, 0xFF, 0xFF, 0xFF, 0xFF, 0xFF, 0xFF, 0xFF, 0xFF, 0xFF, 0xFF] :: bytes"
  let ?cs = "[Raw [1, 2, 3, 4], Skip 1, Fill 0x07060504 2]"
  have "\<exists>ws. HandleSparseImgFlash (EFI_SUCCESS, Some sample_dev, True) False False 0x1000 (sparse_image 4 ?cs @ [9, 9]) 72 [] =
      Some (EFI_SUCCESS, [] @ as_ops (DevId sample_dev) ws) \<and>
    paint (unat (MediaBlockSize sample_dev)) ws ?d = expand 4 0 ?cs ?d"
    by (rule HandleSparseImgFlash_expands) (simp_all add: blocks_def length_sparse_image dvd_def exI [of _ 1])
  note flashed = this
  have "fill_buf 4 0x07060504 = [4, 5, 6, 7]" by (simp add: fill_buf_def enc32_def byte_def)
  moreover have "concat (replicate 2 xs) = xs @ xs" for xs :: bytes by (simp add: numeral_2_eq_2)
  ultimately have "expand 4 0 ?cs ?d = [1, 2, 3, 4, 0xFF, 0xFF, 0xFF, 0xFF, 4, 5, 6, 7, 4, 5, 6, 7]"
    by (simp add: patch_def)
  then show ?thesis using flashed by simp
qed

end
