(* ===== verification/Fastboot_Flash.thy ===== *)
theory Fastboot_Flash
  imports Fastboot_Data Gpt_Image Sparse_Image
begin

text \<open>
  The flash and erase routines of Fastboot (\<^verbatim>\<open>FastbootLib/FastbootCmds.c\<close>): the search for a partition by name, the slot suffix
  that is added to a name, raw, UBI and meta images, and the erasing of a partition. The state of the Fastboot application
  is one record that extends the state of the data phase; the disk requests are the log of \<open>Block_Write\<close>.
\<close>

section \<open>State\<close>

text \<open>The variables of one boot slot, as \<open>getvar\<close> shows them.\<close>

record slot_info =
  SlotSuffix :: string
  SlotSuccessfulVar :: string
  SlotUnbootableVar :: string
  SlotRetryCountVar :: string
  SlotSuccessfulVal :: string
  SlotUnbootableVal :: string
  SlotRetryCountVal :: string

text \<open>
  Published variables keep a pointer to their value, so the list has the place where the value is found: a constant, a static
  array, or a field of the slot information.
\<close>

datatype var_ref =
    VarConst string
  | VarBatteryVoltage | VarBatterySocOk | VarChargeScreen | VarOffModeCharge | VarSlotCount | VarCurrentSlot
  | VarSuccessful nat | VarUnbootable nat | VarRetryCount nat

datatype boot_exit = Reboot u8 | BootPartition | BootImage bytes

record fb_state = fb_data +
  DevSt :: dev_state
  AbSt :: ab_state
  Log :: dev_log
  UbiLog :: "(string \<times> bytes) list"
  SecondaryGpt :: bool
  FlashedGpt :: bool
  LunSet :: bool
  Lun :: u32
  FlashResult :: efi_status
  IsFirstEraseFlash :: bool
  IsAllowUnlock :: u32
  BootSlotInfo :: "slot_info list option"
  SlotSuffixArray :: string
  SlotCount :: u32
  SlotCountVar :: string
  InitialPopulate :: bool
  CurrentSlotFB :: string
  Varlist :: "(string \<times> var_ref) list"
  StrBatteryVoltage :: string
  StrBatterySocOk :: string
  ChargeScreenEnable :: string
  OffModeCharge :: string
  CmdPending :: "string list"
  PanelSet :: "string list"
  Exit :: "boot_exit option"

text \<open>
  The environment: the storage with its partitions and handles, which may depend on what was written, the protocols of the
  firmware and the build options. \<open>FbHandle log i j\<close> is handle \<open>j\<close> of LUN \<open>i\<close>, with a block device and a
  handle that may be null.
\<close>

record charger =
  ChgLocate :: efi_status
  ChgExRevision :: bool
  ChgPowerOk :: "efi_status \<times> u32 \<times> u32 \<times> bool"
  ChgLocateAgain :: efi_status
  ChgBattery :: "efi_status \<times> bool"
  ChgVoltage :: "efi_status \<times> u32"
  ChgCharger :: efi_status

record fb_cmd_env = fb_env +
  FbAb :: ab_env
  FbParts :: "dev_log \<Rightarrow> root_device \<Rightarrow> efi_status \<times> PartitionEntry option list"
  FbHandle :: "dev_log \<Rightarrow> nat \<Rightarrow> nat \<Rightarrow> blk_env option \<times> bool"
  FbGpt :: "dev_log \<Rightarrow> u32 \<Rightarrow> gpt_env"
  FbDisk :: "u32 \<Rightarrow> nat"
  FbMisc :: misc_env
  FbVb :: vb_env
  FbBase :: u64
  FbProduct :: string
  StatusText :: "efi_status \<Rightarrow> string"
  UbiLocate :: efi_status
  UbiOpen :: "string \<Rightarrow> efi_status"
  UbiWrite :: "string \<Rightarrow> bytes \<Rightarrow> efi_status"
  UbiClose :: efi_status
  UsbEvent :: efi_status
  UsbTimer :: efi_status
  RefreshEvent :: efi_status
  RefreshSignal :: efi_status
  CmdTimer :: efi_status
  Charger :: charger
  DisplaySupported :: bool
  IsEnableDisplayMenuFlagSupported :: bool
  DisplayUnlockMenu :: efi_status
  DisplayVar :: "efi_status \<times> u64 \<times> string"
  DisplaySet :: "string \<Rightarrow> efi_status"
  SlotPool :: bool
  VarPool :: bool
  StackName :: name16

definition MAX_GPT_NAME_SIZE :: nat where "MAX_GPT_NAME_SIZE = 72"
definition MAX_SLOT_SUFFIX_SZ :: nat where "MAX_SLOT_SUFFIX_SZ = 3"
definition MAX_LUNS :: nat where "MAX_LUNS = 8"
definition NO_LUN :: u32 where "NO_LUN = - 1"
definition META_HEADER_MAGIC :: u32 where "META_HEADER_MAGIC = 0xce1ad63c"
definition META_PARTITION_NAME_SZ :: nat where "META_PARTITION_NAME_SZ = 72"
definition MAX_IMAGES_IN_METAIMG :: nat where "MAX_IMAGES_IN_METAIMG = 32"

abbreviation IsNand :: "'a fb_cmd_env_scheme \<Rightarrow> bool" where
  "IsNand E \<equiv> CheckRootDeviceType (FbAb E) = NAND"

text \<open>Without threads a write is split while the timer for USB events runs.\<close>

definition IsFlashSplitNeeded :: "'a fb_data_scheme \<Rightarrow> bool" where
  "IsFlashSplitNeeded S = UsbTimerStarted S"

text \<open>Conversions of names; a character array is the string before its NUL.\<close>

definition ascii_of :: "name16 \<Rightarrow> string" where
  "ascii_of n = map (\<lambda>c. char_of (unat c)) n"

definition has_sub :: "'a list \<Rightarrow> 'a list \<Rightarrow> bool" where
  "has_sub s sub \<longleftrightarrow> sublist sub s"

section \<open>Partitions by name\<close>

text \<open>
  A record whose name fills its array has no NUL, and a name that agrees with all of it is compared with what lies behind.
\<close>

fun Handle_loop :: "name16 \<Rightarrow> PartitionEntry option list \<Rightarrow> nat \<Rightarrow> nat option option" where
  "Handle_loop Pname [] j = Some None"
| "Handle_loop Pname (r # rs) j =
     (case r of
        None \<Rightarrow> Handle_loop Pname rs (Suc j)
      | Some e \<Rightarrow>
          if NAME_SIZE \<le> length (PartitionName e) \<and> take NAME_SIZE Pname = take NAME_SIZE (PartitionName e) then None
          else if Pname = PartitionName e then Some (Some j)
          else Handle_loop Pname rs (Suc j))"

text \<open>
  The loop counter has 16 bits and the bound 32. The table has \<open>MAX_LUNS\<close> elements, of which those behind the
  LUNs found have no handles.
\<close>

function Lun_loop :: "ab_state \<Rightarrow> name16 \<Rightarrow> u16 \<Rightarrow> u32 \<Rightarrow> (nat \<times> nat) option option" where
  "Lun_loop A Pname i LunEnd =
     (if \<not> ucast i < LunEnd then Some None
      else if MAX_LUNS \<le> unat i then None
      else
        (case Handle_loop Pname (if unat i < GetMaxLuns A then Ptable A ! unat i else []) 0 of
           None \<Rightarrow> None
         | Some (Some j) \<Rightarrow> Some (Some (unat i, j))
         | Some None \<Rightarrow> Lun_loop A Pname (i + 1) LunEnd))"
  by pat_completeness auto

termination
proof (relation "measure (\<lambda>(A, Pname, i, LunEnd). 16 - unat i)", goal_cases)
  case (2 A Pname i LunEnd)
  then have "unat (i + 1) = unat i + 1" by (simp add: unat_word_ariths MAX_LUNS_def)
  then show ?case using 2 by (simp add: MAX_LUNS_def)
qed simp

declare Lun_loop.simps [simp del]

definition PartitionGetInfo ::
  "'e fb_cmd_env_scheme \<Rightarrow> name16 \<Rightarrow> 'a fb_state_scheme \<Rightarrow> (efi_status \<times> blk_env option \<times> bool) option" where
  "PartitionGetInfo E Pname S =
     (let LunStart = (if LunSet S then Lun S else 0);
          LunEnd = (if LunSet S then Lun S + 1 else word_of_nat (GetMaxLuns (AbSt S)))
      in do {
        r \<leftarrow> Lun_loop (AbSt S) Pname (ucast LunStart) LunEnd;
        Some (case r of
                None \<Rightarrow> (EFI_NOT_FOUND, None, False)
              | Some (i, j) \<Rightarrow> (EFI_SUCCESS, FbHandle E (Log S) i j)) })"

text \<open>
  The slot suffix of a partition. When no partition has the name, the suffix of the current slot is added to it; a name with
  \<open>_a\<close> or \<open>_b\<close> anywhere is taken to end in its suffix. The result has the flag, the name and the suffix.
\<close>

definition GetPartitionHasSlot :: "name16 \<Rightarrow> ab_state \<Rightarrow> ((bool \<times> name16 \<times> name16) \<times> ab_state) option" where
  "GetPartitionHasSlot Pname A =
     (case GetPartitionIndex A Pname of
        None \<Rightarrow>
          do { (Suffix, A) \<leftarrow> GetCurrentSlotSuffix A;
               Some ((True, if length Pname + length Suffix < MAX_GPT_NAME_SIZE then Pname @ Suffix else Pname, Suffix), A) }
      | Some i \<Rightarrow>
          Some (if has_sub Pname (wide ''_a'') \<or> has_sub Pname (wide ''_b'')
                then (True, Pname, drop (length Pname - 2) Pname) else (False, Pname, []), A))"

text \<open>With no boot slots the name stays as it is.\<close>

definition Slot_name :: "name16 \<Rightarrow> ab_state \<Rightarrow> ((bool \<times> name16 \<times> name16) \<times> ab_state) option" where
  "Slot_name Pname A =
     do { MultiSlotBoot \<leftarrow> PartitionHasMultiSlot A (wide ''boot'');
          if MultiSlotBoot then GetPartitionHasSlot Pname A else Some ((False, Pname, []), A) }"

text \<open>
  The slot that was written becomes bootable again. The slot variables are those whose suffix occurs in the suffix of the
  partition.
\<close>

definition mark_slot :: "slot_info \<Rightarrow> slot_info" where
  "mark_slot i = i\<lparr>SlotSuccessfulVal := ''no'', SlotUnbootableVal := ''no'', SlotRetryCountVal := ''7''\<rparr>"

definition FastbootUpdateAttr :: "name16 \<Rightarrow> 'a fb_state_scheme \<Rightarrow> 'a fb_state_scheme option" where
  "FastbootUpdateAttr Suffix S =
     (case GetPartitionIndex (AbSt S) (wide ''boot'' @ Suffix) of
        None \<Rightarrow> Some S
      | Some i \<Rightarrow>
          (let A = AbSt S;
               a = (Attr A i AND (NOT PART_ATT_SUCCESSFUL_VAL AND NOT PART_ATT_UNBOOTABLE_VAL))
                     OR (PART_ATT_PRIORITY_VAL OR PART_ATT_MAX_RETRY_COUNT_VAL);
               S = S\<lparr>AbSt := UpdatePartitionAttributes (set_Attr i a A)\<rparr>
           in if SlotCount S = 0 then Some S
              else do {
                infos \<leftarrow> BootSlotInfo S;
                Some (S\<lparr>BootSlotInfo :=
                  Some (map (\<lambda>i. if has_sub (ascii_of Suffix) (SlotSuffix i) then mark_slot i else i) infos)\<rparr>) }))"

section \<open>Images\<close>

text \<open>The bytes from the start of the buffer that is being flashed to the end of the memory.\<close>

definition flash_mem :: "'a fb_data_scheme \<Rightarrow> bytes" where
  "flash_mem S = drop (mFlashDataBuffer S) (DataMem S)"

definition blk_size :: "blk_env option \<Rightarrow> u64" where
  "blk_size B = GetPartitionSize (map_option (\<lambda>B. (MediaLastBlock B, MediaBlockSize B)) B)"

definition Partition_write ::
  "'e fb_cmd_env_scheme \<Rightarrow> bytes \<Rightarrow> u64 \<Rightarrow> name16 \<Rightarrow> 'a fb_state_scheme \<Rightarrow> ((efi_status \<times> bool) \<times> dev_log) option" where
  "Partition_write E img Size Pname S =
     do { (Status, BlockIo, Handle) \<leftarrow> PartitionGetInfo E Pname S;
          if Status \<noteq> EFI_SUCCESS then Some ((Status, False), Log S)
          else if BlockIo = None \<or> \<not> Handle then Some ((EFI_VOLUME_CORRUPTED, False), Log S)
          else if blk_size BlockIo < Size \<or> blk_size BlockIo = 0 then Some ((EFI_VOLUME_FULL, False), Log S)
          else do {
            (Status, log) \<leftarrow> WriteBlockToPartition BlockIo Handle (IsNand E) (IsFlashSplitNeeded S) 0 Size (Some img) (Log S);
            Some ((Status, True), log) } }"

definition HandleRawImgFlash ::
  "'e fb_cmd_env_scheme \<Rightarrow> bytes \<Rightarrow> u64 \<Rightarrow> name16 \<Rightarrow> 'a fb_state_scheme \<Rightarrow> (efi_status \<times> name16 \<times> 'a fb_state_scheme) option" where
  "HandleRawImgFlash E img Size Pname S =
     do { ((HasSlot, Pname, Suffix), A) \<leftarrow> Slot_name Pname (AbSt S);
          let S = S\<lparr>AbSt := A\<rparr>;
          ((Status, Tried), log) \<leftarrow> Partition_write E img Size Pname S;
          let S = S\<lparr>Log := log\<rparr>;
          S \<leftarrow> (if Tried \<and> HasSlot \<and> StrnCmp_eq Pname (wide ''boot'') 4 then FastbootUpdateAttr Suffix S else Some S);
          Some (Status, Pname, S) }"

definition Ubi_write ::
  "'e fb_cmd_env_scheme \<Rightarrow> bytes \<Rightarrow> u64 \<Rightarrow> name16 \<Rightarrow> 'a fb_state_scheme \<Rightarrow> (efi_status \<times> (string \<times> bytes) list) option" where
  "Ubi_write E img Size Pname S =
     do { (Status, BlockIo, Handle) \<leftarrow> PartitionGetInfo E Pname S;
          let n = ascii_of Pname;
          if EFI_ERROR Status then Some (Status, UbiLog S)
          else if Size > blk_size BlockIo \<or> blk_size BlockIo = 0 then Some (EFI_INVALID_PARAMETER, UbiLog S)
          else if EFI_ERROR (UbiLocate E) then Some (UbiLocate E, UbiLog S)
          else if EFI_ERROR (UbiOpen E n) then Some (UbiOpen E n, UbiLog S)
          else do {
            data \<leftarrow> rd img 0 (unat Size);
            Some (if EFI_ERROR (UbiWrite E n data) then UbiWrite E n data else UbiClose E, UbiLog S @ [(n, data)]) } }"

definition HandleUbiImgFlash ::
  "'e fb_cmd_env_scheme \<Rightarrow> bytes \<Rightarrow> u64 \<Rightarrow> name16 \<Rightarrow> 'a fb_state_scheme \<Rightarrow> (efi_status \<times> name16 \<times> 'a fb_state_scheme) option" where
  "HandleUbiImgFlash E img Size Pname S =
     do { ((HasSlot, Pname, Suffix), A) \<leftarrow> Slot_name Pname (AbSt S);
          let S = S\<lparr>AbSt := A\<rparr>;
          (Status, log) \<leftarrow> Ubi_write E img Size Pname S;
          Some (Status, Pname, S\<lparr>UbiLog := log\<rparr>) }"

definition CriticalPartitions :: "string list" where
  "CriticalPartitions =
     [''abl'', ''rpm'', ''tz'', ''sdi'', ''xbl'', ''hyp'', ''pmic'', ''bootloader'', ''devinfo'', ''partition'', ''devcfg'', ''ddr'',
      ''frp'', ''cdt'', ''cmnlib'', ''cmnlib64'', ''keymaster'', ''mdtp'', ''aop'', ''multiimgoem'', ''secdata'', ''imagefv'',
      ''qupfw'', ''uefisecapp'']"

definition IsCriticalPartition :: "name16 \<Rightarrow> bool" where
  "IsCriticalPartition Pname \<longleftrightarrow> (\<exists>c \<in> set CriticalPartitions. StrnCmp_eq Pname (wide c) (length (wide c)))"

text \<open>
  An entry of a meta image, at \<open>off\<close>: 72 characters of name, the start of the image in the file and its size. A name with
  no NUL is no string.
\<close>

definition meta_entry :: "bytes \<Rightarrow> nat \<Rightarrow> (bytes \<times> u32 \<times> u32) option" where
  "meta_entry img off =
     do { n \<leftarrow> rd img off META_PARTITION_NAME_SZ; start \<leftarrow> rd32 img (off + 72); sz \<leftarrow> rd32 img (off + 76);
          Some (n, start, sz) }"

definition bytes_name :: "bytes \<Rightarrow> name16" where
  "bytes_name n = map ucast (takeWhile (\<lambda>b. b \<noteq> 0) n)"

text \<open>
  The checks of one entry: \<open>Inl None\<close> ends the loop, \<open>Inl (Some st)\<close> is an error, and otherwise the entry is a name, a start
  and a size. \<open>ImageAddr\<close> is the address of the image.
\<close>

definition Check_entry :: "u64 \<Rightarrow> u64 \<Rightarrow> bytes \<times> u32 \<times> u32 \<Rightarrow> efi_status option + name16 \<times> u32 \<times> u32" where
  "Check_entry ImageAddr ImgEnd e =
     (case e of (n, start, sz) \<Rightarrow>
        if start = 0 \<or> sz = 0 then Inl None
        else if \<not> no_wrap ImageAddr (ucast start) then Inl (Some EFI_BAD_BUFFER_SIZE)
        else if \<not> no_wrap (ImageAddr + ucast start) (ucast sz) then Inl (Some EFI_BAD_BUFFER_SIZE)
        else if ImgEnd < ImageAddr + ucast start + ucast sz then Inl (Some EFI_INVALID_PARAMETER)
        else if 0 \<notin> set n then Inl (Some EFI_INVALID_PARAMETER)
        else Inr (bytes_name n, start, sz))"

fun Meta_loop ::
  "'e fb_cmd_env_scheme \<Rightarrow> bytes \<Rightarrow> u64 \<Rightarrow> u64 \<Rightarrow> nat list \<Rightarrow> 'a fb_state_scheme \<Rightarrow> (efi_status \<times> 'a fb_state_scheme) option" where
  "Meta_loop E img ImageAddr ImgEnd [] S = Some (EFI_SUCCESS, S)"
| "Meta_loop E img ImageAddr ImgEnd (i # is) S =
     do { e \<leftarrow> meta_entry img (76 + 80 * i);
          case Check_entry ImageAddr ImgEnd e of
            Inl None \<Rightarrow> Some (EFI_SUCCESS, S)
          | Inl (Some st) \<Rightarrow> Some (st, S)
          | Inr (Pname, start, sz) \<Rightarrow>
              if \<not> is_unlock_critical (DevInfo (DevSt S)) \<and> IsCriticalPartition Pname
              then Some (EFI_INVALID_PARAMETER,
                         FastbootFail (''Flashing is not allowed for Critical Partitions'' @ [CHR 0x0A]) S)
              else do {
                (Status, Pname, S) \<leftarrow> HandleRawImgFlash E (drop (unat start) img) (ucast sz) Pname S;
                if Status \<noteq> EFI_SUCCESS then Some (Status, S) else Meta_loop E img ImageAddr ImgEnd is S } }"

text \<open>A string in memory: the bytes before the first NUL, which has to exist.\<close>

definition mem_string :: "bytes \<Rightarrow> string option" where
  "mem_string m = (if 0 \<in> set m then Some (map (\<lambda>b. char_of (unat b)) (takeWhile (\<lambda>b. b \<noteq> 0) m)) else None)"

definition HandleMetaImgFlash ::
  "'e fb_cmd_env_scheme \<Rightarrow> u64 \<Rightarrow> bytes \<Rightarrow> u64 \<Rightarrow> name16 \<Rightarrow> 'a fb_state_scheme \<Rightarrow> (efi_status \<times> 'a fb_state_scheme) option" where
  "HandleMetaImgFlash E ImageAddr img Size Pname S =
     (if Size < 76 then Some (EFI_INVALID_PARAMETER, S)
      else do {
        img_hdr_sz \<leftarrow> rd16 img 74;
        let images = unat img_hdr_sz div 80;
        if images > MAX_IMAGES_IN_METAIMG then Some (EFI_INVALID_PARAMETER, S)
        else if Size \<le> 76 + ucast img_hdr_sz then Some (EFI_INVALID_PARAMETER, S)
        else if \<not> no_wrap ImageAddr Size then Some (EFI_BAD_BUFFER_SIZE, S)
        else do {
          (Status, S) \<leftarrow> Meta_loop E img ImageAddr (ImageAddr + Size) [0 ..< images] S;
          if Status \<noteq> EFI_SUCCESS then Some (Status, S)
          else do {
            v \<leftarrow> mem_string (drop 8 img);
            let (Status, D) = UpdateDevInfo (FbProduct E) Pname v (DevSt S);
            Some (Status, S\<lparr>DevSt := D\<rparr>) } } })"

definition FastbootErasePartition ::
  "'e fb_cmd_env_scheme \<Rightarrow> name16 \<Rightarrow> 'a fb_state_scheme \<Rightarrow> (efi_status \<times> 'a fb_state_scheme) option" where
  "FastbootErasePartition E Pname S =
     do { (Status, BlockIo, Handle) \<leftarrow> PartitionGetInfo E Pname S;
          if Status \<noteq> EFI_SUCCESS then Some (Status, S)
          else if \<not> Handle then Some (EFI_VOLUME_CORRUPTED, S)
          else
            (case BlockIo of
               None \<Rightarrow> Some (EFI_VOLUME_CORRUPTED, S)
             | Some B \<Rightarrow>
                 (let (Status, log) = EraseWholePartition B (Log S); S = S\<lparr>Log := log\<rparr>
                  in if Status \<noteq> EFI_SUCCESS then Some (Status, S)
                     else Some (if Pname = wide ''userdata'' then ResetDeviceState (FbVb E) else EFI_SUCCESS, S))) }"

section \<open>Which devices are written\<close>

text \<open>\<open>log_on D log log'\<close>: the requests in \<open>log'\<close> behind \<open>log\<close> go to devices in \<open>D\<close>.\<close>

definition log_on :: "nat set \<Rightarrow> dev_log \<Rightarrow> dev_log \<Rightarrow> bool" where
  "log_on D log log' \<longleftrightarrow> (\<exists>ops. log' = log @ ops \<and> fst ` set ops \<subseteq> D)"

lemma log_on_refl [simp, intro]: "log_on D log log"
  by (simp add: log_on_def)

lemma log_on_trans: "log_on D log log1 \<Longrightarrow> log_on D log1 log2 \<Longrightarrow> log_on D log log2"
  unfolding log_on_def by (metis Un_subset_iff append.assoc image_Un set_append)

lemma log_on_mono: "log_on D log log' \<Longrightarrow> D \<subseteq> D' \<Longrightarrow> log_on D' log log'"
  unfolding log_on_def by blast

lemma log_on_snoc [simp]: "log_on D log (log @ [(d, op)]) \<longleftrightarrow> d \<in> D"
  by (simp add: log_on_def)

lemma log_on_empty [simp]: "log_on {} log log' \<longleftrightarrow> log' = log"
  by (auto simp: log_on_def)

lemma Write_loop_on: "Write_loop E u n I ofs l log = Some (st, ofs', log') \<Longrightarrow> log_on {DevId E} log log'"
proof (induction E u n I ofs l log rule: Write_loop.induct)
  case (1 E u n I ofs l log)
  let ?w = "if l > unat u then unat (ucast u :: u32) else l"
  show ?case
  proof (cases "l = 0 \<or> ?w = 0 \<or> MediaBlockSize E = 0")
    case True
    then show ?thesis using 1(2) by (subst (asm) Write_loop.simps) (auto simp: Let_def split: if_splits)
  next
    case False
    obtain x where x: "rd I (unat n - l) ?w = Some x"
      using 1(2) False by (subst (asm) Write_loop.simps) (auto simp: Let_def bind_eq_Some_conv split: if_splits)
    let ?log = "log @ [(DevId E, WriteOp ofs x)]"
    have W: "Write_loop E u n I ofs l log = (if BlkWrite E log ofs x \<noteq> EFI_SUCCESS then Some (BlkWrite E log ofs x, ofs, ?log)
        else Write_loop E u n I (ofs + word_of_nat (?w div unat (MediaBlockSize E))) (l - ?w) ?log)"
      using False x by (subst Write_loop.simps) (simp add: Let_def)
    have "log_on {DevId E} ?log log'" if "BlkWrite E log ofs x = EFI_SUCCESS"
    proof (rule 1(1) [OF _ refl _ x refl])
      show "Write_loop E u n I (ofs + word_of_nat (?w div unat (MediaBlockSize E))) (l - ?w) ?log = Some (st, ofs', log')"
        using 1(2) W that by simp
    qed (use False that in auto)
    moreover have "log_on {DevId E} log log'" if "log_on {DevId E} ?log log'"
      by (rule log_on_trans [OF _ that]) simp
    ultimately show ?thesis using 1(2) W by (cases "BlkWrite E log ofs x = EFI_SUCCESS") auto
  qed
qed

lemma WriteBlockToPartition_on:
  "WriteBlockToPartition (Some E) h nand split ofs n img log = Some (st, log') \<Longrightarrow> log_on {DevId E} log log'"
  by (auto simp: WriteBlockToPartition_def Write_blocks_def Write_tail_def option_inversion case_option_eq_Some
      split: if_splits dest!: Write_loop_on intro: log_on_trans)

lemma Fill_loop_on: "Fill_loop C b n S = Some (st, S') \<Longrightarrow> log_on {DevId (Dev C)} (Ops S) (Ops S')"
proof (induction n arbitrary: S)
  case (Suc n)
  show ?case
  proof (cases "BlocksBytes C S + ucast (blk_sz (Hdr C)) > PartitionSize C")
    case False
    let ?w = "ucast (TotalBlocks S) * BlockCountFactor C"
    obtain s log where W: "WriteToDisk C b (ucast (blk_sz (Hdr C))) ?w (Ops S) = Some (s, log)"
      using Suc.prems False by (auto simp: option_inversion)
    have "log_on {DevId (Dev C)} (Ops S) log" using W unfolding WriteToDisk_def by (rule WriteBlockToPartition_on)
    moreover have "log_on {DevId (Dev C)} log (Ops S')"
      using Suc.prems Suc.IH [of "S\<lparr>WrittenBlockCount := ?w, Ops := log, TotalBlocks := TotalBlocks S + 1\<rparr>"] W False
      by (auto simp: Let_def split: if_splits)
    ultimately show ?thesis by (rule log_on_trans)
  qed (use Suc.prems in simp)
qed simp

lemma ValidateChunk_on: "ValidateChunkDataAndFlash C ch n S = Some (st, S') \<Longrightarrow> log_on {DevId (Dev C)} (Ops S) (Ops S')"
  by (auto simp: ValidateChunkDataAndFlash_def HandleChunkTypeRaw_def Sparse_Image.Raw_write_def HandleChunkTypeFill_def WriteToDisk_def
      option_inversion split: if_splits dest!: WriteBlockToPartition_on Fill_loop_on)

lemma Chunk_loop_on: "Chunk_loop C n S = Some (st, S') \<Longrightarrow> log_on {DevId (Dev C)} (Ops S) (Ops S')"
proof (induction n arbitrary: S)
  case (Suc n)
  then show ?case
    by (auto simp: option_inversion split: if_splits dest!: ValidateChunk_on) (metis log_on_trans)
qed simp

lemma HandleSparseImgFlash_on:
  "HandleSparseImgFlash (s, Some E, h) nand split a b n log = Some (st, log') \<Longrightarrow> log_on {DevId E} log log'"
  by (auto simp: HandleSparseImgFlash_def Sparse_chunks_def option_inversion split: if_splits dest!: Chunk_loop_on)

lemma HandleSparseImgFlash_null:
  "HandleSparseImgFlash (s, None, h) nand split a b n log = Some (st, log') \<Longrightarrow> log' = log"
  by (auto simp: HandleSparseImgFlash_def split: if_splits)

section \<open>Which partitions are written\<close>

lemma Handle_loop_sound:
  "Handle_loop Pname rs j = Some (Some k) \<Longrightarrow>
     \<exists>e. j \<le> k \<and> k - j < length rs \<and> rs ! (k - j) = Some e \<and> PartitionName e = Pname"
proof (induction rs arbitrary: j)
  case (Cons r rs)
  show ?case
  proof (cases "Handle_loop Pname rs (Suc j) = Some (Some k)")
    case True
    then obtain e where "Suc j \<le> k" "k - Suc j < length rs" "rs ! (k - Suc j) = Some e" "PartitionName e = Pname"
      using Cons.IH by blast
    then show ?thesis by (auto simp: nth_Cons' less_diff_conv2)
  qed (use Cons.prems in \<open>auto split: option.splits if_splits\<close>)
qed simp

lemma Lun_loop_sound:
  "Lun_loop A Pname i LunEnd = Some (Some (k, j)) \<Longrightarrow>
     \<exists>e. k < length (Ptable A) \<and> j < length (Ptable A ! k) \<and> Ptable A ! k ! j = Some e \<and> PartitionName e = Pname"
proof (induction A Pname i LunEnd rule: Lun_loop.induct)
  case (1 A Pname i LunEnd)
  let ?hs = "if unat i < GetMaxLuns A then Ptable A ! unat i else []"
  have guard: "ucast i < LunEnd" "\<not> MAX_LUNS \<le> unat i"
    using 1(2) by (subst (asm) (1) Lun_loop.simps, simp split: if_splits)+
  then consider (here) j' where "Handle_loop Pname ?hs 0 = Some (Some j')" | (next_lun) "Handle_loop Pname ?hs 0 = Some None"
    using 1(2) by (subst (asm) (1) Lun_loop.simps) (auto split: option.splits)
  then show ?case
  proof cases
    case here
    then have "k = unat i" "j = j'" using 1(2) guard by (subst (asm) (1) Lun_loop.simps, simp)+
    then show ?thesis using Handle_loop_sound [OF here] by (auto simp: GetMaxLuns_def split: if_splits)
  next
    case next_lun
    then show ?thesis using 1 guard by (subst (asm) (2) Lun_loop.simps) simp
  qed
qed

text \<open>The block devices of the partitions with a name, in the table \<open>A\<close>.\<close>

definition named_devs :: "'e fb_cmd_env_scheme \<Rightarrow> ab_state \<Rightarrow> name16 \<Rightarrow> nat set" where
  "named_devs E A n =
     {d. \<exists>i j e log B. i < length (Ptable A) \<and> j < length (Ptable A ! i) \<and> Ptable A ! i ! j = Some e \<and> PartitionName e = n \<and>
        FbHandle E log i j = (Some B, True) \<and> DevId B = d}"

lemma PartitionGetInfo_named:
  assumes "PartitionGetInfo E n S = Some (st, Some B, True)"
  shows "st = EFI_SUCCESS \<and> DevId B \<in> named_devs E (AbSt S) n"
proof -
  obtain l u i j where L: "Lun_loop (AbSt S) n l u = Some (Some (i, j))" and st: "st = EFI_SUCCESS"
    and H: "FbHandle E (Log S) i j = (Some B, True)"
    using assms by (auto simp: PartitionGetInfo_def Let_def bind_eq_Some_conv split: option.splits)
  show ?thesis using st H Lun_loop_sound [OF L] unfolding named_devs_def by blast
qed

text \<open>A slot suffix never makes a name critical, because no critical name has an underscore.\<close>

lemma ActiveSlot_loop_slots: "ActiveSlot_loop S ss p s = (st, s') \<Longrightarrow> s' = s \<or> s' \<in> set ss"
  by (induction ss arbitrary: p s) (auto simp: Let_def split: option.splits if_splits)

lemma GetActiveSlot_frame:
  "GetActiveSlot [] A = (st, s, A') \<Longrightarrow> Ptable A' = Ptable A \<and> s \<in> {[], wide ''_a'', wide ''_b''}"
  by (cases "ActiveSlot_loop A Slots 0 []")
    (auto simp: GetActiveSlot_def Let_def UpdatePartitionAttributes_def set_Attr_def Slots_def split: if_splits option.splits
      dest!: ActiveSlot_loop_slots)

lemma GetCurrentSlotSuffix_frame:
  "GetCurrentSlotSuffix A = Some (s, A') \<Longrightarrow> Ptable A' = Ptable A \<and> s \<in> {[], wide ''_a'', wide ''_b''}"
  by (cases "GetActiveSlot [] A") (auto simp: GetCurrentSlotSuffix_def bind_eq_Some_conv split: if_splits dest!: GetActiveSlot_frame)

lemma critical_no_underscore: "c \<in> set CriticalPartitions \<Longrightarrow> 95 \<notin> set (wide c)"
  by (auto simp: CriticalPartitions_def wide_def ord8_def)

lemma IsCritical_iff: "IsCriticalPartition n \<longleftrightarrow> (\<exists>c \<in> set CriticalPartitions. prefix (wide c) n)"
proof -
  have "StrnCmp_eq n (wide c) (length (wide c)) \<longleftrightarrow> prefix (wide c) n" for c
    unfolding StrnCmp_eq_def prefix_def using append_take_drop_id [of "length (wide c)" n] by (metis append_eq_conv_conj order_refl take_all)
  then show ?thesis by (simp add: IsCriticalPartition_def)
qed

lemma IsCritical_suffix:
  assumes "s \<in> {[], wide ''_a'', wide ''_b''}"
  shows "IsCriticalPartition (n @ s) \<longleftrightarrow> IsCriticalPartition n"
proof (cases "s = []")
  case False
  then obtain t where s: "s = 95 # t" using assms by (auto simp: wide_def ord8_def)
  have "prefix (wide c) n" if c: "c \<in> set CriticalPartitions" "prefix (wide c) (n @ s)" for c
  proof (rule ccontr)
    assume "\<not> prefix (wide c) n"
    then obtain us where "wide c = n @ us" "us \<noteq> []" "prefix us s" using c(2) by (auto simp: prefix_append)
    then have "95 \<in> set (wide c)" using s by (cases us) auto
    then show False using critical_no_underscore [OF c(1)] by simp
  qed
  then show ?thesis by (auto simp: IsCritical_iff intro: prefix_prefix)
qed simp

lemma Slot_name_frame:
  assumes "Slot_name n A = Some ((hs, n', s), A')"
  shows "Ptable A' = Ptable A \<and> IsCriticalPartition n' = IsCriticalPartition n"
  using assms
  by (auto simp: Slot_name_def GetPartitionHasSlot_def bind_eq_Some_conv IsCritical_suffix split: if_splits option.splits
      dest!: GetCurrentSlotSuffix_frame)

section \<open>What flashing leaves alone\<close>

definition same_locks :: "'a fb_state_scheme \<Rightarrow> 'a fb_state_scheme \<Rightarrow> bool" where
  "same_locks S S' \<longleftrightarrow> is_unlocked (DevInfo (DevSt S')) = is_unlocked (DevInfo (DevSt S)) \<and>
     is_unlock_critical (DevInfo (DevSt S')) = is_unlock_critical (DevInfo (DevSt S)) \<and> IsAllowUnlock S' = IsAllowUnlock S"

definition noncritical_devs :: "'e fb_cmd_env_scheme \<Rightarrow> ab_state \<Rightarrow> nat set" where
  "noncritical_devs E A = (\<Union>n \<in> {n. \<not> IsCriticalPartition n}. named_devs E A n)"

text \<open>
  \<open>flashed E S S'\<close>: between the two states only partitions that are not critical were written, and the partition table and
  the locks are as before.
\<close>

definition flashed :: "'e fb_cmd_env_scheme \<Rightarrow> 'a fb_state_scheme \<Rightarrow> 'a fb_state_scheme \<Rightarrow> bool" where
  "flashed E S S' \<longleftrightarrow> log_on (noncritical_devs E (AbSt S)) (Log S) (Log S') \<and>
     (\<exists>us. UbiLog S' = UbiLog S @ us \<and> (\<forall>u \<in> set us. \<exists>n. \<not> IsCriticalPartition n \<and> fst u = ascii_of n)) \<and>
     Ptable (AbSt S') = Ptable (AbSt S) \<and> same_locks S S'"

lemma flashed_same:
  "Log S' = Log S \<Longrightarrow> UbiLog S' = UbiLog S \<Longrightarrow> Ptable (AbSt S') = Ptable (AbSt S) \<Longrightarrow> same_locks S S' \<Longrightarrow> flashed E S S'"
  by (simp add: flashed_def)

lemma flashed_refl [simp, intro]: "flashed E S S"
  by (simp add: flashed_same same_locks_def)

lemma noncritical_devs_Ptable: "Ptable A' = Ptable A \<Longrightarrow> noncritical_devs E A' = noncritical_devs E A"
  by (simp add: noncritical_devs_def named_devs_def)

lemma flashed_trans:
  assumes "flashed E S S1" "flashed E S1 S2" shows "flashed E S S2"
proof -
  have P: "noncritical_devs E (AbSt S1) = noncritical_devs E (AbSt S)"
    using assms(1) noncritical_devs_Ptable unfolding flashed_def by blast
  obtain us vs where "UbiLog S1 = UbiLog S @ us" "UbiLog S2 = UbiLog S1 @ vs"
    "\<forall>u \<in> set us. \<exists>n. \<not> IsCriticalPartition n \<and> fst u = ascii_of n"
    "\<forall>u \<in> set vs. \<exists>n. \<not> IsCriticalPartition n \<and> fst u = ascii_of n"
    using assms unfolding flashed_def by blast
  then have "\<exists>us. UbiLog S2 = UbiLog S @ us \<and> (\<forall>u \<in> set us. \<exists>n. \<not> IsCriticalPartition n \<and> fst u = ascii_of n)"
    by (intro exI [of _ "us @ vs"]) auto
  then show ?thesis using assms P unfolding flashed_def same_locks_def by (metis log_on_trans)
qed

lemma flashed_answer [simp]:
  "flashed E S (FastbootFail r S)" "flashed E S (FastbootOkay r S)" "flashed E S (FastbootInfo r S)"
  by (simp_all add: flashed_same same_locks_def FastbootFail_def FastbootOkay_def FastbootInfo_def FastbootAck_def)

lemma flashed_AbSt: "Ptable A = Ptable (AbSt S) \<Longrightarrow> flashed E S (S\<lparr>AbSt := A\<rparr>)"
  by (simp add: flashed_same same_locks_def)

lemma flashed_log: "log_on (noncritical_devs E (AbSt S)) (Log S) log \<Longrightarrow> flashed E S (S\<lparr>Log := log\<rparr>)"
  by (auto simp: flashed_def same_locks_def)

lemma noncritical_dev:
  "PartitionGetInfo E n S = Some (st, Some B, True) \<Longrightarrow> \<not> IsCriticalPartition n \<Longrightarrow> {DevId B} \<subseteq> noncritical_devs E (AbSt S)"
  by (auto simp: noncritical_devs_def dest!: PartitionGetInfo_named)

lemma FastbootUpdateAttr_flashed: "FastbootUpdateAttr s S = Some S' \<Longrightarrow> flashed E S S'"
  by (auto simp: FastbootUpdateAttr_def Let_def UpdatePartitionAttributes_def set_Attr_def bind_eq_Some_conv
      split: option.splits if_splits intro!: flashed_same simp: same_locks_def)

lemma Partition_write_on:
  assumes "Partition_write E img n Pname S = Some (r, log)" "\<not> IsCriticalPartition Pname"
  shows "log_on (noncritical_devs E (AbSt S)) (Log S) log"
proof -
  obtain st B h where I: "PartitionGetInfo E Pname S = Some (st, B, h)"
    using assms(1) by (auto simp: Partition_write_def bind_eq_Some_conv)
  show ?thesis
  proof (cases "B = None \<or> \<not> h")
    case False
    then obtain b where b: "B = Some b" "h" by auto
    then consider "log = Log S"
      | s where "WriteBlockToPartition (Some b) True (IsNand E) (IsFlashSplitNeeded S) 0 n (Some img) (Log S) = Some (s, log)"
      using assms(1) I by (auto simp: Partition_write_def bind_eq_Some_conv split: if_splits)
    then have on: "log_on {DevId b} (Log S) log"
    proof cases
      case 2
      then show ?thesis by (rule WriteBlockToPartition_on)
    qed simp
    have "{DevId b} \<subseteq> noncritical_devs E (AbSt S)" using noncritical_dev [of E Pname S st b] I b assms(2) by simp
    then show ?thesis by (rule log_on_mono [OF on])
  qed (use assms(1) I in \<open>auto simp: Partition_write_def split: if_splits\<close>)
qed

lemma HandleRawImgFlash_flashed:
  assumes "HandleRawImgFlash E img n Pname S = Some (st, Pname', S')" "\<not> IsCriticalPartition Pname"
  shows "flashed E S S' \<and> \<not> IsCriticalPartition Pname'"
proof -
  obtain hs s A st' t log where N: "Slot_name Pname (AbSt S) = Some ((hs, Pname', s), A)"
    and W: "Partition_write E img n Pname' (S\<lparr>AbSt := A\<rparr>) = Some ((st', t), log)"
    and U: "(if t \<and> hs \<and> StrnCmp_eq Pname' (wide ''boot'') 4 then FastbootUpdateAttr s (S\<lparr>AbSt := A, Log := log\<rparr>)
             else Some (S\<lparr>AbSt := A, Log := log\<rparr>)) = Some S'"
    using assms(1) unfolding HandleRawImgFlash_def by (auto simp: bind_eq_Some_conv Let_def split: if_splits)
  have crit: "\<not> IsCriticalPartition Pname'" and P: "Ptable A = Ptable (AbSt S)"
    using Slot_name_frame [OF N] assms(2) by simp_all
  have "flashed E (S\<lparr>AbSt := A\<rparr>) (S\<lparr>AbSt := A, Log := log\<rparr>)"
    using flashed_log [OF Partition_write_on [OF W crit]] by simp
  moreover have "flashed E (S\<lparr>AbSt := A, Log := log\<rparr>) S'" using U by (auto split: if_splits intro: FastbootUpdateAttr_flashed)
  ultimately show ?thesis using crit flashed_trans [OF flashed_AbSt [OF P]] flashed_trans by blast
qed

lemma HandleUbiImgFlash_flashed:
  assumes "HandleUbiImgFlash E img n Pname S = Some (st, Pname', S')" "\<not> IsCriticalPartition Pname"
  shows "flashed E S S' \<and> \<not> IsCriticalPartition Pname'"
proof -
  obtain hs s A log where N: "Slot_name Pname (AbSt S) = Some ((hs, Pname', s), A)"
    and W: "Ubi_write E img n Pname' (S\<lparr>AbSt := A\<rparr>) = Some (st, log)" and S': "S' = S\<lparr>AbSt := A, UbiLog := log\<rparr>"
    using assms(1) unfolding HandleUbiImgFlash_def by (auto simp: bind_eq_Some_conv Let_def)
  have crit: "\<not> IsCriticalPartition Pname'" and P: "Ptable A = Ptable (AbSt S)"
    using Slot_name_frame [OF N] assms(2) by simp_all
  have "log = UbiLog S \<or> (\<exists>x. log = UbiLog S @ [(ascii_of Pname', x)])"
    using W by (auto simp: Ubi_write_def bind_eq_Some_conv Let_def split: if_splits)
  then have "flashed E S S'" using crit P S' by (auto simp: flashed_def same_locks_def)
  then show ?thesis using crit by simp
qed

lemma Meta_loop_flashed:
  "Meta_loop E img a b is S = Some (st, S') \<Longrightarrow> \<not> is_unlock_critical (DevInfo (DevSt S)) \<Longrightarrow> flashed E S S'"
proof (induction "is" arbitrary: S)
  case (Cons i "is")
  obtain e where e: "meta_entry img (76 + 80 * i) = Some e" using Cons.prems(1) by (auto simp: bind_eq_Some_conv)
  show ?case
  proof (cases "Check_entry a b e")
    case (Inr x)
    obtain n start sz where x: "x = (n, start, sz)" by (cases x)
    show ?thesis
    proof (cases "IsCriticalPartition n")
      case False
      then obtain s n' S1 where R: "HandleRawImgFlash E (drop (unat start) img) (ucast sz) n S = Some (s, n', S1)"
        using Cons.prems e Inr x by (auto simp: bind_eq_Some_conv)
      note F = HandleRawImgFlash_flashed [OF R False]
      have "flashed E S1 S'"
        using Cons.IH [of S1] Cons.prems e Inr x R False F by (auto simp: flashed_def same_locks_def split: if_splits)
      then show ?thesis using F flashed_trans by blast
    qed (use Cons.prems e Inr x in auto)
  qed (use Cons.prems e in \<open>auto split: option.splits\<close>)
qed simp

lemma HandleMetaImgFlash_flashed:
  assumes "HandleMetaImgFlash E a img n Pname S = Some (st, S')" "\<not> is_unlock_critical (DevInfo (DevSt S))"
  shows "flashed E S S'"
proof -
  consider "S' = S" | k s where "Meta_loop E img a (a + n) [0 ..< k] S = Some (s, S')"
    | k s S1 v D where "Meta_loop E img a (a + n) [0 ..< k] S = Some (s, S1)"
        "UpdateDevInfo (FbProduct E) Pname v (DevSt S1) = (st, D)" "S' = S1\<lparr>DevSt := D\<rparr>"
    using assms(1) by (auto simp: HandleMetaImgFlash_def option_inversion split: if_splits)
  then show ?thesis
  proof cases
    case 3
    then have "flashed E S1 S'" by (auto simp: UpdateDevInfo_def same_locks_def intro!: flashed_same)
    then show ?thesis using Meta_loop_flashed [OF 3(1) assms(2)] flashed_trans by blast
  qed (use Meta_loop_flashed assms(2) in blast)+
qed

lemma FastbootErasePartition_flashed:
  assumes "FastbootErasePartition E Pname S = Some (st, S')" "\<not> IsCriticalPartition Pname"
  shows "flashed E S S'"
proof -
  obtain s B h where I: "PartitionGetInfo E Pname S = Some (s, B, h)"
    using assms(1) by (auto simp: FastbootErasePartition_def bind_eq_Some_conv)
  show ?thesis
  proof (cases "B = None \<or> \<not> h")
    case False
    then obtain b where b: "B = Some b" "h" by auto
    then have "DevId b \<in> noncritical_devs E (AbSt S)" using noncritical_dev [of E Pname S s b] I assms(2) by auto
    then show ?thesis
      using assms(1) I b
      by (auto simp: FastbootErasePartition_def EraseWholePartition_def Let_def split: if_splits intro!: flashed_log)
  qed (use assms(1) I in \<open>auto simp: FastbootErasePartition_def split: if_splits\<close>)
qed

lemma FastbootUpdateAttr_some:
  assumes "SlotCount S = 0 \<or> BootSlotInfo S \<noteq> None"
  obtains S' where "FastbootUpdateAttr s S = Some S'" "Log S' = Log S" "Replies S' = Replies S"
proof (cases "GetPartitionIndex (AbSt S) (wide ''boot'' @ s)")
  case (Some i)
  then show ?thesis
    using assms that by (cases "SlotCount S = 0"; cases "BootSlotInfo S") (simp_all add: FastbootUpdateAttr_def Let_def)
qed (use that in \<open>simp add: FastbootUpdateAttr_def\<close>)

end
