(* ===== verification/Fastboot_Vars.thy ===== *)
theory Fastboot_Vars
  imports Fastboot_Flash
begin

text \<open>
  The variables that \<open>getvar\<close> shows (\<^verbatim>\<open>FastbootLib/FastbootCmds.c\<close>, battery status from \<^verbatim>\<open>BootLib/UpdateCmdLine.c\<close>): the list of
  published variables, the slot variables with the static arrays behind them, the sizes and types of the partitions, and the command itself.
\<close>

section \<open>Printing numbers\<close>

fun dec_string :: "nat \<Rightarrow> string" where
  "dec_string n = (if n < 10 then [char_of (48 + n)] else dec_string (n div 10) @ [char_of (48 + n mod 10)])"

fun hex_string :: "nat \<Rightarrow> string" where
  "hex_string n =
     (let d = (\<lambda>k. char_of (if k < 10 then 48 + k else 87 + k))
      in if n < 16 then [d n] else hex_string (n div 16) @ [d (n mod 16)])"

declare dec_string.simps [simp del] hex_string.simps [simp del]

text \<open>Concatenation to an array of \<open>n\<close> characters, which stays as it is when the result does not fit.\<close>

definition cat :: "nat \<Rightarrow> string \<Rightarrow> string \<Rightarrow> string" where
  "cat n a b = (if length a + length b < n then a @ b else a)"

definition SLOT_SUFFIX_ARRAY_SIZE :: nat where "SLOT_SUFFIX_ARRAY_SIZE = 10"
definition SLOT_ATTR_SIZE :: nat where "SLOT_ATTR_SIZE = 32"
definition ATTR_RESP_SIZE :: nat where "ATTR_RESP_SIZE = 4"
definition MAX_GET_VAR_NAME_SIZE :: nat where "MAX_GET_VAR_NAME_SIZE = 32"
definition BATT_MIN_VOLT :: u32 where "BATT_MIN_VOLT = 3200"

section \<open>Published variables\<close>

definition FastbootPublishVar :: "'e fb_cmd_env_scheme \<Rightarrow> string \<Rightarrow> var_ref \<Rightarrow> 'a fb_state_scheme \<Rightarrow> 'a fb_state_scheme" where
  "FastbootPublishVar E name val S = (if VarPool E then S\<lparr>Varlist := (name, val) # Varlist S\<rparr> else S)"

text \<open>The value a variable has now. A slot variable needs the slot information it points into.\<close>

definition slot_field :: "(slot_info \<Rightarrow> string) \<Rightarrow> nat \<Rightarrow> 'a fb_state_scheme \<Rightarrow> string option" where
  "slot_field f j S = do { is \<leftarrow> BootSlotInfo S; if j < length is then Some (f (is ! j)) else None }"

fun var_value :: "'a fb_state_scheme \<Rightarrow> var_ref \<Rightarrow> string option" where
  "var_value S (VarConst s) = Some s"
| "var_value S VarBatteryVoltage = Some (StrBatteryVoltage S)"
| "var_value S VarBatterySocOk = Some (StrBatterySocOk S)"
| "var_value S VarChargeScreen = Some (ChargeScreenEnable S)"
| "var_value S VarOffModeCharge = Some (OffModeCharge S)"
| "var_value S VarSlotCount = Some (SlotCountVar S)"
| "var_value S VarCurrentSlot = Some (CurrentSlotFB S)"
| "var_value S (VarSuccessful j) = slot_field SlotSuccessfulVal j S"
| "var_value S (VarUnbootable j) = slot_field SlotUnbootableVal j S"
| "var_value S (VarRetryCount j) = slot_field SlotRetryCountVal j S"

section \<open>Slot variables\<close>

definition NamePropertyMatches :: "string \<Rightarrow> bool" where
  "NamePropertyMatches Name \<longleftrightarrow>
     (\<exists>p \<in> set [''has-slot'', ''current-slot'', ''slot-retry-count'', ''slot-unbootable'', ''slot-successful'', ''slot-suffixes'',
                ''partition-type:system'', ''partition-size:system'']. prefix p Name)"

definition ClearFastbootVarsofAB :: "'a fb_state_scheme \<Rightarrow> 'a fb_state_scheme" where
  "ClearFastbootVarsofAB S = S\<lparr>Varlist := filter (\<lambda>(n, v). \<not> NamePropertyMatches n) (Varlist S)\<rparr>"

text \<open>
  A partition name as an ASCII string; a name with no NUL is read past its array. The part behind \<open>boot_\<close> of the name
  \<open>boot\<close> lies behind its NUL.
\<close>

definition part_ascii :: "PartitionEntry \<Rightarrow> string option" where
  "part_ascii e = map_option (\<lambda>_. ascii_of (PartitionName e)) (StrLen (PartitionName e))"

definition yes_no :: "bool \<Rightarrow> string" where
  "yes_no b = (if b then ''yes'' else ''no'')"

definition zero_slot :: slot_info where
  "zero_slot = \<lparr>SlotSuffix = [], SlotSuccessfulVar = [], SlotUnbootableVar = [], SlotRetryCountVar = [],
     SlotSuccessfulVal = [], SlotUnbootableVal = [], SlotRetryCountVal = []\<rparr>"

definition slot_of :: "string \<Rightarrow> u64 \<Rightarrow> slot_info" where
  "slot_of Suffix a =
     \<lparr>SlotSuffix = (if length Suffix < MAX_SLOT_SUFFIX_SZ then Suffix else []),
      SlotSuccessfulVar = cat SLOT_ATTR_SIZE ''slot-successful:'' Suffix,
      SlotUnbootableVar = cat SLOT_ATTR_SIZE ''slot-unbootable:'' Suffix,
      SlotRetryCountVar = cat SLOT_ATTR_SIZE ''slot-retry-count:'' Suffix,
      SlotSuccessfulVal = yes_no (a AND PART_ATT_SUCCESSFUL_VAL \<noteq> 0),
      SlotUnbootableVal = yes_no (a AND PART_ATT_UNBOOTABLE_VAL \<noteq> 0),
      SlotRetryCountVal = take (ATTR_RESP_SIZE - 1) (dec_string (unat (RetryCount a)))\<rparr>"

fun SlotVars_loop :: "'e fb_cmd_env_scheme \<Rightarrow> PartitionEntry list \<Rightarrow> nat \<Rightarrow> 'a fb_state_scheme \<Rightarrow> 'a fb_state_scheme option" where
  "SlotVars_loop E [] j S = Some S"
| "SlotVars_loop E (e # es) j S =
     (if \<not> j < unat (SlotCount S) then Some S
      else do {
        n \<leftarrow> part_ascii e;
        if \<not> prefix ''boot'' n then SlotVars_loop E es j S
        else do {
          Suffix \<leftarrow> (if length n < 5 then None else Some (drop 5 n));
          is \<leftarrow> BootSlotInfo S;
          let i = slot_of Suffix (Attributes e);
          let S = S\<lparr>BootSlotInfo := Some (is[j := i])\<rparr>;
          let S = FastbootPublishVar E (SlotSuccessfulVar i) (VarSuccessful j) S;
          let S = FastbootPublishVar E (SlotUnbootableVar i) (VarUnbootable j) S;
          let S = FastbootPublishVar E (SlotRetryCountVar i) (VarRetryCount j) S;
          SlotVars_loop E es (Suc j) S } })"

text \<open>The current slot without its first character.\<close>

definition Set_current :: "'a fb_state_scheme \<Rightarrow> 'a fb_state_scheme option" where
  "Set_current S =
     do { (Suffix, A) \<leftarrow> GetCurrentSlotSuffix (AbSt S);
          Some (S\<lparr>AbSt := A, CurrentSlotFB := drop 1 (ascii_of Suffix)\<rparr>) }"

definition FastbootPublishSlotVars :: "'e fb_cmd_env_scheme \<Rightarrow> 'a fb_state_scheme \<Rightarrow> 'a fb_state_scheme option" where
  "FastbootPublishSlotVars E S =
     do { S \<leftarrow> SlotVars_loop E (PtnEntries (AbSt S)) 0 S;
          S \<leftarrow> Set_current (FastbootPublishVar E ''has-slot:boot'' (VarConst ''yes'') S);
          let S = FastbootPublishVar E ''current-slot'' VarCurrentSlot S;
          sys \<leftarrow> PartitionHasMultiSlot (AbSt S) (wide ''system'');
          modem \<leftarrow> PartitionHasMultiSlot (AbSt S) (wide ''modem'');
          Some (FastbootPublishVar E ''has-slot:modem'' (VarConst (yes_no modem))
                  (FastbootPublishVar E ''has-slot:system'' (VarConst (yes_no sys)) S)) }"

text \<open>Counting the boot partitions and collecting their suffixes. The count is not reset, so it grows when this runs again.\<close>

fun Count_slots :: "PartitionEntry list \<Rightarrow> u32 \<Rightarrow> string \<Rightarrow> (u32 \<times> string) option" where
  "Count_slots [] n arr = Some (n, arr)"
| "Count_slots (e # es) n arr =
     do { s \<leftarrow> part_ascii e;
          if prefix ''boot'' s
          then let Suffix = drop 4 s
               in Count_slots es (n + 1)
                    (if has_sub arr Suffix then arr
                     else cat SLOT_SUFFIX_ARRAY_SIZE (cat SLOT_SUFFIX_ARRAY_SIZE arr Suffix) '','')
          else Count_slots es n arr }"

definition PopulateMultislotMetadata :: "'e fb_cmd_env_scheme \<Rightarrow> 'a fb_state_scheme \<Rightarrow> 'a fb_state_scheme option" where
  "PopulateMultislotMetadata E S =
     (if \<not> InitialPopulate S then
        do { (n, arr) \<leftarrow> Count_slots (PtnEntries (AbSt S)) (SlotCount S) (SlotSuffixArray S);
             let S = S\<lparr>SlotCount := n, SlotSuffixArray := arr, SlotCountVar := take (ATTR_RESP_SIZE - 1) (dec_string (unat n))\<rparr>;
             let S = FastbootPublishVar E ''slot-count'' VarSlotCount S;
             if \<not> SlotPool E then Some (S\<lparr>BootSlotInfo := None\<rparr>)
             else do {
               S \<leftarrow> FastbootPublishSlotVars E (S\<lparr>BootSlotInfo := Some (replicate (unat n) zero_slot)\<rparr>);
               Some (S\<lparr>InitialPopulate := True\<rparr>) } }
      else if SlotCount S = 0 then Some S
      else do { is \<leftarrow> BootSlotInfo S; Some (S\<lparr>BootSlotInfo := Some (map mark_slot is)\<rparr>) })"

section \<open>Battery\<close>

definition TargetCheckBatteryStatus :: "charger \<Rightarrow> efi_status \<times> bool \<times> u32" where
  "TargetCheckBatteryStatus C =
     (if ChgLocateAgain C = EFI_NOT_FOUND then (EFI_SUCCESS, False, 0)
      else if EFI_ERROR (ChgLocateAgain C) then (EFI_OTHER_ERROR 24, False, 0)
      else if EFI_ERROR (fst (ChgBattery C)) then (fst (ChgBattery C), snd (ChgBattery C), 0)
      else if EFI_ERROR (fst (ChgVoltage C)) then (fst (ChgVoltage C), snd (ChgBattery C), snd (ChgVoltage C))
      else (ChgCharger C, snd (ChgBattery C), snd (ChgVoltage C)))"

definition TargetBatterySocOk :: "charger \<Rightarrow> bool \<times> u32" where
  "TargetBatterySocOk C =
     (if ChgLocate C = EFI_NOT_FOUND then (True, 0)
      else if EFI_ERROR (ChgLocate C) then (False, 0)
      else if ChgExRevision C then
        (case ChgPowerOk C of (Status, Curr, Req, Can) \<Rightarrow>
           if EFI_ERROR Status then (Status = EFI_UNSUPPORTED, 0)
           else (Can \<and> \<not> Curr < Req, Curr))
      else
        (case TargetCheckBatteryStatus C of (Status, Present, Voltage) \<Rightarrow>
           (Status = EFI_SUCCESS \<and> (\<not> Present \<or> Voltage > BATT_MIN_VOLT) \<or> Status = EFI_UNSUPPORTED, Voltage)))"

section \<open>Partition variables\<close>

definition FS_SUPERBLOCK_OFFSET :: nat where "FS_SUPERBLOCK_OFFSET = 0x400"
definition EXT_MAGIC_OFFSET_SB :: nat where "EXT_MAGIC_OFFSET_SB = 0x38"
definition EXT_FS_MAGIC :: u16 where "EXT_FS_MAGIC = 0xEF53"
definition F2FS_FS_MAGIC :: u32 where "F2FS_FS_MAGIC = 0xF2F52010"

datatype FS_SIGNATURE = EXT_FS_SIGNATURE | F2FS_FS_SIGNATURE | UNKNOWN_FS_SIGNATURE

text \<open>
  A failed read of the superblock is not noticed: the buffer is as the driver left it, here the content the read gave. A buffer that
  cannot be allocated is \<open>BlkPoolOk\<close> of the device.
\<close>

definition CheckPartitionFsSignature :: "'e fb_cmd_env_scheme \<Rightarrow> name16 \<Rightarrow> 'a fb_state_scheme \<Rightarrow> FS_SIGNATURE option" where
  "CheckPartitionFsSignature E PartName S =
     do { (Status, BlockIo, Handle) \<leftarrow> PartitionGetInfo E PartName S;
          if Status \<noteq> EFI_SUCCESS then Some UNKNOWN_FS_SIGNATURE
          else
            (case BlockIo of
               None \<Rightarrow> Some UNKNOWN_FS_SIGNATURE
             | Some B \<Rightarrow>
                 if \<not> BlkPoolOk B then Some UNKNOWN_FS_SIGNATURE
                 else
                   (let BlkSz = unat (MediaBlockSize B); Lba = FS_SUPERBLOCK_OFFSET div BlkSz
                    in if BlkSz = 0 then None
                       else do {
                         let buf = snd (BlkRead B (Log S) (word_of_nat Lba) BlkSz);
                         let off = (if Lba = 0 then FS_SUPERBLOCK_OFFSET else 0);
                         x \<leftarrow> rd16 buf (off + EXT_MAGIC_OFFSET_SB);
                         if x = EXT_FS_MAGIC then Some EXT_FS_SIGNATURE
                         else do {
                           y \<leftarrow> rd32 buf off;
                           Some (if y = F2FS_FS_MAGIC then F2FS_FS_SIGNATURE else UNKNOWN_FS_SIGNATURE) } })) }"

fun Type_loop :: "'e fb_cmd_env_scheme \<Rightarrow> name16 \<Rightarrow> string list \<Rightarrow> string \<Rightarrow> 'a fb_state_scheme \<Rightarrow> string option" where
  "Type_loop E PartName [] PartType S = Some PartType"
| "Type_loop E PartName (p # ps) PartType S =
     (if prefix p (ascii_of PartName)
      then do {
        sig \<leftarrow> CheckPartitionFsSignature E PartName S;
        Type_loop E PartName ps (case sig of F2FS_FS_SIGNATURE \<Rightarrow> ''f2fs'' | _ \<Rightarrow> ''ext4'') S }
      else Type_loop E PartName ps PartType S)"

definition GetPartitionType :: "'e fb_cmd_env_scheme \<Rightarrow> name16 \<Rightarrow> 'a fb_state_scheme \<Rightarrow> string option" where
  "GetPartitionType E PartName S = Type_loop E PartName [''system'', ''userdata'', ''cache'', ''metadata''] ''raw'' S"

definition GetPartitionSizeViaName :: "'e fb_cmd_env_scheme \<Rightarrow> name16 \<Rightarrow> 'a fb_state_scheme \<Rightarrow> (efi_status + string) option" where
  "GetPartitionSizeViaName E PartName S =
     do { (Status, BlockIo, Handle) \<leftarrow> PartitionGetInfo E PartName S;
          Some (if Status \<noteq> EFI_SUCCESS then Inl Status
                else if BlockIo = None then Inl EFI_VOLUME_CORRUPTED
                else if blk_size BlockIo = 0 then Inl EFI_BAD_BUFFER_SIZE
                else Inr ('' 0x'' @ hex_string (unat (blk_size BlockIo)))) }"

text \<open>
  The variables of one partition. The array for its name has 32 characters, but 36 may be copied into it. A variable name that does
  not fit is not published.
\<close>

definition Publish_partition ::
  "'e fb_cmd_env_scheme \<Rightarrow> PartitionEntry \<Rightarrow> efi_status \<Rightarrow> 'a fb_state_scheme \<Rightarrow> (efi_status \<times> 'a fb_state_scheme) option" where
  "Publish_partition E e Ret S =
     (if PartitionName e = [] then Some (Ret, S)
      else do {
        n \<leftarrow> part_ascii e;
        if MAX_GET_VAR_NAME_SIZE \<le> length n then None
        else do {
          let fits = (15 + length n < MAX_GET_VAR_NAME_SIZE);
          size \<leftarrow> (if fits then map_option Some (GetPartitionSizeViaName E (PartitionName e) S) else Some None);
          type \<leftarrow> (if fits then map_option Some (GetPartitionType E (PartitionName e) S) else Some None);
          let (Ret, S) = (case size of Some (Inr v) \<Rightarrow> (Ret, FastbootPublishVar E (''partition-size:'' @ n) (VarConst v) S)
                          | _ \<Rightarrow> (EFI_INVALID_PARAMETER, S));
          Some (case type of Some v \<Rightarrow> (Ret, FastbootPublishVar E (''partition-type:'' @ n) (VarConst v) S)
                | None \<Rightarrow> (EFI_INVALID_PARAMETER, S)) } })"

fun Publish_loop ::
  "'e fb_cmd_env_scheme \<Rightarrow> PartitionEntry list \<Rightarrow> efi_status \<Rightarrow> 'a fb_state_scheme \<Rightarrow> (efi_status \<times> 'a fb_state_scheme) option" where
  "Publish_loop E [] Ret S = Some (Ret, S)"
| "Publish_loop E (e # es) Ret S = do { (Ret, S) \<leftarrow> Publish_partition E e Ret S; Publish_loop E es Ret S }"

text \<open>
  The loop runs over the elements 1 to the number of partitions; the last one is behind the partitions, and it has no name unless the
  array ends there.
\<close>

definition PublishGetVarPartitionInfo ::
  "'e fb_cmd_env_scheme \<Rightarrow> 'a fb_state_scheme \<Rightarrow> (efi_status \<times> 'a fb_state_scheme) option" where
  "PublishGetVarPartitionInfo E S =
     (let es = PtnEntries (AbSt S)
      in do { (Ret, S) \<leftarrow> Publish_loop E (drop 1 es) EFI_SUCCESS S;
              if length es \<noteq> 0 \<and> MAX_NUM_PARTITIONS \<le> length es then None else Some (Ret, S) })"

section \<open>The command\<close>

definition UpdateGetVarVariable :: "'e fb_cmd_env_scheme \<Rightarrow> 'a fb_state_scheme \<Rightarrow> 'a fb_state_scheme" where
  "UpdateGetVarVariable E S =
     (let (ok, v) = TargetBatterySocOk (Charger E);
          c = (if is_charger_screen_enabled (DevInfo (DevSt S)) then ''1'' else ''0'')
      in S\<lparr>StrBatteryVoltage := dec_string (unat v), StrBatterySocOk := yes_no ok, ChargeScreenEnable := c, OffModeCharge := c\<rparr>)"

text \<open>The name and the value of a variable, each cut as the copies into the answer do.\<close>

fun GetVarAll_loop :: "(string \<times> var_ref) list \<Rightarrow> 'a fb_state_scheme \<Rightarrow> 'a fb_state_scheme option" where
  "GetVarAll_loop [] S = Some S"
| "GetVarAll_loop ((n, r) # vs) S =
     do { v \<leftarrow> var_value S r;
          GetVarAll_loop vs (FastbootInfo (cat MAX_RSP_SIZE (cat MAX_RSP_SIZE (if length n < MAX_RSP_SIZE then n else []) '':'') v) S) }"

definition CmdGetVarAll :: "'a fb_state_scheme \<Rightarrow> 'a fb_state_scheme option" where
  "CmdGetVarAll S = do { S \<leftarrow> GetVarAll_loop (Varlist S) S; Some (FastbootOkay [] S) }"

text \<open>
  The text behind the first occurrence of a separator.
\<close>

fun after_sub :: "string \<Rightarrow> string \<Rightarrow> string option" where
  "after_sub d [] = (if d = [] then Some [] else None)"
| "after_sub d (c # cs) = (if prefix d (c # cs) then Some (drop (length d) (c # cs)) else after_sub d cs)"

text \<open>
  The name behind the colon is converted with a bound of three characters, so a longer name leaves the array as it was on the
  stack. The slot suffix is then added with a bound of its own length, which never fits behind the argument.
\<close>

definition Getvar_slot :: "'e fb_cmd_env_scheme \<Rightarrow> string \<Rightarrow> 'a fb_state_scheme \<Rightarrow> 'a fb_state_scheme option" where
  "Getvar_slot E Token S =
     do { m \<leftarrow> PartitionHasMultiSlot (AbSt S) (if length Token < MAX_SLOT_SUFFIX_SZ then wide Token else StackName E);
          if m then do { (Suffix, A) \<leftarrow> GetCurrentSlotSuffix (AbSt S); Some (S\<lparr>AbSt := A\<rparr>) } else Some S }"

definition Getvar_find :: "string \<Rightarrow> 'a fb_state_scheme \<Rightarrow> 'a fb_state_scheme option" where
  "Getvar_find Arg S =
     (case find (\<lambda>(n, r). n = Arg) (Varlist S) of
        None \<Rightarrow> Some (FastbootFail ''GetVar Variable Not found'' S)
      | Some (n, r) \<Rightarrow> do { v \<leftarrow> var_value S r; Some (FastbootOkay v S) })"

definition CmdGetVar :: "'e fb_cmd_env_scheme \<Rightarrow> string \<Rightarrow> 'a fb_state_scheme \<Rightarrow> 'a fb_state_scheme option" where
  "CmdGetVar E Arg S =
     (let S = UpdateGetVarVariable E S
      in if Arg = ''all'' then CmdGetVarAll S
         else
           (case (if has_sub Arg ''partition-'' then after_sub '':'' Arg else None) of
              None \<Rightarrow> Getvar_find Arg S
            | Some Token \<Rightarrow>
                if MAX_GPT_NAME_SIZE \<le> length Token then Some (FastbootFail ''Invalid partition name'' S)
                else do { S \<leftarrow> Getvar_slot E Token S; Getvar_find Arg S }))"

section \<open>Variables do not touch the storage\<close>

text \<open>The log of requests, the device state and the way out of Fastboot are as before.\<close>

definition same_store :: "'a fb_state_scheme \<Rightarrow> 'a fb_state_scheme \<Rightarrow> bool" where
  "same_store S S' \<longleftrightarrow> Log S' = Log S \<and> UbiLog S' = UbiLog S \<and> DevSt S' = DevSt S \<and> IsAllowUnlock S' = IsAllowUnlock S \<and>
     Exit S' = Exit S"

lemma same_store_refl [simp, intro]: "same_store S S"
  by (simp add: same_store_def)

lemma same_store_trans: "same_store S S1 \<Longrightarrow> same_store S1 S2 \<Longrightarrow> same_store S S2"
  by (simp add: same_store_def)

lemma same_store_answer [simp]:
  "same_store S (FastbootFail r S') \<longleftrightarrow> same_store S S'" "same_store S (FastbootOkay r S') \<longleftrightarrow> same_store S S'"
  "same_store S (FastbootInfo r S') \<longleftrightarrow> same_store S S'"
  by (simp_all add: same_store_def FastbootFail_def FastbootOkay_def FastbootInfo_def FastbootAck_def)

lemma same_store_publish [simp]: "same_store S (FastbootPublishVar E n v S') \<longleftrightarrow> same_store S S'"
  by (simp add: same_store_def FastbootPublishVar_def)

lemma same_store_update [simp]:
  "same_store S (S'\<lparr>AbSt := A\<rparr>) \<longleftrightarrow> same_store S S'" "same_store S (S'\<lparr>BootSlotInfo := is\<rparr>) \<longleftrightarrow> same_store S S'"
  "same_store S (S'\<lparr>CurrentSlotFB := c\<rparr>) \<longleftrightarrow> same_store S S'" "same_store S (S'\<lparr>InitialPopulate := b\<rparr>) \<longleftrightarrow> same_store S S'"
  "same_store S (S'\<lparr>SlotCount := n\<rparr>) \<longleftrightarrow> same_store S S'" "same_store S (S'\<lparr>SlotSuffixArray := a\<rparr>) \<longleftrightarrow> same_store S S'"
  "same_store S (S'\<lparr>SlotCountVar := a\<rparr>) \<longleftrightarrow> same_store S S'" "same_store S (S'\<lparr>Varlist := vs\<rparr>) \<longleftrightarrow> same_store S S'"
  "same_store S (S'\<lparr>LunSet := l\<rparr>) \<longleftrightarrow> same_store S S'" "same_store S (S'\<lparr>Lun := u\<rparr>) \<longleftrightarrow> same_store S S'"
  "same_store S (S'\<lparr>FlashResult := r\<rparr>) \<longleftrightarrow> same_store S S'" "same_store S (S'\<lparr>IsFirstEraseFlash := b\<rparr>) \<longleftrightarrow> same_store S S'"
  "same_store S (S'\<lparr>PanelSet := p\<rparr>) \<longleftrightarrow> same_store S S'" "same_store S (S'\<lparr>CmdPending := cs\<rparr>) \<longleftrightarrow> same_store S S'"
  by (simp_all add: same_store_def)

lemma SlotVars_loop_store: "SlotVars_loop E es j S = Some S' \<Longrightarrow> same_store S S'"
proof (induction es arbitrary: j S)
  case (Cons e es)
  show ?case
  proof (cases "j < unat (SlotCount S)")
    case True
    then obtain n where n: "part_ascii e = Some n" using Cons.prems by (auto simp: bind_eq_Some_conv)
    show ?thesis
    proof (cases "prefix ''boot'' n")
      case p: True
      let ?i = "slot_of (drop 5 n) (Attributes e)"
      obtain "is" where "BootSlotInfo S = Some is" "\<not> length n < 5"
        using Cons.prems True n p by (auto simp: bind_eq_Some_conv split: if_splits)
      moreover define S1 where "S1 = FastbootPublishVar E (SlotRetryCountVar ?i) (VarRetryCount j)
        (FastbootPublishVar E (SlotUnbootableVar ?i) (VarUnbootable j)
          (FastbootPublishVar E (SlotSuccessfulVar ?i) (VarSuccessful j) (S\<lparr>BootSlotInfo := Some (is[j := ?i])\<rparr>)))"
      ultimately have "SlotVars_loop E es (Suc j) S1 = Some S'" using Cons.prems True n p by (simp add: Let_def)
      moreover have "same_store S S1" by (simp add: S1_def)
      ultimately show ?thesis using Cons.IH same_store_trans by blast
    qed (use Cons True n in simp)
  qed (use Cons.prems in simp)
qed simp

lemma Set_current_store: "Set_current S = Some S' \<Longrightarrow> same_store S S'"
  by (auto simp: Set_current_def bind_eq_Some_conv)

lemma FastbootPublishSlotVars_store:
  assumes "FastbootPublishSlotVars E S = Some S'" shows "same_store S S'"
proof -
  obtain S1 S2 where L: "SlotVars_loop E (PtnEntries (AbSt S)) 0 S = Some S1"
    and C: "Set_current (FastbootPublishVar E ''has-slot:boot'' (VarConst ''yes'') S1) = Some S2"
    and "same_store S2 S'"
    using assms by (auto simp: FastbootPublishSlotVars_def bind_eq_Some_conv Let_def)
  moreover have "same_store S1 S2" using Set_current_store [OF C] by (simp add: same_store_def FastbootPublishVar_def split: if_splits)
  ultimately show ?thesis using SlotVars_loop_store [OF L] same_store_trans by blast
qed

lemma PopulateMultislotMetadata_store:
  assumes "PopulateMultislotMetadata E S = Some S'" shows "same_store S S'"
proof (cases "InitialPopulate S")
  case False
  then obtain n arr where C: "Count_slots (PtnEntries (AbSt S)) (SlotCount S) (SlotSuffixArray S) = Some (n, arr)"
    using assms by (auto simp: PopulateMultislotMetadata_def bind_eq_Some_conv)
  define S1 where "S1 = FastbootPublishVar E ''slot-count'' VarSlotCount
    (S\<lparr>SlotCount := n, SlotSuffixArray := arr, SlotCountVar := take (ATTR_RESP_SIZE - 1) (dec_string (unat n))\<rparr>)"
  have S1: "same_store S S1" by (simp add: S1_def)
  show ?thesis
  proof (cases "SlotPool E")
    case True
    let ?S1 = "S1\<lparr>BootSlotInfo := Some (replicate (unat n) zero_slot)\<rparr>"
    obtain S2 where P: "FastbootPublishSlotVars E ?S1 = Some S2" and S': "S' = S2\<lparr>InitialPopulate := True\<rparr>"
      using assms False C True by (auto simp: PopulateMultislotMetadata_def S1_def Let_def bind_eq_Some_conv)
    have "same_store S ?S1" using S1 by simp
    then have "same_store S S2" using FastbootPublishSlotVars_store [OF P] by (rule same_store_trans)
    then show ?thesis using S' by simp
  qed (use assms False C S1 in \<open>auto simp: PopulateMultislotMetadata_def Let_def simp flip: S1_def\<close>)
qed (use assms in \<open>auto simp: PopulateMultislotMetadata_def bind_eq_Some_conv split: if_splits\<close>)

lemma GetVarAll_loop_store: "GetVarAll_loop vs S = Some S' \<Longrightarrow> same_store S S'"
proof (induction vs arbitrary: S)
  case (Cons v vs)
  obtain n r where "v = (n, r)" by fastforce
  then obtain t where "GetVarAll_loop vs (FastbootInfo t S) = Some S'" using Cons.prems by (auto simp: bind_eq_Some_conv)
  from Cons.IH [OF this] show ?case by (rule same_store_trans [rotated]) simp
qed simp

lemma Getvar_find_store: "Getvar_find Arg S = Some S' \<Longrightarrow> same_store S S'"
  by (auto simp: Getvar_find_def bind_eq_Some_conv split: option.splits)

lemma Getvar_slot_store: "Getvar_slot E t S = Some S' \<Longrightarrow> same_store S S'"
  by (auto simp: Getvar_slot_def bind_eq_Some_conv split: if_splits)

lemma UpdateGetVarVariable_store: "same_store S (UpdateGetVarVariable E S)"
  by (simp add: UpdateGetVarVariable_def same_store_def Let_def split: prod.split)

lemma CmdGetVar_store:
  assumes "CmdGetVar E Arg S = Some S'" shows "same_store S S'"
proof -
  let ?S = "UpdateGetVarVariable E S" and ?t = "if has_sub Arg ''partition-'' then after_sub '':'' Arg else None"
  have "same_store ?S S'"
  proof (cases "Arg = ''all''")
    case True
    then obtain S1 where "GetVarAll_loop (Varlist ?S) ?S = Some S1" "S' = FastbootOkay [] S1"
      using assms unfolding CmdGetVar_def CmdGetVarAll_def Let_def by (auto simp: bind_eq_Some_conv)
    then show ?thesis by (simp add: GetVarAll_loop_store)
  next
    case False
    then have C: "(case ?t of None \<Rightarrow> Getvar_find Arg ?S
        | Some Token \<Rightarrow> if MAX_GPT_NAME_SIZE \<le> length Token then Some (FastbootFail ''Invalid partition name'' ?S)
            else do { S \<leftarrow> Getvar_slot E Token ?S; Getvar_find Arg S }) = Some S'"
      using assms unfolding CmdGetVar_def Let_def by simp
    show ?thesis
    proof (cases ?t)
      case None
      then show ?thesis using C by (simp only: option.case) (rule Getvar_find_store)
    next
      case (Some t)
      show ?thesis
      proof (cases "MAX_GPT_NAME_SIZE \<le> length t")
        case False
        then obtain S1 where "Getvar_slot E t ?S = Some S1" "Getvar_find Arg S1 = Some S'"
          using C unfolding Some by (auto simp: bind_eq_Some_conv)
        then show ?thesis using Getvar_slot_store Getvar_find_store same_store_trans by blast
      qed (use C in \<open>auto simp only: Some option.case if_True option.inject same_store_answer same_store_refl\<close>)
    qed
  qed
  then show ?thesis by (rule same_store_trans [OF UpdateGetVarVariable_store])
qed

end
