(* ===== verification/Fastboot_Cmds.thy ===== *)
theory Fastboot_Cmds
  imports Fastboot_Vars
begin

text \<open>
  The commands of Fastboot and their dispatch (\<^verbatim>\<open>FastbootLib/FastbootCmds.c\<close>), as built: parallel download on, the battery check on, no
  virtual A/B and no dynamic partitions, one thread. \<open>boot\<close> and \<open>continue\<close> are modelled to the point where they load an image, which
  ends Fastboot: \<open>Exit\<close> says how.
\<close>

section \<open>Numbers in an argument\<close>

text \<open>\<open>StrDecimalToUintn\<close> of the base library: blanks and zeros are skipped, and a number that does not fit is the largest one.\<close>

fun dec_loop :: "string \<Rightarrow> u64 \<Rightarrow> u64" where
  "dec_loop [] acc = acc"
| "dec_loop (c # cs) acc =
     (let d = ord8 c
      in if d < 48 \<or> 57 < d then acc
         else if unat acc * 10 + (d - 48) > 2 ^ 64 - 1 then - 1
         else dec_loop cs (acc * 10 + word_of_nat (d - 48)))"

definition StrDecimalToUintn :: "string \<Rightarrow> u64" where
  "StrDecimalToUintn s = dec_loop (dropWhile (\<lambda>c. c = CHR ''0'') (dropWhile (\<lambda>c. c = CHR '' '' \<or> c = CHR 0x09) s)) 0"

section \<open>Flash\<close>

text \<open>The checks of the locks, with the text for the refusal of each.\<close>

definition Lock_check :: "'e fb_cmd_env_scheme \<Rightarrow> string \<Rightarrow> name16 \<Rightarrow> 'a fb_state_scheme \<Rightarrow> string option" where
  "Lock_check E What Pname S =
     (if AvbIsLE (FbVb E) \<or> TargetBuildVariantUser (FbAb E) then
        if \<not> is_unlocked (DevInfo (DevSt S)) then Some (What @ '' is not allowed in Lock State'')
        else if \<not> is_unlock_critical (DevInfo (DevSt S)) \<and> IsCriticalPartition Pname
        then Some (What @ '' is not allowed for Critical Partitions'' @ [CHR 0x0A])
        else None
      else None)"

text \<open>
  Printing the table reads its elements like the search for a partition, so a negative LUN leaves the table.
\<close>

definition PartitionDump :: "'a fb_state_scheme \<Rightarrow> unit option" where
  "PartitionDump S = (if LunSet S \<and> Lun S \<noteq> NO_LUN \<and> MAX_LUNS \<le> unat (Lun S) then None else Some ())"

definition ab_env_now :: "'e fb_cmd_env_scheme \<Rightarrow> 'a fb_state_scheme \<Rightarrow> ab_env" where
  "ab_env_now E S = (FbAb E)\<lparr>BlkIOHandles := FbParts E (Log S)\<rparr>"

definition IsBootPtnUpdated :: "'a fb_state_scheme \<Rightarrow> bool option" where
  "IsBootPtnUpdated S =
     (let i = unat (if Lun S = NO_LUN then 0 else Lun S); P = Ptable (AbSt S)
      in if MAX_LUNS \<le> i then None
         else Some (\<exists>r \<in> set (if i < length P then P ! i else []).
                      case r of None \<Rightarrow> False | Some e \<Rightarrow> StrnCmp_eq (PartitionName e) (wide ''boot'') 4))"

definition Refresh_slots :: "'e fb_cmd_env_scheme \<Rightarrow> 'a fb_state_scheme \<Rightarrow> 'a fb_state_scheme option" where
  "Refresh_slots E S =
     do { b \<leftarrow> IsBootPtnUpdated S;
          if \<not> b then Some S
          else do {
            m \<leftarrow> PartitionHasMultiSlot (AbSt S) (wide ''boot'');
            if m then PopulateMultislotMetadata E (S\<lparr>AbSt := FindPtnActiveSlot (UpdatePartitionAttributes (AbSt S))\<rparr>)
            else
              (case BootSlotInfo S of
                 None \<Rightarrow> Some S
               | Some is \<Rightarrow> Some ((ClearFastbootVarsofAB S)\<lparr>BootSlotInfo := None, SlotSuffixArray := [], InitialPopulate := False\<rparr>)) } }"

definition ReenumeratePartTable :: "'e fb_cmd_env_scheme \<Rightarrow> 'a fb_state_scheme \<Rightarrow> (efi_status \<times> 'a fb_state_scheme) option" where
  "ReenumeratePartTable E S =
     (let S = S\<lparr>LunSet := False\<rparr>
      in if RefreshEvent E \<noteq> EFI_SUCCESS then Some (RefreshEvent E, S)
         else if RefreshSignal E \<noteq> EFI_SUCCESS then Some (RefreshSignal E, S)
         else
           (let (Status, A) = EnumeratePartitions (ab_env_now E S) (AbSt S)
            in if EFI_ERROR Status then Some (Status, S\<lparr>AbSt := A\<rparr>)
               else do {
                 S \<leftarrow> Refresh_slots E (S\<lparr>AbSt := UpdatePartitionEntries (ab_env_now E S) A\<rparr>);
                 Some (Status, S) }))"

text \<open>
  The write of a partition table through \<open>UpdatePartitionTable\<close>: the image is patched in the download memory, and the requests go
  to the disk of the LUN.
\<close>

definition Write_table :: "'e fb_cmd_env_scheme \<Rightarrow> 'a fb_state_scheme \<Rightarrow> (efi_status \<times> 'a fb_state_scheme) option" where
  "Write_table E S =
     do { (Status, G) \<leftarrow> UpdatePartitionTable (FbGpt E (Log S) (Lun S)) (ucast (mFlashNumDataBytes S))
            \<lparr>Gpt = flash_mem S, ParseSecondaryGpt = SecondaryGpt S, FlashingGpt = FlashedGpt S, Erased = False, Written = []\<rparr>;
          let d = FbDisk E (Lun S);
          Some (Status, S\<lparr>DataMem := take (mFlashDataBuffer S) (DataMem S) @ Gpt G, SecondaryGpt := ParseSecondaryGpt G,
                          FlashedGpt := FlashingGpt G,
                          Log := Log S @ (if Erased G then [(d, EraseOp)] else []) @ as_ops d (Written G)\<rparr>) }"

definition Table_lun :: "'e fb_cmd_env_scheme \<Rightarrow> 'a fb_state_scheme \<Rightarrow> 'a fb_state_scheme" where
  "Table_lun E S =
     (case CheckRootDeviceType (FbAb E) of
        UFS \<Rightarrow> if snd (UfsGetBootLun (FbAb E) (AbSt S) 0) \<noteq> 1 then S\<lparr>AbSt := UfsSetBootLun (FbAb E) 1 (AbSt S)\<rparr> else S
      | EMMC \<Rightarrow> S\<lparr>Lun := NO_LUN, LunSet := False\<rparr>
      | _ \<Rightarrow> S)"

text \<open>The answer to an image whose check failed is sent at once; \<open>None\<close> as status stands for it.\<close>

definition Table_write ::
  "'e fb_cmd_env_scheme \<Rightarrow> name16 \<Rightarrow> 'a fb_state_scheme \<Rightarrow> (efi_status option \<times> 'a fb_state_scheme) option" where
  "Table_write E Pname S =
     (if IsNand E then
        do { ok \<leftarrow> PartitionVerifyMibibImage (flash_mem S);
             if \<not> ok then Some (None, S)
             else do {
               (Status, Pname, S) \<leftarrow> HandleRawImgFlash E (flash_mem S) (mFlashNumDataBytes S) Pname S;
               Some (Some Status, S) } }
      else do { (Status, S) \<leftarrow> Write_table E S; Some (Some Status, S) })"

definition Flash_table :: "'e fb_cmd_env_scheme \<Rightarrow> name16 \<Rightarrow> 'a fb_state_scheme \<Rightarrow> 'a fb_state_scheme option" where
  "Flash_table E Pname S =
     (let S = Table_lun E S; bad = FastbootFail (''Error Updating partition Table'' @ [CHR 0x0A])
      in do {
        PartitionDump S;
        (Status, S) \<leftarrow> Table_write E Pname S;
        if Status \<noteq> Some EFI_SUCCESS then Some (bad S)
        else do {
          (Status, S) \<leftarrow> ReenumeratePartTable E S;
          Some (if Status = EFI_SUCCESS then FastbootOkay [] S else bad S) } })"

definition HandleUsbEventsInTimer :: "'e fb_cmd_env_scheme \<Rightarrow> 'a fb_state_scheme \<Rightarrow> efi_status \<times> 'a fb_state_scheme" where
  "HandleUsbEventsInTimer E S =
     (if UsbTimerEvent S then (EFI_SUCCESS, S)
      else if EFI_ERROR (UsbEvent E) then (UsbEvent E, S)
      else (UsbTimer E, S\<lparr>UsbTimerEvent := True\<rparr>))"

text \<open>The answer that closes a flash command, and the reset of the result for the next one.\<close>

definition Flash_answer :: "'e fb_cmd_env_scheme \<Rightarrow> name16 \<Rightarrow> 'a fb_state_scheme \<Rightarrow> 'a fb_state_scheme" where
  "Flash_answer E Pname S =
     (if EFI_ERROR (FlashResult S) then
        (let msg = (if FlashResult S = EFI_NOT_FOUND then ''('' @ ascii_of Pname @ '') No such partition''
                    else ''Error flashing partition : '' @ StatusText E (FlashResult S))
         in (FastbootFail (take (MAX_RSP_SIZE - 1) msg) S)\<lparr>FlashResult := EFI_SUCCESS\<rparr>)
      else FastbootOkay [] S)"

text \<open>
  A large sparse image is answered before it is written, so that the host can send the next one: the timer handles the USB events
  meanwhile. The result then has the status of starting the timer.
\<close>

definition Start_parallel :: "'e fb_cmd_env_scheme \<Rightarrow> u64 \<Rightarrow> 'a fb_state_scheme \<Rightarrow> efi_status \<times> 'a fb_state_scheme" where
  "Start_parallel E PSize S =
     (if PSize > MaxDownLoadSize S then
        (let (Status, S) = HandleUsbEventsInTimer E (S\<lparr>IsFlashComplete := False\<rparr>)
         in if EFI_ERROR Status then (Status, StopUsbTimer (S\<lparr>IsFlashComplete := True\<rparr>))
            else (Status, FastbootOkay [] (S\<lparr>UsbTimerStarted := True\<rparr>)))
      else (EFI_SUCCESS, S))"

definition Sparse_write ::
  "'e fb_cmd_env_scheme \<Rightarrow> efi_status \<times> blk_env option \<times> bool \<Rightarrow> 'a fb_state_scheme \<Rightarrow> 'a fb_state_scheme option" where
  "Sparse_write E Info S =
     do { (r, log) \<leftarrow> HandleSparseImgFlash Info (IsNand E) (IsFlashSplitNeeded S) (FbBase E + word_of_nat (mFlashDataBuffer S))
            (flash_mem S) (mFlashNumDataBytes S) (Log S);
          Some (StopUsbTimer (S\<lparr>Log := log, FlashResult := r, IsFlashComplete := True\<rparr>)) }"

definition Flash_sparse :: "'e fb_cmd_env_scheme \<Rightarrow> name16 \<Rightarrow> 'a fb_state_scheme \<Rightarrow> 'a fb_state_scheme option" where
  "Flash_sparse E Pname S =
     do { ((HasSlot, Pname, Suffix), A) \<leftarrow> Slot_name Pname (AbSt S);
          let S = S\<lparr>AbSt := A\<rparr>;
          Info \<leftarrow> PartitionGetInfo E Pname S;
          let PSize = blk_size (fst (snd Info));
          if EFI_ERROR (fst Info) then Some (FastbootFail ''Partition not found'' S)
          else if PSize = 0 then Some (FastbootFail ''Partition error size'' S)
          else do {
            let (Status, S) = Start_parallel E PSize S;
            S \<leftarrow> Sparse_write E Info S;
            Some (if PSize < MaxDownLoadSize S \<or> PSize > MaxDownLoadSize S \<and> Status \<noteq> EFI_SUCCESS
                  then Flash_answer E Pname S else S) } }"

definition Flash_other :: "'e fb_cmd_env_scheme \<Rightarrow> name16 \<Rightarrow> 'a fb_state_scheme \<Rightarrow> (efi_status \<times> name16 \<times> 'a fb_state_scheme) option" where
  "Flash_other E Pname S =
     do { magic \<leftarrow> rd (flash_mem S) 0 4;
          if magic = ascii ''UBI#'' then HandleUbiImgFlash E (flash_mem S) (mFlashNumDataBytes S) Pname S
          else if dec32 magic = META_HEADER_MAGIC
          then do { (r, S) \<leftarrow> HandleMetaImgFlash E (FbBase E + word_of_nat (mFlashDataBuffer S)) (flash_mem S)
                      (mFlashNumDataBytes S) Pname S;
                    Some (r, Pname, S) }
          else HandleRawImgFlash E (flash_mem S) (mFlashNumDataBytes S) Pname S }"

definition Flash_image :: "'e fb_cmd_env_scheme \<Rightarrow> name16 \<Rightarrow> 'a fb_state_scheme \<Rightarrow> 'a fb_state_scheme option" where
  "Flash_image E Pname S =
     do { magic \<leftarrow> rd32 (flash_mem S) 0;
          if magic = SPARSE_HEADER_MAGIC then Flash_sparse E Pname S
          else do { (r, Pname, S) \<leftarrow> Flash_other E Pname S;
                    Some (Flash_answer E Pname (S\<lparr>FlashResult := r\<rparr>)) } }"

definition Flash_out :: "string \<Rightarrow> 'a fb_state_scheme \<Rightarrow> 'a fb_state_scheme" where
  "Flash_out arg S =
     (let S = (if prefix ''system'' arg \<and> \<not> verity_mode (DevInfo (DevSt S)) \<and> FlashResult S = EFI_SUCCESS
               then S\<lparr>DevSt := snd (EnableEnforcingMode True (DevSt S))\<rparr> else S)
      in S\<lparr>LunSet := False\<rparr>)"

text \<open>The number behind a colon is cut to 32 bits and compared as a signed number.\<close>

definition Flash_lun :: "string \<Rightarrow> 'a fb_state_scheme \<Rightarrow> bool \<times> 'a fb_state_scheme" where
  "Flash_lun arg S =
     (case after_sub '':'' arg of
        None \<Rightarrow> (True, S)
      | Some Token \<Rightarrow>
          (let S = S\<lparr>Lun := ucast (StrDecimalToUintn Token)\<rparr>
           in if sint (Lun S) \<ge> 8 then (False, FastbootFail (''Invalid Lun number passed'' @ [CHR 0x0A]) S)
              else (True, S\<lparr>LunSet := True\<rparr>)))"

definition Flash_partition :: "'e fb_cmd_env_scheme \<Rightarrow> string \<Rightarrow> 'a fb_state_scheme \<Rightarrow> 'a fb_state_scheme option" where
  "Flash_partition E arg S =
     (case Flash_lun arg S of (ok, S) \<Rightarrow>
        if \<not> ok then Some (Flash_out arg S)
        else do {
          S \<leftarrow> (if prefix ''partition'' arg \<or> prefix ''mibib'' arg \<and> IsNand E then Flash_table E (wide arg) S
               else Flash_image E (wide arg) S);
          Some (Flash_out arg S) })"

definition Flash_key :: "bytes \<Rightarrow> u32 \<Rightarrow> 'a fb_state_scheme \<Rightarrow> 'a fb_state_scheme option" where
  "Flash_key data sz S =
     do { (Status, D) \<leftarrow> StoreUserKey data sz (DevSt S);
          let S = S\<lparr>DevSt := D\<rparr>;
          Some (if Status \<noteq> EFI_SUCCESS then FastbootFail ''Flashing avb_custom_key failed'' S else FastbootOkay [] S) }"

text \<open>\<open>data\<close> and \<open>sz\<close> are the buffer and the number of bytes of the last download, as the dispatcher passes them.\<close>

definition CmdFlash :: "'e fb_cmd_env_scheme \<Rightarrow> string \<Rightarrow> bytes \<Rightarrow> u32 \<Rightarrow> 'a fb_state_scheme \<Rightarrow> 'a fb_state_scheme option" where
  "CmdFlash E arg data sz S =
     (let S = ExchangeFlashAndUsbDataBuf (S\<lparr>LunSet := False\<rparr>)
      in if DataMem S = [] then Some (FastbootFail ''No data to flash'' S)
         else if MAX_GPT_NAME_SIZE \<le> length arg then Some (FastbootFail ''Invalid partition name'' S)
         else
           (case Lock_check E ''Flashing'' (wide arg) S of
              Some msg \<Rightarrow> Some (FastbootFail msg S)
            | None \<Rightarrow> if prefix ''avb_custom_key'' arg then Flash_key data sz S else Flash_partition E arg S))"

section \<open>Erase and slots\<close>

definition Erase_partition :: "'e fb_cmd_env_scheme \<Rightarrow> string \<Rightarrow> 'a fb_state_scheme \<Rightarrow> 'a fb_state_scheme option" where
  "Erase_partition E arg S =
     do { ((HasSlot, Pname, Suffix), A) \<leftarrow> Slot_name (wide arg) (AbSt S);
          (Status, S) \<leftarrow> FastbootErasePartition E Pname (S\<lparr>AbSt := A\<rparr>);
          if EFI_ERROR Status then Some (FastbootFail ''Check device console.'' S)
          else do {
            S \<leftarrow> (if HasSlot \<and> StrnCmp_eq Pname (wide ''boot'') 4 then FastbootUpdateAttr Suffix S else Some S);
            Some (FastbootOkay [] S) } }"

definition CmdErase :: "'e fb_cmd_env_scheme \<Rightarrow> string \<Rightarrow> 'a fb_state_scheme \<Rightarrow> 'a fb_state_scheme option" where
  "CmdErase E arg S =
     do { MultiSlotBoot \<leftarrow> PartitionHasMultiSlot (AbSt S) (wide ''boot'');
          if MAX_GPT_NAME_SIZE \<le> length arg then Some (FastbootFail ''Invalid partition name'' S)
          else
            (case Lock_check E ''Erase'' (wide arg) S of
               Some msg \<Rightarrow> Some (FastbootFail msg S)
             | None \<Rightarrow>
                 if prefix ''avb_custom_key'' arg then
                   (let (Status, D) = EraseUserKey (DevSt S); S = S\<lparr>DevSt := D\<rparr>
                    in Some (if Status \<noteq> EFI_SUCCESS then FastbootFail ''Erasing avb_custom_key failed'' S else FastbootOkay [] S))
                 else Erase_partition E arg S) }"

text \<open>The loop over the slot information has no bound: it ends at the first slot whose suffix contains the argument.\<close>

fun Mark_first :: "string \<Rightarrow> slot_info list \<Rightarrow> slot_info list option" where
  "Mark_first s [] = None"
| "Mark_first s (i # is) =
     (if has_sub (SlotSuffix i) s then Some (mark_slot i # is) else map_option (Cons i) (Mark_first s is))"

definition Slot_suffix :: "string \<Rightarrow> string" where
  "Slot_suffix s = (if has_sub s ''_'' then s else if 1 + length s < MAX_SLOT_SUFFIX_SZ then ''_'' @ s else ''_'')"

definition Set_active :: "'e fb_cmd_env_scheme \<Rightarrow> string \<Rightarrow> 'a fb_state_scheme \<Rightarrow> 'a fb_state_scheme option" where
  "Set_active E InputSlot S =
     do { (Status, A) \<leftarrow> SetActiveSlot (ab_env_now E S) (Some (wide (Slot_suffix InputSlot))) True (AbSt S);
          let S = S\<lparr>AbSt := A\<rparr>;
          if Status \<noteq> EFI_SUCCESS then Some (FastbootFail ''set_active failed'' S)
          else do {
            S \<leftarrow> Set_current S;
            is \<leftarrow> BootSlotInfo S;
            is \<leftarrow> Mark_first InputSlot is;
            Some (FastbootOkay [] (S\<lparr>BootSlotInfo := Some is, AbSt := UpdatePartitionAttributes (AbSt S)\<rparr>)) } }"

definition CmdSetActive :: "'e fb_cmd_env_scheme \<Rightarrow> string \<Rightarrow> 'a fb_state_scheme \<Rightarrow> 'a fb_state_scheme option" where
  "CmdSetActive E Arg S =
     do { MultiSlotBoot \<leftarrow> PartitionHasMultiSlot (AbSt S) (wide ''boot'');
          if TargetBuildVariantUser (FbAb E) \<and> \<not> is_unlocked (DevInfo (DevSt S))
          then Some (FastbootFail (''Slot Change is not allowed in Lock State'' @ [CHR 0x0A]) S)
          else if \<not> MultiSlotBoot then Some (FastbootFail ''This Command not supported'' S)
          else
            (case after_sub '':'' Arg of
               None \<Rightarrow> Some (FastbootFail ''set_active _a or _b should be entered'' S)
             | Some InputSlot \<Rightarrow>
                 if MAX_SLOT_SUFFIX_SZ \<le> length InputSlot then Some (FastbootFail ''Invalid Slot'' S)
                 else if InputSlot \<noteq> [] \<and> \<not> has_sub (SlotSuffixArray S) InputSlot
                 then Some (FastbootFail ''Invalid Slot Suffix'' S)
                 else Set_active E InputSlot S) }"

section \<open>Locks\<close>

text \<open>\<open>DisplayUnlockMenu\<close> shows a menu on the device; the lock changes when its user confirms, outside this code.\<close>

definition SetDeviceUnlock :: "'e fb_cmd_env_scheme \<Rightarrow> unlock_type \<Rightarrow> bool \<Rightarrow> 'a fb_state_scheme \<Rightarrow> 'a fb_state_scheme option" where
  "SetDeviceUnlock E Type State S =
     (let D = DevInfo (DevSt S); text = (if State then ''unlocked!'' else ''locked!'')
      in if State = (case Type of UNLOCK \<Rightarrow> is_unlocked D | UNLOCK_CRITICAL \<Rightarrow> is_unlock_critical D | _ \<Rightarrow> False)
         then Some (FastbootFail ([CHR 0x09] @ ''Device already : '' @ text) S)
         else if State \<and> IsAllowUnlock S = 0 then Some (FastbootFail (''Flashing Unlock is not allowed'' @ [CHR 0x0A]) S)
         else if \<not> AvbIsLE (FbVb E) \<and> DisplaySupported E \<and> IsEnableDisplayMenuFlagSupported E
         then Some (if DisplayUnlockMenu E \<noteq> EFI_SUCCESS then FastbootFail ''Command not support: the display is not enabled'' S
                    else FastbootOkay [] S)
         else do {
           (Status, D, log) \<leftarrow> SetDeviceUnlockValue (FbMisc E) (FbVb E) Type State (DevSt S) (Log S);
           let S = S\<lparr>DevSt := D, Log := log\<rparr>;
           if Status \<noteq> EFI_SUCCESS
           then Some (FastbootFail ([CHR 0x09] @ ''Set device '' @ text @ '' failed: '' @ StatusText E Status) S)
           else
             (let S = FastbootOkay [] S
              in Some (if \<not> AvbIsLE (FbVb E) \<and> \<not> IsEnableDisplayMenuFlagSupported E then S\<lparr>Exit := Some (Reboot 1)\<rparr> else S)) })"

definition CmdFlashingGetUnlockAbility :: "'a fb_state_scheme \<Rightarrow> 'a fb_state_scheme" where
  "CmdFlashingGetUnlockAbility S =
     FastbootOkay [] (FastbootInfo (''get_unlock_ability: '' @ dec_string (unat (IsAllowUnlock S))) S)"

text \<open>The flag in the last byte of the partition \<open>frp\<close>.\<close>

definition ReadAllowUnlockValue :: "'e fb_cmd_env_scheme \<Rightarrow> 'a fb_state_scheme \<Rightarrow> (efi_status \<times> 'a fb_state_scheme) option" where
  "ReadAllowUnlockValue E S =
     do { (Status, BlockIo, Handle) \<leftarrow> PartitionGetInfo E (wide ''frp'') S;
          if Status \<noteq> EFI_SUCCESS then Some (Status, S)
          else
            (case BlockIo of
               None \<Rightarrow> Some (EFI_NOT_FOUND, S)
             | Some B \<Rightarrow>
                 if \<not> BlkPoolOk B then Some (EFI_OUT_OF_RESOURCES, S)
                 else
                   (let (Status, Buffer) = BlkRead B (Log S) (MediaLastBlock B) (unat (MediaBlockSize B));
                        n = unat (MediaBlockSize B)
                    in if Status \<noteq> EFI_SUCCESS then Some (Status, S)
                       else if n = 0 \<or> length Buffer < n then None
                       else Some (Status, S\<lparr>IsAllowUnlock := ucast (Buffer ! (n - 1) AND 1)\<rparr>))) }"

section \<open>Other commands\<close>

definition CmdOemChargerScreen :: "bool \<Rightarrow> 'a fb_state_scheme \<Rightarrow> 'a fb_state_scheme" where
  "CmdOemChargerScreen b S = (let (Status, D) = EnableChargingScreen b (DevSt S) in FastbootOkay [] (S\<lparr>DevSt := D\<rparr>))"

definition CmdOemOffModeCharger :: "string \<Rightarrow> 'a fb_state_scheme \<Rightarrow> 'a fb_state_scheme" where
  "CmdOemOffModeCharger Arg S =
     (case after_sub '' '' Arg of
        None \<Rightarrow> FastbootFail ''Enter fastboot oem off-mode-charge 0/1'' S
      | Some p \<Rightarrow>
          if p \<noteq> ''0'' \<and> p \<noteq> ''1'' then FastbootFail ''Invalid input entered'' S
          else
            (let (Status, D) = EnableChargingScreen (p = ''1'') (DevSt S);
                 Resp = cat MAX_RSP_SIZE ''Set off mode charger: '' Arg
             in FastbootOkay (cat MAX_RSP_SIZE Resp '': done'') (S\<lparr>DevSt := D\<rparr>)))"

definition CmdOemDisplayCommandLine :: "string \<Rightarrow> 'a fb_state_scheme \<Rightarrow> 'a fb_state_scheme option" where
  "CmdOemDisplayCommandLine Arg S =
     do { (Status, D) \<leftarrow> StoreDisplayCmdLine (ascii Arg) (word_of_nat (length Arg)) (DevSt S);
          let S = S\<lparr>DevSt := D\<rparr>;
          Some (if Status \<noteq> EFI_SUCCESS then FastbootFail ''Failed to store display command line'' S else FastbootOkay [] S) }"

text \<open>Blanks are dropped from the front of the argument, also behind a colon, which then drops the colon.\<close>

function Panel_loop :: "nat \<Rightarrow> string \<Rightarrow> bool \<Rightarrow> string \<times> bool" where
  "Panel_loop Pos arg App =
     (if \<not> Pos < length arg then (arg, App)
      else if arg ! Pos = CHR '' '' then Panel_loop Pos (tl arg) App
      else if arg ! Pos = CHR '':'' then Panel_loop (Suc Pos) arg True
      else (arg, App))"
  by pat_completeness auto

termination
  by (relation "measure (\<lambda>(Pos, arg, App). length arg - Pos)") auto

definition MAX_DISPLAY_PANEL_OVERRIDE :: nat where "MAX_DISPLAY_PANEL_OVERRIDE = 256"

definition Panel_existing :: "'e fb_cmd_env_scheme \<Rightarrow> string \<Rightarrow> string" where
  "Panel_existing E arg =
     (case DisplayVar E of (Status, CurStrLen, Old) \<Rightarrow>
        if (Status = EFI_SUCCESS \<or> Status = EFI_NOT_FOUND) \<and> CurStrLen \<noteq> 0 \<and>
           unat CurStrLen + length arg < MAX_DISPLAY_PANEL_OVERRIDE
        then take (unat CurStrLen) Old else [])"

definition CmdOemSelectDisplayPanel :: "'e fb_cmd_env_scheme \<Rightarrow> string \<Rightarrow> 'a fb_state_scheme \<Rightarrow> 'a fb_state_scheme" where
  "CmdOemSelectDisplayPanel E arg S =
     (let (arg, App) = Panel_loop 0 arg False;
          Str = cat MAX_DISPLAY_PANEL_OVERRIDE (if App then Panel_existing E arg else []) arg;
          S = S\<lparr>PanelSet := PanelSet S @ [Str]\<rparr>; Status = DisplaySet E Str
      in if EFI_ERROR Status \<and> Status \<noteq> EFI_NOT_FOUND then FastbootFail (''Selecting Panel: '' @ '': failed'') S
         else FastbootOkay (''Selecting Panel: '' @ '': done'') S)"

definition true_false :: "bool \<Rightarrow> string" where
  "true_false b = (if b then ''true'' else ''false'')"

definition CmdOemDevinfo :: "'a fb_state_scheme \<Rightarrow> 'a fb_state_scheme" where
  "CmdOemDevinfo S =
     (let D = DevInfo (DevSt S)
      in FastbootOkay []
          (FastbootInfo (''Charger screen enabled: '' @ true_false (is_charger_screen_enabled D))
            (FastbootInfo (''Device critical unlocked: '' @ true_false (is_unlock_critical D))
              (FastbootInfo (''Device unlocked: '' @ true_false (is_unlocked D))
                (FastbootInfo (''Verity mode: '' @ true_false (verity_mode D)) S)))))"

definition CmdReboot :: "u8 \<Rightarrow> 'a fb_state_scheme \<Rightarrow> 'a fb_state_scheme" where
  "CmdReboot RebootReason S = (FastbootOkay [] S)\<lparr>Exit := Some (Reboot RebootReason)\<rparr>"

definition CmdContinue :: "'a fb_state_scheme \<Rightarrow> 'a fb_state_scheme option" where
  "CmdContinue S = do { MultiSlotBoot \<leftarrow> PartitionHasMultiSlot (AbSt S) (wide ''boot''); Some (S\<lparr>Exit := Some BootPartition\<rparr>) }"

text \<open>
  \<open>boot\<close> up to the loading of the image: the command line in the header is terminated, in the place its version says. \<open>off\<close> is the offset of
  the data in the download memory.
\<close>

definition Boot_header :: "nat \<Rightarrow> bytes \<Rightarrow> bytes option" where
  "Boot_header off mem =
     do { v \<leftarrow> rd32 mem (off + 40); put (off + (if v \<le> 2 then 575 else 1579)) [0] mem }"

definition CmdBoot :: "nat \<Rightarrow> u32 \<Rightarrow> 'a fb_state_scheme \<Rightarrow> 'a fb_state_scheme option" where
  "CmdBoot off Size S =
     (if \<not> is_unlocked (DevInfo (DevSt S)) then Some (FastbootFail ''Fastboot boot command is not available in locked device'' S)
      else if Size < 1632 then Some (FastbootFail ''Invalid Boot image Header'' S)
      else do {
        mem \<leftarrow> Boot_header off (DataMem S);
        let S = S\<lparr>DataMem := mem\<rparr>;
        MultiSlotBoot \<leftarrow> PartitionHasMultiSlot (AbSt S) (wide ''boot'');
        let (Status, A) = (if MultiSlotBoot then ClearUnbootable (AbSt S) else (EFI_SUCCESS, AbSt S));
        let S = S\<lparr>AbSt := A\<rparr>;
        Some (if Status \<noteq> EFI_SUCCESS then FastbootFail ''CmdBoot: ClearUnbootable failed'' S
              else S\<lparr>Exit := Some (BootImage (take (unat Size) (drop off mem)))\<rparr>) })"

section \<open>Dispatch\<close>

datatype fb_cmd =
    C_flash | C_erase | C_set_active | C_get_unlock_ability | C_unlock | C_lock | C_unlock_critical | C_lock_critical | C_boot
  | C_enable_charger | C_disable_charger | C_off_mode | C_panel | C_devinfo | C_continue | C_reboot | C_bootloader | C_getvar
  | C_download | C_cmdline

text \<open>The commands in the order of their registration. Each is put in front of the list, so the last one that matches is used.\<close>

definition cmd_list :: "(string \<times> fb_cmd) list" where
  "cmd_list =
     [(''flash:'', C_flash), (''erase:'', C_erase), (''set_active'', C_set_active),
      (''flashing get_unlock_ability'', C_get_unlock_ability), (''flashing unlock'', C_unlock), (''flashing lock'', C_lock),
      (''flashing unlock_critical'', C_unlock_critical), (''flashing lock_critical'', C_lock_critical), (''boot'', C_boot),
      (''oem enable-charger-screen'', C_enable_charger), (''oem disable-charger-screen'', C_disable_charger),
      (''oem off-mode-charge'', C_off_mode), (''oem select-display-panel'', C_panel), (''oem device-info'', C_devinfo),
      (''continue'', C_continue), (''reboot'', C_reboot), (''reboot-bootloader'', C_bootloader), (''getvar:'', C_getvar),
      (''download:'', C_download), (''oem display-cmdline'', C_cmdline)]"

definition FastbootRegister :: "string \<times> fb_cmd \<Rightarrow> (string \<times> fb_cmd) list \<Rightarrow> (string \<times> fb_cmd) list" where
  "FastbootRegister c cmdlist = c # cmdlist"

definition cmdlist :: "(string \<times> fb_cmd) list" where
  "cmdlist = fold FastbootRegister cmd_list []"

fun Run_cmd :: "'e fb_cmd_env_scheme \<Rightarrow> fb_cmd \<Rightarrow> string \<Rightarrow> 'a fb_state_scheme \<Rightarrow> 'a fb_state_scheme option" where
  "Run_cmd E C_flash arg S = CmdFlash E arg (drop (mUsbDataBuffer S) (DataMem S)) (ucast (mBytesReceivedSoFar S)) S"
| "Run_cmd E C_erase arg S = CmdErase E arg S"
| "Run_cmd E C_set_active arg S = CmdSetActive E arg S"
| "Run_cmd E C_get_unlock_ability arg S = Some (CmdFlashingGetUnlockAbility S)"
| "Run_cmd E C_unlock arg S = SetDeviceUnlock E UNLOCK True S"
| "Run_cmd E C_lock arg S = SetDeviceUnlock E UNLOCK False S"
| "Run_cmd E C_unlock_critical arg S = SetDeviceUnlock E UNLOCK_CRITICAL True S"
| "Run_cmd E C_lock_critical arg S = SetDeviceUnlock E UNLOCK_CRITICAL False S"
| "Run_cmd E C_boot arg S = CmdBoot (mUsbDataBuffer S) (ucast (mBytesReceivedSoFar S)) S"
| "Run_cmd E C_enable_charger arg S = Some (CmdOemChargerScreen True S)"
| "Run_cmd E C_disable_charger arg S = Some (CmdOemChargerScreen False S)"
| "Run_cmd E C_off_mode arg S = Some (CmdOemOffModeCharger arg S)"
| "Run_cmd E C_panel arg S = Some (CmdOemSelectDisplayPanel E arg S)"
| "Run_cmd E C_devinfo arg S = Some (CmdOemDevinfo S)"
| "Run_cmd E C_continue arg S = CmdContinue S"
| "Run_cmd E C_reboot arg S = Some (CmdReboot 0 S)"
| "Run_cmd E C_bootloader arg S = Some (CmdReboot 2 S)"
| "Run_cmd E C_getvar arg S = CmdGetVar E arg S"
| "Run_cmd E C_download arg S = Some (CmdDownload arg S)"
| "Run_cmd E C_cmdline arg S = CmdOemDisplayCommandLine arg S"

definition Dispatch :: "'e fb_cmd_env_scheme \<Rightarrow> string \<Rightarrow> 'a fb_state_scheme \<Rightarrow> 'a fb_state_scheme option" where
  "Dispatch E Data S =
     (case find (\<lambda>(p, c). prefix p Data) cmdlist of
        None \<Rightarrow> Some (FastbootFail ''unknown command'' S)
      | Some (p, c) \<Rightarrow> Run_cmd E c (drop (length p) Data) S)"

text \<open>The battery is checked at the first flash or erase after a host asked for the type of a partition.\<close>

definition Battery_check :: "'e fb_cmd_env_scheme \<Rightarrow> string \<Rightarrow> 'a fb_state_scheme \<Rightarrow> bool \<times> 'a fb_state_scheme" where
  "Battery_check E Data S =
     (if IsFirstEraseFlash S then
        if prefix ''erase'' Data \<or> prefix ''flash'' Data then
          if \<not> fst (TargetBatterySocOk (Charger E))
          then (False, FastbootFail (''Warning: battery''  @ [CHR 0x27] @ ''s capacity is very low'' @ [CHR 0x0A]) S)
          else (True, S\<lparr>IsFirstEraseFlash := False\<rparr>)
        else (True, S)
      else (True, if prefix ''getvar:partition-type'' Data then S\<lparr>IsFirstEraseFlash := True\<rparr> else S))"

definition Check_last :: "'e fb_cmd_env_scheme \<Rightarrow> string \<Rightarrow> 'a fb_state_scheme \<Rightarrow> bool \<times> 'a fb_state_scheme" where
  "Check_last E Data S =
     (if FlashResult S \<noteq> EFI_SUCCESS \<and> (prefix ''flash'' Data \<or> prefix ''download'' Data)
      then (False, (FastbootFail (take (MAX_RSP_SIZE - 1) (''Error: Last flash failed : '' @ StatusText E (FlashResult S))) S)
                     \<lparr>FlashResult := EFI_SUCCESS\<rparr>)
      else (True, S))"

text \<open>A command that is no download waits while an image is being written.\<close>

definition AcceptCmd :: "'e fb_cmd_env_scheme \<Rightarrow> string \<Rightarrow> 'a fb_state_scheme \<Rightarrow> 'a fb_state_scheme option" where
  "AcceptCmd E Received S =
     (let Data = takeWhile (\<lambda>c. c \<noteq> NUL) (take MAX_FASTBOOT_COMMAND_SIZE Received);
          S = (if prefix ''download'' Data then S else StopUsbTimer S)
      in if \<not> prefix ''download'' Data \<and> \<not> IsFlashComplete S \<and> CmdTimer E = EFI_SUCCESS
         then Some (S\<lparr>CmdPending := CmdPending S @ [Data]\<rparr>)
         else
           (case Check_last E Data S of (go, S) \<Rightarrow>
              if \<not> go then Some S
              else case Battery_check E Data S of (go, S) \<Rightarrow> if \<not> go then Some S else Dispatch E Data S))"

section \<open>Commands in any order\<close>

text \<open>
  A host sends commands and data in any order. Commands that had to wait are handled when their timer fires. Nothing follows
  once Fastboot was left.
\<close>

inductive fb_cmd_step :: "'e fb_cmd_env_scheme \<Rightarrow> 'a fb_state_scheme \<Rightarrow> 'a fb_state_scheme \<Rightarrow> bool" for E where
  Cmd: "Exit S = None \<Longrightarrow> mState S = ExpectCmdState \<Longrightarrow> AcceptCmd E d S = Some S' \<Longrightarrow> fb_cmd_step E S S'"
| Deferred: "Exit S = None \<Longrightarrow> CmdPending S = d # ds \<Longrightarrow> AcceptCmd E d (S\<lparr>CmdPending := ds\<rparr>) = Some S' \<Longrightarrow> fb_cmd_step E S S'"
| Data: "Exit S = None \<Longrightarrow> fb_step (fb_env.truncate E) S S' \<Longrightarrow> fb_cmd_step E S S'"

section \<open>What a locked device keeps\<close>

text \<open>
  The builds that check the locks before they flash or erase: verified boot LE, or the user build variant. The builds of the
  devices define neither \<^verbatim>\<open>VERIFIED_BOOT_LE\<close> nor \<^verbatim>\<open>USER_BUILD_VARIANT\<close>; there the check never refuses
  (\<open>Lock_check_unguarded\<close>), and a locked device erases a partition (\<open>unguarded_locked_erase\<close> at the end of this theory).
\<close>

definition guarded :: "'e fb_cmd_env_scheme \<Rightarrow> bool" where
  "guarded E \<longleftrightarrow> AvbIsLE (FbVb E) \<or> TargetBuildVariantUser (FbAb E)"

definition locked :: "'a fb_state_scheme \<Rightarrow> bool" where
  "locked S \<longleftrightarrow> \<not> is_unlocked (DevInfo (DevSt S)) \<and> \<not> is_unlock_critical (DevInfo (DevSt S)) \<and> IsAllowUnlock S = 0"

text \<open>The storage, the locks, the key of the user, and that no image of the host was started.\<close>

definition kept :: "'a fb_state_scheme \<Rightarrow> 'a fb_state_scheme \<Rightarrow> bool" where
  "kept S S' \<longleftrightarrow> Log S' = Log S \<and> UbiLog S' = UbiLog S \<and> same_locks S S' \<and>
     user_public_key (DevInfo (DevSt S')) = user_public_key (DevInfo (DevSt S)) \<and>
     user_public_key_length (DevInfo (DevSt S')) = user_public_key_length (DevInfo (DevSt S)) \<and>
     (\<forall>img. Exit S' = Some (BootImage img) \<longrightarrow> Exit S = Some (BootImage img))"

lemma kept_refl [simp, intro]: "kept S S"
  by (simp add: kept_def same_locks_def)

lemma kept_trans: "kept S S1 \<Longrightarrow> kept S1 S2 \<Longrightarrow> kept S S2"
  by (simp add: kept_def same_locks_def)

lemma same_store_kept: "same_store S S' \<Longrightarrow> kept S S'"
  by (simp add: same_store_def kept_def same_locks_def)

lemma kept_answer [simp]:
  "kept S (FastbootFail r S') \<longleftrightarrow> kept S S'" "kept S (FastbootOkay r S') \<longleftrightarrow> kept S S'" "kept S (FastbootInfo r S') \<longleftrightarrow> kept S S'"
  by (simp_all add: kept_def same_locks_def FastbootFail_def FastbootOkay_def FastbootInfo_def FastbootAck_def)

lemma kept_DevSt:
  "is_unlocked (DevInfo D) = is_unlocked (DevInfo (DevSt S)) \<Longrightarrow> is_unlock_critical (DevInfo D) = is_unlock_critical (DevInfo (DevSt S)) \<Longrightarrow>
   user_public_key (DevInfo D) = user_public_key (DevInfo (DevSt S)) \<Longrightarrow>
   user_public_key_length (DevInfo D) = user_public_key_length (DevInfo (DevSt S)) \<Longrightarrow> kept S (S\<lparr>DevSt := D\<rparr>)"
  by (simp add: kept_def same_locks_def)

lemma locked_kept: "locked S \<Longrightarrow> kept S S' \<Longrightarrow> locked S'"
  by (simp add: locked_def kept_def same_locks_def)

lemma Lock_check_locked: "guarded E \<Longrightarrow> locked S \<Longrightarrow> Lock_check E w n S \<noteq> None"
  by (auto simp: Lock_check_def guarded_def locked_def)

lemma Lock_check_unguarded: "\<not> guarded E \<Longrightarrow> Lock_check E w n S = None"
  by (simp add: Lock_check_def guarded_def)

lemma data_phase_store:
  "same_store S (ExchangeFlashAndUsbDataBuf S)" "same_store S (CmdDownload arg S)" "same_store S (StopUsbTimer S)"
  "same_store S (ProcessBulkXfrCompleteTx S)" "same_store S (FlashCompleteHandler F S)" "same_store S (FastbootOkayDelay F S)"
  by (simp_all add: same_store_def ExchangeFlashAndUsbDataBuf_def CmdDownload_def StopUsbTimer_def ProcessBulkXfrCompleteTx_def
      FlashCompleteHandler_def FastbootOkayDelay_def FastbootFail_def FastbootOkay_def FastbootAck_def Let_def)

lemma Data_finished_store: "Data_finished F S = Some S' \<Longrightarrow> same_store S S'"
  by (auto simp: Data_finished_def Let_def bind_eq_Some_conv same_store_def FastbootOkayDelay_def StopUsbTimer_def
      FastbootFail_def FastbootAck_def)

lemma AcceptData_store:
  assumes "AcceptData F n S = Some S'" shows "same_store S S'"
proof -
  consider k where "Data_finished F (S\<lparr>mBytesReceivedSoFar := k\<rparr>) = Some S'" | k q where "S' = S\<lparr>mBytesReceivedSoFar := k, Queue := q\<rparr>"
    using assms unfolding AcceptData_def Let_def by (auto split: if_split_asm)
  then show ?thesis
  proof cases
    case 1
    from Data_finished_store [OF 1] show ?thesis by (simp add: same_store_def)
  qed (simp add: same_store_def)
qed

lemma ReceiveData_store:
  assumes "ReceiveData F xs S = Some S'" shows "same_store S S'"
proof -
  show ?thesis
  proof (cases "\<exists>off n. Queue S = Some (DataBuffer off, n)")
    case True
    then obtain off n where q: "Queue S = Some (DataBuffer off, n)" by blast
    then obtain mem where "AcceptData F (word_of_nat (length xs)) (S\<lparr>DataMem := mem, Queue := None\<rparr>) = Some S'"
      using assms unfolding ReceiveData_def q by (cases "put off xs (DataMem S)") simp_all
    from AcceptData_store [OF this] show ?thesis by (simp add: same_store_def)
  next
    case False
    then have "S' = S" using assms unfolding ReceiveData_def by (auto split: option.split_asm prod.split_asm rx_dst.split_asm)
    then show ?thesis by simp
  qed
qed

lemma fb_step_store: "fb_step F S S' \<Longrightarrow> same_store S S'"
  by (induction rule: fb_step.induct) (auto simp: data_phase_store ReceiveData_store, simp add: same_store_def)

lemma CmdFlash_locked:
  assumes "CmdFlash E arg x n S = Some S'" "guarded E" "locked S" shows "kept S S'"
proof -
  let ?S = "ExchangeFlashAndUsbDataBuf (S\<lparr>LunSet := False\<rparr>)"
  have S: "same_store S ?S" by (rule same_store_trans [OF _ data_phase_store(1)]) simp
  have "Lock_check E ''Flashing'' (wide arg) ?S \<noteq> None"
    using Lock_check_locked [OF assms(2) locked_kept [OF assms(3) same_store_kept [OF S]]] .
  then obtain msg where "S' = FastbootFail msg ?S"
    using assms(1) by (auto simp: CmdFlash_def Let_def split: if_splits)
  then show ?thesis using S by (simp add: same_store_kept)
qed

lemma CmdErase_locked:
  assumes "CmdErase E arg S = Some S'" "guarded E" "locked S" shows "kept S S'"
proof -
  obtain m where "Lock_check E ''Erase'' (wide arg) S = Some m" using Lock_check_locked [OF assms(2,3)] by blast
  then obtain msg where "S' = FastbootFail msg S"
    using assms(1) by (auto simp: CmdErase_def bind_eq_Some_conv split: if_splits)
  then show ?thesis by (simp add: same_store_kept)
qed

lemma CmdSetActive_store:
  assumes "CmdSetActive E arg S = Some S'" shows "same_store S S'"
proof -
  have M: "same_store S S'" if "Set_active E s S = Some S'" for s
    using that by (auto simp: Set_active_def bind_eq_Some_conv Let_def same_store_def split: if_splits dest!: Set_current_store)
      (auto simp: FastbootFail_def FastbootOkay_def FastbootAck_def)
  show ?thesis using assms by (auto simp: CmdSetActive_def bind_eq_Some_conv split: if_splits option.splits dest: M)
qed

lemma SetDeviceUnlock_locked:
  "SetDeviceUnlock E t b S = Some S' \<Longrightarrow> locked S \<Longrightarrow> t \<noteq> OtherUnlockType \<Longrightarrow> kept S S'"
  by (cases t; cases b) (auto simp: SetDeviceUnlock_def Let_def locked_def intro: same_store_kept)

lemma EnableChargingScreen_kept: "EnableChargingScreen b (DevSt S) = (st, D) \<Longrightarrow> kept S (S\<lparr>DevSt := D\<rparr>)"
  by (rule kept_DevSt) (auto simp: EnableChargingScreen_def split: if_splits)

lemma CmdOemChargerScreen_kept: "kept S (CmdOemChargerScreen b S)"
  unfolding CmdOemChargerScreen_def by (auto split: prod.split intro: EnableChargingScreen_kept)

lemma CmdOemOffModeCharger_kept: "kept S (CmdOemOffModeCharger arg S)"
  unfolding CmdOemOffModeCharger_def Let_def by (auto split: option.split prod.split intro: EnableChargingScreen_kept)

lemma CmdOem_store:
  "same_store S (CmdOemSelectDisplayPanel E arg S)" "same_store S (CmdOemDevinfo S)" "same_store S (CmdFlashingGetUnlockAbility S)"
  unfolding CmdOemSelectDisplayPanel_def CmdOemDevinfo_def CmdFlashingGetUnlockAbility_def Let_def
  by (auto simp only: same_store_answer same_store_update same_store_refl split: prod.split if_split)

lemma CmdReboot_kept: "kept S (CmdReboot r S)"
  by (simp add: CmdReboot_def kept_def same_locks_def FastbootOkay_def FastbootAck_def)

lemmas CmdOem_kept = CmdOemChargerScreen_kept CmdOemOffModeCharger_kept CmdOem_store CmdReboot_kept

lemma CmdOemDisplayCommandLine_kept:
  assumes "CmdOemDisplayCommandLine arg S = Some S'" shows "kept S S'"
proof -
  obtain st D where D: "StoreDisplayCmdLine (ascii arg) (word_of_nat (length arg)) (DevSt S) = Some (st, D)"
    using assms unfolding CmdOemDisplayCommandLine_def
    by (cases "StoreDisplayCmdLine (ascii arg) (word_of_nat (length arg)) (DevSt S)") auto
  then have S': "S' = FastbootOkay [] (S\<lparr>DevSt := D\<rparr>) \<or> S' = FastbootFail ''Failed to store display command line'' (S\<lparr>DevSt := D\<rparr>)"
    using assms by (simp add: CmdOemDisplayCommandLine_def Let_def split: if_splits)
  have "kept S (S\<lparr>DevSt := D\<rparr>)"
    by (rule kept_DevSt) (use D in \<open>auto simp: StoreDisplayCmdLine_def bind_eq_Some_conv split: if_splits\<close>)
  then show ?thesis using S' by (auto simp only: kept_answer)
qed

lemma CmdContinue_kept: "CmdContinue S = Some S' \<Longrightarrow> kept S S'"
  by (auto simp: CmdContinue_def bind_eq_Some_conv kept_def same_locks_def)

lemma CmdBoot_locked: "CmdBoot off n S = Some S' \<Longrightarrow> locked S \<Longrightarrow> kept S S'"
  by (auto simp: CmdBoot_def locked_def intro: same_store_kept)

lemma Run_cmd_locked:
  assumes "Run_cmd E c arg S = Some S'" "guarded E" "locked S" shows "kept S S'"
  using assms
  by (cases c)
    (auto intro: CmdFlash_locked CmdErase_locked SetDeviceUnlock_locked CmdOemDisplayCommandLine_kept CmdContinue_kept CmdBoot_locked
      CmdOem_kept same_store_kept data_phase_store CmdSetActive_store CmdGetVar_store)

text \<open>What is done before a command is dispatched changes neither the storage nor the locks.\<close>

lemma AcceptCmd_dispatch:
  assumes "AcceptCmd E d S = Some S'"
  obtains "same_store S S'"
  | S1 c arg where "same_store S S1" "AbSt S1 = AbSt S" "Run_cmd E c arg S1 = Some S'"
proof -
  let ?d = "takeWhile (\<lambda>c. c \<noteq> NUL) (take MAX_FASTBOOT_COMMAND_SIZE d)"
  define S0 where "S0 = (if prefix ''download'' ?d then S else StopUsbTimer S)"
  have S0: "same_store S S0" "AbSt S0 = AbSt S" by (simp_all add: S0_def data_phase_store) (simp add: StopUsbTimer_def)
  obtain go1 S1 where C: "Check_last E ?d S0 = (go1, S1)" by fastforce
  have S1: "same_store S S1" "AbSt S1 = AbSt S"
    using C S0 by (auto simp: Check_last_def FastbootFail_def FastbootAck_def same_store_def split: if_splits)
  obtain go2 S2 where B: "Battery_check E ?d S1 = (go2, S2)" by fastforce
  have S2: "same_store S S2" "AbSt S2 = AbSt S"
    using B S1 by (auto simp: Battery_check_def FastbootFail_def FastbootAck_def same_store_def split: if_splits)
  consider "same_store S S'" | "Dispatch E ?d S2 = Some S'"
    using assms S0 S1 S2 C B unfolding AcceptCmd_def Let_def S0_def [symmetric] by (auto split: if_splits)
  then show thesis
  proof cases
    case 2
    then show ?thesis using S2 that by (auto simp: Dispatch_def split: option.splits prod.splits)
  qed (rule that(1))
qed

lemma AcceptCmd_locked:
  assumes "AcceptCmd E d S = Some S'" "guarded E" "locked S" shows "kept S S'"
  using assms(1)
proof (cases rule: AcceptCmd_dispatch)
  case (2 S1 c arg)
  have k: "kept S S1" by (rule same_store_kept [OF 2(1)])
  show ?thesis using kept_trans [OF k Run_cmd_locked [OF 2(3) assms(2) locked_kept [OF assms(3) k]]] .
qed (rule same_store_kept)

lemma fb_cmd_step_locked:
  assumes "fb_cmd_step E S S'" "guarded E" "locked S" shows "kept S S'"
  using assms(1)
proof cases
  case (Cmd d)
  show ?thesis using Cmd(3) assms(2,3) by (rule AcceptCmd_locked)
next
  case (Deferred d ds)
  have k: "kept S (S\<lparr>CmdPending := ds\<rparr>)" by (simp add: same_store_kept)
  show ?thesis using kept_trans [OF k AcceptCmd_locked [OF Deferred(3) assms(2) locked_kept [OF assms(3) k]]] .
next
  case Data
  show ?thesis using same_store_kept [OF fb_step_store [OF Data(2)]] .
qed

text \<open>
  C3: A locked device stays as it is. On a build that checks the locks (\<open>guarded\<close>: verified boot LE or the user build variant), with both
  locks closed and unlocking not allowed, no sequence of commands and data of a host, in any order, makes one request to the storage,
  opens a lock, changes the key of the user or starts an image of the host.
\<close>

theorem locked_device_safe:
  assumes "(fb_cmd_step E)\<^sup>*\<^sup>* S0 S" "guarded E" "locked S0"
  shows "kept S0 S \<and> locked S"
  using assms(1)
proof (induction rule: rtranclp_induct)
  case (step S S')
  then show ?case using fb_cmd_step_locked [OF step(2) assms(2)] kept_trans locked_kept by blast
qed (simp add: assms(3))

section \<open>Critical partitions\<close>

text \<open>The devices of the misc partition, where a change of the locks leaves the message that wipes the user data.\<close>

definition misc_devs :: "'e fb_cmd_env_scheme \<Rightarrow> nat set" where
  "misc_devs E = {d. \<exists>g h. MiscGuid (FbMisc E) = Inr g \<and> Type_handle (MiscDb (FbMisc E)) g = Some (Inr h) \<and> DevId (BlkIo h) = d}"

definition critical_locked :: "'a fb_state_scheme \<Rightarrow> bool" where
  "critical_locked S \<longleftrightarrow> \<not> is_unlock_critical (DevInfo (DevSt S)) \<and> IsAllowUnlock S = 0"

definition spared :: "'e fb_cmd_env_scheme \<Rightarrow> 'a fb_state_scheme \<Rightarrow> 'a fb_state_scheme \<Rightarrow> bool" where
  "spared E S S' \<longleftrightarrow> log_on (noncritical_devs E (AbSt S) \<union> misc_devs E) (Log S) (Log S') \<and>
     (\<exists>us. UbiLog S' = UbiLog S @ us \<and> (\<forall>u \<in> set us. \<exists>n. \<not> IsCriticalPartition n \<and> fst u = ascii_of n)) \<and>
     is_unlock_critical (DevInfo (DevSt S')) = is_unlock_critical (DevInfo (DevSt S)) \<and> IsAllowUnlock S' = IsAllowUnlock S"

lemma kept_spared: "kept S S' \<Longrightarrow> spared E S S'"
  by (simp add: kept_def spared_def same_locks_def)

lemma same_store_spared: "same_store S S' \<Longrightarrow> spared E S S'"
  by (intro kept_spared same_store_kept)

lemma flashed_spared: "flashed E S S' \<Longrightarrow> spared E S S'"
  unfolding flashed_def spared_def same_locks_def by (metis log_on_mono sup_ge1)

lemma same_store_flashed: "same_store S S' \<Longrightarrow> Ptable (AbSt S') = Ptable (AbSt S) \<Longrightarrow> flashed E S S'"
  by (intro flashed_same) (simp_all add: same_store_def same_locks_def)

lemma spared_store:
  assumes "spared E S S1" "same_store S1 S2" shows "spared E S S2"
  using assms unfolding spared_def same_store_def by simp

lemma store_spared:
  assumes "same_store S S1" "AbSt S1 = AbSt S" "spared E S1 S2" shows "spared E S S2"
  using assms unfolding spared_def same_store_def by simp

lemma flashed_then_spared:
  assumes "flashed E S S1" "spared E S1 S2" shows "spared E S S2"
proof -
  have P: "noncritical_devs E (AbSt S1) = noncritical_devs E (AbSt S)"
    using assms(1) noncritical_devs_Ptable unfolding flashed_def by blast
  have S: "spared E S S1" using assms(1) by (rule flashed_spared)
  obtain us vs where "UbiLog S1 = UbiLog S @ us" "UbiLog S2 = UbiLog S1 @ vs"
    "\<forall>u \<in> set us. \<exists>n. \<not> IsCriticalPartition n \<and> fst u = ascii_of n"
    "\<forall>u \<in> set vs. \<exists>n. \<not> IsCriticalPartition n \<and> fst u = ascii_of n"
    using S assms(2) unfolding spared_def by blast
  then have "\<exists>us. UbiLog S2 = UbiLog S @ us \<and> (\<forall>u \<in> set us. \<exists>n. \<not> IsCriticalPartition n \<and> fst u = ascii_of n)"
    by (intro exI [of _ "us @ vs"]) auto
  then show ?thesis using S assms(2) P unfolding spared_def by (metis log_on_trans)
qed

lemma WriteToPartition_on:
  assumes "WriteToPartition D nand split g img n log = Some (st, log')"
  shows "log' = log \<or> (\<exists>h. Type_handle D g = Some (Inr h) \<and> log_on {DevId (BlkIo h)} log log')"
  using assms by (auto simp: WriteToPartition_def option_inversion case_option_eq_Some dest!: WriteBlockToPartition_on)

lemma SetDeviceUnlockValue_spared:
  assumes "SetDeviceUnlockValue (FbMisc E) (FbVb E) t b (DevSt S) (Log S) = Some (st, D, log)"
    and "t = UNLOCK"
  shows "spared E S (S\<lparr>DevSt := D, Log := log\<rparr>)"
proof -
  have D: "is_unlock_critical (DevInfo D) = is_unlock_critical (DevInfo (DevSt S))"
    using assms by (auto simp: SetDeviceUnlockValue_def Set_flag_def SetUnlockValue_def option_inversion split: if_splits)
  have "log = Log S \<or> (\<exists>g h. MiscGuid (FbMisc E) = Inr g \<and> Type_handle (MiscDb (FbMisc E)) g = Some (Inr h) \<and>
      log_on {DevId (BlkIo h)} (Log S) log)"
    using assms(1) by (auto simp: SetDeviceUnlockValue_def option_inversion split: if_splits dest!: WriteToPartition_on)
  then have "log_on (misc_devs E) (Log S) log" by (auto simp: misc_devs_def intro: log_on_mono)
  then show ?thesis using D by (auto simp: spared_def intro: log_on_mono)
qed

lemma SetDeviceUnlock_change:
  assumes "SetDeviceUnlock E t b S = Some S'"
  obtains "same_store S S'"
  | st D log where "SetDeviceUnlockValue (FbMisc E) (FbVb E) t b (DevSt S) (Log S) = Some (st, D, log)"
      "t = UNLOCK_CRITICAL \<longrightarrow> b \<noteq> is_unlock_critical (DevInfo (DevSt S))" "b \<longrightarrow> IsAllowUnlock S \<noteq> 0"
      "kept (S\<lparr>DevSt := D, Log := log\<rparr>) S'"
proof (cases "same_store S S'")
  case False
  define f where "f = (case t of UNLOCK \<Rightarrow> is_unlocked (DevInfo (DevSt S)) | UNLOCK_CRITICAL \<Rightarrow> is_unlock_critical (DevInfo (DevSt S)) | _ \<Rightarrow> False)"
  note U = assms [unfolded SetDeviceUnlock_def Let_def f_def [symmetric]]
  have g1: "b \<noteq> f"
  proof
    assume "b = f"
    then have "\<exists>m. S' = FastbootFail m S" using U by auto
    then show False using False by auto
  qed
  have g2: "\<not> (b \<and> IsAllowUnlock S = 0)"
  proof
    assume "b \<and> IsAllowUnlock S = 0"
    then have "\<exists>m. S' = FastbootFail m S" using U g1 by auto
    then show False using False by auto
  qed
  have g3: "\<not> (\<not> AvbIsLE (FbVb E) \<and> DisplaySupported E \<and> IsEnableDisplayMenuFlagSupported E)"
  proof
    assume "\<not> AvbIsLE (FbVb E) \<and> DisplaySupported E \<and> IsEnableDisplayMenuFlagSupported E"
    then have "(\<exists>m. S' = FastbootFail m S) \<or> S' = FastbootOkay [] S" using U g1 g2 by (auto split: if_splits)
    then show False using False by auto
  qed
  note g = g1 g2 g3
  note V = U [unfolded if_not_P [OF g1] if_not_P [OF g2] if_not_P [OF g3]]
  obtain st D log where W: "SetDeviceUnlockValue (FbMisc E) (FbVb E) t b (DevSt S) (Log S) = Some (st, D, log)"
    using V by (cases "SetDeviceUnlockValue (FbMisc E) (FbVb E) t b (DevSt S) (Log S)") auto
  define S1 where "S1 = S\<lparr>DevSt := D, Log := log\<rparr>"
  have "kept S1 S'"
    using V CmdReboot_kept [of S1 1] unfolding W CmdReboot_def bind.bind_lunit prod.case S1_def [symmetric]
    by (auto simp only: option.inject kept_answer kept_refl split: if_split_asm)
  then show thesis using that(2) W g by (auto simp: S1_def f_def)
qed (rule that(1))

lemma SetDeviceUnlock_spared:
  assumes "SetDeviceUnlock E t b S = Some S'" "critical_locked S" "t \<noteq> OtherUnlockType"
  shows "spared E S S'"
  using assms(1)
proof (cases rule: SetDeviceUnlock_change)
  case (2 st D log)
  have "t = UNLOCK" using 2(2,3) assms(2,3) by (cases t) (auto simp: critical_locked_def)
  note F = SetDeviceUnlockValue_spared [OF 2(1) this]
  show ?thesis using F 2(4) by (simp add: spared_def kept_def same_locks_def)
qed (rule same_store_spared)

lemma prefix_wide: "prefix p s \<Longrightarrow> prefix (wide p) (wide s)"
  by (auto simp: prefix_def wide_def)

lemma not_critical_partition: "\<not> IsCriticalPartition (wide arg) \<Longrightarrow> \<not> prefix ''partition'' arg"
  by (auto simp: IsCritical_iff CriticalPartitions_def dest: prefix_wide)

lemma Lock_check_spared:
  "Lock_check E w n S = None \<Longrightarrow> guarded E \<Longrightarrow> critical_locked S \<Longrightarrow> \<not> IsCriticalPartition n"
  by (auto simp: Lock_check_def guarded_def critical_locked_def split: if_splits)

lemma Refresh_slots_store:
  assumes "Refresh_slots E S = Some S'" shows "same_store S S'"
proof -
  have C: "same_store S (ClearFastbootVarsofAB S)" by (simp add: ClearFastbootVarsofAB_def)
  have P: "same_store S S'" if "PopulateMultislotMetadata E (S\<lparr>AbSt := A\<rparr>) = Some S'" for A
    using PopulateMultislotMetadata_store [OF that] by (simp add: same_store_def)
  show ?thesis using assms C by (auto simp: Refresh_slots_def bind_eq_Some_conv split: if_splits option.splits dest: P)
qed

lemma ReenumeratePartTable_store:
  assumes "ReenumeratePartTable E S = Some (st, S')" shows "same_store S S'"
proof -
  have R: "same_store S S'" if "Refresh_slots E (S\<lparr>LunSet := False, AbSt := A\<rparr>) = Some S'" for A
    using Refresh_slots_store [OF that] by (simp add: same_store_def)
  show ?thesis
    using assms by (auto simp: ReenumeratePartTable_def Let_def bind_eq_Some_conv split: if_splits prod.splits dest: R)
qed

lemma Table_write_flashed:
  assumes "Table_write E n S = Some (st, S')" "IsNand E" "\<not> IsCriticalPartition n"
  shows "flashed E S S'"
proof -
  obtain ok where ok: "PartitionVerifyMibibImage (flash_mem S) = Some ok"
    using assms(1,2) unfolding Table_write_def by (cases "PartitionVerifyMibibImage (flash_mem S)") auto
  show ?thesis
  proof (cases ok)
    case True
    then obtain r n' where "HandleRawImgFlash E (flash_mem S) (mFlashNumDataBytes S) n S = Some (r, n', S')"
      using assms(1,2) ok unfolding Table_write_def
      by (cases "HandleRawImgFlash E (flash_mem S) (mFlashNumDataBytes S) n S") auto
    then show ?thesis using HandleRawImgFlash_flashed assms(3) by blast
  qed (use assms(1,2) ok in \<open>auto simp: Table_write_def\<close>)
qed

lemma Flash_table_spared:
  assumes "Flash_table E n S = Some S'" "IsNand E" "\<not> IsCriticalPartition n"
  shows "spared E S S'"
proof -
  have T: "Table_lun E S = S" using assms(2) by (simp add: Table_lun_def)
  have D: "PartitionDump S = Some ()" using assms(1) unfolding Flash_table_def Let_def T by (cases "PartitionDump S") simp_all
  obtain st S1 where W: "Table_write E n S = Some (st, S1)"
    using assms(1) unfolding Flash_table_def Let_def T D by (cases "Table_write E n S") auto
  have "same_store S1 S'"
  proof (cases "st = Some EFI_SUCCESS")
    case True
    then obtain st2 S2 where R: "ReenumeratePartTable E S1 = Some (st2, S2)"
      using assms(1) unfolding Flash_table_def Let_def T D W by (cases "ReenumeratePartTable E S1") auto
    then have "same_store S2 S'" using assms(1) True unfolding Flash_table_def Let_def T D W by auto
    then show ?thesis using ReenumeratePartTable_store [OF R] same_store_trans by blast
  qed (use assms(1) T D W in \<open>auto simp: Flash_table_def\<close>)
  then show ?thesis using Table_write_flashed [OF W assms(2,3)] flashed_spared spared_store by blast
qed

lemma Start_parallel_store: "Start_parallel E p S = (st, S') \<Longrightarrow> same_store S S' \<and> AbSt S' = AbSt S"
  by (auto simp: Start_parallel_def HandleUsbEventsInTimer_def StopUsbTimer_def same_store_def FastbootOkay_def FastbootAck_def
      split: if_splits)

lemma Sparse_write_flashed:
  assumes "Sparse_write E Info S = Some S'" "PartitionGetInfo E n S0 = Some Info" "\<not> IsCriticalPartition n" "AbSt S = AbSt S0"
  shows "flashed E S S'"
proof -
  obtain st B h where I: "Info = (st, B, h)" by (cases Info)
  define W where "W = HandleSparseImgFlash (st, B, h) (IsNand E) (IsFlashSplitNeeded S)
      (FbBase E + word_of_nat (mFlashDataBuffer S)) (flash_mem S) (mFlashNumDataBytes S) (Log S)"
  have R: "do { (r, log) \<leftarrow> W; Some (StopUsbTimer (S\<lparr>Log := log, FlashResult := r, IsFlashComplete := True\<rparr>)) } = Some S'"
    using assms(1) unfolding Sparse_write_def I W_def .
  obtain r log where w: "W = Some (r, log)" using R by (cases W) auto
  note W = w [unfolded W_def]
  have S': "S' = StopUsbTimer (S\<lparr>Log := log, FlashResult := r, IsFlashComplete := True\<rparr>)" using R w by simp
  have "log_on (noncritical_devs E (AbSt S)) (Log S) log"
  proof (cases "B = None \<or> \<not> h")
    case True
    then have "log = Log S" using W by (auto simp: HandleSparseImgFlash_def split: if_splits option.splits)
    then show ?thesis by simp
  next
    case False
    then obtain b where b: "B = Some b" "h" by auto
    have "{DevId b} \<subseteq> noncritical_devs E (AbSt S)" using noncritical_dev [of E n S0 st b] assms(2-4) I b by simp
    then show ?thesis by (rule log_on_mono [OF HandleSparseImgFlash_on [OF W [unfolded b(1)]]])
  qed
  then have "flashed E S (S\<lparr>Log := log\<rparr>)" by (rule flashed_log)
  moreover have "flashed E (S\<lparr>Log := log\<rparr>) S'"
    unfolding S' by (rule flashed_same) (simp_all add: StopUsbTimer_def same_locks_def)
  ultimately show ?thesis by (rule flashed_trans)
qed

lemma Flash_answer_flashed: "flashed E S (Flash_answer E n S)"
  by (rule same_store_flashed) (simp_all add: Flash_answer_def Let_def FastbootFail_def FastbootOkay_def FastbootAck_def same_store_def)

lemma Flash_sparse_flashed:
  assumes "Flash_sparse E n S = Some S'" "\<not> IsCriticalPartition n" shows "flashed E S S'"
proof -
  note F = assms(1) [unfolded Flash_sparse_def Let_def]
  obtain hs n' s A where N: "Slot_name n (AbSt S) = Some ((hs, n', s), A)" using F by (cases "Slot_name n (AbSt S)") auto
  have crit: "\<not> IsCriticalPartition n'" and P: "Ptable A = Ptable (AbSt S)" using Slot_name_frame [OF N] assms(2) by simp_all
  define S1 where "S1 = S\<lparr>AbSt := A\<rparr>"
  have S1: "flashed E S S1" unfolding S1_def by (rule flashed_AbSt [OF P])
  note F = F [unfolded N bind.bind_lunit prod.case S1_def [symmetric]]
  obtain i where I: "PartitionGetInfo E n' S1 = Some i" using F by (cases "PartitionGetInfo E n' S1") auto
  note F = F [unfolded I bind.bind_lunit]
  show ?thesis
  proof (cases "EFI_ERROR (fst i) \<or> blk_size (fst (snd i)) = 0")
    case True
    then have "\<exists>m. S' = FastbootFail m S1" using F by (auto split: if_splits)
    then show ?thesis using S1 flashed_trans flashed_answer(1) by blast
  next
    case False
    obtain st S2 where Q: "Start_parallel E (blk_size (fst (snd i))) S1 = (st, S2)" by fastforce
    have S2: "same_store S1 S2" "AbSt S2 = AbSt S1" using Start_parallel_store [OF Q] by simp_all
    note F = F [unfolded Q prod.case]
    obtain S3 where W: "Sparse_write E i S2 = Some S3" using F False by (cases "Sparse_write E i S2") auto
    have "S' = S3 \<or> S' = Flash_answer E n' S3" using F False unfolding W by (auto split: if_splits)
    then have "flashed E S3 S'" using Flash_answer_flashed by blast
    moreover have "flashed E S2 S3" by (rule Sparse_write_flashed [OF W I crit S2(2)])
    moreover have "flashed E S1 S2" using S2 by (simp add: same_store_flashed)
    ultimately show ?thesis using S1 flashed_trans by blast
  qed
qed

lemma Flash_other_flashed:
  assumes "Flash_other E n S = Some (r, n', S')" "\<not> IsCriticalPartition n" "\<not> is_unlock_critical (DevInfo (DevSt S))"
  shows "flashed E S S'"
proof -
  note F = assms(1) [unfolded Flash_other_def]
  obtain m where m: "rd (flash_mem S) 0 4 = Some m" using F by (cases "rd (flash_mem S) 0 4") auto
  note F = F [unfolded m bind.bind_lunit]
  consider "HandleUbiImgFlash E (flash_mem S) (mFlashNumDataBytes S) n S = Some (r, n', S')"
    | "HandleMetaImgFlash E (FbBase E + word_of_nat (mFlashDataBuffer S)) (flash_mem S) (mFlashNumDataBytes S) n S = Some (r, S')"
    | "HandleRawImgFlash E (flash_mem S) (mFlashNumDataBytes S) n S = Some (r, n', S')"
    using F by (cases "HandleMetaImgFlash E (FbBase E + word_of_nat (mFlashDataBuffer S)) (flash_mem S) (mFlashNumDataBytes S) n S")
      (auto split: if_split_asm)
  then show ?thesis
  proof cases
    case 1
    from HandleUbiImgFlash_flashed [OF this assms(2)] show ?thesis ..
  next
    case 2
    from HandleMetaImgFlash_flashed [OF this assms(3)] show ?thesis .
  next
    case 3
    from HandleRawImgFlash_flashed [OF this assms(2)] show ?thesis ..
  qed
qed

lemma Flash_image_flashed:
  assumes "Flash_image E n S = Some S'" "\<not> IsCriticalPartition n" "\<not> is_unlock_critical (DevInfo (DevSt S))"
  shows "flashed E S S'"
proof -
  note F = assms(1) [unfolded Flash_image_def]
  obtain m where m: "rd32 (flash_mem S) 0 = Some m" using F by (cases "rd32 (flash_mem S) 0") auto
  show ?thesis
  proof (cases "m = SPARSE_HEADER_MAGIC")
    case True
    then show ?thesis using F m Flash_sparse_flashed assms(2) by simp
  next
    case False
    note F = F [unfolded m bind.bind_lunit if_not_P [OF False]]
    obtain r n' S1 where O: "Flash_other E n S = Some (r, n', S1)" using F by (cases "Flash_other E n S") auto
    have "S' = Flash_answer E n' (S1\<lparr>FlashResult := r\<rparr>)" using F unfolding O by simp
    then have "flashed E (S1\<lparr>FlashResult := r\<rparr>) S'" by (simp add: Flash_answer_flashed)
    moreover have "flashed E S1 (S1\<lparr>FlashResult := r\<rparr>)" by (rule same_store_flashed) simp_all
    ultimately show ?thesis using Flash_other_flashed [OF O assms(2,3)] flashed_trans by blast
  qed
qed

lemma spared_out: "spared E S S1 \<Longrightarrow> spared E S (Flash_out arg S1)"
  by (auto simp: Flash_out_def Let_def spared_def EnableEnforcingMode_def)

lemma Flash_lun_store: "Flash_lun arg S = (ok, S') \<Longrightarrow> same_store S S' \<and> AbSt S' = AbSt S"
  by (auto simp: Flash_lun_def Let_def same_store_def FastbootFail_def FastbootAck_def split: option.splits if_splits)

lemma Flash_partition_spared:
  assumes "Flash_partition E arg S = Some S'" "\<not> IsCriticalPartition (wide arg)" "\<not> is_unlock_critical (DevInfo (DevSt S))"
  shows "spared E S S'"
proof -
  obtain ok S1 where L: "Flash_lun arg S = (ok, S1)" by fastforce
  note F = assms(1) [unfolded Flash_partition_def L prod.case]
  have S1: "same_store S S1" "AbSt S1 = AbSt S" using Flash_lun_store [OF L] by simp_all
  have crit: "\<not> is_unlock_critical (DevInfo (DevSt S1))" using assms(3) S1(1) by (simp add: same_store_def)
  show ?thesis
  proof (cases ok)
    case True
    define R where "R = (if prefix ''partition'' arg \<or> prefix ''mibib'' arg \<and> IsNand E then Flash_table E (wide arg) S1
        else Flash_image E (wide arg) S1)"
    note F = F [folded R_def]
    obtain S2 where R: "R = Some S2" "S' = Flash_out arg S2" using F True by (cases R) auto
    have "spared E S1 S2"
    proof (cases "prefix ''partition'' arg \<or> prefix ''mibib'' arg \<and> IsNand E")
      case True
      then have n: "IsNand E" using not_critical_partition [OF assms(2)] by blast
      show ?thesis using R(1) True Flash_table_spared [OF _ n assms(2)] by (simp add: R_def)
    next
      case False
      have "Flash_image E (wide arg) S1 = Some S2" using R(1) unfolding R_def if_not_P [OF False] .
      then show ?thesis by (rule flashed_spared [OF Flash_image_flashed [OF _ assms(2) crit]])
    qed
    then show ?thesis unfolding R(2) by (rule store_spared [OF S1 spared_out])
  next
    case False
    then show ?thesis using F S1 by (auto intro: same_store_spared spared_out)
  qed
qed

lemma Flash_key_spared:
  assumes "Flash_key x n S = Some S'" shows "spared E S S'"
proof -
  obtain st D where D: "StoreUserKey x n (DevSt S) = Some (st, D)"
    using assms unfolding Flash_key_def by (cases "StoreUserKey x n (DevSt S)") auto
  have "is_unlock_critical (DevInfo D) = is_unlock_critical (DevInfo (DevSt S))"
    using D by (auto simp: StoreUserKey_def bind_eq_Some_conv split: if_splits)
  then have "spared E S (S\<lparr>DevSt := D\<rparr>)" by (simp add: spared_def)
  moreover have "same_store (S\<lparr>DevSt := D\<rparr>) S'" using assms unfolding Flash_key_def D by (auto simp: Let_def)
  ultimately show ?thesis by (rule spared_store)
qed

lemma CmdFlash_spared:
  assumes "CmdFlash E arg x n S = Some S'" "guarded E" "critical_locked S" shows "spared E S S'"
proof -
  define S1 where "S1 = ExchangeFlashAndUsbDataBuf (S\<lparr>LunSet := False\<rparr>)"
  have S1: "same_store S S1" unfolding S1_def by (rule same_store_trans [OF _ data_phase_store(1)]) simp
  have A: "AbSt S1 = AbSt S" by (simp add: S1_def ExchangeFlashAndUsbDataBuf_def)
  have c: "critical_locked S1" using assms(3) S1 by (simp add: critical_locked_def same_store_def)
  note F = assms(1) [unfolded CmdFlash_def Let_def S1_def [symmetric]]
  show ?thesis
  proof (cases "\<exists>m. S' = FastbootFail m S1")
    case False
    have l: "Lock_check E ''Flashing'' (wide arg) S1 = None"
      using F False by (cases "Lock_check E ''Flashing'' (wide arg) S1") (auto split: if_split_asm)
    have n: "\<not> IsCriticalPartition (wide arg)" by (rule Lock_check_spared [OF l assms(2) c])
    have "Flash_key x n S1 = Some S' \<or> Flash_partition E arg S1 = Some S'" using F False l by (auto split: if_split_asm)
    then have "spared E S1 S'" using Flash_key_spared Flash_partition_spared n c unfolding critical_locked_def by blast
    then show ?thesis by (rule store_spared [OF S1 A])
  qed (use S1 in \<open>auto intro: same_store_spared\<close>)
qed

lemma EraseUserKey_spared: "EraseUserKey (DevSt S) = (st, D) \<Longrightarrow> spared E S (S\<lparr>DevSt := D\<rparr>)"
  by (auto simp: EraseUserKey_def spared_def split: if_splits)

lemma Erase_partition_flashed:
  assumes "Erase_partition E arg S = Some S'" "\<not> IsCriticalPartition (wide arg)" shows "flashed E S S'"
proof -
  note F = assms(1) [unfolded Erase_partition_def]
  obtain hs n' s A where N: "Slot_name (wide arg) (AbSt S) = Some ((hs, n', s), A)" using F by (cases "Slot_name (wide arg) (AbSt S)") auto
  have crit: "\<not> IsCriticalPartition n'" and P: "Ptable A = Ptable (AbSt S)" using Slot_name_frame [OF N] assms(2) by simp_all
  note F = F [unfolded N bind.bind_lunit prod.case]
  obtain st S1 where E: "FastbootErasePartition E n' (S\<lparr>AbSt := A\<rparr>) = Some (st, S1)"
    using F by (cases "FastbootErasePartition E n' (S\<lparr>AbSt := A\<rparr>)") auto
  have S1: "flashed E S S1" by (rule flashed_trans [OF flashed_AbSt [OF P] FastbootErasePartition_flashed [OF E crit]])
  note F = F [unfolded E bind.bind_lunit prod.case]
  have "flashed E S1 S'"
  proof (cases "EFI_ERROR st \<or> \<not> (hs \<and> StrnCmp_eq n' (wide ''boot'') 4)")
    case False
    then obtain S2 where "FastbootUpdateAttr s S1 = Some S2" "S' = FastbootOkay [] S2"
      using F by (cases "FastbootUpdateAttr s S1") auto
    then show ?thesis using FastbootUpdateAttr_flashed flashed_trans flashed_answer(2) by blast
  qed (use F in \<open>auto split: if_splits\<close>)
  then show ?thesis using S1 flashed_trans by blast
qed

lemma CmdErase_spared:
  assumes "CmdErase E arg S = Some S'" "guarded E" "critical_locked S" shows "spared E S S'"
proof -
  note F = assms(1) [unfolded CmdErase_def Let_def]
  obtain ms where ms: "PartitionHasMultiSlot (AbSt S) (wide ''boot'') = Some ms"
    using F by (cases "PartitionHasMultiSlot (AbSt S) (wide ''boot'')") auto
  note F = F [unfolded ms bind.bind_lunit]
  show ?thesis
  proof (cases "\<exists>m. S' = FastbootFail m S")
    case False
    have l: "Lock_check E ''Erase'' (wide arg) S = None"
      using F False by (cases "Lock_check E ''Erase'' (wide arg) S") (auto split: if_split_asm)
    have n: "\<not> IsCriticalPartition (wide arg)" by (rule Lock_check_spared [OF l assms(2,3)])
    obtain st D where D: "EraseUserKey (DevSt S) = (st, D)" by fastforce
    have "Erase_partition E arg S = Some S' \<or> same_store (S\<lparr>DevSt := D\<rparr>) S'"
      using F False l unfolding D by (auto split: if_split_asm)
    then show ?thesis using Erase_partition_flashed [OF _ n] flashed_spared EraseUserKey_spared [OF D] spared_store by blast
  qed (auto intro: same_store_spared)
qed

lemma CmdBoot_spared:
  assumes "CmdBoot off n S = Some S'" shows "spared E S S'"
proof -
  note F = assms [unfolded CmdBoot_def Let_def]
  show ?thesis
  proof (cases "\<exists>m. S' = FastbootFail m S")
    case False
    then have g: "is_unlocked (DevInfo (DevSt S))" "\<not> n < 1632" using F by (auto split: if_split_asm)
    obtain mem where M: "Boot_header off (DataMem S) = Some mem" using F g by (cases "Boot_header off (DataMem S)") auto
    obtain ms where ms: "PartitionHasMultiSlot (AbSt S) (wide ''boot'') = Some ms"
      using F g M by (cases "PartitionHasMultiSlot (AbSt S) (wide ''boot'')") auto
    show ?thesis
      using F g M ms by (auto simp: spared_def FastbootFail_def FastbootAck_def split: if_split_asm prod.split_asm)
  qed (auto intro: same_store_spared)
qed

lemma Run_cmd_spared:
  assumes "Run_cmd E c arg S = Some S'" "guarded E" "critical_locked S" shows "spared E S S'"
  using assms
  by (cases c)
    (auto intro: CmdFlash_spared CmdErase_spared SetDeviceUnlock_spared CmdBoot_spared kept_spared CmdOemDisplayCommandLine_kept
      CmdContinue_kept CmdOem_kept same_store_kept data_phase_store CmdSetActive_store CmdGetVar_store)

lemma critical_locked_store: "same_store S S1 \<Longrightarrow> critical_locked S \<Longrightarrow> critical_locked S1"
  by (simp add: critical_locked_def same_store_def)

lemma critical_locked_spared: "spared E S S1 \<Longrightarrow> critical_locked S \<Longrightarrow> critical_locked S1"
  by (simp add: critical_locked_def spared_def)

lemma AcceptCmd_spared:
  assumes "AcceptCmd E d S = Some S'" "guarded E" "critical_locked S" shows "spared E S S'"
  using assms(1)
proof (cases rule: AcceptCmd_dispatch)
  case (2 S1 c arg)
  show ?thesis using store_spared [OF 2(1,2) Run_cmd_spared [OF 2(3) assms(2) critical_locked_store [OF 2(1) assms(3)]]] .
qed (rule same_store_spared)

lemma fb_cmd_step_spared:
  assumes "fb_cmd_step E S S'" "guarded E" "critical_locked S" shows "spared E S S'"
  using assms(1)
proof cases
  case (Cmd d)
  show ?thesis using Cmd(3) assms(2,3) by (rule AcceptCmd_spared)
next
  case (Deferred d ds)
  have k: "same_store S (S\<lparr>CmdPending := ds\<rparr>)" by simp
  show ?thesis
    using store_spared [OF k _ AcceptCmd_spared [OF Deferred(3) assms(2) critical_locked_store [OF k assms(3)]]] by simp
next
  case Data
  show ?thesis using same_store_spared [OF fb_step_store [OF Data(2)]] .
qed

text \<open>
  C10: Critical partitions are safe behind their own lock. On a build that checks the locks (\<open>guarded\<close>: verified boot LE or the user
  build variant), with the critical lock closed and unlocking not allowed, but with the device itself unlocked or not: after any sequence of commands and data, every further
  command requests a write or an erase only of devices behind partitions of the table whose names are not critical, or of the misc
  partition, creates UBI volumes under such names only, and the critical lock is still closed.
\<close>

theorem critical_partitions_safe:
  assumes "(fb_cmd_step E)\<^sup>*\<^sup>* S0 S" "fb_cmd_step E S S'" "guarded E" "critical_locked S0"
  shows "spared E S S' \<and> critical_locked S'"
proof -
  have "critical_locked S"
    using assms(1)
  proof (induction rule: rtranclp_induct)
    case (step S S')
    then show ?case using critical_locked_spared [OF fb_cmd_step_spared [OF step(2) assms(3)]] by blast
  qed (rule assms(4))
  then show ?thesis using critical_locked_spared fb_cmd_step_spared [OF assms(2,3)] by blast
qed

section \<open>A sample board\<close>

text \<open>The board of the slot samples, with a small device behind every partition, and a Fastboot application on it.\<close>

definition board_dev :: "nat \<Rightarrow> blk_env" where
  "board_dev j = (mem_dev 512 (replicate 1024 9))\<lparr>DevId := j\<rparr>"

definition board :: fb_cmd_env where
  "board = \<lparr>FbPageSize = 512, OkayEvent = EFI_SUCCESS, OkayTimer = EFI_SUCCESS, FbAb = sample_env,
     FbParts = \<lambda>log. BlkIOHandles sample_env, FbHandle = \<lambda>log i j. (Some (board_dev j), True),
     FbGpt = \<lambda>log l. sample_gpt_env 1, FbDisk = \<lambda>l. 9, FbMisc = misc_board UFS 2048,
     FbVb = \<lparr>VerifiedBootEnbled = False, AvbIsLE = False, VbLocate = EFI_SUCCESS, VbReset = EFI_SUCCESS\<rparr>,
     FbBase = 0x80000000, FbProduct = ''andromeda'', StatusText = \<lambda>s. ''status'', UbiLocate = EFI_SUCCESS,
     UbiOpen = \<lambda>n. EFI_SUCCESS, UbiWrite = \<lambda>n x. EFI_SUCCESS, UbiClose = EFI_SUCCESS, UsbEvent = EFI_SUCCESS, UsbTimer = EFI_SUCCESS,
     RefreshEvent = EFI_SUCCESS, RefreshSignal = EFI_SUCCESS, CmdTimer = EFI_SUCCESS,
     Charger = \<lparr>ChgLocate = EFI_NOT_FOUND, ChgExRevision = False, ChgPowerOk = (EFI_SUCCESS, 0, 0, False), ChgLocateAgain = EFI_NOT_FOUND,
       ChgBattery = (EFI_SUCCESS, False), ChgVoltage = (EFI_SUCCESS, 0), ChgCharger = EFI_SUCCESS\<rparr>,
     DisplaySupported = False, IsEnableDisplayMenuFlagSupported = False, DisplayUnlockMenu = EFI_SUCCESS,
     DisplayVar = (EFI_NOT_FOUND, 0, []), DisplaySet = \<lambda>s. EFI_SUCCESS, SlotPool = True, VarPool = True, StackName = []\<rparr>"

definition board_slots :: "slot_info list" where
  "board_slots = map (\<lambda>s. slot_of s 0) [''a'', ''b'']"

definition board_app :: "bool \<Rightarrow> fb_state" where
  "board_app u = \<lparr>mState = ExpectCmdState, mNumDataBytes = 8, mFlashNumDataBytes = 8, mBytesReceivedSoFar = 0,
     mUsbDataBuffer = 0, mFlashDataBuffer = 8, MaxDownLoadSize = 8, DataMem = replicate 16 7, Queue = None,
     IsFlashComplete = True, UsbTimerEvent = False, UsbTimerStarted = False, OkayPending = 0, Replies = [],
     DevSt = \<lparr>DevInfo = zero_info\<lparr>is_unlocked := u\<rparr>, FirstReadDevInfo = False\<rparr>, AbSt = sample_ab tried_attr backup_attr,
     Log = [], UbiLog = [], SecondaryGpt = False, FlashedGpt = False, LunSet = False, Lun = 0, FlashResult = EFI_SUCCESS,
     IsFirstEraseFlash = False, IsAllowUnlock = 0, BootSlotInfo = Some board_slots, SlotSuffixArray = ''_a,_b,'', SlotCount = 2,
     SlotCountVar = ''2'', InitialPopulate = True, CurrentSlotFB = ''a'', Varlist = [], StrBatteryVoltage = [], StrBatterySocOk = [],
     ChargeScreenEnable = [], OffModeCharge = [], CmdPending = [], PanelSet = [], Exit = None\<rparr>"

lemma board_multislot: "PartitionHasMultiSlot (sample_ab a b) (wide ''boot'') = Some True"
  by (simp add: PartitionHasMultiSlot_def sample_ab_def sample_entry_def StrnCmp_eq_def name_at_def NAME_SIZE_def wide_def ord8_def)

lemma board_guarded: "guarded board"
  by (simp add: guarded_def board_def sample_env_def)

lemma board_locks: "locked (board_app False)" "critical_locked (board_app u)"
  by (simp_all add: locked_def critical_locked_def board_app_def zero_info_def)

lemma board_slot_name: "Slot_name (wide ''boot_b'') (sample_ab a b) = Some ((True, wide ''boot_b'', wide ''_b''), sample_ab a b)"
proof -
  have "GetPartitionIndex (sample_ab a b) (wide ''boot_b'') = Some 1" using sample_ab_facts(1) [of a b] by (simp add: two_slots_def)
  moreover have "has_sub (wide ''boot_b'') (wide ''_b'')" 
    unfolding has_sub_def sublist_def by (rule exI [of _ "wide ''boot''"], rule exI [of _ "[]"]) (simp add: wide_def)
  moreover have "drop (length (wide ''boot_b'') - 2) (wide ''boot_b'') = wide ''_b''" by (simp add: wide_def)
  ultimately show ?thesis by (simp add: Slot_name_def board_multislot GetPartitionHasSlot_def)
qed

lemma board_lun: "Lun_loop (sample_ab a b) (wide ''boot_b'') 0 1 = Some (Some (0, 1))"
  by (subst Lun_loop.simps) (simp add: sample_ab_def sample_entry_def MAX_LUNS_def GetMaxLuns_def NAME_SIZE_def)

lemma board_info:
  "AbSt S = sample_ab a b \<Longrightarrow> \<not> LunSet S \<Longrightarrow> PartitionGetInfo board (wide ''boot_b'') S = Some (EFI_SUCCESS, Some (board_dev 1), True)"
  using board_lun [of a b] by (simp add: PartitionGetInfo_def board_def GetMaxLuns_def sample_ab_def)

lemma board_erase: "EraseWholePartition (board_dev j) log = (EFI_SUCCESS, log @ [(j, EraseOp)])"
proof -
  have "unat (GetPartitionSize (Some (1, 512))) = 1024" unfolding GetPartitionSize_exact by simp
  then have "GetPartitionSize (Some (1, 512)) \<noteq> 0" by auto
  then show ?thesis by (simp add: EraseWholePartition_def board_dev_def mem_dev_def)
qed

lemma board_erased:
  assumes "AbSt S = sample_ab a b" "\<not> LunSet S"
  shows "FastbootErasePartition board (wide ''boot_b'') S = Some (EFI_SUCCESS, S\<lparr>Log := Log S @ [(1, EraseOp)]\<rparr>)"
proof -
  have "wide ''boot_b'' \<noteq> wide ''userdata''" by (simp add: wide_def)
  then show ?thesis by (simp add: FastbootErasePartition_def board_info [OF assms] board_erase Let_def)
qed

lemma AcceptCmd_erase:
  assumes "IsFlashComplete S" "\<not> IsFirstEraseFlash S" "FlashResult S = EFI_SUCCESS" "length arg < 58" "NUL \<notin> set arg"
  shows "AcceptCmd E (''erase:'' @ arg) S = CmdErase E arg (StopUsbTimer S)"
proof -
  have "takeWhile (\<lambda>c. c \<noteq> NUL) (take MAX_FASTBOOT_COMMAND_SIZE (''erase:'' @ arg)) = ''erase:'' @ arg"
    using assms(4,5) by (auto simp: MAX_FASTBOOT_COMMAND_SIZE_def takeWhile_eq_all_conv)
  then show ?thesis
    using assms(1-3) by (simp add: AcceptCmd_def Let_def Check_last_def Battery_check_def Dispatch_def cmdlist_def cmd_list_def
        FastbootRegister_def StopUsbTimer_def)
qed


theorem locked_device_safe_witness:
  "\<exists>S. fb_cmd_step board (board_app False) S \<and> kept (board_app False) S \<and> locked S"
proof -
  have "AcceptCmd board (''erase:'' @ ''boot_b'') (board_app False) = CmdErase board ''boot_b'' (StopUsbTimer (board_app False))"
    by (rule AcceptCmd_erase) (simp_all add: board_app_def)
  also have "\<dots> = Some (FastbootFail ''Erase is not allowed in Lock State'' (StopUsbTimer (board_app False)))"
    by (simp add: CmdErase_def StopUsbTimer_def board_app_def board_multislot MAX_GPT_NAME_SIZE_def Lock_check_def board_def
        sample_env_def zero_info_def)
  finally have "fb_cmd_step board (board_app False) (FastbootFail ''Erase is not allowed in Lock State'' (StopUsbTimer (board_app False)))"
    by (intro fb_cmd_step.Cmd) (simp_all add: board_app_def)
  then show ?thesis using locked_device_safe [OF r_into_rtranclp board_guarded board_locks(1)] by blast
qed

theorem critical_partitions_safe_witness:
  "\<exists>S. fb_cmd_step board (board_app True) S \<and> spared board (board_app True) S \<and> Log S = [(1, EraseOp)]"
proof -
  let ?S = "StopUsbTimer (board_app True)"
  have "AcceptCmd board (''erase:'' @ ''boot_b'') (board_app True) = CmdErase board ''boot_b'' ?S"
    by (rule AcceptCmd_erase) (simp_all add: board_app_def)
  moreover have "Lock_check board ''Erase'' (wide ''boot_b'') ?S = None"
    by (simp add: Lock_check_def IsCritical_iff CriticalPartitions_def wide_def ord8_def board_app_def StopUsbTimer_def)
  moreover have "AbSt ?S = sample_ab tried_attr backup_attr" by (simp add: board_app_def StopUsbTimer_def)
  moreover have "FastbootErasePartition board (wide ''boot_b'') ?S = Some (EFI_SUCCESS, ?S\<lparr>Log := [(1, EraseOp)]\<rparr>)"
    using board_erased [of ?S tried_attr backup_attr] by (simp add: board_app_def StopUsbTimer_def)
  moreover obtain S where U: "FastbootUpdateAttr (wide ''_b'') (?S\<lparr>Log := [(1, EraseOp)]\<rparr>) = Some S" "Log S = [(1, EraseOp)]"
    by (rule FastbootUpdateAttr_some [of "?S\<lparr>Log := [(1, EraseOp)]\<rparr>" "wide ''_b''"])
      (simp_all add: board_app_def StopUsbTimer_def)
  moreover have "StrnCmp_eq (wide ''boot_b'') (wide ''boot'') 4" by (simp add: StrnCmp_eq_def wide_def)
  moreover have "?S\<lparr>AbSt := sample_ab tried_attr backup_attr\<rparr> = ?S" by (simp add: board_app_def StopUsbTimer_def)
  ultimately have "AcceptCmd board (''erase:'' @ ''boot_b'') (board_app True) = Some (FastbootOkay [] S)"
    by (simp add: CmdErase_def Erase_partition_def board_multislot board_slot_name MAX_GPT_NAME_SIZE_def EFI_ERROR_def)
  then have "fb_cmd_step board (board_app True) (FastbootOkay [] S)" by (intro fb_cmd_step.Cmd) (simp_all add: board_app_def)
  then show ?thesis
    using critical_partitions_safe [OF rtranclp.rtrancl_refl _ board_guarded board_locks(2)] U(2)
    by (intro exI [of _ "FastbootOkay [] S"]) (simp add: FastbootOkay_def FastbootAck_def)
qed

text \<open>The same board without the user build variant: its locks are closed, and the host erases a partition.\<close>

definition open_board :: fb_cmd_env where
  "open_board = board\<lparr>FbAb := sample_env\<lparr>TargetBuildVariantUser := False\<rparr>\<rparr>"

lemma unguarded_locked_erase:
  "\<not> guarded open_board \<and> locked (board_app False) \<and> (\<exists>S. fb_cmd_step open_board (board_app False) S \<and> Log S = [(1, EraseOp)])"
proof -
  let ?S = "StopUsbTimer (board_app False)"
  have g: "\<not> guarded open_board" by (simp add: guarded_def open_board_def board_def)
  have a: "AbSt ?S = sample_ab tried_attr backup_attr" by (simp add: board_app_def StopUsbTimer_def)
  have h: "FbHandle open_board = FbHandle board" by (simp add: open_board_def)
  have "PartitionGetInfo open_board (wide ''boot_b'') ?S = PartitionGetInfo board (wide ''boot_b'') ?S"
    unfolding PartitionGetInfo_def h ..
  also have "\<dots> = Some (EFI_SUCCESS, Some (board_dev 1), True)"
    by (rule board_info [OF a]) (simp add: board_app_def StopUsbTimer_def)
  finally have e: "FastbootErasePartition open_board (wide ''boot_b'') ?S = Some (EFI_SUCCESS, ?S\<lparr>Log := [(1, EraseOp)]\<rparr>)"
    by (simp add: FastbootErasePartition_def board_erase Let_def wide_def board_app_def StopUsbTimer_def)
  have "?S\<lparr>AbSt := sample_ab tried_attr backup_attr\<rparr> = ?S" by (simp add: board_app_def StopUsbTimer_def)
  then have "FastbootErasePartition open_board (wide ''boot_b'') (?S\<lparr>AbSt := sample_ab tried_attr backup_attr\<rparr>) =
      Some (EFI_SUCCESS, ?S\<lparr>Log := [(1, EraseOp)]\<rparr>)" by (simp only: e)
  moreover obtain S where "FastbootUpdateAttr (wide ''_b'') (?S\<lparr>Log := [(1, EraseOp)]\<rparr>) = Some S" "Log S = [(1, EraseOp)]"
    by (rule FastbootUpdateAttr_some [of "?S\<lparr>Log := [(1, EraseOp)]\<rparr>" "wide ''_b''"])
      (simp_all add: board_app_def StopUsbTimer_def)
  moreover have "StrnCmp_eq (wide ''boot_b'') (wide ''boot'') 4" by (simp add: StrnCmp_eq_def wide_def)
  ultimately have "CmdErase open_board ''boot_b'' ?S = Some (FastbootOkay [] S)"
    using a by (simp add: CmdErase_def Erase_partition_def board_multislot board_slot_name MAX_GPT_NAME_SIZE_def EFI_ERROR_def
        Lock_check_unguarded [OF g])
  moreover have "AcceptCmd open_board (''erase:'' @ ''boot_b'') (board_app False) = CmdErase open_board ''boot_b'' ?S"
    by (rule AcceptCmd_erase) (simp_all add: board_app_def)
  ultimately have "fb_cmd_step open_board (board_app False) (FastbootOkay [] S)"
    by (intro fb_cmd_step.Cmd) (simp_all add: board_app_def)
  then show ?thesis
    using g board_locks(1) \<open>Log S = [(1, EraseOp)]\<close> by (auto simp: FastbootOkay_def FastbootAck_def)
qed

end
