(* ===== verification/Fastboot_Session.thy ===== *)
theory Fastboot_Session
  imports Fastboot_Cmds
begin

text \<open>
  Whole sessions of Fastboot: a download followed by a flash command, from the bytes of the host to the bytes of the partition,
  and the commands that end in an error.
\<close>

section \<open>What a download leaves alone\<close>

lemma ack_more [simp]:
  "fb_data.more (FastbootOkayDelay F S) = fb_data.more S" "fb_data.more (StopUsbTimer S) = fb_data.more S"
  "fb_data.more (ProcessBulkXfrCompleteTx S) = fb_data.more S" "fb_data.more (CmdDownload arg S) = fb_data.more S"
  by (simp_all add: FastbootOkayDelay_def StopUsbTimer_def ProcessBulkXfrCompleteTx_def CmdDownload_def Let_def
      FastbootFail_def FastbootAck_def)

lemma Data_finished_more:
  assumes "Data_finished F S = Some S'" shows "fb_data.more S' = fb_data.more S"
proof -
  obtain mem where "S' = FastbootOkayDelay F (StopUsbTimer (S\<lparr>DataMem := mem, mState := ExpectCmdState\<rparr>))"
    using assms by (auto simp: Data_finished_def Let_def bind_eq_Some_conv)
  then show ?thesis by simp
qed

lemma AcceptData_more:
  assumes "AcceptData F n S = Some S'" shows "fb_data.more S' = fb_data.more S"
proof -
  consider k where "Data_finished F (S\<lparr>mBytesReceivedSoFar := k\<rparr>) = Some S'" | k q where "S' = S\<lparr>mBytesReceivedSoFar := k, Queue := q\<rparr>"
    using assms unfolding AcceptData_def Let_def by (auto split: if_split_asm)
  then show ?thesis
  proof cases
    case 1
    from Data_finished_more [OF 1] show ?thesis by simp
  qed simp
qed

lemma ReceiveData_more:
  assumes "ReceiveData F xs S = Some S'" shows "fb_data.more S' = fb_data.more S"
proof (cases "\<exists>off n. Queue S = Some (DataBuffer off, n)")
  case True
  then obtain off n where q: "Queue S = Some (DataBuffer off, n)" by blast
  then obtain mem where "AcceptData F (word_of_nat (length xs)) (S\<lparr>DataMem := mem, Queue := None\<rparr>) = Some S'"
    using assms unfolding ReceiveData_def q by (cases "put off xs (DataMem S)") simp_all
  from AcceptData_more [OF this] show ?thesis by simp
next
  case False
  then have "S' = S" using assms unfolding ReceiveData_def by (auto split: option.split_asm prod.split_asm rx_dst.split_asm)
  then show ?thesis by simp
qed

lemma Receive_all_more: "Receive_all F xss S = Some S' \<Longrightarrow> fb_data.more S' = fb_data.more S"
proof (induction xss arbitrary: S)
  case (Cons xs xss)
  then obtain S1 where S1: "ReceiveData F xs S = Some S1" "Receive_all F xss S1 = Some S'"
    by (cases "ReceiveData F xs S") auto
  then show ?case using Cons.IH ReceiveData_more by metis
qed simp

lemma more_fields:
  fixes S S' :: "'a fb_state_scheme"
  assumes "fb_data.more S' = fb_data.more S"
  shows "DevSt S' = DevSt S" "AbSt S' = AbSt S" "Log S' = Log S" "SlotCount S' = SlotCount S" "BootSlotInfo S' = BootSlotInfo S"
  using assms by (cases S; cases S'; simp)+

section \<open>Raw images\<close>

definition raw_image :: "bytes \<Rightarrow> bool" where
  "raw_image img \<longleftrightarrow> 4 \<le> length img \<and> dec32 (take 4 img) \<notin> {SPARSE_HEADER_MAGIC, META_HEADER_MAGIC} \<and> take 4 img \<noteq> ascii ''UBI#''"

text \<open>A device that holds \<open>d\<close>, accepts every write and reads what was written.\<close>

definition good_device :: "blk_env \<Rightarrow> bytes \<Rightarrow> dev_log \<Rightarrow> bool" where
  "good_device B d log \<longleftrightarrow> block_size (MediaBlockSize B) \<and> writes_ok B \<and> BlkPoolOk B \<and> serves B d log \<and>
     length d = (unat (MediaLastBlock B) + 1) * unat (MediaBlockSize B) \<and> length d < 2 ^ 64"

text \<open>A name that is neither the key nor a partition table, and names no LUN.\<close>

definition plain_name :: "string \<Rightarrow> bool" where
  "plain_name arg \<longleftrightarrow> length arg < MAX_GPT_NAME_SIZE \<and> after_sub '':'' arg = None \<and> \<not> prefix ''avb_custom_key'' arg \<and>
     \<not> prefix ''partition'' arg"

lemma good_device_size: "good_device B d log \<Longrightarrow> unat (blk_size (Some B)) = length d"
  by (simp add: good_device_def blk_size_def GetPartitionSize_exact)

lemma round_up_exact: "0 < b \<Longrightarrow> (k * b + b - 1) div b = (k :: nat)"
  using div_mult_self1 [of b "b - 1" k] by (simp add: add.commute)

lemma Partition_write_exact:
  assumes "good_device B d (Log S)" "PartitionGetInfo E n' S = Some (EFI_SUCCESS, Some B, True)" "\<not> IsNand E"
    and "0 < n" "unat n < 2 ^ 32" "unat n \<le> length img" "unat n \<le> length d"
  shows "\<exists>ws. Partition_write E img n n' S = Some ((EFI_SUCCESS, True), Log S @ as_ops (DevId B) ws) \<and>
    (\<forall>w \<in> set ws. inside (unat (MediaBlockSize B)) (length d) w) \<and>
    paint (unat (MediaBlockSize B)) ws d = patch d 0 (take (unat n) img)"
proof -
  let ?bs = "unat (MediaBlockSize B)" and ?k = "unat (MediaLastBlock B) + 1"
  have g: "block_size (MediaBlockSize B)" "writes_ok B" "BlkPoolOk B" "serves B d (Log S)" "length d = ?k * ?bs" "length d < 2 ^ 64"
    using assms(1) by (simp_all add: good_device_def)
  note bs = unat_block_size [OF g(1)]
  have "(unat n + ?bs - 1) div ?bs \<le> (?k * ?bs + ?bs - 1) div ?bs" using assms(7) g(5) by (intro div_le_mono) simp
  also have "\<dots> = ?k" using bs(1) by (rule round_up_exact)
  finally have "(unat n + ?bs - 1) div ?bs * ?bs \<le> length d" unfolding g(5) by (rule mult_le_mono1)
  then have fits: "(unat (0 :: u64) + (unat n + ?bs - 1) div ?bs) * ?bs \<le> length d" by simp
  have sz: "\<not> (blk_size (Some B) < n \<or> blk_size (Some B) = 0)"
    using good_device_size [OF assms(1)] assms(4,7) by (auto simp: word_less_nat_alt)
  show ?thesis
    using Write_exact [OF g(1-4) assms(5,6) g(6) fits, where Handle = True and SplitNeeded = "IsFlashSplitNeeded S"] assms(2,3) sz
    unfolding Partition_write_def by auto
qed

text \<open>What the flashing of a raw image needs of the state.\<close>

definition raw_target :: "'e fb_cmd_env_scheme \<Rightarrow> name16 \<Rightarrow> blk_env \<Rightarrow> 'a fb_state_scheme \<Rightarrow> bool" where
  "raw_target E Pname B S \<longleftrightarrow> \<not> IsNand E \<and> (SlotCount S = 0 \<or> BootSlotInfo S \<noteq> None) \<and>
     (case Slot_name Pname (AbSt S) of
        None \<Rightarrow> False
      | Some ((HasSlot, Pname, Suffix), A) \<Rightarrow>
          (case Lun_loop A Pname 0 (word_of_nat (GetMaxLuns A)) of
             Some (Some (i, j)) \<Rightarrow> FbHandle E (Log S) i j = (Some B, True)
           | _ \<Rightarrow> False))"

lemma HandleRawImgFlash_exact:
  assumes "raw_target E Pname B S" "good_device B d (Log S)" "\<not> LunSet S"
    and "0 < n" "unat n < 2 ^ 32" "unat n \<le> length img" "unat n \<le> length d"
  obtains n' ws S' where "HandleRawImgFlash E img n Pname S = Some (EFI_SUCCESS, n', S')"
    "Log S' = Log S @ as_ops (DevId B) ws" "\<forall>w \<in> set ws. inside (unat (MediaBlockSize B)) (length d) w"
    "paint (unat (MediaBlockSize B)) ws d = patch d 0 (take (unat n) img)" "Replies S' = Replies S"
proof -
  obtain hs n' s A i j where N: "Slot_name Pname (AbSt S) = Some ((hs, n', s), A)" and nand: "\<not> IsNand E"
    and L: "Lun_loop A n' 0 (word_of_nat (GetMaxLuns A)) = Some (Some (i, j))" "FbHandle E (Log S) i j = (Some B, True)"
    and B: "SlotCount S = 0 \<or> BootSlotInfo S \<noteq> None"
    using assms(1) unfolding raw_target_def by (auto split: option.splits)
  define S1 where "S1 = S\<lparr>AbSt := A\<rparr>"
  have S1: "good_device B d (Log S1)" "PartitionGetInfo E n' S1 = Some (EFI_SUCCESS, Some B, True)"
    using assms(2,3) L by (simp_all add: S1_def PartitionGetInfo_def)
  obtain ws where W: "Partition_write E img n n' S1 = Some ((EFI_SUCCESS, True), Log S1 @ as_ops (DevId B) ws)"
    "\<forall>w \<in> set ws. inside (unat (MediaBlockSize B)) (length d) w"
    "paint (unat (MediaBlockSize B)) ws d = patch d 0 (take (unat n) img)"
    using Partition_write_exact [OF S1 nand assms(4-7)] by blast
  define S2 where "S2 = S1\<lparr>Log := Log S1 @ as_ops (DevId B) ws\<rparr>"
  have H: "HandleRawImgFlash E img n Pname S =
      do { S \<leftarrow> (if hs \<and> StrnCmp_eq n' (wide ''boot'') 4 then FastbootUpdateAttr s S2 else Some S2); Some (EFI_SUCCESS, n', S) }"
    unfolding HandleRawImgFlash_def N bind.bind_lunit prod.case Let_def S1_def [symmetric] W(1) S2_def [symmetric] by simp
  have L2: "Log S2 = Log S @ as_ops (DevId B) ws" "Replies S2 = Replies S" by (simp_all add: S2_def S1_def)
  have "SlotCount S2 = 0 \<or> BootSlotInfo S2 \<noteq> None" using B by (simp add: S2_def S1_def)
  then obtain S3 where U: "FastbootUpdateAttr s S2 = Some S3" "Log S3 = Log S2" "Replies S3 = Replies S2"
    by (rule FastbootUpdateAttr_some)
  show thesis
    using that [of n' "if hs \<and> StrnCmp_eq n' (wide ''boot'') 4 then S3 else S2" ws] H U L2 W(2,3) by simp
qed

lemma Flash_image_raw:
  assumes "raw_image (take k (flash_mem S))" "HandleRawImgFlash E (flash_mem S) (mFlashNumDataBytes S) Pname S = Some (EFI_SUCCESS, n', S')"
  shows "Flash_image E Pname S = Some (FastbootOkay [] (S'\<lparr>FlashResult := EFI_SUCCESS\<rparr>))"
proof -
  define img where "img = flash_mem S"
  have r: "4 \<le> length (take k img)" "dec32 (take 4 (take k img)) \<notin> {SPARSE_HEADER_MAGIC, META_HEADER_MAGIC}"
    "take 4 (take k img) \<noteq> ascii ''UBI#''"
    using assms(1) unfolding raw_image_def img_def by blast+
  have k: "take 4 (take k img) = take 4 img" "4 \<le> length img" using r(1) by (auto simp: min_def split: if_splits)
  have m: "rd img 0 4 = Some (take 4 img)" using k(2) by (simp add: rd_def)
  have "Flash_other E Pname S = Some (EFI_SUCCESS, n', S')"
    using assms(2) r k m unfolding Flash_other_def img_def [symmetric] by simp
  then show ?thesis
    using r k m unfolding Flash_image_def img_def [symmetric] rd32_def by (simp add: Flash_answer_def EFI_ERROR_def)
qed

lemma Flash_out_fields: "Log (Flash_out arg S) = Log S" "Replies (Flash_out arg S) = Replies S" "FlashResult (Flash_out arg S) = FlashResult S"
  by (simp_all add: Flash_out_def Let_def)

lemma Lock_check_cong: "DevSt S' = DevSt S \<Longrightarrow> Lock_check E w n S' = Lock_check E w n S"
  by (simp add: Lock_check_def)

lemma raw_target_cong:
  "AbSt S' = AbSt S \<Longrightarrow> Log S' = Log S \<Longrightarrow> SlotCount S' = SlotCount S \<Longrightarrow> BootSlotInfo S' = BootSlotInfo S \<Longrightarrow>
   raw_target E n B S' = raw_target E n B S"
  unfolding raw_target_def by (simp only:)

lemma CmdFlash_raw:
  fixes S :: "'a fb_state_scheme"
  defines "img \<equiv> take (unat (mNumDataBytes S)) (drop (mUsbDataBuffer S) (DataMem S))"
  assumes "plain_name arg" "Lock_check E ''Flashing'' (wide arg) S = None" "raw_target E (wide arg) B S" "good_device B d (Log S)"
    and "raw_image img" "length img = unat (mNumDataBytes S)" "unat (mNumDataBytes S) < 2 ^ 32" "length img \<le> length d"
  shows "\<exists>S' ws. CmdFlash E arg x k S = Some S' \<and> Log S' = Log S @ as_ops (DevId B) ws \<and>
    (\<forall>w \<in> set ws. inside (unat (MediaBlockSize B)) (length d) w) \<and>
    paint (unat (MediaBlockSize B)) ws d = patch d 0 img \<and> Replies S' = Replies S @ [''OKAY''] \<and> FlashResult S' = EFI_SUCCESS"
proof -
  define S1 where "S1 = ExchangeFlashAndUsbDataBuf (S\<lparr>LunSet := False\<rparr>)"
  have e: "Log S1 = Log S" "AbSt S1 = AbSt S" "SlotCount S1 = SlotCount S" "BootSlotInfo S1 = BootSlotInfo S" "DevSt S1 = DevSt S"
    "\<not> LunSet S1" "Replies S1 = Replies S" "DataMem S1 = DataMem S"
    "mFlashNumDataBytes S1 = mNumDataBytes S" "flash_mem S1 = drop (mUsbDataBuffer S) (DataMem S)"
    by (simp_all add: S1_def ExchangeFlashAndUsbDataBuf_def flash_mem_def)
  have T: "raw_target E (wide arg) B S1" using assms(4) unfolding raw_target_cong [OF e(2,1,3,4)] .
  have n: "0 < mNumDataBytes S" "unat (mNumDataBytes S) \<le> length (flash_mem S1)" "DataMem S \<noteq> []"
    using assms(6,7) unfolding e img_def by (auto simp: raw_image_def word_gt_0)
  have len: "unat (mNumDataBytes S) \<le> length d" using assms(7,9) by simp
  obtain n' ws S2 where H: "HandleRawImgFlash E (flash_mem S1) (mFlashNumDataBytes S1) (wide arg) S1 = Some (EFI_SUCCESS, n', S2)"
    and H': "Log S2 = Log S1 @ as_ops (DevId B) ws" "\<forall>w \<in> set ws. inside (unat (MediaBlockSize B)) (length d) w"
    "paint (unat (MediaBlockSize B)) ws d = patch d 0 (take (unat (mFlashNumDataBytes S1)) (flash_mem S1))" "Replies S2 = Replies S1"
    using HandleRawImgFlash_exact [OF T assms(5) [folded e(1)] e(6), of "mFlashNumDataBytes S1" "flash_mem S1", unfolded e(9),
        OF n(1) assms(8) n(2) len, folded e(9)] .
  note H' = H' [unfolded e, folded img_def]
  have I: "raw_image (take (unat (mNumDataBytes S)) (flash_mem S1))" using assms(6) unfolding e img_def .
  have nand: "\<not> IsNand E" using assms(4) by (simp add: raw_target_def)
  have lc: "Lock_check E ''Flashing'' (wide arg) S1 = None" using assms(3) unfolding Lock_check_cong [OF e(5)] .
  have "CmdFlash E arg x k S = Flash_partition E arg S1"
    using assms(2) lc n(3) e(8)
    unfolding CmdFlash_def Let_def S1_def [symmetric] by (simp add: plain_name_def)
  also have "\<dots> = Some (Flash_out arg (FastbootOkay [] (S2\<lparr>FlashResult := EFI_SUCCESS\<rparr>)))"
    using assms(2) nand Flash_image_raw [OF I H] by (simp add: Flash_partition_def Flash_lun_def plain_name_def)
  finally show ?thesis using H' by (auto simp: Flash_out_fields FastbootOkay_def FastbootAck_def MAX_RSP_SIZE_def)
qed

lemma Dispatch_flash:
  "Dispatch E (''flash:'' @ arg) S = CmdFlash E arg (drop (mUsbDataBuffer S) (DataMem S)) (ucast (mBytesReceivedSoFar S)) S"
  by (simp add: Dispatch_def cmdlist_def cmd_list_def FastbootRegister_def)

lemma Dispatch_download: "Dispatch E (''download:'' @ arg) S = Some (CmdDownload arg S)"
  by (simp add: Dispatch_def cmdlist_def cmd_list_def FastbootRegister_def)

text \<open>
  C11: From the host to the partition. A host announces a download, sends the bytes in packets of any sizes up to 16 MB and asks to flash a raw image to a
  partition that is there, whose lock allows it and whose device holds \<open>d\<close>: the commands are accepted, the requests stay inside the
  partition, which then holds the bytes of the host and behind them what it had, and the answer is \<open>OKAY\<close>.
\<close>

theorem download_flash_exact:
  fixes S :: "'a fb_state_scheme"
  assumes "fb_inv S" "mState S = ExpectCmdState" "block_size (FbPageSize E)"
    and "AsciiStrHexToUint64 hex = n" "0 < n" "n \<le> MaxDownLoadSize S"
    and "\<forall>xs \<in> set xss. xs \<noteq> [] \<and> length xs \<le> 0x1000000" "length (concat xss) = unat n"
    and "plain_name arg" "Lock_check E ''Flashing'' (wide arg) S = None" "raw_target E (wide arg) B S" "good_device B d (Log S)"
    and "raw_image (concat xss)" "length (concat xss) \<le> length d"
  shows "\<exists>S0 S1 S2 ws. Dispatch E (''download:'' @ hex) S = Some S0 \<and>
    Receive_all (fb_env.truncate E) xss (ProcessBulkXfrCompleteTx S0) = Some S1 \<and>
    Dispatch E (''flash:'' @ arg) S1 = Some S2 \<and> Log S2 = Log S @ as_ops (DevId B) ws \<and>
    (\<forall>w \<in> set ws. inside (unat (MediaBlockSize B)) (length d) w) \<and>
    paint (unat (MediaBlockSize B)) ws d = concat xss @ drop (unat n) d \<and>
    Replies S2 = Replies S1 @ [''OKAY''] \<and> FlashResult S2 = EFI_SUCCESS"
proof -
  have F: "block_size (FbPageSize (fb_env.truncate E))" using assms(3) by (simp add: fb_env.truncate_def)
  obtain S1 where R: "Receive_all (fb_env.truncate E) xss (ProcessBulkXfrCompleteTx (CmdDownload hex S)) = Some S1"
    and r: "received (S\<lparr>mNumDataBytes := n\<rparr>) (concat xss) S1"
    using download_received [OF assms(1,2) F assms(4-8)] by blast
  have "fb_data.more S1 = fb_data.more S" using Receive_all_more [OF R] by simp
  note f = more_fields [OF this]
  have N: "mNumDataBytes S1 = n" and img: "take (unat n) (drop (mUsbDataBuffer S1) (DataMem S1)) = concat xss"
    using r [unfolded received_def] assms(8) by auto
  have "unat n < 2 ^ 32" using assms(1,6) by (simp add: fb_inv_def word_le_nat_alt)
  moreover have "raw_target E (wide arg) B S1" using assms(11) unfolding raw_target_cong [OF f(2,3,4,5)] .
  moreover have "Lock_check E ''Flashing'' (wide arg) S1 = None" using assms(10) unfolding Lock_check_cong [OF f(1)] .
  ultimately obtain S2 ws where "Dispatch E (''flash:'' @ arg) S1 = Some S2" "Log S2 = Log S @ as_ops (DevId B) ws"
    "\<forall>w \<in> set ws. inside (unat (MediaBlockSize B)) (length d) w"
    "paint (unat (MediaBlockSize B)) ws d = patch d 0 (concat xss)" "Replies S2 = Replies S1 @ [''OKAY'']" "FlashResult S2 = EFI_SUCCESS"
    using CmdFlash_raw [of arg E S1 B d] assms(8,9,12-14) unfolding Dispatch_flash N img f by blast
  moreover have "patch d 0 (concat xss) = concat xss @ drop (unat n) d" using assms(8) by (simp add: patch_def)
  ultimately show ?thesis using R Dispatch_download by metis
qed

section \<open>Choosing a slot\<close>

lemma MultiSlot_loop_names: "map PartitionName es = map PartitionName es' \<Longrightarrow> MultiSlot_loop n es k = MultiSlot_loop n es' k"
proof (induction es arbitrary: es' k)
  case (Cons e es)
  then obtain e' es1 where "es' = e' # es1" "PartitionName e = PartitionName e'" and m: "map PartitionName es = map PartitionName es1" by auto
  then show ?case by (simp only: MultiSlot_loop.simps Cons.IH [OF m])
qed simp

lemma PartitionHasMultiSlot_names: "part_names A' = part_names A \<Longrightarrow> PartitionHasMultiSlot A' n = PartitionHasMultiSlot A n"
  unfolding PartitionHasMultiSlot_def part_names_def by (rule MultiSlot_loop_names)

lemma ascii_of_wide [simp]: "ascii_of (wide s) = s"
proof -
  have "char_of (unat (word_of_nat (ord8 c) :: u16)) = c" for c
    using less_trans [OF nat_of_char_less_256 [of c], of "2 ^ 16"] by (simp add: ord8_def unat_of_nat)
  then show ?thesis by (simp add: ascii_of_def wide_def comp_def)
qed

lemma Mark_first_none: "(\<forall>i \<in> set is. \<not> has_sub (SlotSuffix i) s) \<Longrightarrow> Mark_first s is = None"
  by (induction "is") auto

lemma Mark_first_some: "\<exists>i \<in> set is. has_sub (SlotSuffix i) s \<Longrightarrow> \<exists>is'. Mark_first s is = Some is'"
  by (induction "is") auto

lemma has_sub_set: "has_sub s sub \<Longrightarrow> set sub \<subseteq> set s"
  by (auto simp: has_sub_def dest: set_mono_sublist)

lemma has_sub_char [simp]: "has_sub s [c] \<longleftrightarrow> c \<in> set s"
  by (auto simp: has_sub_def sublist_def in_set_conv_decomp)

lemma has_sub_tail: "has_sub s (c # cs) \<Longrightarrow> has_sub s cs"
  by (auto simp: has_sub_def sublist_def) (metis append_Cons append_Nil append_assoc)

lemma Set_active_good:
  assumes "good_table (AbSt S)" "PartitionHasMultiSlot (AbSt S) (wide ''boot'') = Some True" "slot_ok (wide (Slot_suffix s))"
  obtains A where "current_slot A = Some (wide (Slot_suffix s))"
    "Set_active E s S = do {
        is \<leftarrow> BootSlotInfo S; is \<leftarrow> Mark_first s is;
        Some (FastbootOkay [] (S\<lparr>AbSt := A, CurrentSlotFB := drop 1 (ascii_of (wide (Slot_suffix s))), BootSlotInfo := Some is\<rparr>)) }"
proof -
  let ?t = "wide (Slot_suffix s)"
  obtain a b c S1 where ab: "two_slots (AbSt S) a b" "short_names (AbSt S)" "GetActiveSlot [] (AbSt S) = (EFI_SUCCESS, c, S1)"
    using good_tableE [OF assms(1)] .
  obtain A where A: "SetActiveSlot (ab_env_now E S) (Some ?t) True (AbSt S) = Some (EFI_SUCCESS, A)" "part_names A = part_names (AbSt S)"
    and v: "view A (slot_index a b ?t) = \<lparr>priority = 3, active = True, retry = 7,
        successful = bit (Attr S1 (slot_index a b ?t)) 54 \<and> \<not> True, unbootable = False\<rparr>"
      "view A (slot_index b a ?t) = (view S1 (slot_index b a ?t))\<lparr>priority := 2, active := False\<rparr>"
    using SetActiveSlot_effect [OF ab(1,2) assms(3) ab(3), of "ab_env_now E S" True] by blast
  have two: "two_slots A a b" using two_slots_cong [OF A(2)] ab(1) by simp
  have pick: "pick_slot (view A a) (view A b) = Some ?t"
    by (rule pick_slot_index [where v = "view A", OF assms(3) v]) (simp_all add: word_gt_0)
  have G: "GetCurrentSlotSuffix A = Some (?t, A)"
    using assms(2) PartitionHasMultiSlot_names [OF A(2)] GetActiveSlot_pick [OF two pick] by (simp add: GetCurrentSlotSuffix_def)
  have "Set_active E s S = do {
        is \<leftarrow> BootSlotInfo S; is \<leftarrow> Mark_first s is;
        Some (FastbootOkay [] (S\<lparr>AbSt := A, CurrentSlotFB := drop 1 (ascii_of ?t), BootSlotInfo := Some is\<rparr>)) }"
    using G by (simp add: Set_active_def A(1) Set_current_def UpdatePartitionAttributes_def)
  then show thesis using that current_slot_pick [OF two pick] by blast
qed

lemma Dispatch_set_active: "Dispatch E (''set_active'' @ arg) S = CmdSetActive E arg S"
  by (simp add: Dispatch_def cmdlist_def cmd_list_def FastbootRegister_def)

text \<open>
  C39: \<open>set_active\<close> and its argument. On a device with two slots that may change them, \<open>set_active:a\<close> makes the slot the active one,
  also in the variable \<open>current-slot\<close>, and answers \<open>OKAY\<close>. The form with the underscore, which the list of suffixes accepts as well,
  finds no slot information, whose suffixes are kept without it, and the search leaves its array.
\<close>

theorem set_active_forms:
  assumes "good_table (AbSt S)" "PartitionHasMultiSlot (AbSt S) (wide ''boot'') = Some True"
    and "TargetBuildVariantUser (FbAb E) \<longrightarrow> is_unlocked (DevInfo (DevSt S))" "c = CHR ''a'' \<or> c = CHR ''b''"
    and "has_sub (SlotSuffixArray S) [CHR ''_'', c]" "BootSlotInfo S = Some infos"
    and "\<forall>i \<in> set infos. CHR ''_'' \<notin> set (SlotSuffix i)" "\<exists>i \<in> set infos. c \<in> set (SlotSuffix i)"
  shows "(\<exists>S'. Dispatch E (''set_active:'' @ [c]) S = Some S' \<and> current_slot (AbSt S') = Some (wide [CHR ''_'', c]) \<and>
      CurrentSlotFB S' = [c] \<and> Replies S' = Replies S @ [''OKAY'']) \<and>
    Dispatch E (''set_active:'' @ [CHR ''_'', c]) S = None"
proof
  have c: "slot_ok (wide [CHR ''_'', c])" "CHR '':'' \<noteq> c" using assms(4) by (auto simp: slot_ok_def)
  have suf: "Slot_suffix [c] = [CHR ''_'', c]" "Slot_suffix [CHR ''_'', c] = [CHR ''_'', c]"
    using assms(4) by (auto simp: Slot_suffix_def MAX_SLOT_SUFFIX_SZ_def)
  have D: "Dispatch E (''set_active:'' @ s) S = Set_active E s S" if "s = [c] \<or> s = [CHR ''_'', c]" for s
    using Dispatch_set_active [of E "'':'' @ s" S] that assms(2,3,5) has_sub_tail [OF assms(5)]
    by (auto simp: CmdSetActive_def MAX_SLOT_SUFFIX_SZ_def)
  obtain A where A: "current_slot A = Some (wide [CHR ''_'', c])" "Set_active E [c] S = do {
      is \<leftarrow> BootSlotInfo S; is \<leftarrow> Mark_first [c] is;
      Some (FastbootOkay [] (S\<lparr>AbSt := A, CurrentSlotFB := drop 1 (ascii_of (wide [CHR ''_'', c])), BootSlotInfo := Some is\<rparr>)) }"
    using Set_active_good [of S "[c]" E] assms(1,2) c(1) unfolding suf by blast
  have a: "drop 1 (ascii_of (wide [CHR ''_'', c])) = [c]" by simp
  obtain is' where "Mark_first [c] infos = Some is'" using Mark_first_some [of infos "[c]"] assms(8) by auto
  then show "\<exists>S'. Dispatch E (''set_active:'' @ [c]) S = Some S' \<and> current_slot (AbSt S') = Some (wide [CHR ''_'', c]) \<and>
      CurrentSlotFB S' = [c] \<and> Replies S' = Replies S @ [''OKAY'']"
    unfolding D [OF disjI1 [OF refl]] A(2) a using assms(6) A(1) by (simp add: FastbootOkay_def FastbootAck_def MAX_RSP_SIZE_def)
  obtain A' where "Set_active E [CHR ''_'', c] S = do {
      is \<leftarrow> BootSlotInfo S; is \<leftarrow> Mark_first [CHR ''_'', c] is;
      Some (FastbootOkay [] (S\<lparr>AbSt := A', CurrentSlotFB := drop 1 (ascii_of (wide [CHR ''_'', c])), BootSlotInfo := Some is\<rparr>)) }"
    using Set_active_good [of S "[CHR ''_'', c]" E] assms(1,2) c(1) unfolding suf by blast
  moreover have "Mark_first [CHR ''_'', c] infos = None"
    using assms(7) has_sub_set by (intro Mark_first_none) fastforce
  ultimately show "Dispatch E (''set_active:'' @ [CHR ''_'', c]) S = None" unfolding D [OF disjI2 [OF refl]] using assms(6) by simp
qed

section \<open>Answers\<close>

abbreviation answers :: "'a fb_state_scheme \<Rightarrow> nat" where
  "answers S \<equiv> length (Replies S)"

lemma answers_ack [simp]:
  "answers (FastbootFail r S) = Suc (answers S)" "answers (FastbootOkay r S) = Suc (answers S)"
  "answers (Flash_answer E n S) = Suc (answers S)"
  by (simp_all add: FastbootFail_def FastbootOkay_def FastbootAck_def Flash_answer_def Let_def)

lemma Start_parallel_answers:
  assumes "Start_parallel E p S = (st, S')"
    and "\<forall>s \<in> {UsbEvent E, UsbTimer E}. EFI_ERROR s \<longleftrightarrow> s \<noteq> EFI_SUCCESS"
  shows "MaxDownLoadSize S' = MaxDownLoadSize S" "answers S' = answers S + (if p > MaxDownLoadSize S \<and> st = EFI_SUCCESS then 1 else 0)"
proof -
  obtain s S1 where U: "HandleUsbEventsInTimer E (S\<lparr>IsFlashComplete := False\<rparr>) = (s, S1)" by fastforce
  have S1: "Replies S1 = Replies S" "MaxDownLoadSize S1 = MaxDownLoadSize S" "EFI_ERROR s \<longleftrightarrow> s \<noteq> EFI_SUCCESS"
    using U assms(2) by (auto simp: HandleUsbEventsInTimer_def EFI_ERROR_def split: if_splits)
  show "MaxDownLoadSize S' = MaxDownLoadSize S" "answers S' = answers S + (if p > MaxDownLoadSize S \<and> st = EFI_SUCCESS then 1 else 0)"
    using assms(1) S1 unfolding Start_parallel_def U
    by (auto simp: StopUsbTimer_def FastbootOkay_def FastbootAck_def split: if_splits)
qed

lemma Sparse_write_answers:
  assumes "Sparse_write E Info S = Some S'" shows "answers S' = answers S" "MaxDownLoadSize S' = MaxDownLoadSize S"
proof -
  obtain r log where "S' = StopUsbTimer (S\<lparr>Log := log, FlashResult := r, IsFlashComplete := True\<rparr>)"
    using assms unfolding Sparse_write_def
    by (cases "HandleSparseImgFlash Info (IsNand E) (IsFlashSplitNeeded S) (FbBase E + word_of_nat (mFlashDataBuffer S))
        (flash_mem S) (mFlashNumDataBytes S) (Log S)") auto
  then show "answers S' = answers S" "MaxDownLoadSize S' = MaxDownLoadSize S" by (simp_all add: StopUsbTimer_def)
qed

text \<open>
  C40: Answers to a sparse image. However the writing ends, and whether the host is answered before it or after it, the flash command of a sparse
  image sends exactly one answer, but for a partition of exactly the size of the download buffer, where both comparisons
  fail: the image is written and the host never hears of it.
\<close>

theorem sparse_one_answer:
  assumes "Flash_sparse E n S = Some S'" "\<forall>s \<in> {UsbEvent E, UsbTimer E}. EFI_ERROR s \<longleftrightarrow> s \<noteq> EFI_SUCCESS"
    and "Slot_name n (AbSt S) = Some ((hs, n', s), A)" "PartitionGetInfo E n' (S\<lparr>AbSt := A\<rparr>) = Some (st, B, h)"
  shows "length (Replies S') = length (Replies S) +
    (if \<not> EFI_ERROR st \<and> blk_size B = MaxDownLoadSize S \<and> blk_size B \<noteq> 0 then 0 else 1)"
proof -
  define S1 where "S1 = S\<lparr>AbSt := A\<rparr>"
  have S1: "answers S1 = answers S" "MaxDownLoadSize S1 = MaxDownLoadSize S" by (simp_all add: S1_def)
  note F = assms(1) [unfolded Flash_sparse_def Let_def assms(3) bind.bind_lunit prod.case S1_def [symmetric]]
  note F = F [unfolded assms(4) [folded S1_def] bind.bind_lunit fst_conv snd_conv]
  show ?thesis
  proof (cases "EFI_ERROR st \<or> blk_size B = 0")
    case True
    then have "\<exists>m. S' = FastbootFail m S1" using F by (auto split: if_splits)
    then show ?thesis using True S1 by auto
  next
    case False
    obtain t S2 where Q: "Start_parallel E (blk_size B) S1 = (t, S2)" by fastforce
    note F = F [unfolded Q prod.case]
    obtain S3 where W: "Sparse_write E (st, B, h) S2 = Some S3" using F False by (cases "Sparse_write E (st, B, h) S2") auto
    note a = Start_parallel_answers [OF Q assms(2)] Sparse_write_answers [OF W] S1
    have "S' = (if blk_size B < MaxDownLoadSize S3 \<or> blk_size B > MaxDownLoadSize S3 \<and> t \<noteq> EFI_SUCCESS then Flash_answer E n' S3 else S3)"
      using F False unfolding W by simp
    then show ?thesis using False a by (auto simp: not_less split: if_splits)
  qed
qed

section \<open>Sessions on the sample board\<close>

lemma board_device: "good_device (board_dev j) (replicate 1024 9) []"
  using block_size_1024(2)
  by (simp add: good_device_def board_dev_def mem_dev_def writes_ok_def serves_def)

lemma board_target: "raw_target board (wide ''boot_b'') (board_dev 1) (board_app True)"
  using board_slot_name [of tried_attr backup_attr] board_lun [of tried_attr backup_attr]
  by (simp add: raw_target_def board_app_def board_def sample_env_def GetMaxLuns_def sample_ab_def)

theorem download_flash_exact_witness:
  "\<exists>S0 S1 S2 ws. Dispatch board (''download:'' @ ''05'') (board_app True) = Some S0 \<and>
    Receive_all (fb_env.truncate board) [[1, 2], [3, 4, 5]] (ProcessBulkXfrCompleteTx S0) = Some S1 \<and>
    Dispatch board (''flash:'' @ ''boot_b'') S1 = Some S2 \<and> Log S2 = as_ops 1 ws \<and>
    paint 512 ws (replicate 1024 9) = [1, 2, 3, 4, 5] @ replicate 1019 9"
proof -
  have bs: "block_size (FbPageSize board)" using block_size_1024(2) by (simp add: board_def)
  have inv: "fb_inv (board_app True)" "mState (board_app True) = ExpectCmdState" "(5 :: u64) \<le> MaxDownLoadSize (board_app True)"
    by (simp_all add: fb_inv_def board_app_def)
  have name: "plain_name ''boot_b''" by (simp add: plain_name_def MAX_GPT_NAME_SIZE_def)
  have lock: "Lock_check board ''Flashing'' (wide ''boot_b'') (board_app True) = None"
    by (simp add: Lock_check_def IsCritical_iff CriticalPartitions_def wide_def ord8_def board_app_def)
  have dev: "good_device (board_dev 1) (replicate 1024 9) (Log (board_app True))" using board_device by (simp add: board_app_def)
  have img: "raw_image (concat [[1, 2], [3, 4, 5]])"
    by (simp add: raw_image_def dec32_def SPARSE_HEADER_MAGIC_def META_HEADER_MAGIC_def ascii_def ord8_def)
  have "DevId (board_dev 1) = 1" "unat (MediaBlockSize (board_dev 1)) = 512" "Log (board_app True) = []"
    by (simp_all add: board_dev_def mem_dev_def board_app_def)
  note f = this
  have c: "concat [[1, 2], [3, 4, 5]] @ drop (unat (5 :: u64)) (replicate 1024 9) = ([1, 2, 3, 4, 5] @ replicate 1019 9 :: bytes)" by simp
  show ?thesis
    using download_flash_exact [OF inv(1,2) bs fb_sample_hex _ inv(3) _ _ name lock board_target dev img, unfolded f c]
    by (simp only: append_Nil) (auto simp: append_Nil)
qed

lemma board_good_table: "good_table (sample_ab tried_attr backup_attr)"
  using sample_ab_facts(1,2) [of tried_attr backup_attr] by (simp add: good_table_def two_slots_def current_slot_def sample_active)

theorem set_active_forms_witness:
  "(\<exists>S. Dispatch board ''set_active:b'' (board_app True) = Some S \<and> CurrentSlotFB S = ''b'') \<and>
   Dispatch board ''set_active:_b'' (board_app True) = None"
proof -
  have A: "AbSt (board_app True) = sample_ab tried_attr backup_attr" by (simp add: board_app_def)
  have "has_sub (SlotSuffixArray (board_app True)) ''_b''"
    unfolding has_sub_def sublist_def by (rule exI [of _ "''_a,''"], rule exI [of _ "'',''"]) (simp add: board_app_def)
  moreover have "\<forall>i \<in> set board_slots. CHR ''_'' \<notin> set (SlotSuffix i)" "\<exists>i \<in> set board_slots. CHR ''b'' \<in> set (SlotSuffix i)"
    by (simp_all add: board_slots_def slot_of_def MAX_SLOT_SUFFIX_SZ_def)
  moreover have "is_unlocked (DevInfo (DevSt (board_app True)))" "BootSlotInfo (board_app True) = Some board_slots"
    by (simp_all add: board_app_def)
  ultimately show ?thesis
    using set_active_forms [of "board_app True" board "CHR ''b''" board_slots] board_good_table board_multislot
    unfolding A by auto
qed

theorem sparse_one_answer_witness:
  "\<exists>S. Flash_sparse board (wide ''boot_b'') ((board_app True)\<lparr>MaxDownLoadSize := 1024\<rparr>) = Some S \<and> Replies S = [] \<and>
    FlashResult S = EFI_INVALID_PARAMETER"
proof -
  define S where "S = (board_app True)\<lparr>MaxDownLoadSize := 1024\<rparr>"
  define A where "A = sample_ab tried_attr backup_attr"
  have S: "AbSt S = A" "\<not> LunSet S" "mFlashNumDataBytes S = 8" "Log S = []" "Replies S = []" "MaxDownLoadSize S = 1024"
    "mFlashDataBuffer S = 8" and A: "S\<lparr>AbSt := A\<rparr> = S"
    by (simp_all add: S_def A_def board_app_def)
  have N: "Slot_name (wide ''boot_b'') A = Some ((True, wide ''boot_b'', wide ''_b''), A)" unfolding A_def by (rule board_slot_name)
  have I: "PartitionGetInfo board (wide ''boot_b'') S = Some (EFI_SUCCESS, Some (board_dev 1), True)"
    using S(1,2) unfolding A_def by (rule board_info)
  have "unat (blk_size (Some (board_dev 1))) = 1024" using good_device_size [OF board_device] by simp
  then have P: "blk_size (Some (board_dev 1)) = 1024" by (simp add: word_unat_eq_iff)
  have W: "HandleSparseImgFlash (EFI_SUCCESS, Some (board_dev 1), True) x y (FbBase board + word_of_nat 8) z 8 [] =
      Some (EFI_INVALID_PARAMETER, [])" for x y z
    using P by (simp add: HandleSparseImgFlash_def no_wrap_iff blk_size_def board_def)
  define S' where "S' = StopUsbTimer (S\<lparr>Log := [], FlashResult := EFI_INVALID_PARAMETER, IsFlashComplete := True\<rparr>)"
  have S': "FlashResult S' = EFI_INVALID_PARAMETER" "MaxDownLoadSize S' = 1024" using S(6) by (simp_all add: S'_def StopUsbTimer_def)
  have "Sparse_write board (EFI_SUCCESS, Some (board_dev 1), True) S = Some S'"
    unfolding Sparse_write_def S W S'_def by simp
  then have F: "Flash_sparse board (wide ''boot_b'') S = Some S'"
    using S'(2) by (simp add: Flash_sparse_def S N A I P Start_parallel_def EFI_ERROR_def Let_def del: One_nat_def)
  have "length (Replies S') = 0"
    using sparse_one_answer [OF F, of True "wide ''boot_b''" "wide ''_b''" A] N I P S A by (simp add: board_def EFI_ERROR_def del: One_nat_def)
  then show ?thesis using F S'(1) unfolding S_def by auto
qed

end
