(* ===== verification/Spec2Isabelle.thy ===== *)
theory Spec2Isabelle
  imports Memory_Map Auth_Service Ab_Slots Gpt_Image Mem_Type_Info Fastboot_Session
begin

text \<open>
  A verification of the firmware's own logic in the Andromeda UEFI platforms
  (\<^verbatim>\<open>src/Platforms\<close>). The firmware boots Windows on Qualcomm phones. The development models the parts
  of it that take decisions on untrusted or configurable input, in the order the firmware runs them.

  \<^bold>\<open>Parts and theories.\<close>

  \<^item> \<^verbatim>\<open>Andromeda_Prelude\<close>: machine integers, status codes, C strings, slices and the rules that invert
    option-valued definitions. \<^verbatim>\<open>Byte_Buffer\<close>: little-endian reads and writes of byte buffers.

  \<^item> \<^verbatim>\<open>Boot_Config\<close> (\<^verbatim>\<open>AndromedaBootConfigLib.c\<close>, \<^verbatim>\<open>AndromedaUefiConfigHelperLib.c\<close>): the reader of the
    INI-like boot configuration. The scanning loops, the typed getters (Boolean, UINT32, UINT64, string)
    and the image buffer are modelled index by index. The lemmas show that the look-up refines the
    list-level specification \<open>cfg_value_spec\<close>, and that numbers are parsed exactly or refused.

  \<^item> \<^verbatim>\<open>Memory_Map_Config\<close> (\<^verbatim>\<open>QcomUefiPlatMemoryMapLib.c\<close>): the memory-map records of
    the configuration, their parser and the overlay of one descriptor on the table. The overlay is
    exact: an address has the new descriptor inside the overlay and its old one outside.

  \<^item> \<^verbatim>\<open>Memory_Map\<close> (\<^verbatim>\<open>AndromedaMemoryMapLib.c\<close>, \<^verbatim>\<open>PlatformDdrBankMapLib.c\<close>, \<^verbatim>\<open>MemoryInitPeiLib.c\<close>): the merge of the RAM banks
    with the configured table and the HOBs and MMU entries built from it. The merge is a partition:
    RAM outside the table becomes exactly the free-RAM descriptors. The table need be sorted only inside each bank. Of the HOBs and the
    MMU table it is shown which descriptors they come from and which addresses are mapped.

  \<^item> \<^verbatim>\<open>Sig_List\<close>, \<^verbatim>\<open>Cert_Db\<close>, \<^verbatim>\<open>Auth_Verify\<close>, \<^verbatim>\<open>Auth_Service\<close> (\<^verbatim>\<open>AuthVariableLib/AuthService.c\<close>,
    \<^verbatim>\<open>AuthVariableLib.c\<close>): signature lists, the packed certificate databases, verification of time-based
    payloads, and the service that decides about every write of a UEFI variable. The locale
    \<open>cert_store\<close> is the interface between the service and the databases; it is interpreted on the
    model's byte-level operations as \<open>certdb\<close>, which gives the refinement of the packed bytes to a map.
    \<open>Auth_Service\<close> shows that, while signatures are enforced (user mode, variable policy enabled, no user present, a
    well-formed KEK), a key variable changes only by an update with a trusted signature, which is also newer than the stored one
    unless it is appended (the code accepts an append with an older time stamp); that the platform mode and \<open>SecureBoot\<close> follow the writes of PK;
    and that the boot configuration can disable secure boot in one way only.

  \<^item> \<^verbatim>\<open>Ab_Slots\<close> (\<^verbatim>\<open>QcomModulePkg/Library/BootLib/PartitionTableUpdate.c\<close>, slot part): the table of
    partitions and the A/B slots of the Android loader. \<open>ab_state\<close> holds the static variables and what
    the device remembers; \<open>slot_view\<close> reads the A/B fields of an attribute word, and the lemmas state each operation
    on it; \<open>type_guid\<close> follows the type GUIDs of the boot partitions, which a change of the slot exchanges. The locale \<open>slot_store\<close> is what a user of the slots relies on, interpreted on \<open>SetActiveSlot\<close> as
    \<open>slot_table\<close>. The step relation \<open>ab_step\<close> has all slot operations and the reset; by rule induction no
    operation reaches the device, which is how the code behaves while its write-back is disabled.

  \<^item> \<^verbatim>\<open>Gpt_Image\<close> (the same file, \<open>UpdatePartitionTable\<close>): a partition table image is checked, patched and
    written. \<open>header_valid\<close> says what a valid header is without the parser, and the parser accepts exactly such headers. The lemmas carry an image through
    the patches with \<open>agree_off\<close>, the positions that may differ, and show that every access is inside the image, that a bad image is refused
    before the device is erased, and that the patched fields, the end of the last partition among them, are the only ones and are right.

  \<^item> \<^verbatim>\<open>Mem_Type_Info\<close> (\<^verbatim>\<open>MemoryTypeInfoSecVarCheckLib.c\<close>): the handler that checks a write of the memory-type
    variable lets it through exactly when it satisfies the list-level specification.

  \<^item> \<^verbatim>\<open>Block_Write\<close> (\<^verbatim>\<open>BootLib/LinuxLoaderLib.c\<close>): writing a buffer to a partition. The requests made of
    a device are a log, and \<open>paint\<close> says what they do to its content; the write is exact below 4 GB.

  \<^item> \<^verbatim>\<open>Sparse_Image\<close> (\<^verbatim>\<open>FastbootLib/FastbootCmds.c\<close>, sparse images): the chunk handlers stay inside the download
    buffer and the partition for every input, and flashing the encoding of chunks gives their expansion.

  \<^item> \<^verbatim>\<open>Block_Handles\<close> (\<^verbatim>\<open>BootLib/LinuxLoaderLib.c\<close>, \<^verbatim>\<open>BootLib/Board.c\<close>): the search for block devices. It
    returns the first handles that satisfy the criteria; the lemmas specialise it to partitions of a type, with a label,
    and to the root device.

  \<^item> \<^verbatim>\<open>Misc_Partition\<close> (\<^verbatim>\<open>BootLib/Recovery.c\<close>): the messages in the misc partition, as exact effects on its bytes. The
    predicate \<open>misc_on\<close> collects what a working misc partition is; \<open>misc_board\<close> is a concrete one.

  \<^item> \<^verbatim>\<open>Device_Info\<close> (\<^verbatim>\<open>BootLib/DeviceInfo.c\<close>): the device state with the lock flags. A run
    (\<open>dev_runs\<close>) is a sequence of its operations and of resets, with an access outside an array as \<open>None\<close>: every run has an outcome, the sizes are
    invariant, and \<open>index_spec\<close> gives the rollback index that is read after it.

  \<^item> \<^verbatim>\<open>Fastboot_Data\<close> (\<^verbatim>\<open>FastbootLib/FastbootCmds.c\<close>, \<^verbatim>\<open>FastbootMain.c\<close>): the data phase of the protocol. The step relation
    \<open>fb_step\<close> has downloads, packets, flashes and timer ticks in any order, and \<open>fb_inv_left\<close> is its
    invariant: a request given to the USB driver stays inside its half of the buffer.

  \<^item> \<^verbatim>\<open>Fastboot_Flash\<close>, \<^verbatim>\<open>Fastboot_Vars\<close>, \<^verbatim>\<open>Fastboot_Cmds\<close> (\<^verbatim>\<open>FastbootLib/FastbootCmds.c\<close>, battery status from
    \<^verbatim>\<open>BootLib/UpdateCmdLine.c\<close>): flashing and erasing partitions, the variables of \<open>getvar\<close>, and the commands with their
    dispatch. The record \<open>fb_state\<close> extends the state of the data phase by the device state, the partition table, the log of
    requests and the static variables. \<open>flashed\<close>, \<open>same_store\<close>, \<open>kept\<close> and \<open>spared\<close> are the frames that the lemmas carry from the
    routines to the commands; by induction over \<open>fb_cmd_step\<close>, which has commands, delayed commands and data in
    any order, a locked device keeps everything and the critical lock protects the critical partitions. Both need a build that checks
    the locks at all (\<open>guarded\<close>), which the builds of the devices are not; \<open>unguarded_locked_erase\<close> shows what happens there.

  \<^item> \<^verbatim>\<open>Fastboot_Session\<close>: properties that span the components: a download and the flash command after it leave exactly the bytes of the host
    in the partition, the two forms of \<open>set_active\<close>, and how often a flash command is answered. \<open>board\<close> and \<open>board_app\<close>
    are the concrete board of its witnesses.

  \<^bold>\<open>Conventions.\<close> C integers are words of their width, buffers are lists, pointers into a buffer are
  offsets. An operation returns its status with the new state. The value \<open>None\<close> of an operation means
  that the C code has no defined outcome, a read beyond a buffer or a loop that does not end; the
  properties that say an operation returns do so with \<open>Some\<close>. Loops are structural, have a
  termination proof, or are \<open>partial_function (option)\<close> where the C loop steps by sizes it reads from
  the buffer and so may not end; no fuel is used. \<open>CleanCertsFromDb\<close> is the one loop that can really run
  forever on data the firmware accepts, and it has a theorem for each of the two cases.

  \<^bold>\<open>Code outside the repository.\<close> The variable driver behind \<open>AUTH_VAR_LIB_CONTEXT_IN\<close>, the
  cryptographic library and the boot services are parameters, as are the block devices and card
  protocols of the loader. \<open>good_driver\<close> and \<open>driver_law\<close> state the
  documented contract of the driver: a look-up returns what the last update stored. Nothing is
  assumed of the cryptographic functions; the properties are stated in terms of what
  they accept. Each such property has a witness with concrete functions.

  \<^bold>\<open>Not modelled.\<close> Vendored libraries (OpenSSL, mbed TLS, zlib, libfdt, libavb), the rest of the Android
  loader (boot image, device tree, command line, verified boot), drivers that are
  mostly hardware access, user interface code and constant tables. The manifest lists every component.
  Of Fastboot the commands for dynamic partitions and virtual A/B, which the build leaves out, the threads of a kernel that
  has them and the loading of an image are not modelled.
  Of \<open>UpdatePartitionAttributes\<close> only the part before its first return is modelled, because the guard
  there is constantly false.
\<close>

end
